(* ===== verification/Prelude.thy ===== *)
theory Prelude
  imports Complex_Main "HOL-Library.AList" "HOL-Library.Word" "HOL-Library.Multiset"
begin

unbundle bit_operations_syntax

text \<open>
  Shared vocabulary of the development: the Python exceptions as values, the error-passing
  combinators that every operation is written with, the integer helpers the scripts use
  (\<^verbatim>\<open>bit_length\<close>, ceiling division, number formatting), Python's dictionaries as
  association lists, and the generic lemmas on lists and integers the components share.
\<close>

section \<open>Exceptions as values\<close>

text \<open>
  The exceptions the modelled scripts can raise. \<open>RecursionError\<close> is also what a fuelled
  recursion returns when its fuel is used up, \<open>CalledProcessError\<close> is what
  \<^verbatim>\<open>subprocess.run(check=True)\<close> raises, \<open>SystemExit\<close> carries \<^verbatim>\<open>sys.exit\<close>'s
  message.
\<close>

datatype py_error =
    AssertionError
  | ValueError
  | KeyError
  | IndexError
  | ZeroDivisionError
  | RecursionError
  | TypeError
  | CalledProcessError
  | FileNotFoundError
  | UnboundLocalError
  | AttributeError
  | StopIteration
  | SystemExit string

type_synonym 'a result = "py_error + 'a"

named_theorems result_simps "rewriting of error-passing code"

fun bindE :: "'a result \<Rightarrow> ('a \<Rightarrow> 'b result) \<Rightarrow> 'b result" where
  "bindE (Inl e) f = Inl e"
| "bindE (Inr x) f = f x"

definition assertE :: "bool \<Rightarrow> unit result" where
  "assertE b = (if b then Inr () else Inl AssertionError)"

fun mapE :: "('a \<Rightarrow> 'b result) \<Rightarrow> 'a list \<Rightarrow> 'b list result" where
  "mapE f [] = Inr []"
| "mapE f (x # xs) = bindE (f x) (\<lambda>y. bindE (mapE f xs) (\<lambda>ys. Inr (y # ys)))"

fun foldE :: "('a \<Rightarrow> 's \<Rightarrow> 's result) \<Rightarrow> 'a list \<Rightarrow> 's \<Rightarrow> 's result" where
  "foldE f [] s = Inr s"
| "foldE f (x # xs) s = bindE (f x s) (foldE f xs)"

lemma bindE_cong [fundef_cong]:
  "m = m' \<Longrightarrow> (\<And>x. m' = Inr x \<Longrightarrow> f x = g x) \<Longrightarrow> bindE m f = bindE m' g"
  by (cases m') auto

lemma bindE_Inr_iff [result_simps]: "bindE m f = Inr y \<longleftrightarrow> (\<exists>x. m = Inr x \<and> f x = Inr y)"
  by (cases m) auto

lemma bindE_Inl_iff [result_simps]:
  "bindE m f = Inl e \<longleftrightarrow> m = Inl e \<or> (\<exists>x. m = Inr x \<and> f x = Inl e)"
  by (cases m) auto

lemma bindE_assoc: "bindE (bindE m f) g = bindE m (\<lambda>x. bindE (f x) g)"
  by (cases m) auto

lemma assertE_Inr [result_simps]: "assertE b = Inr u \<longleftrightarrow> b"
  by (simp add: assertE_def)

lemma assertE_Inl [result_simps]: "assertE b = Inl e \<longleftrightarrow> \<not> b \<and> e = AssertionError"
  by (auto simp: assertE_def)

lemma assertE_True [simp]: "assertE True = Inr ()"
  by (simp add: assertE_def)

lemma mapE_Inr_length: "mapE f xs = Inr ys \<Longrightarrow> length ys = length xs"
  by (induction xs arbitrary: ys) (auto simp: result_simps)

lemma mapE_Inr_nth: "mapE f xs = Inr ys \<Longrightarrow> i < length xs \<Longrightarrow> f (xs ! i) = Inr (ys ! i)"
proof (induction xs arbitrary: ys i)
  case Nil
  then show ?case by simp
next
  case (Cons x xs)
  then obtain y ys' where "f x = Inr y" "mapE f xs = Inr ys'" "ys = y # ys'"
    by (auto simp: result_simps)
  with Cons show ?case by (cases i) auto
qed

lemma mapE_total: "(\<And>x. x \<in> set xs \<Longrightarrow> f x = Inr (g x)) \<Longrightarrow> mapE f xs = Inr (map g xs)"
  by (induction xs) auto

lemma mapE_exists: "(\<And>x. x \<in> set xs \<Longrightarrow> \<exists>y. f x = Inr y) \<Longrightarrow> \<exists>ys. mapE f xs = Inr ys"
  by (induction xs) (fastforce simp: result_simps)+

lemma foldE_invariant:
  assumes "foldE f xs s = Inr t" and "P s"
    and "\<And>x s s'. x \<in> set xs \<Longrightarrow> P s \<Longrightarrow> f x s = Inr s' \<Longrightarrow> P s'"
  shows "P t"
  using assms by (induction xs arbitrary: s) (auto simp: result_simps)

lemma foldE_total:
  assumes "P s" and "\<And>x s. x \<in> set xs \<Longrightarrow> P s \<Longrightarrow> \<exists>s'. f x s = Inr s' \<and> P s'"
  shows "\<exists>t. foldE f xs s = Inr t \<and> P t"
  using assms
proof (induction xs arbitrary: s)
  case Nil
  then show ?case by simp
next
  case (Cons x xs)
  then obtain s' where s': "f x s = Inr s'" "P s'" by fastforce
  with Cons.IH [of s'] Cons.prems(2) show ?case by auto
qed

lemma foldE_append: "foldE f (xs @ ys) s = bindE (foldE f xs s) (foldE f ys)"
proof (induction xs arbitrary: s)
  case Nil
  then show ?case by simp
next
  case (Cons x xs)
  then show ?case by (cases "f x s") auto
qed

section \<open>Integers\<close>

text \<open>Python's \<^verbatim>\<open>%\<close> and \<^verbatim>\<open>//\<close> on non-negative operands.\<close>

definition py_mod :: "nat \<Rightarrow> nat \<Rightarrow> nat result" where
  "py_mod a b = (if b = 0 then Inl ZeroDivisionError else Inr (a mod b))"

definition py_div :: "nat \<Rightarrow> nat \<Rightarrow> nat result" where
  "py_div a b = (if b = 0 then Inl ZeroDivisionError else Inr (a div b))"

lemma py_mod_Inr [result_simps]: "py_mod a b = Inr r \<longleftrightarrow> b \<noteq> 0 \<and> r = a mod b"
  by (auto simp: py_mod_def)

lemma py_div_Inr [result_simps]: "py_div a b = Inr r \<longleftrightarrow> b \<noteq> 0 \<and> r = a div b"
  by (auto simp: py_div_def)

function bit_len :: "int \<Rightarrow> nat" where
  "bit_len n = (if n \<le> 0 then 0 else Suc (bit_len (n div 2)))"
  by pat_completeness auto
termination
  by (relation "measure nat") auto

declare bit_len.simps [simp del]

text \<open>Python's \<^verbatim>\<open>int.bit_length\<close>: the bits of the absolute value.\<close>

definition bit_length :: "int \<Rightarrow> int" where
  "bit_length n = int (bit_len \<bar>n\<bar>)"

lemma bit_len_0 [simp]: "n \<le> 0 \<Longrightarrow> bit_len n = 0"
  by (simp add: bit_len.simps)

lemma bit_len_pos: "0 < n \<Longrightarrow> bit_len n = Suc (bit_len (n div 2))"
  by (simp add: bit_len.simps)

lemma bit_len_bounds: "0 < n \<Longrightarrow> 2 ^ (bit_len n - 1) \<le> n \<and> n < 2 ^ bit_len n"
proof (induction n rule: bit_len.induct)
  case (1 n)
  show ?case
  proof (cases "n div 2 \<le> 0")
    case True
    with "1.prems" have "n = 1" by simp
    then show ?thesis by (simp add: bit_len_pos)
  next
    case False
    then have IH: "2 ^ (bit_len (n div 2) - 1) \<le> n div 2" "n div 2 < 2 ^ bit_len (n div 2)"
      using "1.IH" "1.prems" by auto
    have "0 < bit_len (n div 2)" using False by (simp add: bit_len_pos)
    then obtain k where k: "bit_len (n div 2) = Suc k" by (cases "bit_len (n div 2)") auto
    have n: "bit_len n = Suc (Suc k)" using "1.prems" k by (simp add: bit_len_pos)
    have "2 * 2 ^ k \<le> n" using IH(1) k by simp
    moreover have "n < 2 * 2 ^ Suc k" using IH(2) k by simp
    ultimately show ?thesis by (simp add: n)
  qed
qed

lemma bit_length_bounds:
  assumes "0 < n"
  shows "2 ^ nat (bit_length n - 1) \<le> n" and "n < 2 ^ nat (bit_length n)" and "0 < bit_length n"
  using bit_len_bounds [OF assms] assms
  by (auto simp: bit_length_def bit_len_pos nat_diff_distrib nat_add_distrib)

text \<open>The logarithm the launches pass (\<^verbatim>\<open>n.bit_length() - 1\<close>) is exact on powers of two.\<close>

lemma bit_len_power2: "bit_len (2 ^ k) = Suc k"
  by (induction k) (simp_all add: bit_len_pos)

lemma bit_length_power2 [simp]: "bit_length (2 ^ k) = int k + 1"
  by (simp add: bit_length_def bit_len_power2)

text \<open>Python's \<^verbatim>\<open>-(-a // b)\<close>.\<close>

definition ceil_div :: "nat \<Rightarrow> nat \<Rightarrow> nat" where
  "ceil_div a b = nat (- ((- int a) div int b))"

text \<open>Python's \<^verbatim>\<open>round\<close> of a fraction: to the nearest integer, ties to even.\<close>

definition py_round :: "rat \<Rightarrow> int" where
  "py_round v =
     (let f = \<lfloor>v\<rfloor>; r = v - of_int f
      in if r < 1 / 2 then f else if r > 1 / 2 then f + 1 else if even f then f else f + 1)"

section \<open>Largest and smallest elements\<close>

lemma fold_max:
  fixes y :: "'a::linorder"
  shows "y \<le> fold max ys y" "x \<in> set ys \<Longrightarrow> x \<le> fold max ys y" "fold max ys y \<in> insert y (set ys)"
proof (induction ys arbitrary: y x)
  case (Cons z ys)
  { case 1 show ?case using Cons(1) [of "max z y"] by simp }
  { case 2 then show ?case using Cons(1) [of "max z y"] Cons(2) [of x "max z y"] by auto }
  { case 3 show ?case using Cons(3) [of "max z y"] by (auto simp: max_def split: if_splits) }
qed simp_all

lemma fold_min:
  fixes y :: "'a::linorder"
  shows "fold min ys y \<le> y" "x \<in> set ys \<Longrightarrow> fold min ys y \<le> x" "fold min ys y \<in> insert y (set ys)"
proof (induction ys arbitrary: y x)
  case (Cons z ys)
  { case 1 show ?case using Cons(1) [of "min z y"] by simp }
  { case 2 then show ?case using Cons(1) [of "min z y"] Cons(2) [of x "min z y"] by auto }
  { case 3 show ?case using Cons(3) [of "min z y"] by (auto simp: min_def split: if_splits) }
qed simp_all

end
