(* ===== verification/Fp32.thy ===== *)
theory Fp32
  imports Prelude
begin

unbundle bit_operations_syntax

text \<open>
  The FP32 arithmetic of \<^verbatim>\<open>sim/gen_apps.py\<close>: bit patterns are Python integers
  (\<^typ>\<open>int\<close>), the exact values are fractions (\<^typ>\<open>rat\<close>). \<open>f2fr\<close> reads a bit pattern,
  \<open>fr2f\<close> rounds a fraction to the nearest FP32 pattern with ties to even, and
  \<open>fadd\<close>, \<open>fmul\<close> and \<open>fma\<close> round once per operation.
\<close>

section \<open>The operations\<close>

definition f2fr :: "int \<Rightarrow> rat result" where
  "f2fr bits =
     (let s = drop_bit 31 bits; e = drop_bit 23 bits AND 0xFF; m = bits AND 0x7FFFFF
      in bindE (assertE (e \<noteq> 0xFF)) (\<lambda>_.
         let v = (if e = 0 then Fract m (push_bit 149 1)
                  else Fract (push_bit 23 1 OR m) (push_bit 23 1) * (2 powi (e - 127)))
         in Inr (if s \<noteq> 0 then - v else v)))"

text \<open>
  The rounding steps of \<open>fr2f\<close>, each in the source's order: the exponent of the leading bit
  clamped to the subnormal range, the quotient and remainder by the unit in the last place,
  the round to nearest even, the carry into the next binade.
\<close>

definition lead_exp :: "int \<Rightarrow> int \<Rightarrow> int" where
  "lead_exp n d =
     (let e = bit_length n - bit_length d
      in if push_bit (nat (max 0 (- e))) n < push_bit (nat (max 0 e)) d then e - 1 else e)"

definition round_even :: "int \<Rightarrow> int \<Rightarrow> int" where
  "round_even num den =
     (let mi = num div den; rem = num mod den
      in if 2 * rem > den \<or> (2 * rem = den \<and> mi AND 1 \<noteq> 0) then mi + 1 else mi)"

definition encode_mag :: "int \<Rightarrow> int \<Rightarrow> int \<Rightarrow> int result" where
  "encode_mag s mi0 e0 =
     (let (mi, e) = (if mi0 = push_bit 24 1 then (push_bit 23 1, e0 + 1) else (mi0, e0))
      in if mi \<ge> push_bit 23 1
         then (let ef = e + 127
               in bindE (assertE (ef < 255)) (\<lambda>_.
                    Inr (push_bit 31 s OR push_bit 23 ef OR (mi - push_bit 23 1))))
         else Inr (push_bit 31 s OR mi))"

definition fr2f :: "rat \<Rightarrow> int result" where
  "fr2f x =
     (if x = 0 then Inr 0
      else let s = (if x < 0 then 1 else 0);
               (n, d) = quotient_of \<bar>x\<bar>;
               e = max (lead_exp n d) (- 126);
               q = e - 23;
               (num, den) = (if q \<ge> 0 then (n, push_bit (nat q) d) else (push_bit (nat (- q)) n, d))
           in encode_mag s (round_even num den) e)"

definition fadd :: "int \<Rightarrow> int \<Rightarrow> int result" where
  "fadd a b = bindE (f2fr a) (\<lambda>x. bindE (f2fr b) (\<lambda>y. fr2f (x + y)))"

definition fmul :: "int \<Rightarrow> int \<Rightarrow> int result" where
  "fmul a b = bindE (f2fr a) (\<lambda>x. bindE (f2fr b) (\<lambda>y. fr2f (x * y)))"

definition fma :: "int \<Rightarrow> int \<Rightarrow> int \<Rightarrow> int result" where
  "fma a b c =
     bindE (f2fr a) (\<lambda>x. bindE (f2fr b) (\<lambda>y. bindE (f2fr c) (\<lambda>z. fr2f (x * y + z))))"

section \<open>Fields of a bit pattern\<close>

text \<open>
  The value of a pattern in one formula for normal and subnormal numbers: an integer
  significand times a power of two.
\<close>

definition fp_field :: "int \<Rightarrow> int" where
  "fp_field b = b div 2 ^ 23 mod 2 ^ 8"

definition fp_exp :: "int \<Rightarrow> int" where
  "fp_exp b = max 1 (fp_field b) - 150"

definition fp_sig :: "int \<Rightarrow> int" where
  "fp_sig b = b mod 2 ^ 23 + (if fp_field b = 0 then 0 else 2 ^ 23)"

lemma and_255: "(k::int) AND 255 = k mod 2 ^ 8"
  using take_bit_eq_mask [of 8 k] by (simp add: take_bit_eq_mod mask_eq_exp_minus_1)

lemma and_8388607: "(k::int) AND 8388607 = k mod 2 ^ 23"
  using take_bit_eq_mask [of 23 k] by (simp add: take_bit_eq_mod mask_eq_exp_minus_1)

lemma or_disjoint_add:
  fixes a b :: int
  assumes "0 \<le> b" "b < 2 ^ n"
  shows "push_bit n a OR b = a * 2 ^ n + b"
proof -
  have "take_bit n b = b" using assms by (simp add: take_bit_int_eq_self)
  then have "push_bit n a OR b = concat_bit n b a"
    by (simp add: concat_bit_def or.commute)
  then show ?thesis
    using \<open>take_bit n b = b\<close> by (simp add: concat_bit_eq push_bit_eq_mult)
qed

lemma f2fr_iff:
  "f2fr b = Inr v \<longleftrightarrow>
     fp_field b \<noteq> 255 \<and>
     v = (if drop_bit 31 b = 0 then 1 else - 1) * of_int (fp_sig b) * 2 powi fp_exp b"
proof -
  let ?e = "b div 2 ^ 23 mod 2 ^ 8" and ?m = "b mod 2 ^ 23"
  have e: "drop_bit 23 b AND 255 = ?e" by (simp add: and_255 drop_bit_eq_div)
  have m: "b AND 8388607 = ?m" by (simp add: and_8388607)
  have or: "push_bit 23 1 OR ?m = 2 ^ 23 + ?m"
    using or_disjoint_add [of ?m 23 1] by simp
  have e0: "0 \<le> ?e" by simp
  have sub: "(Fract ?m (push_bit 149 1) :: rat) = of_int ?m * 2 powi (- 149)"
    by (simp add: push_bit_eq_mult Fract_of_int_quotient power_int_minus divide_simps)
  have nor: "(Fract (2 ^ 23 + ?m) (push_bit 23 1) :: rat) * 2 powi (?e - 127)
     = of_int (2 ^ 23 + ?m) * 2 powi (?e - 150)"
  proof -
    have "(2::rat) powi (?e - 127) = 2 powi (?e - 150) * 2 powi 23"
      using power_int_add [of "2::rat" "?e - 150" 23] by simp
    then show ?thesis
      by (simp add: push_bit_eq_mult Fract_of_int_quotient divide_simps)
  qed
  have V: "(if ?e = 0 then Fract ?m (push_bit 149 1)
      else Fract (push_bit 23 1 OR ?m) (push_bit 23 1) * 2 powi (?e - 127))
    = (of_int (fp_sig b) * 2 powi fp_exp b :: rat)"
  proof (cases "?e = 0")
    case True
    then show ?thesis unfolding fp_sig_def fp_exp_def fp_field_def sub by simp
  next
    case False
    with e0 have "max 1 ?e = ?e" by linarith
    with False show ?thesis
      unfolding fp_sig_def fp_exp_def fp_field_def or nor by (simp add: add.commute)
  qed
  show ?thesis
    unfolding f2fr_def Let_def e m V by (auto simp: fp_field_def result_simps)
qed

lemma f2fr_Inl: "f2fr b = Inl e \<longleftrightarrow> fp_field b = 255 \<and> e = AssertionError"
  by (auto simp: f2fr_def Let_def fp_field_def result_simps and_255 drop_bit_eq_div)

lemma f2fr_defined_iff: "(\<exists>v. f2fr b = Inr v) \<longleftrightarrow> fp_field b \<noteq> 255"
  by (auto simp: f2fr_iff)

section \<open>The rounding steps\<close>

lemma half_gap:
  fixes a b c d :: int
  assumes "\<bar>2 * (a - b)\<bar> \<le> d" and "d \<le> \<bar>c - a\<bar>"
  shows "\<bar>a - b\<bar> \<le> \<bar>c - b\<bar>" and "\<bar>c - b\<bar> = \<bar>a - b\<bar> \<Longrightarrow> \<bar>2 * (a - b)\<bar> = d"
  using assms by arith+

lemma round_even_half:
  assumes "0 < den"
  shows "\<bar>2 * (round_even num den * den - num)\<bar> \<le> den"
    and "\<bar>2 * (round_even num den * den - num)\<bar> = den \<Longrightarrow> even (round_even num den)"
proof -
  let ?q = "num div den" and ?r = "num mod den"
  have r: "0 \<le> ?r" "?r < den" using assms by simp_all
  have odd: "?q AND 1 \<noteq> 0 \<longleftrightarrow> odd ?q" by (simp add: and_one_eq odd_iff_mod_2_eq_one)
  have n: "num = ?q * den + ?r" by (rule div_mult_mod_eq [symmetric])
  have up: "(?q + 1) * den - num = den - ?r" and dn: "?q * den - num = - ?r"
    using n by (auto simp only: ring_distribs)
  define up_case where "up_case \<longleftrightarrow> 2 * ?r > den \<or> (2 * ?r = den \<and> odd ?q)"
  have m: "round_even num den * den - num = (if up_case then den - ?r else - ?r)"
    using up dn by (cases up_case) (auto simp: round_even_def Let_def odd up_case_def)
  show "\<bar>2 * (round_even num den * den - num)\<bar> \<le> den"
    unfolding m using r by (auto simp: up_case_def)
  show "\<bar>2 * (round_even num den * den - num)\<bar> = den \<Longrightarrow> even (round_even num den)"
  proof -
    assume "\<bar>2 * (round_even num den * den - num)\<bar> = den"
    then have "\<bar>2 * (den - ?r)\<bar> = den \<or> \<bar>2 * - ?r\<bar> = den" unfolding m by (cases up_case) simp_all
    moreover have "\<bar>2 * (d - r)\<bar> = d \<or> \<bar>2 * - r\<bar> = d \<Longrightarrow> 0 \<le> r \<Longrightarrow> r < d \<Longrightarrow> 2 * r = d"
      for r d :: int by arith
    ultimately have "2 * ?r = den" using r by blast
    then show ?thesis by (auto simp: round_even_def Let_def odd)
  qed
qed

lemma round_even_nearest:
  fixes num den k :: int
  assumes "0 < den"
  defines "t \<equiv> (of_int num / of_int den :: rat)" and "m \<equiv> round_even num den"
  shows "\<bar>of_int m - t\<bar> \<le> \<bar>of_int k - t\<bar>"
    and "k \<noteq> m \<Longrightarrow> \<bar>of_int k - t\<bar> = \<bar>of_int m - t\<bar> \<Longrightarrow> even m"
proof -
  have half: "\<bar>2 * (m * den - num)\<bar> \<le> den" "\<bar>2 * (m * den - num)\<bar> = den \<Longrightarrow> even m"
    using round_even_half [OF assms(1), of num] by (simp_all add: m_def)
  have scale: "\<bar>of_int j - t\<bar> * of_int den = of_int \<bar>j * den - num\<bar>" for j
  proof -
    have "(of_int j - t) * of_int den = of_int (j * den - num)"
      using assms(1) by (simp add: t_def algebra_simps)
    then have "\<bar>(of_int j - t) * of_int den\<bar> = of_int \<bar>j * den - num\<bar>"
      by (metis of_int_abs)
    then show ?thesis using assms(1) by (simp add: abs_mult)
  qed
  have far: "\<bar>m * den - num\<bar> \<le> \<bar>k * den - num\<bar>"
    "k \<noteq> m \<Longrightarrow> \<bar>k * den - num\<bar> = \<bar>m * den - num\<bar> \<Longrightarrow> \<bar>2 * (m * den - num)\<bar> = den" for k
  proof -
    have *: "den \<le> \<bar>k * den - m * den\<bar>" if "k \<noteq> m"
    proof -
      have "1 \<le> \<bar>k - m\<bar>" using that by linarith
      then have "1 * den \<le> \<bar>k - m\<bar> * den" using assms(1) by (intro mult_right_mono) auto
      then show ?thesis using assms(1) by (simp add: abs_mult left_diff_distrib [symmetric])
    qed
    show "\<bar>m * den - num\<bar> \<le> \<bar>k * den - num\<bar>"
    proof (cases "k = m")
      case False
      with * have "den \<le> \<bar>k * den - m * den\<bar>" by blast
      with half(1) show ?thesis by (rule half_gap(1))
    qed simp
    show "\<bar>2 * (m * den - num)\<bar> = den"
      if "k \<noteq> m" "\<bar>k * den - num\<bar> = \<bar>m * den - num\<bar>"
      by (rule half_gap(2) [OF half(1) * [OF that(1)] that(2)])
  qed
  have d: "(0::rat) < of_int den" using assms(1) by simp
  have "\<bar>of_int m - t\<bar> * of_int den \<le> \<bar>of_int k - t\<bar> * of_int den"
    unfolding scale using far(1) by (simp only: of_int_le_iff)
  then show "\<bar>of_int m - t\<bar> \<le> \<bar>of_int k - t\<bar>" using d by (simp add: mult_le_cancel_right)
  show "even m" if "k \<noteq> m" "\<bar>of_int k - t\<bar> = \<bar>of_int m - t\<bar>"
  proof -
    have "(of_int \<bar>k * den - num\<bar> :: rat) = of_int \<bar>m * den - num\<bar>"
      using that(2) scale [of k] scale [of m] by simp
    then have "\<bar>k * den - num\<bar> = \<bar>m * den - num\<bar>" by (simp only: of_int_eq_iff)
    with far(2) that(1) half(2) show ?thesis by blast
  qed
qed

lemma two_powi: "0 \<le> i \<Longrightarrow> (2::rat) powi i = 2 ^ nat i"
  by (simp add: power_int_def)

lemma bit_length_powi:
  assumes "0 < n"
  shows "(2::rat) powi (bit_length n - 1) \<le> of_int n" "of_int n < (2::rat) powi bit_length n"
proof -
  note b = bit_length_bounds [OF assms]
  have "(of_int (2 ^ nat (bit_length n - 1)) :: rat) \<le> of_int n" using b(1) by (simp only: of_int_le_iff)
  then show "(2::rat) powi (bit_length n - 1) \<le> of_int n" using b(3) by (simp add: two_powi)
  have "(of_int n :: rat) < of_int (2 ^ nat (bit_length n))" using b(2) by (simp only: of_int_less_iff)
  then show "of_int n < (2::rat) powi bit_length n" using b(3) by (simp add: two_powi)
qed

text \<open>Shifting both sides decides on which side of a power of two a fraction is.\<close>

lemma shifted_less:
  assumes "0 < d"
  shows "push_bit (nat (max 0 (- e))) n < push_bit (nat (max 0 e)) d \<longleftrightarrow> (of_int n / of_int d :: rat) < 2 powi e"
proof -
  have dp: "(0::rat) < of_int d" using assms by simp
  have "push_bit (nat (max 0 (- e))) n < push_bit (nat (max 0 e)) d \<longleftrightarrow>
    (of_int (push_bit (nat (max 0 (- e))) n) :: rat) < of_int (push_bit (nat (max 0 e)) d)"
    by (simp only: of_int_less_iff)
  also have "\<dots> \<longleftrightarrow> of_int n * 2 powi max 0 (- e) < of_int d * (2::rat) powi max 0 e"
    by (simp add: push_bit_eq_mult two_powi)
  also have "\<dots> \<longleftrightarrow> (of_int n / of_int d :: rat) < 2 powi e"
  proof (cases "0 \<le> e")
    case True
    then show ?thesis using dp by (simp add: max_def divide_less_eq mult.commute)
  next
    case False
    then show ?thesis using dp by (simp add: max_def divide_less_eq power_int_minus field_simps)
  qed
  finally show ?thesis .
qed

lemma lead_exp_bounds:
  fixes n d :: int
  assumes "0 < n" "0 < d"
  defines "y \<equiv> (of_int n / of_int d :: rat)"
  shows "2 powi (lead_exp n d) \<le> y" and "y < 2 powi (lead_exp n d + 1)"
proof -
  define e where "e = bit_length n - bit_length d"
  note nb = bit_length_powi [OF assms(1)] and db = bit_length_powi [OF assms(2)]
  have dp: "(0::rat) < of_int d" using assms(2) by simp
  have hi: "y < 2 powi (e + 1)"
  proof -
    have "of_int n < (2::rat) powi (e + 1) * 2 powi (bit_length d - 1)"
      using nb(2) by (simp add: e_def flip: power_int_add)
    also have "\<dots> \<le> 2 powi (e + 1) * of_int d" using db(1) by (intro mult_left_mono) auto
    finally show ?thesis using dp by (simp add: y_def divide_less_eq)
  qed
  have lo: "2 powi (e - 1) \<le> y"
  proof -
    have "(2::rat) powi (e - 1) * of_int d \<le> 2 powi (e - 1) * 2 powi bit_length d"
      using db(2) by (intro mult_left_mono) auto
    also have "\<dots> = 2 powi (bit_length n - 1)" by (simp add: e_def flip: power_int_add)
    also have "\<dots> \<le> of_int n" by (rule nb(1))
    finally show ?thesis using dp by (simp add: y_def le_divide_eq)
  qed
  have "lead_exp n d = (if y < 2 powi e then e - 1 else e)"
    unfolding lead_exp_def Let_def e_def [symmetric] shifted_less [OF assms(2)] y_def by simp
  then show "2 powi (lead_exp n d) \<le> y" "y < 2 powi (lead_exp n d + 1)"
    using lo hi by (auto simp: not_less)
qed


text \<open>A significand in range is encoded as a pattern of exactly that value.\<close>

lemma encode_mag_cases:
  "encode_mag s mi e =
     (if mi = 2 ^ 24 then
        (if e + 128 < 255 then Inr (push_bit 31 s OR push_bit 23 (e + 128)) else Inl AssertionError)
      else if 2 ^ 23 \<le> mi then
        (if e + 127 < 255 then Inr (push_bit 31 s OR push_bit 23 (e + 127) OR (mi - 2 ^ 23))
         else Inl AssertionError)
      else Inr (push_bit 31 s OR mi))"
  by (auto simp: encode_mag_def assertE_def push_bit_eq_mult algebra_simps)

lemma pack_fields:
  fixes s ef m :: int
  assumes "s = 0 \<or> s = 1" "0 \<le> ef" "ef < 255" "0 \<le> m" "m < 2 ^ 23"
  defines "b \<equiv> push_bit 31 s OR push_bit 23 ef OR m"
  shows "b = s * 2 ^ 31 + ef * 2 ^ 23 + m"
    and "0 \<le> b" "b < 2 ^ 32" "fp_field b = ef" "b mod 2 ^ 23 = m" "drop_bit 31 b = s"
proof -
  have lo: "push_bit 23 ef OR m = ef * 2 ^ 23 + m"
    using assms by (intro or_disjoint_add) auto
  have lt: "ef * 2 ^ 23 + m < 2 ^ 31" using assms(2-5) by simp
  have "b = push_bit 31 s OR (ef * 2 ^ 23 + m)" by (simp add: b_def lo or.assoc)
  also have "\<dots> = s * 2 ^ 31 + (ef * 2 ^ 23 + m)"
    using lt assms by (intro or_disjoint_add) auto
  finally show b: "b = s * 2 ^ 31 + ef * 2 ^ 23 + m" by simp
  show "0 \<le> b" "b < 2 ^ 32" using b lt assms by auto
  have "b = m + (s * 2 ^ 8 + ef) * 2 ^ 23" by (simp add: b)
  then show "b mod 2 ^ 23 = m" using assms(4,5) by (simp only: mod_mult_self1 mod_pos_pos_trivial)
  have "b div 2 ^ 23 = s * 2 ^ 8 + ef" using assms(4,5) by (simp add: b)
  then show "fp_field b = ef" using assms(2,3) by (simp add: fp_field_def)
  show "drop_bit 31 b = s" using assms(1) lt assms(2,4) by (auto simp: b drop_bit_eq_div)
qed

lemma encode_mag_value:
  assumes "encode_mag s mi e = Inr b" and "s = 0 \<or> s = 1"
    and "0 \<le> mi" "mi \<le> 2 ^ 24" "- 126 \<le> e" "2 ^ 23 \<le> mi \<or> e = - 126"
  shows "f2fr b = Inr ((if s = 0 then 1 else - 1) * (of_int mi * 2 powi (e - 23)))"
    and "0 \<le> b" "b < 2 ^ 32" "even b \<longleftrightarrow> even mi"
proof -
  consider (carry) "mi = 2 ^ 24" "e + 128 < 255" "b = push_bit 31 s OR push_bit 23 (e + 128) OR 0"
    | (normal) "mi \<noteq> 2 ^ 24" "2 ^ 23 \<le> mi" "e + 127 < 255"
        "b = push_bit 31 s OR push_bit 23 (e + 127) OR (mi - 2 ^ 23)"
    | (sub) "mi < 2 ^ 23" "e = - 126" "b = push_bit 31 s OR push_bit 23 0 OR mi"
    using assms(1,6) unfolding encode_mag_cases by (auto split: if_splits)
  then have "f2fr b = Inr ((if s = 0 then 1 else - 1) * (of_int mi * 2 powi (e - 23)))
    \<and> 0 \<le> b \<and> b < 2 ^ 32 \<and> (even b \<longleftrightarrow> even mi)"
  proof cases
    case carry
    note f = pack_fields [OF assms(2), of "e + 128" 0, folded carry(3)]
    have "(2::rat) powi (e - 22) = 2 powi (e - 23) * 2 powi 1"
      using power_int_add [of "2::rat" "e - 23" 1] by simp
    then show ?thesis using f carry assms
      by (simp add: f2fr_iff fp_exp_def fp_sig_def max_def)
  next
    case normal
    note f = pack_fields [OF assms(2), of "e + 127" "mi - 2 ^ 23", folded normal(4)]
    show ?thesis using f normal assms
      by (simp add: f2fr_iff fp_exp_def fp_sig_def max_def)
  next
    case sub
    note f = pack_fields [OF assms(2), of 0 mi, folded sub(3)]
    show ?thesis using f sub assms by (simp add: f2fr_iff fp_exp_def fp_sig_def)
  qed
  then show "f2fr b = Inr ((if s = 0 then 1 else - 1) * (of_int mi * 2 powi (e - 23)))"
    "0 \<le> b" "b < 2 ^ 32" "even b \<longleftrightarrow> even mi" by blast+
qed

section \<open>Correct rounding\<close>

lemma two_powi_less: "(2::rat) powi a < 2 powi b \<longleftrightarrow> a < b"
  using power_int_increasing [of b a "2::rat"] power_int_strict_increasing [of a b "2::rat"]
  by (auto simp: not_less [symmetric])

text \<open>\<open>mi\<close> is the nearest multiple of the unit \<open>2 powi (e - 23)\<close> to \<open>y\<close>, even when two are nearest.\<close>

definition nearest_even :: "int \<Rightarrow> int \<Rightarrow> rat \<Rightarrow> bool" where
  "nearest_even mi e y \<longleftrightarrow>
     (\<forall>k. \<bar>of_int mi * 2 powi (e - 23) - y\<bar> \<le> \<bar>of_int k * 2 powi (e - 23) - y\<bar>) \<and>
     (\<forall>k. k \<noteq> mi \<longrightarrow> \<bar>of_int k * 2 powi (e - 23) - y\<bar> = \<bar>of_int mi * 2 powi (e - 23) - y\<bar> \<longrightarrow> even mi)"

lemma nearest_evenD:
  assumes "nearest_even mi e y"
  shows "\<bar>of_int mi * 2 powi (e - 23) - y\<bar> \<le> \<bar>of_int k * 2 powi (e - 23) - y\<bar>"
    and "k \<noteq> mi \<Longrightarrow> \<bar>of_int k * 2 powi (e - 23) - y\<bar> = \<bar>of_int mi * 2 powi (e - 23) - y\<bar> \<Longrightarrow> even mi"
  using assms unfolding nearest_even_def by blast+

text \<open>A nearest multiple of a unit is on the same side of every multiple as the number.\<close>

lemma nearest_multiple:
  fixes u y :: rat
  assumes "0 < u" and near: "\<And>k. \<bar>of_int m * u - y\<bar> \<le> \<bar>of_int k * u - y\<bar>"
  shows "of_int b * u \<le> y \<Longrightarrow> b \<le> m" and "y \<le> of_int b * u \<Longrightarrow> m \<le> b"
proof -
  show "b \<le> m" if "of_int b * u \<le> y"
  proof (rule ccontr)
    assume "\<not> ?thesis"
    then have "of_int m * u < of_int b * u" using assms(1) by simp
    with that near [of b] show False by linarith
  qed
  show "m \<le> b" if "y \<le> of_int b * u"
  proof (rule ccontr)
    assume "\<not> ?thesis"
    then have "of_int b * u < of_int m * u" using assms(1) by simp
    with that near [of b] show False by linarith
  qed
qed

text \<open>The numerator and denominator of a number in units of its last place.\<close>

lemma units_of:
  fixes q :: int
  assumes "0 < d" "y = of_int n / (of_int d :: rat)"
  shows "of_int (if q \<ge> 0 then n else push_bit (nat (- q)) n) / of_int (if q \<ge> 0 then push_bit (nat q) d else d) * 2 powi q = y"
proof (cases "q \<ge> 0")
  case True
  then have "(2 :: rat) powi q = of_int (2 ^ nat q)" by (simp add: power_int_def)
  then show ?thesis using True assms(1) by (simp add: push_bit_eq_mult assms(2))
next
  case False
  then have "(2 :: rat) powi q * 2 ^ nat (- q) = 1"
    by (simp add: power_int_def flip: power_mult_distrib)
  then show ?thesis using False assms(1)
    by (simp add: push_bit_eq_mult assms(2) mult.assoc mult.commute [of _ "2 powi q"])
qed

lemma fr2f_steps:
  assumes "x \<noteq> 0"
  obtains mi e where "fr2f x = encode_mag (if x < 0 then 1 else 0) mi e"
    and "0 \<le> mi" "mi \<le> 2 ^ 24" "- 126 \<le> e" "2 ^ 23 \<le> mi \<or> e = - 126"
    and "2 powi e \<le> \<bar>x\<bar> \<or> e = - 126" "\<bar>x\<bar> < 2 powi (e + 1)"
    and "nearest_even mi e \<bar>x\<bar>"
proof -
  obtain n d where nd: "quotient_of \<bar>x\<bar> = (n, d)" by (cases "quotient_of \<bar>x\<bar>")
  have d: "0 < d" using nd by (rule quotient_of_denom_pos)
  have y: "\<bar>x\<bar> = of_int n / of_int d" using nd by (rule quotient_of_div)
  have "0 < of_int n / (of_int d :: rat)" using assms y by (metis zero_less_abs_iff)
  then have n: "0 < n" using d by (simp add: zero_less_divide_iff)
  define e where "e = max (lead_exp n d) (- 126)"
  define q where "q = e - 23"
  define num where "num = (if q \<ge> 0 then n else push_bit (nat (- q)) n)"
  define den where "den = (if q \<ge> 0 then push_bit (nat q) d else d)"
  define mi where "mi = round_even num den"
  let ?u = "2 powi (e - 23) :: rat"
  have u: "0 < ?u" by simp
  have den: "0 < den" using d by (simp add: den_def push_bit_eq_mult)
  have t: "of_int num / of_int den * ?u = \<bar>x\<bar>"
    using units_of [OF d y, of q] by (simp add: num_def den_def q_def)
  have scale: "\<bar>of_int k * ?u - \<bar>x\<bar>\<bar> = \<bar>of_int k - of_int num / of_int den\<bar> * ?u" for k
  proof -
    have "of_int k * ?u - \<bar>x\<bar> = (of_int k - of_int num / of_int den) * ?u"
      unfolding t [symmetric] by (simp add: left_diff_distrib)
    then show ?thesis by (simp add: abs_mult)
  qed
  have near: "\<bar>of_int mi * ?u - \<bar>x\<bar>\<bar> \<le> \<bar>of_int k * ?u - \<bar>x\<bar>\<bar>" for k
    unfolding scale mi_def
    using round_even_nearest(1) [OF den, of num k] u by (simp add: mult_right_mono)
  have tie: "even mi" if "k \<noteq> mi" "\<bar>of_int k * ?u - \<bar>x\<bar>\<bar> = \<bar>of_int mi * ?u - \<bar>x\<bar>\<bar>" for k
    using round_even_nearest(2) [OF den, of k num] that u unfolding scale mi_def by simp
  note lead = lead_exp_bounds [OF n d, folded y]
  have hi: "\<bar>x\<bar> < 2 powi (e + 1)"
  proof -
    have "(2::rat) powi (lead_exp n d + 1) \<le> 2 powi (e + 1)"
      by (intro power_int_increasing) (auto simp: e_def)
    with lead(2) show ?thesis by linarith
  qed
  have lo: "2 powi e \<le> \<bar>x\<bar> \<or> e = - 126" using lead(1) by (auto simp: e_def max_def)
  have top: "2 powi (e + 1) = of_int (2 ^ 24) * ?u" and bot: "2 powi e = of_int (2 ^ 23) * ?u"
    using power_int_add [of "2::rat" "e - 23" 24] power_int_add [of "2::rat" "e - 23" 23]
    by (simp_all add: add.commute mult.commute)
  note side = nearest_multiple [OF u near]
  have mi_hi: "mi \<le> 2 ^ 24" by (rule side(2)) (use hi in \<open>simp add: top\<close>)
  have mi_lo: "0 \<le> mi" by (rule side(1)) simp
  have mi_norm: "2 ^ 23 \<le> mi \<or> e = - 126" using lo side(1) [of "2 ^ 23"] unfolding bot by auto
  have "fr2f x = encode_mag (if x < 0 then 1 else 0) mi e"
    using assms nd
    unfolding fr2f_def mi_def num_def den_def q_def e_def
    by (simp only: Let_def nd prod.case if_False) (auto simp: split_beta)
  moreover have "nearest_even mi e \<bar>x\<bar>" using near tie unfolding nearest_even_def by blast
  ultimately show thesis
    using that [OF _ mi_lo mi_hi _ mi_norm lo hi] by (simp add: e_def)
qed

lemma f2fr_abs: "f2fr b = Inr w \<Longrightarrow> \<bar>w\<bar> = of_int (fp_sig b) * 2 powi fp_exp b"
  by (auto simp: f2fr_iff abs_mult fp_sig_def)

lemma fp_sig_range: "0 \<le> fp_sig b" "fp_sig b < 2 ^ 24"
proof -
  have "0 \<le> b mod 2 ^ 23" "b mod 2 ^ 23 < 2 ^ 23" by simp_all
  then show "0 \<le> fp_sig b" "fp_sig b < 2 ^ 24" unfolding fp_sig_def by (auto split: if_splits)
qed

lemma fp_exp_ge: "- 149 \<le> fp_exp b"
  by (simp add: fp_exp_def)

text \<open>Every representable value at or above a binade lies on the binade's grid.\<close>

lemma f2fr_grid:
  assumes "f2fr b = Inr w" "- 126 \<le> e" "2 powi e \<le> \<bar>w\<bar> \<or> e = - 126"
  obtains k where "\<bar>w\<bar> = of_int k * 2 powi (e - 23)"
proof -
  have w: "\<bar>w\<bar> = of_int (fp_sig b) * 2 powi fp_exp b" using assms(1) by (rule f2fr_abs)
  have "e - 23 \<le> fp_exp b"
  proof (cases "e = - 126")
    case True
    then show ?thesis using fp_exp_ge [of b] by simp
  next
    case False
    with assms(3) have "2 powi e \<le> of_int (fp_sig b) * (2::rat) powi fp_exp b" using w by simp
    also have "\<dots> < of_int (2 ^ 24) * 2 powi fp_exp b"
      using fp_sig_range(2) [of b] by (intro mult_strict_right_mono) (simp_all only: of_int_less_iff, simp)
    also have "\<dots> = 2 powi (24 + fp_exp b)" by (simp add: power_int_add)
    finally have "e < 24 + fp_exp b" by (simp only: two_powi_less)
    then show ?thesis by simp
  qed
  then have "(2::rat) powi fp_exp b = 2 ^ nat (fp_exp b - (e - 23)) * 2 powi (e - 23)"
    using power_int_add [of "2::rat" "fp_exp b - (e - 23)" "e - 23"] by (simp add: power_int_def)
  then have "\<bar>w\<bar> = of_int (fp_sig b * 2 ^ nat (fp_exp b - (e - 23))) * 2 powi (e - 23)"
    using w by (simp add: mult.assoc)
  then show thesis by (rule that)
qed

lemma fr2f_zero [simp]: "fr2f 0 = Inr 0"
  by (simp add: fr2f_def)

lemma f2fr_zero [simp]: "f2fr 0 = Inr 0"
  by (simp add: f2fr_iff fp_field_def fp_sig_def)

lemma fr2f_result:
  assumes "fr2f x = Inr r"
  shows "\<exists>v. f2fr r = Inr v \<and> 0 \<le> r \<and> r < 2 ^ 32 \<and> (0 \<le> x \<longrightarrow> 0 \<le> v) \<and> (x \<le> 0 \<longrightarrow> v \<le> 0)"
proof (cases "x = 0")
  case True
  with assms show ?thesis by simp
next
  case False
  from fr2f_steps [OF False] obtain mi e
    where st: "fr2f x = encode_mag (if x < 0 then 1 else 0) mi e"
      "0 \<le> mi" "mi \<le> 2 ^ 24" "- 126 \<le> e" "2 ^ 23 \<le> mi \<or> e = - 126" .
  have "encode_mag (if x < 0 then 1 else 0) mi e = Inr r" using assms st(1) by simp
  note v = encode_mag_value [OF this _ st(2-5)]
  show ?thesis using v False st(2) by (cases "x < 0") auto
qed

lemma rounding_core:
  fixes e :: int
  assumes b: "f2fr b = Inr w" and e: "- 126 \<le> e" "2 powi e \<le> y \<or> e = - 126" and mi: "2 ^ 23 \<le> mi \<or> e = - 126"
    and ne: "nearest_even mi e y"
  shows "\<bar>of_int mi * 2 powi (e - 23) - y\<bar> \<le> \<bar>\<bar>w\<bar> - y\<bar>"
    and "\<bar>w\<bar> \<noteq> of_int mi * 2 powi (e - 23) \<Longrightarrow>
      \<bar>\<bar>w\<bar> - y\<bar> = \<bar>of_int mi * 2 powi (e - 23) - y\<bar> \<Longrightarrow> even mi"
proof -
  let ?u = "2 powi (e - 23) :: rat"
  have "\<bar>of_int mi * ?u - y\<bar> \<le> \<bar>\<bar>w\<bar> - y\<bar> \<and>
    (\<bar>w\<bar> \<noteq> of_int mi * ?u \<longrightarrow> \<bar>\<bar>w\<bar> - y\<bar> = \<bar>of_int mi * ?u - y\<bar> \<longrightarrow> even mi)"
  proof (cases "2 powi e \<le> \<bar>w\<bar> \<or> e = - 126")
    case True
    then obtain k where k: "\<bar>w\<bar> = of_int k * ?u" by (rule f2fr_grid [OF b e(1)])
    show ?thesis using nearest_evenD [OF ne, of k] unfolding k by auto
  next
    case False
    have bot: "2 powi e = of_int (2 ^ 23) * ?u"
      using power_int_add [of "2::rat" "e - 23" 23] by simp
    have "\<bar>of_int (2 ^ 23) * ?u - y\<bar> < \<bar>\<bar>w\<bar> - y\<bar>"
      using False e(2) unfolding bot by auto
    with nearest_evenD(1) [OF ne, of "2 ^ 23"] show ?thesis by linarith
  qed
  then show "\<bar>of_int mi * ?u - y\<bar> \<le> \<bar>\<bar>w\<bar> - y\<bar>"
    "\<bar>w\<bar> \<noteq> of_int mi * ?u \<Longrightarrow> \<bar>\<bar>w\<bar> - y\<bar> = \<bar>of_int mi * ?u - y\<bar> \<Longrightarrow> even mi"
    by blast+
qed

lemma fr2f_correct:
  assumes r: "fr2f x = Inr r" and v: "f2fr r = Inr v" and b: "f2fr b = Inr w"
  shows "\<bar>v - x\<bar> \<le> \<bar>w - x\<bar>" and "w \<noteq> v \<Longrightarrow> \<bar>w - x\<bar> = \<bar>v - x\<bar> \<Longrightarrow> even r"
proof -
  have "\<bar>v - x\<bar> \<le> \<bar>w - x\<bar> \<and> (w \<noteq> v \<longrightarrow> \<bar>w - x\<bar> = \<bar>v - x\<bar> \<longrightarrow> even r)"
  proof (cases "x = 0")
    case True
    with r v show ?thesis by auto
  next
    case False
    from fr2f_steps [OF False] obtain mi e
      where st: "fr2f x = encode_mag (if x < 0 then 1 else 0) mi e"
        "0 \<le> mi" "mi \<le> 2 ^ 24" "- 126 \<le> e" "2 ^ 23 \<le> mi \<or> e = - 126"
        "2 powi e \<le> \<bar>x\<bar> \<or> e = - 126" "\<bar>x\<bar> < 2 powi (e + 1)" "nearest_even mi e \<bar>x\<bar>" .
    let ?m = "of_int mi * 2 powi (e - 23) :: rat"
    have "encode_mag (if x < 0 then 1 else 0) mi e = Inr r" using r st(1) by simp
    note enc = encode_mag_value [OF this _ st(2-5)]
    have vm: "v = (if x < 0 then - ?m else ?m)" and par: "even r \<longleftrightarrow> even mi"
      using enc v by auto
    have m0: "0 \<le> ?m" using st(2) by simp
    have dv: "\<bar>v - x\<bar> = \<bar>?m - \<bar>x\<bar>\<bar>" using vm by (cases "x < 0") auto
    have dw: "\<bar>\<bar>w\<bar> - \<bar>x\<bar>\<bar> \<le> \<bar>w - x\<bar>" by linarith
    note core = rounding_core [OF b st(4,6,5,8)]
    have "even r" if "w \<noteq> v" "\<bar>w - x\<bar> = \<bar>v - x\<bar>"
    proof -
      have eq: "\<bar>\<bar>w\<bar> - \<bar>x\<bar>\<bar> = \<bar>?m - \<bar>x\<bar>\<bar>" using core(1) dw dv that(2) by linarith
      have "\<bar>w\<bar> \<noteq> ?m"
        using that vm m0 False by (cases "x < 0") (auto simp: abs_if split: if_splits)
      with core(2) eq par show ?thesis by blast
    qed
    with core(1) dv dw show ?thesis by linarith
  qed
  then show "\<bar>v - x\<bar> \<le> \<bar>w - x\<bar>" "w \<noteq> v \<Longrightarrow> \<bar>w - x\<bar> = \<bar>v - x\<bar> \<Longrightarrow> even r" by blast+
qed

text \<open>The overflow threshold: halfway between the largest finite number and the next binade.\<close>

definition fp_threshold :: rat where
  "fp_threshold = (2 ^ 25 - 1) * 2 ^ 103"

text \<open>In the last binade the significand rounds up to the next one from the threshold on.\<close>

lemma top_binade:
  assumes "mi \<le> 2 ^ 24" "y < 2 powi 128" "nearest_even mi 127 y"
  shows "mi = 2 ^ 24 \<longleftrightarrow> fp_threshold \<le> y"
proof -
  let ?u = "2 powi 104 :: rat"
  have T: "fp_threshold = (2 ^ 24 - 1 / 2) * ?u" by (simp add: fp_threshold_def)
  have near: "\<bar>of_int mi * ?u - y\<bar> \<le> \<bar>of_int k * ?u - y\<bar>" for k
    using nearest_evenD(1) [OF assms(3), of k] by simp
  have tie: "even mi" if "k \<noteq> mi" "\<bar>of_int k * ?u - y\<bar> = \<bar>of_int mi * ?u - y\<bar>" for k
    using nearest_evenD(2) [OF assms(3), of k] that by simp
  show ?thesis
  proof
    assume "mi = 2 ^ 24"
    with near [of "2 ^ 24 - 1"] show "fp_threshold \<le> y" by (simp add: T)
  next
    assume ge: "fp_threshold \<le> y"
    show "mi = 2 ^ 24"
    proof (rule ccontr)
      assume ne: "mi \<noteq> 2 ^ 24"
      then have "(of_int mi :: rat) \<le> of_int (2 ^ 24 - 1)" using assms(1) by (simp only: of_int_le_iff)
      then have le: "of_int mi * ?u \<le> (2 ^ 24 - 1) * ?u" by simp
      have up: "y \<le> 2 ^ 24 * ?u" using assms(2) by simp
      have eq: "\<bar>of_int mi * ?u - y\<bar> = \<bar>of_int (2 ^ 24) * ?u - y\<bar>" "of_int mi * ?u = (2 ^ 24 - 1) * ?u"
        using near [of "2 ^ 24"] le up ge unfolding T by (auto simp: abs_if split: if_splits)
      have "even mi" by (rule tie [of "2 ^ 24"]) (use ne eq(1) in auto)
      moreover have "(of_int mi :: rat) = of_int (2 ^ 24 - 1)" using eq(2) by simp
      then have "mi = 2 ^ 24 - 1" by (simp only: of_int_eq_iff)
      ultimately show False by simp
    qed
  qed
qed

lemma fr2f_overflow: "fr2f x = Inl err \<longleftrightarrow> fp_threshold \<le> \<bar>x\<bar> \<and> err = AssertionError"
proof (cases "x = 0")
  case True
  then show ?thesis by (simp add: fp_threshold_def)
next
  case False
  from fr2f_steps [OF False] obtain mi e
    where st: "fr2f x = encode_mag (if x < 0 then 1 else 0) mi e"
      "0 \<le> mi" "mi \<le> 2 ^ 24" "- 126 \<le> e" "2 ^ 23 \<le> mi \<or> e = - 126"
      "2 powi e \<le> \<bar>x\<bar> \<or> e = - 126" "\<bar>x\<bar> < 2 powi (e + 1)" "nearest_even mi e \<bar>x\<bar>" .
  have fail: "fr2f x = Inl err \<longleftrightarrow>
    (mi = 2 ^ 24 \<and> 127 \<le> e \<or> 2 ^ 23 \<le> mi \<and> 128 \<le> e) \<and> err = AssertionError"
    unfolding st(1) encode_mag_cases by auto
  have T: "fp_threshold < 2 powi 128" "2 powi 127 \<le> fp_threshold"
    by (simp_all add: fp_threshold_def)
  show ?thesis
  proof (cases "128 \<le> e")
    case True
    then have "(2::rat) powi 128 \<le> 2 powi e" by (intro power_int_increasing) auto
    then have "fp_threshold \<le> \<bar>x\<bar>" using T(1) st(6) True by linarith
    then show ?thesis unfolding fail using True st(5) by auto
  next
    case small: False
    show ?thesis
    proof (cases "e = 127")
      case True
      have "mi = 2 ^ 24 \<longleftrightarrow> fp_threshold \<le> \<bar>x\<bar>"
        by (rule top_binade [OF st(3)]) (use st(7,8) True in simp_all)
      then show ?thesis unfolding fail using True by auto
    next
      case False
      with small have "e + 1 \<le> 127" by simp
      then have "(2::rat) powi (e + 1) \<le> 2 powi 127" by (intro power_int_increasing) auto
      with st(7) T(2) have "\<bar>x\<bar> < fp_threshold" by linarith
      then show ?thesis unfolding fail using small False by auto
    qed
  qed
qed

section \<open>The rounding interface\<close>

text \<open>
  What the applications rely on: a decoder of patterns and a rounding that returns a nearest
  decodable value wherever some decodable value is at least as large. Monotonicity, exactness
  on decodable values and preservation of bounds follow from these laws alone.
\<close>

locale nearest_rounding =
  fixes dec :: "int \<Rightarrow> rat result" and rnd :: "rat \<Rightarrow> int result"
  assumes rnd_decodes: "rnd x = Inr r \<Longrightarrow> \<exists>v. dec r = Inr v"
    and rnd_nearest: "rnd x = Inr r \<Longrightarrow> dec r = Inr v \<Longrightarrow> dec b = Inr w \<Longrightarrow> \<bar>v - x\<bar> \<le> \<bar>w - x\<bar>"
    and rnd_below: "dec b = Inr w \<Longrightarrow> \<bar>x\<bar> \<le> \<bar>w\<bar> \<Longrightarrow> \<exists>r. rnd x = Inr r"
    and dec_neg: "dec b = Inr w \<Longrightarrow> \<exists>c. dec c = Inr (- w)"
begin

lemma rnd_exact:
  assumes "dec b = Inr w"
  obtains r where "rnd w = Inr r" "dec r = Inr w"
proof -
  obtain r where r: "rnd w = Inr r" using rnd_below [OF assms order_refl] by blast
  then obtain v where v: "dec r = Inr v" using rnd_decodes by blast
  have "\<bar>v - w\<bar> \<le> \<bar>w - w\<bar>" by (rule rnd_nearest [OF r v assms])
  then have "v = w" by simp
  with r v show thesis by (blast intro: that)
qed

lemma rnd_mono:
  assumes "rnd x = Inr r" "dec r = Inr v" "rnd y = Inr s" "dec s = Inr w" "x \<le> y"
  shows "v \<le> w"
proof (rule ccontr)
  assume "\<not> v \<le> w"
  moreover have "\<bar>v - x\<bar> \<le> \<bar>w - x\<bar>" by (rule rnd_nearest [OF assms(1,2,4)])
  moreover have "\<bar>w - y\<bar> \<le> \<bar>v - y\<bar>" by (rule rnd_nearest [OF assms(3,4,2)])
  ultimately have "x = y" using assms(5) by (auto simp: abs_if split: if_splits)
  with assms(1-4) have "v = w" by simp
  with \<open>\<not> v \<le> w\<close> show False by simp
qed

lemma rnd_bound:
  assumes b: "dec b = Inr w" and x: "\<bar>x\<bar> \<le> w"
  obtains r v where "rnd x = Inr r" "dec r = Inr v" "\<bar>v\<bar> \<le> w"
proof -
  have w: "\<bar>w\<bar> = w" using x by linarith
  obtain r where r: "rnd x = Inr r" using rnd_below [OF b, of x] x w by auto
  then obtain v where v: "dec r = Inr v" using rnd_decodes by blast
  obtain hi where hi: "rnd w = Inr hi" "dec hi = Inr w" by (rule rnd_exact [OF b])
  obtain c where "dec c = Inr (- w)" using dec_neg [OF b] by blast
  then obtain lo where lo: "rnd (- w) = Inr lo" "dec lo = Inr (- w)" by (rule rnd_exact)
  have "v \<le> w" by (rule rnd_mono [OF r v hi]) (use x in linarith)
  moreover have "- w \<le> v" by (rule rnd_mono [OF lo r v]) (use x in linarith)
  ultimately show thesis using r v by (intro that) auto
qed

end

lemma f2fr_below_threshold:
  assumes "f2fr b = Inr w"
  shows "\<bar>w\<bar> \<le> (2 ^ 24 - 1) * 2 ^ 104" and "\<bar>w\<bar> < fp_threshold"
proof -
  have "fp_field b \<noteq> 255" using assms by (simp add: f2fr_iff)
  moreover have "0 \<le> fp_field b" "fp_field b < 256" by (simp_all add: fp_field_def)
  ultimately have "fp_field b \<le> 254" by linarith
  then have e: "fp_exp b \<le> 104" by (simp add: fp_exp_def)
  have s: "(of_int (fp_sig b) :: rat) \<le> of_int (2 ^ 24 - 1)"
    using fp_sig_range(2) [of b] by (simp only: of_int_le_iff)
  have "\<bar>w\<bar> = of_int (fp_sig b) * 2 powi fp_exp b" using assms by (rule f2fr_abs)
  also have "\<dots> \<le> of_int (2 ^ 24 - 1) * 2 powi 104"
    using s e fp_sig_range(1) [of b] by (intro mult_mono power_int_increasing) auto
  finally show "\<bar>w\<bar> \<le> (2 ^ 24 - 1) * 2 ^ 104" by simp
  then show "\<bar>w\<bar> < fp_threshold" by (simp add: fp_threshold_def)
qed

lemma fr2f_defined: "\<bar>x\<bar> < fp_threshold \<Longrightarrow> \<exists>r. fr2f x = Inr r"
  using fr2f_overflow [of x] by (cases "fr2f x") auto

lemma f2fr_flip:
  assumes "f2fr b = Inr w"
  shows "\<exists>c. f2fr c = Inr (- w)"
proof -
  let ?b = "b mod 2 ^ 31" and ?c = "b mod 2 ^ 31 + 2 ^ 31"
  have lt: "?b < 2 ^ 31" "0 \<le> ?b" by simp_all
  have "drop_bit 23 (take_bit 31 b) = take_bit 8 (drop_bit 23 b)" by (simp add: drop_bit_take_bit)
  then have "?b div 2 ^ 23 = b div 2 ^ 23 mod 2 ^ 8" by (simp only: take_bit_eq_mod drop_bit_eq_div)
  then have f: "fp_field ?b = fp_field b" unfolding fp_field_def by (simp only: mod_mod_trivial)
  have c: "?c = ?b + 2 ^ 8 * 2 ^ 23" by simp
  have "?c div 2 ^ 23 = 2 ^ 8 + ?b div 2 ^ 23" unfolding c by (rule div_mult_self1) simp
  then have f': "fp_field ?c = fp_field b" unfolding f [symmetric] by (simp add: fp_field_def)
  have m: "?b mod 2 ^ 23 = b mod 2 ^ 23" by (simp add: mod_mod_cancel)
  then have m': "?c mod 2 ^ 23 = b mod 2 ^ 23" unfolding c by (simp only: mod_mult_self1)
  have s: "drop_bit 31 ?b = 0" "drop_bit 31 ?c \<noteq> 0"
    using lt by (simp_all add: drop_bit_eq_div)
  have nf: "fp_field b \<noteq> 255" using assms by (simp add: f2fr_iff)
  have se: "fp_sig ?b = fp_sig b" "fp_exp ?b = fp_exp b" "fp_sig ?c = fp_sig b" "fp_exp ?c = fp_exp b"
    unfolding fp_sig_def fp_exp_def f f' m m' by simp_all
  have neg: "f2fr k = Inr (- w)" if "fp_sig k = fp_sig b" "fp_exp k = fp_exp b" "fp_field k = fp_field b"
    "drop_bit 31 k = 0 \<longleftrightarrow> drop_bit 31 b \<noteq> 0" for k
    using assms that by (auto simp: f2fr_iff)
  have "f2fr (if drop_bit 31 b = 0 then ?c else ?b) = Inr (- w)"
    by (rule neg) (use s se f f' in auto)
  then show ?thesis by blast
qed

interpretation fp: nearest_rounding f2fr fr2f
proof
  show "\<exists>v. f2fr r = Inr v" if "fr2f x = Inr r" for x r using fr2f_result [OF that] by blast
  show "\<bar>v - x\<bar> \<le> \<bar>w - x\<bar>" if "fr2f x = Inr r" "f2fr r = Inr v" "f2fr b = Inr w" for x r v b w
    by (rule fr2f_correct(1) [OF that])
  show "\<exists>r. fr2f x = Inr r" if "f2fr b = Inr w" "\<bar>x\<bar> \<le> \<bar>w\<bar>" for b w x
    using f2fr_below_threshold(2) [OF that(1)] that(2) by (intro fr2f_defined) linarith
  show "\<exists>c. f2fr c = Inr (- w)" if "f2fr b = Inr w" for b w by (rule f2fr_flip [OF that])
qed

text \<open>Small multiples of a power of two are representable; so are the integers up to \<open>2 ^ 24\<close>.\<close>

lemma fp_representable:
  assumes "\<bar>m\<bar> \<le> 2 ^ 24" "- 149 \<le> q" "q \<le> 103"
  shows "\<exists>b. f2fr b = Inr (of_int m * 2 powi q)"
proof (cases "m = 0")
  case True
  then have "f2fr 0 = Inr (of_int m * 2 powi q)" by simp
  then show ?thesis by blast
next
  case False
  let ?x = "of_int m * 2 powi q :: rat"
  have x: "?x \<noteq> 0" using False by simp
  have m: "(of_int \<bar>m\<bar> :: rat) \<le> of_int (2 ^ 24)" using assms(1) by (simp only: of_int_le_iff)
  have ax: "\<bar>?x\<bar> = of_int \<bar>m\<bar> * 2 powi q" by (simp add: abs_mult)
  have le: "\<bar>?x\<bar> \<le> 2 powi (24 + q)"
    unfolding ax power_int_add [of "2::rat" 24 q, simplified]
    using m by (intro mult_right_mono) (auto simp: power_int_add)
  also have "\<dots> \<le> 2 powi 127" using assms by (intro power_int_increasing) auto
  finally have "\<bar>?x\<bar> < fp_threshold" by (simp add: fp_threshold_def)
  then obtain r where r: "fr2f ?x = Inr r" using fr2f_defined by blast
  obtain v where v: "f2fr r = Inr v" using fr2f_result [OF r] by blast
  from fr2f_steps [OF x] obtain mi e
    where st: "fr2f ?x = encode_mag (if ?x < 0 then 1 else 0) mi e"
      "0 \<le> mi" "mi \<le> 2 ^ 24" "- 126 \<le> e" "2 ^ 23 \<le> mi \<or> e = - 126"
      "2 powi e \<le> \<bar>?x\<bar> \<or> e = - 126" "\<bar>?x\<bar> < 2 powi (e + 1)" "nearest_even mi e \<bar>?x\<bar>" .
  have "\<exists>k. \<bar>?x\<bar> = of_int k * 2 powi (e - 23)"
  proof (cases "e - 23 \<le> q")
    case True
    then have "(2::rat) powi q = 2 ^ nat (q - (e - 23)) * 2 powi (e - 23)"
      using power_int_add [of "2::rat" "q - (e - 23)" "e - 23"] by (simp add: power_int_def)
    then have "\<bar>?x\<bar> = of_int (\<bar>m\<bar> * 2 ^ nat (q - (e - 23))) * 2 powi (e - 23)"
      unfolding ax by simp
    then show ?thesis by blast
  next
    case False
    then have "2 powi e \<le> \<bar>?x\<bar>" using st(6) assms(2) by auto
    then have "\<not> 2 powi (24 + q) < (2::rat) powi e" using le by linarith
    then have "e = 24 + q" using False by (simp add: two_powi_less)
    then have "\<bar>?x\<bar> = 2 powi e" using le \<open>2 powi e \<le> \<bar>?x\<bar>\<close> by simp
    also have "\<dots> = of_int (2 ^ 23) * 2 powi (e - 23)"
      using power_int_add [of "2::rat" "e - 23" 23] by simp
    finally show ?thesis by blast
  qed
  then obtain k where "\<bar>?x\<bar> = of_int k * 2 powi (e - 23)" ..
  then have eq: "of_int mi * 2 powi (e - 23) = \<bar>?x\<bar>"
    using nearest_evenD(1) [OF st(8), of k] by simp
  have "encode_mag (if ?x < 0 then 1 else 0) mi e = Inr r" using r st(1) by simp
  from encode_mag_value(1) [OF this _ st(2-5)] eq v have "v = ?x" by auto
  with v show ?thesis by blast
qed

lemma fp_int_representable: "\<bar>m\<bar> \<le> 2 ^ 24 \<Longrightarrow> \<exists>b. f2fr b = Inr (of_int m)"
  using fp_representable [of m 0] by simp


section \<open>Reading back a rounded pattern\<close>

lemma fp_field_of_mag: "0 \<le> b \<Longrightarrow> b < 2 ^ 31 \<Longrightarrow> fp_field b = b div 2 ^ 23"
  unfolding fp_field_def by (rule mod_pos_pos_trivial) (simp_all add: div_less_iff_less_mult pos_imp_zdiv_nonneg_iff)

lemma fp_sig_of_mag:
  assumes "0 \<le> b" "b < 2 ^ 31"
  shows "fp_sig b = b - (max 1 (fp_field b) - 1) * 2 ^ 23"
proof -
  have f: "fp_field b = b div 2 ^ 23" using assms by (rule fp_field_of_mag)
  have "b mod 2 ^ 23 = b - b div 2 ^ 23 * 2 ^ 23" by (simp add: minus_div_mult_eq_mod)
  moreover have "0 \<le> b div 2 ^ 23" using assms by (simp add: pos_imp_zdiv_nonneg_iff)
  ultimately show ?thesis unfolding fp_sig_def f by (auto simp: max_def algebra_simps)
qed

lemma fp_mag_strict_mono:
  assumes "0 \<le> a" "a < b" "b < 2 ^ 31"
  shows "of_int (fp_sig a) * 2 powi fp_exp a < (of_int (fp_sig b) * 2 powi fp_exp b :: rat)"
proof -
  have sa: "fp_sig a = a - (max 1 (fp_field a) - 1) * 2 ^ 23"
    and sb: "fp_sig b = b - (max 1 (fp_field b) - 1) * 2 ^ 23"
    using assms by (simp_all add: fp_sig_of_mag)
  have "fp_field a = a div 2 ^ 23" "fp_field b = b div 2 ^ 23"
    using assms by (simp_all add: fp_field_of_mag)
  then have le: "fp_field a \<le> fp_field b" using assms by (simp add: zdiv_mono1)
  show ?thesis
  proof (cases "fp_exp a = fp_exp b")
    case True
    then have "max 1 (fp_field a) = max 1 (fp_field b)" by (simp add: fp_exp_def)
    then have "fp_sig a < fp_sig b" using sa sb assms(2) by simp
    then show ?thesis using True by simp
  next
    case False
    then have lt: "fp_exp a + 1 \<le> fp_exp b" and nz: "fp_field b \<noteq> 0"
      using le by (auto simp: fp_exp_def fp_field_def max_def split: if_splits)
    have "0 \<le> b mod 2 ^ 23" by simp
    then have "2 ^ 23 \<le> fp_sig b" unfolding fp_sig_def using nz by simp
    then have "(of_int (2 ^ 23) :: rat) \<le> of_int (fp_sig b)" by (simp only: of_int_le_iff)
    moreover have "(of_int (fp_sig a) :: rat) < of_int (2 ^ 24)"
      using fp_sig_range(2) [of a] by (simp only: of_int_less_iff)
    ultimately have "of_int (fp_sig a) * 2 powi fp_exp a < (2 * of_int (fp_sig b)) * (2::rat) powi fp_exp a"
      by (intro mult_strict_right_mono) auto
    also have "\<dots> = of_int (fp_sig b) * 2 powi (fp_exp a + 1)"
      using power_int_add [of "2::rat" "fp_exp a" 1] by simp
    also have "\<dots> \<le> of_int (fp_sig b) * 2 powi fp_exp b"
      using lt fp_sig_range(1) [of b] by (intro mult_left_mono power_int_increasing) auto
    finally show ?thesis .
  qed
qed

lemma f2fr_inj:
  assumes "f2fr a = Inr v" "f2fr b = Inr v" "v \<noteq> 0" "0 \<le> a" "a < 2 ^ 32" "0 \<le> b" "b < 2 ^ 32"
  shows "a = b"
proof -
  have split: "\<exists>s. (s = 0 \<or> s = 1) \<and> c = s * 2 ^ 31 + c mod 2 ^ 31 \<and> drop_bit 31 c = s \<and>
      fp_sig c = fp_sig (c mod 2 ^ 31) \<and> fp_exp c = fp_exp (c mod 2 ^ 31)"
    if "0 \<le> c" "c < 2 ^ 32" for c :: int
  proof -
    have "drop_bit 23 (take_bit 31 c) = take_bit 8 (drop_bit 23 c)" by (simp add: drop_bit_take_bit)
    then have "c mod 2 ^ 31 div 2 ^ 23 = c div 2 ^ 23 mod 2 ^ 8" by (simp only: take_bit_eq_mod drop_bit_eq_div)
    then have f: "fp_field (c mod 2 ^ 31) = fp_field c" unfolding fp_field_def by (simp only: mod_mod_trivial)
    have m: "c mod 2 ^ 31 mod 2 ^ 23 = c mod 2 ^ 23" by (simp add: mod_mod_cancel)
    have "c div 2 ^ 31 = 0 \<or> c div 2 ^ 31 = 1" using that by auto
    moreover have "c = c div 2 ^ 31 * 2 ^ 31 + c mod 2 ^ 31" by (simp only: div_mult_mod_eq)
    ultimately show ?thesis unfolding drop_bit_eq_div fp_sig_def fp_exp_def f m by blast
  qed
  obtain s where s: "s = 0 \<or> s = 1" "a = s * 2 ^ 31 + a mod 2 ^ 31" "drop_bit 31 a = s"
    "fp_sig a = fp_sig (a mod 2 ^ 31)" "fp_exp a = fp_exp (a mod 2 ^ 31)"
    using split [OF assms(4,5)] by blast
  obtain t where t: "t = 0 \<or> t = 1" "b = t * 2 ^ 31 + b mod 2 ^ 31" "drop_bit 31 b = t"
    "fp_sig b = fp_sig (b mod 2 ^ 31)" "fp_exp b = fp_exp (b mod 2 ^ 31)"
    using split [OF assms(6,7)] by blast
  let ?mag = "\<lambda>c. of_int (fp_sig c) * 2 powi fp_exp c :: rat"
  have mags: "?mag (a mod 2 ^ 31) = ?mag (b mod 2 ^ 31)"
    using f2fr_abs [OF assms(1)] f2fr_abs [OF assms(2)] s(4,5) t(4,5) by simp
  have lt: "0 \<le> a mod 2 ^ 31" "a mod 2 ^ 31 < 2 ^ 31" "0 \<le> b mod 2 ^ 31" "b mod 2 ^ 31 < 2 ^ 31" by simp_all
  have "\<not> a mod 2 ^ 31 < b mod 2 ^ 31" using fp_mag_strict_mono [OF lt(1) _ lt(4)] mags by auto
  moreover have "\<not> b mod 2 ^ 31 < a mod 2 ^ 31" using fp_mag_strict_mono [OF lt(3) _ lt(2)] mags by auto
  ultimately have same: "a mod 2 ^ 31 = b mod 2 ^ 31" by simp
  have "v = (if s = 0 then 1 else - 1) * ?mag a" "v = (if t = 0 then 1 else - 1) * ?mag a"
    using assms(1,2) s(3,4,5) t(3,4,5) mags unfolding f2fr_iff by simp_all
  then have "s = t" using assms(3) s(1) t(1) by auto
  with same s(2) t(2) show ?thesis by metis
qed

lemma fr2f_f2fr:
  assumes "f2fr b = Inr v" "v \<noteq> 0" "0 \<le> b" "b < 2 ^ 32"
  shows "fr2f v = Inr b"
proof -
  obtain r where r: "fr2f v = Inr r" "f2fr r = Inr v" by (rule fp.rnd_exact [OF assms(1)])
  moreover have "0 \<le> r" "r < 2 ^ 32" using fr2f_result [OF r(1)] by blast+
  ultimately have "r = b" using assms by (intro f2fr_inj [OF r(2) assms(1)])
  with r show ?thesis by simp
qed

section \<open>Properties\<close>

text \<open>C4: \<open>fr2f\<close> is correctly rounded. Whenever it returns a pattern, no finite FP32 pattern
  decodes to a value nearer to the exact fraction, and when another value is equally near, the
  returned pattern is the one with an even significand.\<close>

theorem fr2f_nearest_even:
  assumes "fr2f x = Inr r"
  shows "\<exists>v. f2fr r = Inr v \<and>
    (\<forall>b w. f2fr b = Inr w \<longrightarrow> \<bar>v - x\<bar> \<le> \<bar>w - x\<bar> \<and> (w \<noteq> v \<and> \<bar>w - x\<bar> = \<bar>v - x\<bar> \<longrightarrow> even r))"
  using fr2f_result [OF assms] fr2f_correct [OF assms] by blast

theorem fr2f_nearest_even_witness:
  "\<exists>u. fr2f (1 / 10) = Inr 0x3DCCCCCD \<and> f2fr 0x3DCCCCCD = Inr u \<and>
     (\<exists>w. f2fr 0x3DCCCCCC = Inr w \<and> \<bar>u - 1 / 10\<bar> \<le> \<bar>w - 1 / 10\<bar>)"
proof -
  have r: "fr2f (1 / 10) = Inr 0x3DCCCCCD" by code_simp
  have v: "f2fr 0x3DCCCCCC = Inr (3355443 / 33554432)" by code_simp
  from fr2f_nearest_even [OF r] r v show ?thesis by blast
qed

text \<open>C35: \<open>fr2f\<close> raises exactly on overflow: its assertion fails if and only if the magnitude is at
  least halfway from the largest finite FP32 number to the next binade, \<open>(2 ^ 25 - 1) * 2 ^ 103\<close>.\<close>

theorem fr2f_overflow_iff:
  "fr2f x = Inl err \<longleftrightarrow> (2 ^ 25 - 1) * 2 ^ 103 \<le> \<bar>x\<bar> \<and> err = AssertionError"
  using fr2f_overflow [of x err] by (simp add: fp_threshold_def)

text \<open>C34: decoding and rounding are inverse on every finite nonzero 32-bit pattern, subnormals
  included: \<open>fr2f\<close> of a pattern's exact value is that pattern.\<close>

theorem f2fr_fr2f_roundtrip:
  assumes "f2fr b = Inr v" "v \<noteq> 0" "0 \<le> b" "b < 2 ^ 32"
  shows "fr2f v = Inr b"
  by (rule fr2f_f2fr [OF assms])

theorem f2fr_fr2f_roundtrip_witness: "f2fr 1 = Inr (1 / 2 ^ 149) \<and> fr2f (1 / 2 ^ 149) = Inr 1"
proof -
  have v: "f2fr 1 = Inr (1 / 2 ^ 149)" by code_simp
  have "fr2f (1 / 2 ^ 149) = Inr 1" by (rule f2fr_fr2f_roundtrip [OF v]) simp_all
  with v show ?thesis by blast
qed

text \<open>rounding is monotone: of two fractions that both round without overflow, the larger has
  the larger (or equal) rounded value.\<close>

theorem fr2f_monotone:
  assumes "fr2f x = Inr r" "f2fr r = Inr v" "fr2f y = Inr s" "f2fr s = Inr w" "x \<le> y"
  shows "v \<le> w"
  by (rule fp.rnd_mono [OF assms])

theorem fr2f_monotone_witness: "fr2f (1 / 3) = Inr 0x3EAAAAAB \<and> (11184811 / 33554432 :: rat) \<le> 1 / 2"
proof -
  have a: "fr2f (1 / 3) = Inr 0x3EAAAAAB" "f2fr 0x3EAAAAAB = Inr (11184811 / 33554432)"
    "fr2f (1 / 2) = Inr 0x3F000000" "f2fr 0x3F000000 = Inr (1 / 2)"
    by code_simp+
  have "(11184811 / 33554432 :: rat) \<le> 1 / 2" by (rule fr2f_monotone [OF a]) simp
  with a(1) show ?thesis by blast
qed

text \<open>\<open>fma\<close> is fused: it decodes its three operands and returns a nearest FP32 number to the
  exact product plus the exact addend, with a single rounding.\<close>

theorem fma_single_rounding:
  assumes "fma a b c = Inr r"
  shows "\<exists>x y z v. f2fr a = Inr x \<and> f2fr b = Inr y \<and> f2fr c = Inr z \<and> f2fr r = Inr v \<and>
    (\<forall>d w. f2fr d = Inr w \<longrightarrow> \<bar>v - (x * y + z)\<bar> \<le> \<bar>w - (x * y + z)\<bar>)"
proof -
  obtain x y z where f: "f2fr a = Inr x" "f2fr b = Inr y" "f2fr c = Inr z" "fr2f (x * y + z) = Inr r"
    using assms by (auto simp: fma_def result_simps)
  obtain v where "f2fr r = Inr v" using fr2f_result [OF f(4)] by blast
  with f fr2f_correct(1) [OF f(4)] show ?thesis by blast
qed

text \<open>The witness is an input where two roundings give a different pattern.\<close>

theorem fma_single_rounding_witness:
  "fma 0x3F800001 0x3F800001 0xBF800002 = Inr 0x28800000 \<and>
   fmul 0x3F800001 0x3F800001 = Inr 0x3F800002 \<and> fadd 0x3F800002 0xBF800002 = Inr 0 \<and>
   (\<exists>v. f2fr 0x28800000 = Inr v)"
proof -
  have r: "fma 0x3F800001 0x3F800001 0xBF800002 = Inr 0x28800000" by code_simp
  have two: "fmul 0x3F800001 0x3F800001 = Inr 0x3F800002" "fadd 0x3F800002 0xBF800002 = Inr 0"
    by code_simp+
  have "\<exists>v. f2fr 0x28800000 = Inr v"
    using fma_single_rounding [OF r] by (elim exE conjE) (rule exI)
  with r two show ?thesis by (intro conjI)
qed

end
