(* ===== verification/Rng.thy ===== *)
theory Rng
  imports Fp32
begin

text \<open>
  The pseudo-random source of \<^verbatim>\<open>sim/gen_apps.py\<close>. A \<^verbatim>\<open>random.Random\<close> object is the
  tape of raw draws it will return; every operation the script uses consumes draws and maps
  them into its documented range the way CPython does, so each theorem about all tapes
  covers every seed. A generator is a function of the tape that returns a value and the rest
  of the tape, or raises.
\<close>

section \<open>Generators\<close>

type_synonym rng = "nat list"

type_synonym 'a gen = "rng \<Rightarrow> ('a \<times> rng) result"

definition returnG :: "'a \<Rightarrow> 'a gen" where
  "returnG x g = Inr (x, g)"

definition liftG :: "'a result \<Rightarrow> 'a gen" where
  "liftG r g = bindE r (\<lambda>x. Inr (x, g))"

definition bindG :: "'a gen \<Rightarrow> ('a \<Rightarrow> 'b gen) \<Rightarrow> 'b gen" where
  "bindG m f g = bindE (m g) (\<lambda>(x, g'). f x g')"

text \<open>\<^verbatim>\<open>[m for _ in range(n)]\<close> and a \<^verbatim>\<open>for\<close> loop whose body draws.\<close>

fun repeatG :: "nat \<Rightarrow> 'a gen \<Rightarrow> 'a list gen" where
  "repeatG 0 m = returnG []"
| "repeatG (Suc n) m = bindG m (\<lambda>x. bindG (repeatG n m) (\<lambda>xs. returnG (x # xs)))"

fun mapG :: "('a \<Rightarrow> 'b gen) \<Rightarrow> 'a list \<Rightarrow> 'b list gen" where
  "mapG f [] = returnG []"
| "mapG f (x # xs) = bindG (f x) (\<lambda>y. bindG (mapG f xs) (\<lambda>ys. returnG (y # ys)))"

fun foldG :: "('a \<Rightarrow> 's \<Rightarrow> 's gen) \<Rightarrow> 'a list \<Rightarrow> 's \<Rightarrow> 's gen" where
  "foldG f [] s = returnG s"
| "foldG f (x # xs) s = bindG (f x s) (foldG f xs)"

section \<open>The operations of random.Random\<close>

definition draw :: "nat gen" where
  "draw g = (case g of [] \<Rightarrow> Inr (0, []) | d # ds \<Rightarrow> Inr (d, ds))"

text \<open>\<^verbatim>\<open>randrange(n)\<close> raises \<^verbatim>\<open>ValueError\<close> on an empty range.\<close>

definition randrange :: "nat \<Rightarrow> nat gen" where
  "randrange n = (if n = 0 then liftG (Inl ValueError) else bindG draw (\<lambda>d. returnG (d mod n)))"

definition randint :: "int \<Rightarrow> int \<Rightarrow> int gen" where
  "randint a b = bindG (randrange (nat (b - a + 1))) (\<lambda>d. returnG (a + int d))"

definition getrandbits :: "nat \<Rightarrow> nat gen" where
  "getrandbits k = bindG draw (\<lambda>d. returnG (d mod 2 ^ k))"

text \<open>\<^verbatim>\<open>random()\<close>: a multiple of \<open>2 ^ -53\<close> in the unit interval.\<close>

definition random_unit :: "rat gen" where
  "random_unit = bindG (getrandbits 53) (\<lambda>d. returnG (of_nat d / 2 ^ 53))"

definition choice :: "'a list \<Rightarrow> 'a gen" where
  "choice xs = (if xs = [] then liftG (Inl IndexError)
     else bindG (randrange (length xs)) (\<lambda>i. returnG (xs ! i)))"

text \<open>
  \<^verbatim>\<open>sample(range(n), k)\<close>: \<open>k\<close> picks from a pool; the picked slot takes the pool's last element.
\<close>

fun sample_pool :: "nat \<Rightarrow> nat list \<Rightarrow> nat list gen" where
  "sample_pool 0 pool = returnG []"
| "sample_pool (Suc k) pool =
     bindG (randrange (length pool)) (\<lambda>j.
     bindG (sample_pool k (butlast (pool[j := last pool]))) (\<lambda>rest. returnG (pool ! j # rest)))"

definition sample_range :: "nat \<Rightarrow> nat \<Rightarrow> nat list gen" where
  "sample_range n k = (if k > n then liftG (Inl ValueError) else sample_pool k [0..<n])"

text \<open>
  \<^verbatim>\<open>rand_f32(rng)\<close> with its default bounds: \<^verbatim>\<open>uniform(-1.0, 1.0)\<close> is \<open>-1 + 2 * random()\<close>, exact in
  double precision, packed to FP32 with one rounding to nearest even.
\<close>

definition rand_f32 :: "int gen" where
  "rand_f32 = bindG random_unit (\<lambda>u. liftG (fr2f (- 1 + (1 - (- 1)) * u)))"

section \<open>Laws\<close>

lemma returnG_Inr [result_simps]: "returnG x g = Inr (y, g') \<longleftrightarrow> y = x \<and> g' = g"
  by (auto simp: returnG_def)

lemma liftG_Inr [result_simps]: "liftG r g = Inr (y, g') \<longleftrightarrow> r = Inr y \<and> g' = g"
  by (auto simp: liftG_def result_simps)

lemma bindG_Inr [result_simps]:
  "bindG m f g = Inr (y, g'') \<longleftrightarrow> (\<exists>x g'. m g = Inr (x, g') \<and> f x g' = Inr (y, g''))"
  by (auto simp: bindG_def result_simps)

lemma repeatG_Inr:
  "repeatG n m g = Inr (xs, g') \<Longrightarrow> length xs = n \<and> (\<forall>x \<in> set xs. \<exists>h h'. m h = Inr (x, h'))"
  by (induction n arbitrary: g xs) (fastforce simp: result_simps)+

lemma repeatG_all:
  assumes "repeatG n m g = Inr (xs, g')" and "\<And>h x h'. m h = Inr (x, h') \<Longrightarrow> P x"
  shows "length xs = n" and "x \<in> set xs \<Longrightarrow> P x"
  using repeatG_Inr [OF assms(1)] assms(2) by blast+

lemma repeatG_total: "(\<And>h. \<exists>x h'. m h = Inr (x, h')) \<Longrightarrow> \<exists>xs g'. repeatG n m g = Inr (xs, g')"
proof (induction n arbitrary: g)
  case 0
  then show ?case by (simp add: returnG_def)
next
  case (Suc n)
  obtain x h where "m g = Inr (x, h)" using Suc.prems by blast
  moreover obtain xs g' where "repeatG n m h = Inr (xs, g')" using Suc by blast
  ultimately show ?case by (auto simp: result_simps)
qed

lemma mapG_all:
  "mapG f xs g = Inr (ys, g') \<Longrightarrow> (\<And>x h y h'. f x h = Inr (y, h') \<Longrightarrow> P y) \<Longrightarrow> length ys = length xs \<and> (\<forall>y \<in> set ys. P y)"
  by (induction xs arbitrary: g ys) (fastforce simp: result_simps)+

lemma mapG_total: "(\<And>x h. \<exists>y h'. f x h = Inr (y, h')) \<Longrightarrow> \<exists>ys g'. mapG f xs g = Inr (ys, g')"
proof (induction xs arbitrary: g)
  case (Cons x xs)
  obtain y h where "f x g = Inr (y, h)" using Cons.prems by blast
  moreover obtain ys g' where "mapG f xs h = Inr (ys, g')" using Cons by blast
  ultimately show ?case by (auto simp: result_simps)
qed (simp add: returnG_def)

lemma foldG_total: "(\<And>x s g. x \<in> set xs \<Longrightarrow> \<exists>t g'. f x s g = Inr (t, g')) \<Longrightarrow> \<exists>t g'. foldG f xs s g = Inr (t, g')"
proof (induction xs arbitrary: s g)
  case (Cons x xs)
  obtain t h where "f x s g = Inr (t, h)" using Cons.prems by fastforce
  moreover obtain t' h' where "foldG f xs t h = Inr (t', h')" using Cons by fastforce
  ultimately show ?case by (auto simp: result_simps)
qed (simp add: returnG_def)

lemma draw_total: "\<exists>d g'. draw g = Inr (d, g')"
  by (cases g) (auto simp: draw_def)

lemma randrange_range: "randrange n g = Inr (d, g') \<Longrightarrow> d < n"
  by (auto simp: randrange_def result_simps split: if_splits)

lemma randrange_total: "0 < n \<Longrightarrow> \<exists>d g'. randrange n g = Inr (d, g')"
  using draw_total [of g] by (auto simp: randrange_def result_simps)

lemma randint_range: "randint a b g = Inr (x, g') \<Longrightarrow> a \<le> x \<and> x \<le> b"
  by (auto simp: randint_def result_simps dest!: randrange_range)

lemma randint_total: "a \<le> b \<Longrightarrow> \<exists>x g'. randint a b g = Inr (x, g')"
  using randrange_total [of "nat (b - a + 1)" g] by (auto simp: randint_def result_simps)

lemma getrandbits_range: "getrandbits k g = Inr (d, g') \<Longrightarrow> d < 2 ^ k"
  by (auto simp: getrandbits_def result_simps)

lemma getrandbits_total: "\<exists>d g'. getrandbits k g = Inr (d, g')"
  using draw_total [of g] by (auto simp: getrandbits_def result_simps)

lemma random_unit_range: "random_unit g = Inr (u, g') \<Longrightarrow> 0 \<le> u \<and> u < 1"
proof -
  assume "random_unit g = Inr (u, g')"
  then obtain d where "getrandbits 53 g = Inr (d, g')" and u: "u = of_nat d / 2 ^ 53"
    by (auto simp: random_unit_def result_simps)
  then have "(of_nat d :: rat) < of_nat (2 ^ 53)" by (simp only: of_nat_less_iff getrandbits_range)
  then show ?thesis by (simp add: u)
qed

lemma random_unit_total: "\<exists>u g'. random_unit g = Inr (u, g')"
proof -
  obtain d g' where "getrandbits 53 g = Inr (d, g')" using getrandbits_total by blast
  then have "random_unit g = Inr (of_nat d / 2 ^ 53, g')"
    by (simp add: random_unit_def bindG_def returnG_def)
  then show ?thesis by blast
qed

lemma choice_in: "choice xs g = Inr (x, g') \<Longrightarrow> x \<in> set xs"
  by (auto simp: choice_def result_simps dest!: randrange_range split: if_splits)

lemma choice_total: "xs \<noteq> [] \<Longrightarrow> \<exists>x g'. choice xs g = Inr (x, g')"
  using randrange_total [of "length xs" g] by (auto simp: choice_def result_simps)

lemma mset_pick:
  assumes "j < length pool"
  shows "add_mset (pool ! j) (mset (butlast (pool[j := last pool]))) = mset pool"
proof -
  obtain xs x where p: "pool = xs @ [x]" using assms by (cases pool rule: rev_cases) auto
  show ?thesis
  proof (cases "j = length xs")
    case True
    then show ?thesis by (simp add: p)
  next
    case False
    then have j: "j < length xs" using assms p by simp
    then have "mset (xs[j := x]) = add_mset x (mset xs - {#xs ! j#})" by (rule mset_update)
    moreover have "xs ! j \<in># mset xs" using j by simp
    ultimately show ?thesis using j by (simp add: p list_update_append nth_append butlast_append)
  qed
qed

lemma sample_pool_mset:
  "sample_pool k pool g = Inr (xs, g') \<Longrightarrow> length xs = k \<and> mset xs \<subseteq># mset pool"
proof (induction k arbitrary: pool g xs)
  case 0
  then show ?case by (auto simp: result_simps)
next
  case (Suc k)
  then obtain j h rest where j: "j < length pool"
    and r: "sample_pool k (butlast (pool[j := last pool])) h = Inr (rest, g')" and xs: "xs = pool ! j # rest"
    by (auto simp: result_simps dest!: randrange_range)
  have "length rest = k" "mset rest \<subseteq># mset (butlast (pool[j := last pool]))"
    using Suc.IH [OF r] by blast+
  then show ?case using mset_pick [OF j] by (simp add: xs) (metis mset_subset_eq_add_mset_cancel)
qed

lemma sample_pool_total: "k \<le> length pool \<Longrightarrow> \<exists>xs g'. sample_pool k pool g = Inr (xs, g')"
proof (induction k arbitrary: pool g)
  case 0
  then show ?case by (simp add: returnG_def)
next
  case (Suc k)
  then obtain j h where j: "randrange (length pool) g = Inr (j, h)"
    using randrange_total [of "length pool" g] by fastforce
  have "k \<le> length (butlast (pool[j := last pool]))" using Suc.prems by simp
  then obtain rest h' where "sample_pool k (butlast (pool[j := last pool])) h = Inr (rest, h')"
    using Suc.IH by blast
  with j show ?case by (auto simp: result_simps)
qed

lemma sample_range_spec:
  assumes "sample_range n k g = Inr (xs, g')"
  shows "length xs = k" "distinct xs" "x \<in> set xs \<Longrightarrow> x < n"
proof -
  have s: "length xs = k" "mset xs \<subseteq># mset [0..<n]"
    using assms sample_pool_mset [of k "[0..<n]" g xs g']
    by (auto simp: sample_range_def result_simps split: if_splits)
  show "length xs = k" by (rule s(1))
  show "distinct xs"
    unfolding distinct_count_atmost_1
  proof
    fix a
    have "count (mset xs) a \<le> count (mset [0..<n]) a" using s(2) by (rule mset_subset_eq_count)
    moreover have "count (mset [0..<n]) a = (if a \<in> set [0..<n] then 1 else 0)"
      using distinct_upt [of 0 n] unfolding distinct_count_atmost_1 by blast
    then have "count (mset [0..<n]) a \<le> 1" by simp
    ultimately have "count (mset xs) a \<le> 1" by (rule order_trans)
    show "count (mset xs) a = (if a \<in> set xs then 1 else 0)"
    proof (cases "a \<in> set xs")
      case True
      then have "1 \<le> count (mset xs) a" by (simp add: Suc_le_eq)
      with \<open>count (mset xs) a \<le> 1\<close> have "count (mset xs) a = 1" by (rule le_antisym)
      with True show ?thesis by simp
    qed (simp add: count_mset_0_iff)
  qed
  show "x < n" if "x \<in> set xs"
    using that set_mset_mono [OF s(2)] by auto
qed

lemma sample_range_total: "k \<le> n \<Longrightarrow> \<exists>xs g'. sample_range n k g = Inr (xs, g')"
  using sample_pool_total [of k "[0..<n]" g] by (simp add: sample_range_def)

lemma rand_f32_unit:
  assumes "rand_f32 g = Inr (b, g')"
  obtains v where "f2fr b = Inr v" "\<bar>v\<bar> \<le> 1"
proof -
  obtain u where "random_unit g = Inr (u, g')" and b: "fr2f (- 1 + 2 * u) = Inr b"
    using assms by (auto simp: rand_f32_def result_simps)
  then have u: "\<bar>- 1 + 2 * u\<bar> \<le> 1" using random_unit_range [of g u g'] by (auto simp: abs_if)
  obtain one where "f2fr one = Inr 1" using fp_int_representable [of 1] by auto
  from this u obtain r v where "fr2f (- 1 + 2 * u) = Inr r" "f2fr r = Inr v" "\<bar>v\<bar> \<le> 1"
    by (rule fp.rnd_bound)
  with b show thesis by (intro that) auto
qed

lemma rand_f32_total: "\<exists>b g'. rand_f32 g = Inr (b, g')"
proof -
  obtain u g' where u: "random_unit g = Inr (u, g')" using random_unit_total by blast
  then have "\<bar>- 1 + 2 * u\<bar> < fp_threshold"
    using random_unit_range [OF u] by (auto simp: abs_if fp_threshold_def)
  then obtain b where "fr2f (- 1 + 2 * u) = Inr b" using fr2f_defined by blast
  with u show ?thesis by (auto simp: rand_f32_def result_simps)
qed

end
