(* ===== verification/PyText.thy ===== *)
theory PyText
  imports Prelude
begin

text \<open>
  The text the scripts write and read: decimal and hexadecimal formatting
  (\<^verbatim>\<open>str\<close>, \<^verbatim>\<open>%x\<close>, \<^verbatim>\<open>%08x\<close>), \<^verbatim>\<open>str.split\<close>, \<^verbatim>\<open>str.join\<close>, and the reader of a
  hexadecimal numeral that a \<^verbatim>\<open>$readmemh\<close> image is parsed with.
\<close>

section \<open>Numerals\<close>

definition digit_char :: "nat \<Rightarrow> char" where
  "digit_char d = ''0123456789abcdef'' ! d"

fun digits :: "nat \<Rightarrow> nat \<Rightarrow> string" where
  "digits base n =
     (if base < 2 \<or> n < base then [digit_char n] else digits base (n div base) @ [digit_char (n mod base)])"

declare digits.simps [simp del]

definition str_nat :: "nat \<Rightarrow> string" where
  "str_nat n = digits 10 n"

definition str_int :: "int \<Rightarrow> string" where
  "str_int n = (if n < 0 then ''-'' @ str_nat (nat (- n)) else str_nat (nat n))"

definition hex :: "nat \<Rightarrow> string" where
  "hex n = digits 16 n"

definition zfill :: "nat \<Rightarrow> string \<Rightarrow> string" where
  "zfill w s = replicate (w - length s) (CHR ''0'') @ s"

definition hex8 :: "nat \<Rightarrow> string" where
  "hex8 n = zfill 8 (hex n)"

definition digit_val :: "char \<Rightarrow> nat option" where
  "digit_val c =
     (let n = of_char c :: nat
      in if 48 \<le> n \<and> n \<le> 57 then Some (n - 48)
         else if 97 \<le> n \<and> n \<le> 102 then Some (n - 87) else None)"

fun read_digits :: "nat \<Rightarrow> nat \<Rightarrow> string \<Rightarrow> nat option" where
  "read_digits base acc [] = Some acc"
| "read_digits base acc (c # cs) =
     (case digit_val c of
        None \<Rightarrow> None
      | Some d \<Rightarrow> if d < base then read_digits base (base * acc + d) cs else None)"

definition read_hex :: "string \<Rightarrow> nat option" where
  "read_hex s = (if s = [] then None else read_digits 16 0 s)"

lemma digit_val_char: "d < 16 \<Longrightarrow> digit_val (digit_char d) = Some d"
proof -
  have "\<forall>d \<in> set [0..<16]. digit_val (digit_char d) = Some d" by code_simp
  then show "d < 16 \<Longrightarrow> digit_val (digit_char d) = Some d" by simp
qed

lemma read_digits_append:
  "read_digits base acc (xs @ ys) =
     (case read_digits base acc xs of None \<Rightarrow> None | Some a \<Rightarrow> read_digits base a ys)"
  by (induction xs arbitrary: acc) (auto split: option.splits)

lemma read_digits_digits:
  assumes "2 \<le> base" "base \<le> 16"
  shows "read_digits base 0 (digits base n) = Some n"
proof (induction n rule: less_induct)
  case (less n)
  show ?case
  proof (cases "n < base")
    case True
    then show ?thesis using assms by (simp add: digits.simps digit_val_char)
  next
    case False
    then have "n div base < n" using assms by (simp add: div_less_dividend)
    then have "read_digits base 0 (digits base (n div base)) = Some (n div base)" by (rule less)
    moreover have "n mod base < base" "n mod base < 16"
      using assms mod_less_divisor [of base n] by linarith+
    ultimately show ?thesis using False assms
      by (simp add: digits.simps [of base n] read_digits_append digit_val_char)
  qed
qed

lemma digits_nonempty: "digits base n \<noteq> []"
  by (simp add: digits.simps)

lemma read_hex_hex [simp]: "read_hex (hex n) = Some n"
  by (simp add: read_hex_def hex_def digits_nonempty read_digits_digits)

lemma read_digits_zeros: "2 \<le> base \<Longrightarrow> read_digits base 0 (replicate k (CHR ''0'') @ s) = read_digits base 0 s"
proof (induction k)
  case 0
  then show ?case by simp
next
  case (Suc k)
  have "digit_val (CHR ''0'') = Some 0" by (simp add: digit_val_def)
  with Suc show ?case by simp
qed

lemma read_hex_hex8 [simp]: "read_hex (hex8 n) = Some n"
  by (simp add: read_hex_def hex8_def zfill_def hex_def digits_nonempty read_digits_zeros read_digits_digits)

lemma digits_in_alphabet:
  assumes "2 \<le> base" "base \<le> 16" "c \<in> set (digits base n)"
  shows "\<exists>d < base. c = digit_char d"
  using assms(3)
proof (induction n rule: less_induct)
  case (less n)
  show ?case
  proof (cases "n < base")
    case True
    then show ?thesis using less.prems by (auto simp: digits.simps)
  next
    case False
    then have lt: "n div base < n" using assms by (simp add: div_less_dividend)
    have "c \<in> set (digits base (n div base)) \<or> c = digit_char (n mod base)"
      using less.prems False assms(1,2) by (auto simp: digits.simps [of base n])
    moreover have "n mod base < base" using assms by simp
    ultimately show ?thesis using less.IH [OF lt] by blast
  qed
qed

lemma str_nat_digits: "c \<in> set (str_nat n) \<Longrightarrow> \<exists>d < 10. c = digit_char d"
  using digits_in_alphabet [of 10 c n] by (simp add: str_nat_def)

lemma str_nat_ne: "str_nat n \<noteq> []"
  by (simp add: str_nat_def digits_nonempty)

lemma hex_no_at: "CHR ''@'' \<notin> set (hex n)" "CHR ''@'' \<notin> set (hex8 n)"
proof -
  have "CHR ''@'' \<noteq> digit_char d" if "d < 16" for d
  proof
    assume "CHR ''@'' = digit_char d"
    then have "digit_val (CHR ''@'') = Some d" using digit_val_char [OF that] by simp
    then show False by (simp add: digit_val_def)
  qed
  then show "CHR ''@'' \<notin> set (hex n)" using digits_in_alphabet [of 16 "CHR ''@''" n] by (auto simp: hex_def)
  then show "CHR ''@'' \<notin> set (hex8 n)" by (auto simp: hex8_def zfill_def)
qed

lemma hex8_nonempty: "hex8 n \<noteq> []"
  by (simp add: hex8_def zfill_def hex_def digits_nonempty)

lemma str_nat_inject: "str_nat m = str_nat n \<longleftrightarrow> m = n"
proof
  assume "str_nat m = str_nat n"
  then have "read_digits 10 0 (digits 10 m) = read_digits 10 0 (digits 10 n)" by (simp add: str_nat_def)
  then show "m = n" by (simp add: read_digits_digits)
qed simp

section \<open>Splitting and joining\<close>

definition is_space :: "char \<Rightarrow> bool" where
  "is_space c \<longleftrightarrow> c \<in> set [CHR '' '', CHR ''\<newline>'', CHR 0x09, CHR 0x0B, CHR 0x0C, CHR 0x0D,
     CHR 0x1C, CHR 0x1D, CHR 0x1E, CHR 0x1F, CHR 0x85, CHR 0xA0]"

text \<open>\<^verbatim>\<open>s.split()\<close>: the maximal runs of characters that are not white space.\<close>

fun split_words :: "string \<Rightarrow> string \<Rightarrow> string list" where
  "split_words acc [] = (if acc = [] then [] else [rev acc])"
| "split_words acc (c # cs) =
     (if is_space c then (if acc = [] then split_words [] cs else rev acc # split_words [] cs)
      else split_words (c # acc) cs)"

definition split_ws :: "string \<Rightarrow> string list" where
  "split_ws s = split_words [] s"

text \<open>\<^verbatim>\<open>s.split(c)\<close>: always one more part than separators.\<close>

fun split_on :: "char \<Rightarrow> string \<Rightarrow> string list" where
  "split_on c [] = [[]]"
| "split_on c (x # xs) =
     (if x = c then [] # split_on c xs
      else (case split_on c xs of [] \<Rightarrow> [[x]] | w # ws \<Rightarrow> (x # w) # ws))"

fun join :: "string \<Rightarrow> string list \<Rightarrow> string" where
  "join sep [] = []"
| "join sep [s] = s"
| "join sep (s # t # ss) = s @ sep @ join sep (t # ss)"

lemma split_on_nonempty: "split_on c s \<noteq> []"
  by (induction s) (auto split: list.splits)

lemma split_on_no_sep: "c \<notin> set s \<Longrightarrow> split_on c s = [s]"
  by (induction s) auto

lemma split_on_append_sep: "c \<notin> set s \<Longrightarrow> split_on c (s @ c # t) = s # split_on c t"
  by (induction s) (auto split: list.splits)

lemma split_on_join:
  "ws \<noteq> [] \<Longrightarrow> (\<And>w. w \<in> set ws \<Longrightarrow> c \<notin> set w) \<Longrightarrow> split_on c (join [c] ws) = ws"
proof (induction ws rule: induct_list012)
  case (3 s t ss)
  then have "split_on c (join [c] (t # ss)) = t # ss" by auto
  with "3.prems"(2) [of s] show ?case by (simp add: split_on_append_sep)
qed (auto simp: split_on_no_sep)

lemma join_split_on: "join [c] (split_on c s) = s"
proof (induction s)
  case (Cons x xs)
  obtain w ws where sp: "split_on c xs = w # ws" using split_on_nonempty [of c xs] by (cases "split_on c xs") auto
  with Cons.IH show ?case by (cases ws) auto
qed simp

section \<open>Texts with backslashes\<close>

text \<open>In a text constant a backslash of the source is written \<^verbatim>\<open>@\<close>.\<close>

definition tx :: "string \<Rightarrow> string" where
  "tx s = map (\<lambda>c. if c = CHR ''@'' then CHR 0x5C else c) s"

end
