(* ===== verification/Image.thy ===== *)
theory Image
  imports Rng PyText
begin

unbundle bit_operations_syntax

text \<open>
  The DDR4 image of \<^verbatim>\<open>sim/gen_apps.py\<close>: class \<^verbatim>\<open>Image\<close> (a word dictionary and an allocation
  pointer), class \<^verbatim>\<open>Case\<close> (an image, its launches and the expected words), and
  \<^verbatim>\<open>place_kernels\<close>. A Python dictionary is an association list in insertion order.
\<close>

section \<open>Constants and global state\<close>

definition DDR_BASE :: nat where "DDR_BASE = 0x10000000"

definition UNSEEN :: int where "UNSEEN = 0xFFFFFFFF"

definition IRAM_WORDS :: nat where "IRAM_WORDS = 1024"

definition KERNELS :: "string list" where
  "KERNELS = [''gemm'', ''spmv'', ''stencil'', ''kmeans'', ''bfs'', ''scan'', ''scan_add'', ''mlp'', ''gemm_rb'',
     ''scan_seg'', ''scan_segadd'', ''stencil_rb'', ''kmeans_u'', ''zbtest'', ''spmv_z'']"

text \<open>The module globals an application reads: \<open>LANES\<close>, the DDR model's \<open>WORDS\<close>, \<open>SLOTS\<close>.\<close>

record config =
  LANES :: nat
  WORDS :: nat
  SLOTS :: "(string \<times> nat) list"

section \<open>Image\<close>

record image =
  img_words :: "(nat \<times> int) list"
  img_top :: nat

definition new_image :: image where
  "new_image = \<lparr>img_words = [], img_top = DDR_BASE\<rparr>"

text \<open>\<^verbatim>\<open>for i, v in enumerate(vals): d[addr + 4 * i] = v & 0xFFFF_FFFF\<close>.\<close>

fun put_words :: "nat \<Rightarrow> int list \<Rightarrow> (nat \<times> int) list \<Rightarrow> (nat \<times> int) list" where
  "put_words addr [] d = d"
| "put_words addr (v # vs) d = put_words (addr + 4) vs (AList.update addr (v AND 0xFFFFFFFF) d)"

definition line_up :: "nat \<Rightarrow> nat" where
  "line_up nwords = nat ((4 * int nwords + 31) AND NOT 31)"

definition alloc :: "nat \<Rightarrow> int list option \<Rightarrow> image \<Rightarrow> (nat \<times> image) result" where
  "alloc nwords init img =
     (let addr = img_top img;
          img1 = img\<lparr>img_top := addr + line_up nwords\<rparr>;
          vals = (case init of Some xs \<Rightarrow> xs | None \<Rightarrow> replicate nwords 0)
      in bindE (assertE (length vals = nwords)) (\<lambda>_.
           Inr (addr, img1\<lparr>img_words := put_words addr vals (img_words img1)\<rparr>)))"

text \<open>\<^verbatim>\<open>(a >> 2) & (WORDS - 1)\<close>.\<close>

definition word_index :: "nat \<Rightarrow> nat \<Rightarrow> nat" where
  "word_index words a = drop_bit 2 a AND (words - 1)"

text \<open>The lines \<^verbatim>\<open>Image.write\<close> emits for the keys in sorted order; \<open>prev\<close> is the last index written.\<close>

fun write_lines :: "nat \<Rightarrow> (nat \<times> int) list \<Rightarrow> nat option \<Rightarrow> nat list \<Rightarrow> string list" where
  "write_lines words d prev [] = []"
| "write_lines words d prev (a # as) =
     (let i = word_index words a
      in (if (case prev of None \<Rightarrow> True | Some p \<Rightarrow> i \<noteq> p + 1) then [''@'' @ hex i] else [])
         @ [hex8 (nat (the (map_of d a)))] @ write_lines words d (Some i) as)"

definition write_image :: "nat \<Rightarrow> image \<Rightarrow> string list" where
  "write_image words img = write_lines words (img_words img) None (sort (map fst (img_words img)))"

section \<open>Case\<close>

record launch =
  l_tag :: string
  l_slot :: nat
  l_param :: nat
  l_threads :: nat
  l_blk :: nat

record app_case =
  c_name :: string
  c_img :: image
  c_launches :: "launch list"
  c_gold :: "(nat \<times> int) list"

definition new_case :: "string \<Rightarrow> app_case" where
  "new_case name = \<lparr>c_name = name, c_img = new_image, c_launches = [], c_gold = []\<rparr>"

definition c_alloc :: "nat \<Rightarrow> int list option \<Rightarrow> app_case \<Rightarrow> (nat \<times> app_case) result" where
  "c_alloc nwords init c =
     bindE (alloc nwords init (c_img c)) (\<lambda>(a, img). Inr (a, c\<lparr>c_img := img\<rparr>))"

definition launch_case ::
  "config \<Rightarrow> string \<Rightarrow> string \<Rightarrow> int list \<Rightarrow> nat \<Rightarrow> nat \<Rightarrow> app_case \<Rightarrow> app_case result" where
  "launch_case cfg tag krn params threads blk c =
     bindE (c_alloc (length params) (Some params) c) (\<lambda>(p, c).
       case map_of (SLOTS cfg) krn of
         None \<Rightarrow> Inl KeyError
       | Some slot \<Rightarrow> Inr (c\<lparr>c_launches := c_launches c @
           [\<lparr>l_tag = tag, l_slot = slot, l_param = p, l_threads = threads, l_blk = blk\<rparr>]\<rparr>))"

definition expect :: "nat \<Rightarrow> int list \<Rightarrow> app_case \<Rightarrow> app_case" where
  "expect addr vals c = c\<lparr>c_gold := put_words addr vals (c_gold c)\<rparr>"

section \<open>Kernel placement\<close>

text \<open>
  \<open>files k\<close> is the text of \<^verbatim>\<open><kdir>/k.hex\<close>, if there is such a file; the loop keeps the next free slot and the
  dictionary.
\<close>

fun place_loop :: "(string \<Rightarrow> string option) \<Rightarrow> string list \<Rightarrow> nat \<Rightarrow> (string \<times> nat) list \<Rightarrow> (nat \<times> (string \<times> nat) list) result" where
  "place_loop files [] s d = Inr (s, d)"
| "place_loop files (k # ks) s d =
     (case files k of
        None \<Rightarrow> Inl FileNotFoundError
      | Some text \<Rightarrow>
          let n = length (split_ws text)
          in place_loop files ks (s + ceil_div n 16) (AList.update k s d))"

definition place_kernels :: "(string \<Rightarrow> string option) \<Rightarrow> (string \<times> nat) list \<Rightarrow> (string \<times> nat) list result" where
  "place_kernels files d0 =
     bindE (place_loop files KERNELS 0 d0) (\<lambda>(s, d).
     bindE (assertE (16 * s \<le> IRAM_WORDS)) (\<lambda>_. Inr d))"


section \<open>Word buffers\<close>

lemma word_mask: "v AND 0xFFFFFFFF = v mod 2 ^ 32" for v :: int
  using take_bit_eq_mask [of 32 v] by (simp add: take_bit_eq_mod mask_eq_exp_minus_1)

lemma map_of_put_words:
  "map_of (put_words addr vs d) k =
     (if addr \<le> k \<and> 4 dvd (k - addr) \<and> (k - addr) div 4 < length vs
      then Some (vs ! ((k - addr) div 4) mod 2 ^ 32) else map_of d k)"
proof (induction vs arbitrary: addr d k)
  case Nil
  then show ?case by simp
next
  case (Cons v vs)
  consider "k = addr" | "k < addr" | "addr < k" "k < addr + 4" | "addr + 4 \<le> k" by linarith
  then show ?case
  proof cases
    case 3
    then have "\<not> 4 dvd (k - addr)" by (auto dest!: dvd_imp_le)
    with 3 show ?thesis by (simp add: Cons.IH update_conv)
  next
    case 4
    define m where "m = k - (addr + 4)"
    have ka: "k - addr = m + 4" using 4 by (simp add: m_def)
    have "4 dvd m + 4 \<longleftrightarrow> 4 dvd m" by presburger
    moreover have "map_of (put_words addr (v # vs) d) k =
        (if 4 dvd m \<and> m div 4 < length vs then Some (vs ! (m div 4) mod 2 ^ 32) else map_of d k)"
      unfolding put_words.simps Cons.IH m_def using 4 by (simp add: update_conv)
    ultimately show ?thesis using 4 unfolding ka by simp
  qed (simp_all add: Cons.IH update_conv word_mask)
qed

lemma put_words_nth: "i < length vs \<Longrightarrow> map_of (put_words addr vs d) (addr + 4 * i) = Some (vs ! i mod 2 ^ 32)"
  by (simp add: map_of_put_words)

lemma dom_put_words: "dom (map_of (put_words addr vs d)) = dom (map_of d) \<union> (\<lambda>i. addr + 4 * i) ` {..<length vs}"
proof -
  have "addr \<le> k \<and> 4 dvd (k - addr) \<and> (k - addr) div 4 < length vs \<longleftrightarrow> k \<in> (\<lambda>i. addr + 4 * i) ` {..<length vs}" for k
    by (auto simp: image_iff) (metis dvd_mult_div_cancel le_add_diff_inverse lessThan_iff)
  then show ?thesis by (auto simp: map_of_put_words dom_def)
qed

lemma distinct_put_words: "distinct (map fst d) \<Longrightarrow> distinct (map fst (put_words addr vs d))"
  by (induction vs arbitrary: addr d) (auto simp: distinct_update)

lemma and_not_31: "x AND NOT 31 = x - x mod 32" for x :: int
proof -
  have m: "x mod 32 = x AND 31"
    using take_bit_eq_mask [of 5 x] by (simp add: take_bit_eq_mod mask_eq_exp_minus_1)
  have "x - (x AND 31) = x AND NOT (x AND 31)"
    by (rule disjunctive_diff) (simp add: bit_and_iff)
  also have "\<dots> = x AND NOT 31"
    by (simp only: bit.conj_disj_distrib bit.de_Morgan_conj bit.conj_cancel_right or.left_neutral)
  finally show ?thesis by (simp add: m)
qed

lemma line_up: "line_up n = 32 * ((4 * n + 31) div 32)"
proof -
  have "4 * int n + 31 - (4 * int n + 31) mod 32 = 32 * ((4 * int n + 31) div 32)"
    by (simp add: minus_mod_eq_mult_div)
  also have "\<dots> = int (32 * ((4 * n + 31) div 32))" by (simp add: zdiv_int)
  finally show ?thesis by (simp only: line_up_def and_not_31 nat_int)
qed

lemma line_up_ge: "4 * n \<le> line_up n" and line_up_dvd: "32 dvd line_up n"
  by (auto simp: line_up)

section \<open>The allocator's invariant\<close>

definition image_ok :: "image \<Rightarrow> bool" where
  "image_ok img \<longleftrightarrow>
     distinct (map fst (img_words img)) \<and> 32 dvd img_top img \<and> DDR_BASE \<le> img_top img \<and>
     (\<forall>a v. map_of (img_words img) a = Some v \<longrightarrow>
        DDR_BASE \<le> a \<and> a < img_top img \<and> 4 dvd a \<and> 0 \<le> v \<and> v < 2 ^ 32)"

lemma new_image_ok: "image_ok new_image"
  by (simp add: image_ok_def new_image_def DDR_BASE_def)

lemma alloc_Inr:
  "alloc n init img = Inr (a, img') \<longleftrightarrow>
     a = img_top img \<and>
     length (case init of Some xs \<Rightarrow> xs | None \<Rightarrow> replicate n 0) = n \<and>
     img' = \<lparr>img_words = put_words a (case init of Some xs \<Rightarrow> xs | None \<Rightarrow> replicate n 0) (img_words img),
             img_top = a + line_up n\<rparr>"
  by (cases img) (auto simp: alloc_def Let_def result_simps)

lemma alloc_ok:
  assumes ok: "image_ok img" and al: "alloc n init img = Inr (a, img')"
  shows "image_ok img'"
proof -
  let ?vs = "case init of Some xs \<Rightarrow> xs | None \<Rightarrow> replicate n 0"
  have a: "a = img_top img" "length ?vs = n"
    and w: "img_words img' = put_words a ?vs (img_words img)" and t: "img_top img' = a + line_up n"
    using al by (auto simp: alloc_Inr)
  have "DDR_BASE \<le> k \<and> k < img_top img' \<and> 4 dvd k \<and> 0 \<le> v \<and> v < 2 ^ 32"
    if k: "map_of (img_words img') k = Some v" for k v
  proof (cases "a \<le> k \<and> 4 dvd (k - a) \<and> (k - a) div 4 < length ?vs")
    case True
    have "4 dvd a" using ok a by (auto simp: image_ok_def intro: dvd_trans)
    then have "4 dvd a + (k - a)" using True by (intro dvd_add) auto
    moreover have "k - a < 4 * n" using True a by (auto elim!: dvdE)
    ultimately show ?thesis
      using True k ok a line_up_ge [of n] by (auto simp: w t map_of_put_words image_ok_def)
  next
    case False
    then have "map_of (img_words img) k = Some v" using k by (simp only: w map_of_put_words if_False)
    then have "DDR_BASE \<le> k \<and> k < img_top img \<and> 4 dvd k \<and> 0 \<le> v \<and> v < 2 ^ 32"
      using ok unfolding image_ok_def by blast
    then show ?thesis using a t by linarith
  qed
  moreover have "32 dvd img_top img'" using ok a line_up_dvd by (auto simp: t image_ok_def)
  ultimately show ?thesis
    using ok a by (auto simp: image_ok_def w t distinct_put_words)
qed


section \<open>The interface of a buffer store\<close>

text \<open>
  What every application relies on: an allocation returns a fresh buffer above everything
  stored, its words read back modulo \<open>2 ^ 32\<close>, and no other word changes.
\<close>

definition init_vals :: "nat \<Rightarrow> int list option \<Rightarrow> int list" where
  "init_vals n init = (case init of Some xs \<Rightarrow> xs | None \<Rightarrow> replicate n 0)"

fun alloc_seq :: "(nat \<Rightarrow> int list option \<Rightarrow> 's \<Rightarrow> (nat \<times> 's) result) \<Rightarrow> (nat \<times> int list option) list \<Rightarrow> 's
    \<Rightarrow> (nat list \<times> 's) result" where
  "alloc_seq put [] s = Inr ([], s)"
| "alloc_seq put ((n, init) # rs) s =
     bindE (put n init s) (\<lambda>(a, s). bindE (alloc_seq put rs s) (\<lambda>(as, s). Inr (a # as, s)))"

locale buffer_store =
  fixes put :: "nat \<Rightarrow> int list option \<Rightarrow> 's \<Rightarrow> (nat \<times> 's) result"
    and look :: "'s \<Rightarrow> nat \<Rightarrow> int option"
    and lim :: "'s \<Rightarrow> nat"
    and inv :: "'s \<Rightarrow> bool"
  assumes inv_put: "inv s \<Longrightarrow> put n init s = Inr (a, t) \<Longrightarrow> inv t"
    and put_size: "put n init s = Inr (a, t) \<Longrightarrow> length (init_vals n init) = n"
    and put_fresh: "put n init s = Inr (a, t) \<Longrightarrow> lim s \<le> a \<and> a + 4 * n \<le> lim t"
    and look_new: "put n init s = Inr (a, t) \<Longrightarrow> i < n \<Longrightarrow> look t (a + 4 * i) = Some (init_vals n init ! i mod 2 ^ 32)"
    and look_old: "put n init s = Inr (a, t) \<Longrightarrow> k < a \<Longrightarrow> look t k = look s k"
    and put_line: "inv s \<Longrightarrow> put n init s = Inr (a, t) \<Longrightarrow> 32 dvd a \<and> DDR_BASE \<le> a"
begin

lemma lim_mono: "put n init s = Inr (a, t) \<Longrightarrow> lim s \<le> lim t"
  using put_fresh by fastforce

lemma seq_lim: "alloc_seq put rs s = Inr (as, t) \<Longrightarrow> lim s \<le> lim t \<and> (\<forall>a \<in> set as. lim s \<le> a)"
proof (induction rs arbitrary: s as)
  case (Cons r rs)
  obtain n init where r: "r = (n, init)" by (cases r)
  then obtain a u as' where u: "put n init s = Inr (a, u)" "alloc_seq put rs u = Inr (as', t)" "as = a # as'"
    using Cons.prems by (auto simp: result_simps)
  have "lim s \<le> a" "lim s \<le> lim u" using put_fresh [OF u(1)] by auto
  moreover have "lim u \<le> lim t" "\<forall>b \<in> set as'. lim u \<le> b" using Cons.IH [OF u(2)] by auto
  ultimately show ?case using u(3) by fastforce
qed simp

lemma seq_inv: "inv s \<Longrightarrow> alloc_seq put rs s = Inr (as, t) \<Longrightarrow> inv t"
  by (induction rs arbitrary: s as) (fastforce simp: result_simps dest: inv_put)+

lemma seq_old: "alloc_seq put rs s = Inr (as, t) \<Longrightarrow> k < lim s \<Longrightarrow> look t k = look s k"
proof (induction rs arbitrary: s as)
  case (Cons r rs)
  obtain n init where r: "r = (n, init)" by (cases r)
  then obtain a u as' where u: "put n init s = Inr (a, u)" "alloc_seq put rs u = Inr (as', t)"
    using Cons.prems by (auto simp: result_simps)
  have "k < lim u" "k < a" using put_fresh [OF u(1)] Cons.prems(2) by auto
  then show ?case using Cons.IH [OF u(2)] look_old [OF u(1)] by simp
qed simp

text \<open>Every buffer starts on a line of the window and ends below the last limit.\<close>

lemma seq_window:
  "inv s \<Longrightarrow> alloc_seq put rs s = Inr (as, t) \<Longrightarrow> i < length rs \<Longrightarrow>
     32 dvd as ! i \<and> DDR_BASE \<le> as ! i \<and> as ! i + 4 * fst (rs ! i) \<le> lim t"
proof (induction rs arbitrary: s as i)
  case (Cons r rs)
  obtain n init where r: "r = (n, init)" by (cases r)
  then obtain a u as' where u: "put n init s = Inr (a, u)" "alloc_seq put rs u = Inr (as', t)" "as = a # as'"
    using Cons.prems by (auto simp: result_simps)
  show ?case
  proof (cases i)
    case 0
    have "a + 4 * n \<le> lim u" "lim u \<le> lim t" using put_fresh [OF u(1)] seq_lim [OF u(2)] by auto
    then show ?thesis using 0 r u(3) put_line [OF Cons.prems(1) u(1)] by simp
  next
    case (Suc i')
    then show ?thesis using Cons.IH [OF inv_put [OF Cons.prems(1) u(1)] u(2), of i'] Cons.prems(3) u(3) by simp
  qed
qed simp

text \<open>No buffer is overwritten by a later allocation, and two buffers never overlap.\<close>

lemma seq_reads_back:
  "alloc_seq put rs s = Inr (as, t) \<Longrightarrow> i < length rs \<Longrightarrow> j < fst (rs ! i)
     \<Longrightarrow> look t (as ! i + 4 * j) = Some (init_vals (fst (rs ! i)) (snd (rs ! i)) ! j mod 2 ^ 32)"
proof (induction rs arbitrary: s as i)
  case (Cons r rs)
  obtain n init where r: "r = (n, init)" by (cases r)
  then obtain a u as' where u: "put n init s = Inr (a, u)" "alloc_seq put rs u = Inr (as', t)" "as = a # as'"
    using Cons.prems by (auto simp: result_simps)
  show ?case
  proof (cases i)
    case 0
    then have "a + 4 * j < lim u" using put_fresh [OF u(1)] Cons.prems(3) r by simp
    then show ?thesis using 0 r u(3) Cons.prems(3) look_new [OF u(1), of j] seq_old [OF u(2)] by simp
  next
    case (Suc i')
    then show ?thesis using Cons.IH [OF u(2), of i'] Cons.prems u(3) by simp
  qed
qed simp

lemma seq_disjoint:
  "alloc_seq put rs s = Inr (as, t) \<Longrightarrow> length as = length rs \<and>
     (\<forall>i j. i < j \<and> j < length rs \<longrightarrow> as ! i + 4 * fst (rs ! i) \<le> as ! j)"
proof (induction rs arbitrary: s as)
  case (Cons r rs)
  obtain n init where r: "r = (n, init)" by (cases r)
  then obtain a u as' where u: "put n init s = Inr (a, u)" "alloc_seq put rs u = Inr (as', t)" "as = a # as'"
    using Cons.prems by (auto simp: result_simps)
  have IH: "length as' = length rs" "i < j \<Longrightarrow> j < length rs \<Longrightarrow> as' ! i + 4 * fst (rs ! i) \<le> as' ! j" for i j
    using Cons.IH [OF u(2)] by auto
  have "(a # as') ! i + 4 * fst (((n, init) # rs) ! i) \<le> (a # as') ! j" if ij: "i < j" "j < Suc (length rs)" for i j
  proof -
    obtain j' where j: "j = Suc j'" using ij(1) by (cases j) auto
    show ?thesis
    proof (cases i)
      case 0
      have "as' ! j' \<in> set as'" using ij j IH(1) by simp
      then have "lim u \<le> as' ! j'" using seq_lim [OF u(2)] by blast
      then show ?thesis using 0 j put_fresh [OF u(1)] by simp
    next
      case (Suc i')
      then show ?thesis using IH(2) [of i' j'] ij j by simp
    qed
  qed
  then show ?case using u(3) r IH(1) by simp
qed simp

end

definition img_look :: "image \<Rightarrow> nat \<Rightarrow> int option" where
  "img_look img = map_of (img_words img)"

lemma init_vals_case: "(case init of Some xs \<Rightarrow> xs | None \<Rightarrow> replicate n 0) = init_vals n init"
  by (simp add: init_vals_def)

interpretation ddr: buffer_store alloc img_look img_top image_ok
proof
  fix n init s a t k i
  show "image_ok s \<Longrightarrow> alloc n init s = Inr (a, t) \<Longrightarrow> image_ok t" by (rule alloc_ok)
  assume al: "alloc n init s = Inr (a, t)"
  then have t: "a = img_top s" "length (init_vals n init) = n" "img_top t = a + line_up n"
      "img_words t = put_words a (init_vals n init) (img_words s)"
    by (auto simp: alloc_Inr init_vals_case)
  show "length (init_vals n init) = n" by (rule t)
  show "img_top s \<le> a \<and> a + 4 * n \<le> img_top t" using line_up_ge [of n] by (simp add: t)
  show "i < n \<Longrightarrow> img_look t (a + 4 * i) = Some (init_vals n init ! i mod 2 ^ 32)"
    by (simp only: img_look_def t(4) put_words_nth t(2))
  show "k < a \<Longrightarrow> img_look t k = img_look s k" by (simp add: img_look_def t(4) map_of_put_words)
  show "image_ok s \<Longrightarrow> 32 dvd a \<and> DDR_BASE \<le> a" by (simp add: image_ok_def t(1))
qed

lemma alloc_total: "length (init_vals n init) = n \<Longrightarrow> \<exists>t. alloc n init s = Inr (img_top s, t)"
  by (simp add: alloc_Inr init_vals_case)


section \<open>The reader of an image file\<close>

text \<open>
  The contract of the written file: \<^verbatim>\<open>$readmemh\<close> of the testbench takes the lines in order, a
  line \<open>@a\<close> moves the pointer, every other line stores a word at the pointer and advances it.
\<close>

fun read_mem :: "string list \<Rightarrow> nat \<Rightarrow> (nat \<rightharpoonup> nat) \<Rightarrow> (nat \<rightharpoonup> nat) option" where
  "read_mem [] p m = Some m"
| "read_mem (l # ls) p m =
     (case l of
        [] \<Rightarrow> read_mem ls p m
      | c # cs \<Rightarrow>
          if c = CHR ''@'' then (case read_hex cs of None \<Rightarrow> None | Some a \<Rightarrow> read_mem ls a m)
          else (case read_hex l of None \<Rightarrow> None | Some v \<Rightarrow> read_mem ls (p + 1) (m(p \<mapsto> v))))"

lemma read_mem_word: "read_mem (hex8 v # ls) p m = read_mem ls (p + 1) (m(p \<mapsto> v))"
proof -
  obtain c cs where h: "hex8 v = c # cs" using hex8_nonempty by (cases "hex8 v") auto
  then have "c \<noteq> CHR ''@''" using hex_no_at(2) [of v] by auto
  moreover have "read_hex (c # cs) = Some v" using read_hex_hex8 [of v] h by simp
  ultimately show ?thesis by (simp add: h)
qed

lemma read_mem_at: "read_mem ((''@'' @ hex a) # ls) p m = read_mem ls a m"
  by simp

definition poke :: "('a \<Rightarrow> nat) \<Rightarrow> ('a \<Rightarrow> nat) \<Rightarrow> 'a \<Rightarrow> (nat \<rightharpoonup> nat) \<Rightarrow> (nat \<rightharpoonup> nat)" where
  "poke f g a m = m(f a \<mapsto> g a)"

lemma poke_apply: "poke f g a m = m(f a \<mapsto> g a)"
  by (simp add: poke_def)

lemma poke_get: "poke f g a m k = (if k = f a then Some (g a) else m k)"
  by (simp add: poke_def)

lemma read_write_lines:
  assumes "case prev of None \<Rightarrow> True | Some q \<Rightarrow> p = q + 1"
  shows "read_mem (write_lines words d prev as) p m =
     Some (fold (poke (word_index words) (\<lambda>a. nat (the (map_of d a)))) as m)"
  using assms
proof (induction as arbitrary: prev p m)
  case (Cons a as)
  let ?i = "word_index words a"
  let ?m = "poke (word_index words) (\<lambda>a. nat (the (map_of d a))) a m"
  have "read_mem (write_lines words d (Some ?i) as) (?i + 1) ?m
      = Some (fold (poke (word_index words) (\<lambda>a. nat (the (map_of d a)))) as ?m)"
    by (rule Cons.IH) simp
  moreover have "read_mem (write_lines words d prev (a # as)) p m
      = read_mem (write_lines words d (Some ?i) as) (?i + 1) ?m"
  proof (cases "case prev of None \<Rightarrow> True | Some q \<Rightarrow> ?i \<noteq> q + 1")
    case True
    then have "write_lines words d prev (a # as) =
        (''@'' @ hex ?i) # hex8 (nat (the (map_of d a))) # write_lines words d (Some ?i) as"
      by (simp add: Let_def)
    then show ?thesis by (simp only: read_mem_at read_mem_word poke_apply)
  next
    case False
    then have "p = ?i" using Cons.prems by (cases prev) auto
    moreover have "write_lines words d prev (a # as) =
        hex8 (nat (the (map_of d a))) # write_lines words d (Some ?i) as"
      using False by (simp add: Let_def)
    ultimately show ?thesis by (simp only: read_mem_word poke_apply)
  qed
  ultimately show ?case by (simp only: fold_simps o_apply)
qed simp

lemma word_index_eq:
  assumes "lg \<le> 26" "DDR_BASE \<le> a" "4 dvd a" "a - DDR_BASE < 4 * 2 ^ lg"
  shows "word_index (2 ^ lg) a = (a - DDR_BASE) div 4"
proof -
  have "word_index (2 ^ lg) a = take_bit lg (a div 4)"
    by (simp add: word_index_def drop_bit_eq_div take_bit_eq_mask mask_eq_exp_minus_1)
  also have "\<dots> = (a div 4) mod 2 ^ lg" by (rule take_bit_eq_mod)
  finally have w: "word_index (2 ^ lg) a = (a div 4) mod 2 ^ lg" .
  obtain q where a: "a = DDR_BASE + q" using assms(2) le_Suc_ex by blast
  have b: "DDR_BASE = 4 * (2 ^ lg * 2 ^ (26 - lg))"
    using assms(1) by (simp add: DDR_BASE_def flip: power_add)
  have "a div 4 = 2 ^ lg * 2 ^ (26 - lg) + q div 4" unfolding a b by simp
  moreover have "q div 4 < 2 ^ lg" using assms(4) a by (simp add: div_less_iff_less_mult mult.commute)
  ultimately show ?thesis using a w by simp
qed

text \<open>The memory an image file stands for: word \<open>i\<close> of the DDR model is the word at \<open>DDR_BASE + 4 * i\<close>.\<close>

definition ddr_words :: "image \<Rightarrow> nat \<rightharpoonup> nat" where
  "ddr_words img i = map_option nat (img_look img (DDR_BASE + 4 * i))"

lemma fold_upd:
  assumes "inj_on f (set as)"
  shows "fold (poke f g) as m k = (if \<exists>a \<in> set as. f a = k then Some (g (THE a. a \<in> set as \<and> f a = k)) else m k)"
  using assms
proof (induction as arbitrary: m)
  case (Cons a as)
  have IH: "fold (poke f g) as (poke f g a m) k =
     (if \<exists>b \<in> set as. f b = k then Some (g (THE b. b \<in> set as \<and> f b = k)) else poke f g a m k)"
    by (rule Cons.IH) (use Cons.prems in \<open>simp add: inj_on_def\<close>)
  have the: "(THE c. c \<in> set (a # as) \<and> f c = k) = b" if "b \<in> set (a # as)" "f b = k" for b
    using that Cons.prems by (intro the_equality) (auto simp: inj_on_def)
  have the': "(THE c. c \<in> set as \<and> f c = k) = b" if "b \<in> set as" "f b = k" for b
    using that Cons.prems by (intro the_equality) (auto simp: inj_on_def)
  show ?case
  proof (cases "\<exists>b \<in> set as. f b = k")
    case True
    then obtain b where b: "b \<in> set as" "f b = k" by blast
    then have "(\<exists>b \<in> set (a # as). f b = k) = True" by auto
    moreover have "(THE c. c \<in> set (a # as) \<and> f c = k) = b" by (rule the) (use b in auto)
    moreover have "fold (poke f g) (a # as) m k = Some (g b)" using IH True the' [OF b] by simp
    ultimately show ?thesis by (simp only: if_True)
  next
    case False
    then have "fold (poke f g) (a # as) m k = poke f g a m k" using IH by (simp only: fold_simps o_apply if_False)
    also have "\<dots> = (if k = f a then Some (g a) else m k)" by (rule poke_get)
    finally show ?thesis using False the [of a] by auto
  qed
qed simp

lemma write_read_image:
  assumes ok: "image_ok img" and fits: "img_top img - DDR_BASE \<le> 4 * 2 ^ lg" and lg: "lg \<le> 26"
  shows "read_mem (write_image (2 ^ lg) img) 0 Map.empty = Some (ddr_words img)"
proof -
  let ?as = "sort (map fst (img_words img))"
  let ?w = "img_words img"
  have key: "\<exists>v. map_of ?w a = Some v \<and> 0 \<le> v" "DDR_BASE \<le> a" "4 dvd a" "a - DDR_BASE < 4 * 2 ^ lg"
    if a: "a \<in> set ?as" for a
  proof -
    obtain v where v: "map_of ?w a = Some v" using a by (auto simp: map_of_eq_None_iff dest: weak_map_of_SomeI)
    then have *: "DDR_BASE \<le> a \<and> a < img_top img \<and> 4 dvd a \<and> 0 \<le> v" using ok by (auto simp: image_ok_def)
    then show "\<exists>v. map_of ?w a = Some v \<and> 0 \<le> v" "DDR_BASE \<le> a" "4 dvd a" "a - DDR_BASE < 4 * 2 ^ lg"
      using v fits by auto
  qed
  have idx: "word_index (2 ^ lg) a = (a - DDR_BASE) div 4" if "a \<in> set ?as" for a
    using word_index_eq [OF lg key(2,3,4)] that by blast
  have addr_of: "a = DDR_BASE + 4 * i" if "a \<in> set ?as" "word_index (2 ^ lg) a = i" for a i
  proof -
    have "4 dvd a - DDR_BASE" using key(3) [OF that(1)] by (auto simp: DDR_BASE_def)
    then show ?thesis using idx [OF that(1)] that(2) key(2) [OF that(1)] by auto
  qed
  have inj: "inj_on (word_index (2 ^ lg)) (set ?as)" using addr_of by (metis inj_onI)
  have "fold (poke (word_index (2 ^ lg)) (\<lambda>a. nat (the (map_of ?w a)))) ?as Map.empty i = ddr_words img i" for i
  proof (cases "\<exists>a \<in> set ?as. word_index (2 ^ lg) a = i")
    case True
    then obtain a where a: "a \<in> set ?as" "word_index (2 ^ lg) a = i" by blast
    then have "(THE b. b \<in> set ?as \<and> word_index (2 ^ lg) b = i) = a"
      using inj by (intro the_equality) (auto simp: inj_on_def)
    moreover obtain v where "map_of ?w a = Some v" using key(1) [OF a(1)] by blast
    ultimately show ?thesis using True addr_of [OF a] by (simp add: fold_upd [OF inj] ddr_words_def img_look_def)
  next
    case False
    have "map_of ?w (DDR_BASE + 4 * i) = None"
    proof (rule ccontr)
      assume "map_of ?w (DDR_BASE + 4 * i) \<noteq> None"
      then have "DDR_BASE + 4 * i \<in> set ?as" by (auto simp: map_of_eq_None_iff)
      moreover from this have "word_index (2 ^ lg) (DDR_BASE + 4 * i) = i" using idx by simp
      ultimately show False using False by blast
    qed
    then show ?thesis using False by (simp add: fold_upd [OF inj] ddr_words_def img_look_def)
  qed
  then show ?thesis unfolding write_image_def by (subst read_write_lines) (simp_all add: fun_eq_iff)
qed


section \<open>Kernel placement\<close>

definition kernel_len :: "(string \<Rightarrow> string option) \<Rightarrow> string \<Rightarrow> nat" where
  "kernel_len files k = (case files k of None \<Rightarrow> 0 | Some text \<Rightarrow> length (split_ws text))"

definition kernel_slots :: "(string \<Rightarrow> string option) \<Rightarrow> string \<Rightarrow> nat" where
  "kernel_slots files k = ceil_div (kernel_len files k) 16"

lemma kernel_slots_ge: "kernel_len files k \<le> 16 * kernel_slots files k"
  by (simp add: kernel_slots_def ceil_div_def)

text \<open>The loop when all files are there, and in general.\<close>

fun slots_loop :: "(string \<Rightarrow> string option) \<Rightarrow> string list \<Rightarrow> nat \<Rightarrow> (string \<times> nat) list \<Rightarrow> (string \<times> nat) list" where
  "slots_loop files [] s d = d"
| "slots_loop files (k # ks) s d = slots_loop files ks (s + kernel_slots files k) (AList.update k s d)"

lemma place_loop_eq:
  "place_loop files ks s d =
     (if \<forall>k \<in> set ks. files k \<noteq> None then Inr (s + sum_list (map (kernel_slots files) ks), slots_loop files ks s d)
      else Inl FileNotFoundError)"
proof (induction ks arbitrary: s d)
  case (Cons k ks)
  show ?case
  proof (cases "files k")
    case (Some t)
    then have "ceil_div (length (split_ws t)) 16 = kernel_slots files k" by (simp add: kernel_slots_def kernel_len_def)
    then show ?thesis using Some Cons.IH by (auto simp: Let_def)
  qed simp
qed simp

lemma slots_loop_other: "k \<notin> set ks \<Longrightarrow> map_of (slots_loop files ks s d) k = map_of d k"
  by (induction ks arbitrary: s d) (simp_all add: update_conv)

lemma slots_loop_slot:
  "distinct ks \<Longrightarrow> i < length ks \<Longrightarrow>
     map_of (slots_loop files ks s d) (ks ! i) = Some (s + sum_list (map (kernel_slots files) (take i ks)))"
proof (induction ks arbitrary: s d i)
  case (Cons k ks)
  show ?case
  proof (cases i)
    case 0
    then show ?thesis using Cons.prems by (simp add: slots_loop_other update_conv)
  next
    case (Suc j)
    then show ?thesis using Cons.prems Cons.IH [of j "s + kernel_slots files k"] by (simp add: add.assoc)
  qed
qed simp

lemma sum_take_le: "i \<le> j \<Longrightarrow> sum_list (map f (take i xs)) \<le> sum_list (map f (take j xs))" for f :: "'a \<Rightarrow> nat"
proof -
  assume "i \<le> j"
  then have "take j xs = take i xs @ take (j - i) (drop i xs)" by (metis add_diff_inverse_nat not_less take_add)
  then show ?thesis by simp
qed

lemma sum_take_Suc: "i < length xs \<Longrightarrow> sum_list (map f (take (Suc i) xs)) = sum_list (map f (take i xs)) + f (xs ! i)"
  for f :: "'a \<Rightarrow> nat"
  by (simp add: take_Suc_conv_app_nth)

lemma KERNELS_distinct: "distinct KERNELS" and KERNELS_length: "length KERNELS = 15"
  by code_simp+

lemma place_kernels_eq:
  "place_kernels files d =
     (if \<exists>k \<in> set KERNELS. files k = None then Inl FileNotFoundError
      else if 16 * sum_list (map (kernel_slots files) KERNELS) \<le> IRAM_WORDS
      then Inr (slots_loop files KERNELS 0 d) else Inl AssertionError)"
  by (auto simp: place_kernels_def place_loop_eq assertE_def)

section \<open>The invariant of a case\<close>

text \<open>
  A buffer of a case is a list of words in its image; the expected words are words of allocated
  buffers; every launch points at an allocated, line-aligned parameter block and at a placed kernel.
\<close>

definition holds :: "image \<Rightarrow> nat \<Rightarrow> int list \<Rightarrow> bool" where
  "holds img a vs \<longleftrightarrow> (\<forall>i < length vs. img_look img (a + 4 * i) = Some (vs ! i mod 2 ^ 32))"

definition golden :: "app_case \<Rightarrow> nat \<Rightarrow> int list \<Rightarrow> bool" where
  "golden c a vs \<longleftrightarrow> (\<forall>i < length vs. map_of (c_gold c) (a + 4 * i) = Some (vs ! i mod 2 ^ 32))"

definition grows :: "app_case \<Rightarrow> app_case \<Rightarrow> bool" where
  "grows c c' \<longleftrightarrow>
     (\<forall>k. img_look (c_img c) k \<noteq> None \<longrightarrow> img_look (c_img c') k = img_look (c_img c) k) \<and>
     (\<exists>ls. c_launches c' = c_launches c @ ls) \<and> c_name c' = c_name c"

text \<open>A launch of kernel \<open>krn\<close> whose parameter block holds \<open>params\<close>.\<close>

definition launched :: "config \<Rightarrow> app_case \<Rightarrow> string \<Rightarrow> string \<Rightarrow> int list \<Rightarrow> nat \<Rightarrow> nat \<Rightarrow> bool" where
  "launched cfg c tag krn params threads blk \<longleftrightarrow>
     (\<exists>slot p. map_of (SLOTS cfg) krn = Some slot \<and> holds (c_img c) p params \<and>
        \<lparr>l_tag = tag, l_slot = slot, l_param = p, l_threads = threads, l_blk = blk\<rparr> \<in> set (c_launches c))"

definition launch_ok :: "config \<Rightarrow> image \<Rightarrow> launch \<Rightarrow> bool" where
  "launch_ok cfg img l \<longleftrightarrow>
     32 dvd l_param l \<and> DDR_BASE \<le> l_param l \<and> l_param l < img_top img \<and> l_slot l \<in> ran (map_of (SLOTS cfg))"

definition case_ok :: "config \<Rightarrow> app_case \<Rightarrow> bool" where
  "case_ok cfg c \<longleftrightarrow>
     image_ok (c_img c) \<and> distinct (map fst (c_gold c)) \<and>
     (\<forall>a v. map_of (c_gold c) a = Some v \<longrightarrow> img_look (c_img c) a \<noteq> None \<and> 0 \<le> v \<and> v < 2 ^ 32) \<and>
     (\<forall>l \<in> set (c_launches c). launch_ok cfg (c_img c) l)"

named_theorems case_intros "facts that carry an application's invariant through its steps"

lemma new_case_ok [case_intros]: "case_ok cfg (new_case name)"
  by (simp add: case_ok_def new_case_def new_image_ok)

lemma grows_refl [case_intros]: "grows c c"
  by (simp add: grows_def)

lemma grows_trans: "grows c d \<Longrightarrow> grows d e \<Longrightarrow> grows c e"
  unfolding grows_def by fastforce

lemma grows_holds: "grows c d \<Longrightarrow> holds (c_img c) a vs \<Longrightarrow> holds (c_img d) a vs"
  by (simp add: grows_def holds_def)

lemma grows_launched: "grows c d \<Longrightarrow> launched cfg c tag krn params threads blk \<Longrightarrow> launched cfg d tag krn params threads blk"
  using grows_holds [of c d] unfolding launched_def grows_def by fastforce

lemma grows_look: "grows c d \<Longrightarrow> img_look (c_img c) k \<noteq> None \<Longrightarrow> img_look (c_img d) k \<noteq> None"
  by (simp add: grows_def)

lemma holds_look: "holds img a vs \<Longrightarrow> i < length vs \<Longrightarrow> img_look img (a + 4 * i) \<noteq> None"
  by (simp add: holds_def)

lemma c_alloc_Inr:
  "c_alloc n init c = Inr (a, c') \<longleftrightarrow> (\<exists>img. alloc n init (c_img c) = Inr (a, img) \<and> c' = c\<lparr>c_img := img\<rparr>)"
  by (auto simp: c_alloc_def result_simps)

lemma img_look_lim: "image_ok img \<Longrightarrow> img_look img k = Some v \<Longrightarrow> k < img_top img"
  by (auto simp: image_ok_def img_look_def)

lemma c_alloc_facts:
  assumes "case_ok cfg c" and "c_alloc n init c = Inr (a, c')"
  shows "case_ok cfg c'" "grows c c'" "holds (c_img c') a (init_vals n init)" "c_gold c' = c_gold c"
    "c_launches c' = c_launches c" "length (init_vals n init) = n"
    "img_look (c_img c) (a + i) = None" "DDR_BASE \<le> a" "32 dvd a" "a + 4 * n \<le> img_top (c_img c')"
    "c_name c' = c_name c"
proof -
  obtain img where al: "alloc n init (c_img c) = Inr (a, img)" and c': "c' = c\<lparr>c_img := img\<rparr>"
    using assms(2) by (auto simp: c_alloc_Inr)
  have ok: "image_ok (c_img c)" using assms(1) by (simp add: case_ok_def)
  have a: "a = img_top (c_img c)" using al by (simp add: alloc_Inr)
  have lim: "img_top (c_img c) \<le> img_top img" by (rule ddr.lim_mono [OF al])
  have keep: "img_look img k = img_look (c_img c) k" if "img_look (c_img c) k \<noteq> None" for k
    using that img_look_lim [OF ok] a ddr.look_old [OF al] by auto
  show "grows c c'" using keep unfolding grows_def c' by auto
  show "holds (c_img c') a (init_vals n init)"
    using ddr.look_new [OF al] ddr.put_size [OF al] by (simp add: holds_def c')
  show "c_gold c' = c_gold c" "c_launches c' = c_launches c" "c_name c' = c_name c" by (simp_all add: c')
  show "length (init_vals n init) = n" by (rule ddr.put_size [OF al])
  show "img_look (c_img c) (a + i) = None"
    using img_look_lim [OF ok, of "a + i"] a by (cases "img_look (c_img c) (a + i)") auto
  show "DDR_BASE \<le> a" "32 dvd a" using ok a by (auto simp: image_ok_def)
  show "a + 4 * n \<le> img_top (c_img c')" using ddr.put_fresh [OF al] by (simp add: c')
  have "image_ok img" by (rule ddr.inv_put [OF ok al])
  moreover have "img_look img k \<noteq> None \<and> 0 \<le> v \<and> v < 2 ^ 32" if "map_of (c_gold c) k = Some v" for k v
    using that assms(1) keep unfolding case_ok_def by metis
  moreover have "launch_ok cfg img l" if "l \<in> set (c_launches c)" for l
    using that assms(1) lim by (auto simp: case_ok_def launch_ok_def)
  ultimately show "case_ok cfg c'" using assms(1) by (simp add: case_ok_def c')
qed

lemma launch_case_Inr:
  "launch_case cfg tag krn params threads blk c = Inr c' \<longleftrightarrow>
     (\<exists>p d slot. c_alloc (length params) (Some params) c = Inr (p, d) \<and> map_of (SLOTS cfg) krn = Some slot \<and>
        c' = d\<lparr>c_launches := c_launches d @
           [\<lparr>l_tag = tag, l_slot = slot, l_param = p, l_threads = threads, l_blk = blk\<rparr>]\<rparr>)"
  by (fastforce simp: launch_case_def result_simps split: option.splits)

lemma launch_case_facts:
  assumes ok: "case_ok cfg c" and la: "launch_case cfg tag krn params threads blk c = Inr c'" and "params \<noteq> []"
  shows "case_ok cfg c'" "grows c c'" "c_gold c' = c_gold c" "c_name c' = c_name c"
    "launched cfg c' tag krn params threads blk" "length (c_launches c') = Suc (length (c_launches c))"
proof -
  obtain p d slot where al: "c_alloc (length params) (Some params) c = Inr (p, d)"
    and slot: "map_of (SLOTS cfg) krn = Some slot"
    and c': "c' = d\<lparr>c_launches := c_launches d @
       [\<lparr>l_tag = tag, l_slot = slot, l_param = p, l_threads = threads, l_blk = blk\<rparr>]\<rparr>"
    using la by (auto simp: launch_case_Inr)
  note f = c_alloc_facts [OF ok al]
  show "grows c c'" using f(2) unfolding c' grows_def by auto
  show "c_gold c' = c_gold c" "c_name c' = c_name c" using f(4,11) by (simp_all add: c')
  show "launched cfg c' tag krn params threads blk"
    using f(3) slot by (auto simp: c' init_vals_def launched_def)
  show "length (c_launches c') = Suc (length (c_launches c))" by (simp add: c' f(5))
  have "p < img_top (c_img d)" using f(10) assms(3) by (cases params) auto
  moreover have "slot \<in> ran (map_of (SLOTS cfg))" using slot by (rule ranI)
  ultimately show "case_ok cfg c'"
    using f(1,8,9) by (auto simp: case_ok_def c' launch_ok_def)
qed

lemma expect_facts:
  assumes "case_ok cfg c" and "\<And>i. i < length vs \<Longrightarrow> img_look (c_img c) (a + 4 * i) \<noteq> None"
  shows "case_ok cfg (expect a vs c)"
proof -
  have "img_look (c_img c) k \<noteq> None \<and> 0 \<le> v \<and> v < 2 ^ 32"
    if k: "map_of (put_words a vs (c_gold c)) k = Some v" for k v
  proof (cases "a \<le> k \<and> 4 dvd (k - a) \<and> (k - a) div 4 < length vs")
    case True
    then have "k = a + 4 * ((k - a) div 4)" by auto
    then have "img_look (c_img c) k \<noteq> None" using assms(2) True by metis
    then show ?thesis using True k by (auto simp: map_of_put_words)
  next
    case False
    then have "map_of (c_gold c) k = Some v" using k by (simp only: map_of_put_words if_False)
    then show ?thesis using assms(1) unfolding case_ok_def by blast
  qed
  then show ?thesis using assms(1) by (simp add: case_ok_def expect_def distinct_put_words)
qed

lemma expect_simps [simp]:
  "c_img (expect a vs c) = c_img c" "c_launches (expect a vs c) = c_launches c" "c_name (expect a vs c) = c_name c"
  by (simp_all add: expect_def)

lemma grows_expect: "grows c (expect a vs c)"
  by (simp add: grows_def)

lemma golden_expect: "golden (expect a vs c) a vs"
  by (simp add: golden_def expect_def put_words_nth)


lemma golden_keep:
  assumes "golden c a vs" and "a + 4 * length vs \<le> b \<or> b + 4 * length ws \<le> a"
  shows "golden (expect b ws c) a vs"
proof -
  have "\<not> (b \<le> a + 4 * i \<and> 4 dvd (a + 4 * i - b) \<and> (a + 4 * i - b) div 4 < length ws)" if "i < length vs" for i
    using that assms(2) by (auto elim!: dvdE)
  then show ?thesis using assms(1)
    unfolding golden_def expect_def by (auto simp: map_of_put_words)
qed

lemma golden_eq: "c_gold c = c_gold d \<Longrightarrow> golden c a vs = golden d a vs"
  by (simp add: golden_def)


section \<open>Properties\<close>

text \<open>C5: The \<^verbatim>\<open>.mem\<close> file that \<^verbatim>\<open>Image.write\<close> produces, read back line by line the way
  \<^verbatim>\<open>$readmemh\<close> reads it, rebuilds exactly the words of the image: address lines are written
  wherever the index jumps and nowhere is a word lost, moved or invented. This holds for every image that fits in the
  memory model (which \<^verbatim>\<open>main\<close> asserts before it writes), with at most \<open>2 ^ 26\<close> words.\<close>

theorem image_file_roundtrip:
  assumes "image_ok img" "img_top img - DDR_BASE \<le> 4 * 2 ^ lg" "lg \<le> 26"
  shows "read_mem (write_image (2 ^ lg) img) 0 Map.empty = Some (ddr_words img)"
  using assms by (rule write_read_image)

definition demo_image :: image where
  "demo_image = (case alloc 3 (Some [1, -1, 5]) new_image of Inr (a, i) \<Rightarrow> i | Inl e \<Rightarrow> new_image)"

lemma demo_image: "demo_image =
    \<lparr>img_words = [(DDR_BASE, 1), (DDR_BASE + 4, 0xFFFFFFFF), (DDR_BASE + 8, 5)], img_top = DDR_BASE + 32\<rparr>"
  by (simp add: demo_image_def alloc_def new_image_def line_up word_mask)

lemma image_file_roundtrip_witness:
  "write_image (2 ^ 4) demo_image = [''@0'', ''00000001'', ''ffffffff'', ''00000005''] \<and>
     read_mem (write_image (2 ^ 4) demo_image) 0 Map.empty = Some (ddr_words demo_image)"
proof
  have rep: "replicate 7 (CHR ''0'') = ''0000000''" by code_simp
  have w: "word_index 16 (DDR_BASE + 4 * j) = j" if "j < 16" for j
    using word_index_eq [of 4 "DDR_BASE + 4 * j"] that by (simp add: DDR_BASE_def)
  have "word_index 16 DDR_BASE = 0" "word_index 16 (DDR_BASE + 4) = 1" "word_index 16 (DDR_BASE + 8) = 2"
    using w [of 0] w [of 1] w [of 2] by simp_all
  then show "write_image (2 ^ 4) demo_image = [''@0'', ''00000001'', ''ffffffff'', ''00000005'']"
    using rep by (simp add: demo_image write_image_def hex_def hex8_def zfill_def digits.simps digit_char_def)
  have "alloc 3 (Some [1, -1, 5]) new_image = Inr (DDR_BASE, demo_image)"
    by (simp add: demo_image alloc_def new_image_def line_up word_mask)
  then have "image_ok demo_image" using new_image_ok alloc_ok by blast
  moreover have "img_top demo_image - DDR_BASE \<le> 4 * 2 ^ 4" by (simp add: demo_image)
  ultimately show "read_mem (write_image (2 ^ 4) demo_image) 0 Map.empty = Some (ddr_words demo_image)"
    by (intro image_file_roundtrip) simp_all
qed

text \<open>C6: Any sequence of \<^verbatim>\<open>Image.alloc\<close> calls keeps the buffers apart: the buffers follow each
  other without overlap, each starts on a 32-byte line of the DDR window, above the old top, and ends below the new top of the image; after all the
  allocations every word of every buffer reads back as its initial value modulo \<open>2 ^ 32\<close>, and every older word as before.\<close>

theorem alloc_buffers_separate:
  assumes "image_ok img" "alloc_seq alloc rs img = Inr (as, img')"
  shows "length as = length rs \<and> image_ok img' \<and>
    (\<forall>i j. i < j \<and> j < length rs \<longrightarrow> as ! i + 4 * fst (rs ! i) \<le> as ! j) \<and>
    (\<forall>i < length rs. 32 dvd as ! i \<and> DDR_BASE \<le> as ! i \<and> img_top img \<le> as ! i \<and> as ! i + 4 * fst (rs ! i) \<le> img_top img' \<and>
       (\<forall>j < fst (rs ! i). img_look img' (as ! i + 4 * j) = Some (init_vals (fst (rs ! i)) (snd (rs ! i)) ! j mod 2 ^ 32))) \<and>
    (\<forall>k < img_top img. img_look img' k = img_look img k)"
proof (intro conjI)
  show len: "length as = length rs" and "\<forall>i j. i < j \<and> j < length rs \<longrightarrow> as ! i + 4 * fst (rs ! i) \<le> as ! j"
    using ddr.seq_disjoint [OF assms(2)] by blast+
  have "\<forall>i < length rs. img_top img \<le> as ! i \<and>
      (\<forall>j < fst (rs ! i). img_look img' (as ! i + 4 * j) = Some (init_vals (fst (rs ! i)) (snd (rs ! i)) ! j mod 2 ^ 32))"
    using ddr.seq_lim [OF assms(2)] ddr.seq_reads_back [OF assms(2)] len by (metis nth_mem)
  moreover have "32 dvd as ! i \<and> DDR_BASE \<le> as ! i \<and> as ! i + 4 * fst (rs ! i) \<le> img_top img'" if "i < length rs" for i
    using ddr.seq_window [OF assms that] .
  ultimately show "\<forall>i < length rs. 32 dvd as ! i \<and> DDR_BASE \<le> as ! i \<and> img_top img \<le> as ! i \<and> as ! i + 4 * fst (rs ! i) \<le> img_top img' \<and>
      (\<forall>j < fst (rs ! i). img_look img' (as ! i + 4 * j) = Some (init_vals (fst (rs ! i)) (snd (rs ! i)) ! j mod 2 ^ 32))"
    by blast
qed (use ddr.seq_inv [OF assms] ddr.seq_old [OF assms(2)] in blast)+

lemma alloc_buffers_separate_witness:
  "\<exists>as img. alloc_seq alloc [(2, Some [7, -2]), (1, None)] new_image = Inr (as, img) \<and>
     as ! 0 + 8 \<le> as ! 1 \<and> img_look img (as ! 0 + 4) = Some (2 ^ 32 - 2)"
proof -
  obtain as img where s: "alloc_seq alloc [(2, Some [7, -2]), (1, None)] new_image = Inr (as, img)"
    by (simp add: alloc_def Let_def)
  note p = alloc_buffers_separate [OF new_image_ok s]
  let ?rs = "[(2, Some [7, -2]), (1, None)] :: (nat \<times> int list option) list"
  have "\<forall>i j. i < j \<and> j < length ?rs \<longrightarrow> as ! i + 4 * fst (?rs ! i) \<le> as ! j" using p by blast
  then have "0 < (1::nat) \<and> 1 < length ?rs \<longrightarrow> as ! 0 + 4 * fst (?rs ! 0) \<le> as ! 1" by blast
  moreover have "\<forall>i < length ?rs. \<forall>j < fst (?rs ! i).
      img_look img (as ! i + 4 * j) = Some (init_vals (fst (?rs ! i)) (snd (?rs ! i)) ! j mod 2 ^ 32)" using p by blast
  then have "0 < length ?rs \<longrightarrow> 1 < fst (?rs ! 0) \<longrightarrow>
      img_look img (as ! 0 + 4 * 1) = Some (init_vals (fst (?rs ! 0)) (snd (?rs ! 0)) ! 1 mod 2 ^ 32)" by blast
  ultimately show ?thesis using s by (auto simp: init_vals_def)
qed

text \<open>C33: \<^verbatim>\<open>place_kernels\<close> packs the kernels in \<^verbatim>\<open>KERNELS\<close> order: each kernel's image lies in the
  instruction RAM behind every earlier kernel, so no two overlap.\<close>

theorem place_kernels_layout:
  assumes "place_kernels files d0 = Inr d" "i < length KERNELS"
  shows "\<exists>s. map_of d (KERNELS ! i) = Some s \<and> 16 * s + kernel_len files (KERNELS ! i) \<le> IRAM_WORDS \<and>
    (\<forall>j < i. \<exists>t. map_of d (KERNELS ! j) = Some t \<and> 16 * t + kernel_len files (KERNELS ! j) \<le> 16 * s)"
proof -
  let ?S = "\<lambda>i. sum_list (map (kernel_slots files) (take i KERNELS))"
  have tot: "16 * ?S (length KERNELS) \<le> IRAM_WORDS" and d: "d = slots_loop files KERNELS 0 d0"
    using assms(1) by (auto simp: place_kernels_eq split: if_splits)
  have slot: "map_of d (KERNELS ! j) = Some (?S j)" if "j < length KERNELS" for j
    using slots_loop_slot [OF KERNELS_distinct that] by (simp add: d)
  have step: "16 * ?S j + kernel_len files (KERNELS ! j) \<le> 16 * ?S k" if "j < k" "j < length KERNELS" for j k
    using sum_take_le [of "Suc j" k "kernel_slots files" KERNELS] that kernel_slots_ge [of files "KERNELS ! j"]
    by (simp add: sum_take_Suc)
  have "16 * ?S i + kernel_len files (KERNELS ! i) \<le> IRAM_WORDS"
    using step [OF assms(2) assms(2)] tot by (rule order_trans)
  moreover have "\<forall>j < i. map_of d (KERNELS ! j) = Some (?S j) \<and> 16 * ?S j + kernel_len files (KERNELS ! j) \<le> 16 * ?S i"
    using slot step assms(2) by auto
  ultimately show ?thesis using slot [OF assms(2)] by blast
qed

lemma place_kernels_layout_witness:
  "\<exists>d s. place_kernels (\<lambda>k. Some ''00000013 00000013'') [] = Inr d \<and> map_of d ''gemm_rb'' = Some s \<and> 16 * s + 2 \<le> IRAM_WORDS"
proof -
  have len: "kernel_len (\<lambda>k. Some ''00000013 00000013'') k = 2" for k
    by (simp add: kernel_len_def split_ws_def is_space_def)
  have "kernel_slots (\<lambda>k. Some ''00000013 00000013'') = (\<lambda>k. 1)"
    by (simp add: fun_eq_iff kernel_slots_def len ceil_div_def)
  then have "\<exists>d. place_kernels (\<lambda>k. Some ''00000013 00000013'') [] = Inr d"
    by (simp add: place_kernels_eq KERNELS_length IRAM_WORDS_def sum_list_triv)
  then obtain d where d: "place_kernels (\<lambda>k. Some ''00000013 00000013'') [] = Inr d" ..
  have "KERNELS ! 8 = ''gemm_rb''" by (simp add: KERNELS_def)
  then show ?thesis using place_kernels_layout [OF d, of 8] d by (auto simp: len KERNELS_length)
qed

text \<open>\<^verbatim>\<open>place_kernels\<close> fails exactly when the file of a kernel is missing, or else when the kernels need more than the 1024 words of the
  instruction RAM, rounded up to 16-word slots, and then with the assertion.\<close>

theorem place_kernels_overflow:
  "place_kernels files d = Inl e \<longleftrightarrow>
     (if \<exists>k \<in> set KERNELS. files k = None then e = FileNotFoundError
      else e = AssertionError \<and> IRAM_WORDS < 16 * (\<Sum>k\<leftarrow>KERNELS. ceil_div (length (split_ws (the (files k)))) 16))"
proof -
  have "map (kernel_slots files) KERNELS = map (\<lambda>k. ceil_div (length (split_ws (the (files k)))) 16) KERNELS"
    if "\<not> (\<exists>k \<in> set KERNELS. files k = None)"
    using that by (auto simp: kernel_slots_def kernel_len_def)
  then show ?thesis unfolding place_kernels_eq by (simp del: map_eq_conv) (auto simp only: not_le)
qed

end
