(* ===== verification/Gemm.thy ===== *)
theory Gemm
  imports Image
begin

text \<open>
  The application \<^verbatim>\<open>gemm\<close> of \<^verbatim>\<open>sim/gen_apps.py\<close>: single-precision matrix product, one fused
  multiply-add per term in ascending order of the inner index, with the inputs, the output buffer
  and the launch laid out in the DDR image; and the accumulation lemmas that the sparse product
  shares.
\<close>

section \<open>Accumulation by fused multiply-add\<close>

text \<open>\<^verbatim>\<open>acc = 0; for j in js: acc = fma(u[j], w[j], acc)\<close>.\<close>

definition fma_chain :: "(nat \<Rightarrow> int) \<Rightarrow> (nat \<Rightarrow> int) \<Rightarrow> nat list \<Rightarrow> int \<Rightarrow> int result" where
  "fma_chain u w js acc = foldE (\<lambda>j acc. fma (u j) (w j) acc) js acc"

text \<open>A pattern that decodes to a value of magnitude at most \<open>B\<close>.\<close>

definition fp_within :: "rat \<Rightarrow> int \<Rightarrow> bool" where
  "fp_within B b \<longleftrightarrow> (\<exists>v. f2fr b = Inr v \<and> \<bar>v\<bar> \<le> B)"

lemma fp_within_zero [simp]: "0 \<le> B \<Longrightarrow> fp_within B 0"
  by (simp add: fp_within_def)

lemma fp_within_mono: "fp_within B b \<Longrightarrow> B \<le> C \<Longrightarrow> fp_within C b"
  by (auto simp: fp_within_def)

lemma rand_f32_within: "rand_f32 g = Inr (b, g') \<Longrightarrow> fp_within 1 b"
  by (erule rand_f32_unit) (auto simp: fp_within_def)

lemma repeat_rand_f32_within:
  "repeatG n rand_f32 g = Inr (xs, g') \<Longrightarrow> length xs = n \<and> (\<forall>x \<in> set xs. fp_within 1 x)"
  using repeatG_all [of n rand_f32 g xs g' "fp_within 1"] rand_f32_within by blast

lemma fma_within:
  assumes "fp_within 1 a" "fp_within 1 b" "fp_within (of_nat i) c" "i < 2 ^ 24"
  obtains r where "fma a b c = Inr r" "fp_within (of_nat (Suc i)) r"
proof -
  obtain x y z where d: "f2fr a = Inr x" "f2fr b = Inr y" "f2fr c = Inr z"
    and m: "\<bar>x\<bar> \<le> 1" "\<bar>y\<bar> \<le> 1" "\<bar>z\<bar> \<le> of_nat i"
    using assms(1-3) by (auto simp: fp_within_def)
  have "\<bar>x * y\<bar> \<le> 1" using mult_mono [OF m(1,2)] by (simp add: abs_mult)
  then have s: "\<bar>x * y + z\<bar> \<le> of_nat (Suc i)" using m(3) by (simp add: abs_le_iff)
  have "\<bar>int (Suc i)\<bar> \<le> 2 ^ 24" using assms(4) by simp
  then obtain lim where "f2fr lim = Inr (of_nat (Suc i))"
    using fp_int_representable [of "int (Suc i)"] by auto
  from this s obtain r v where "fr2f (x * y + z) = Inr r" "f2fr r = Inr v" "\<bar>v\<bar> \<le> of_nat (Suc i)"
    by (rule fp.rnd_bound)
  then show thesis using d by (intro that) (auto simp: fma_def fp_within_def)
qed

lemma fma_chain_within:
  assumes "\<And>j. j \<in> set js \<Longrightarrow> fp_within 1 (u j) \<and> fp_within 1 (w j)"
    and "fp_within (of_nat i) acc" "i + length js \<le> 2 ^ 24"
  shows "\<exists>r. fma_chain u w js acc = Inr r \<and> fp_within (of_nat (i + length js)) r"
  using assms
proof (induction js arbitrary: i acc)
  case Nil
  then show ?case by (simp add: fma_chain_def)
next
  case (Cons j js)
  then have "i < 2 ^ 24" by simp
  then obtain r where r: "fma (u j) (w j) acc = Inr r" "fp_within (of_nat (Suc i)) r"
    using Cons.prems by (meson fma_within list.set_intros(1))
  have "\<exists>r'. fma_chain u w js r = Inr r' \<and> fp_within (of_nat (Suc i + length js)) r'"
    by (rule Cons.IH) (use Cons.prems r in auto)
  then show ?case using r by (simp add: fma_chain_def)
qed

text \<open>
  On integer operands the chain is exact as long as the bound on the partial sums stays in the
  24-bit significand.
\<close>

lemma fr2f_of_int: "\<bar>m\<bar> \<le> 2 ^ 24 \<Longrightarrow> \<exists>r. fr2f (of_int m) = Inr r \<and> f2fr r = Inr (of_int m)"
  using fp_int_representable [of m] fp.rnd_exact by metis

lemma fma_chain_exact:
  assumes "\<And>j. j \<in> set js \<Longrightarrow> f2fr (u j) = Inr (of_int (U j)) \<and> f2fr (w j) = Inr (of_int (W j)) \<and> \<bar>U j * W j\<bar> \<le> B"
    and "f2fr acc = Inr (of_int s)" "\<bar>s\<bar> + int (length js) * B \<le> 2 ^ 24" "0 \<le> B"
  shows "\<exists>r. fma_chain u w js acc = Inr r \<and> f2fr r = Inr (of_int (s + (\<Sum>j\<leftarrow>js. U j * W j)))"
  using assms
proof (induction js arbitrary: s acc)
  case Nil
  then show ?case by (simp add: fma_chain_def)
next
  case (Cons j js)
  have j: "f2fr (u j) = Inr (of_int (U j))" "f2fr (w j) = Inr (of_int (W j))" "\<bar>U j * W j\<bar> \<le> B"
    using Cons.prems(1) by auto
  have b: "\<bar>s\<bar> + B + int (length js) * B \<le> 2 ^ 24" using Cons.prems(3) by (simp add: algebra_simps)
  have b': "\<bar>U j * W j + s\<bar> + int (length js) * B \<le> 2 ^ 24" using b j(3) by linarith
  moreover have "0 \<le> int (length js) * B" using Cons.prems(4) by simp
  ultimately obtain r where r: "fr2f (of_int (U j * W j + s)) = Inr r" "f2fr r = Inr (of_int (U j * W j + s))"
    using fr2f_of_int [of "U j * W j + s"] by fastforce
  have "\<exists>r'. fma_chain u w js r = Inr r' \<and> f2fr r' = Inr (of_int (U j * W j + s + (\<Sum>j\<leftarrow>js. U j * W j)))"
    by (rule Cons.IH) (use Cons.prems r b' in auto)
  moreover have "fma (u j) (w j) acc = Inr r"
    using j Cons.prems(2) r(1) by (simp add: fma_def)
  ultimately show ?case by (simp add: fma_chain_def algebra_simps)
qed

section \<open>The operation\<close>

definition gemm_out :: "nat \<Rightarrow> nat \<Rightarrow> nat \<Rightarrow> int list \<Rightarrow> int list \<Rightarrow> int list result" where
  "gemm_out m n k a b =
     bindE (mapE (\<lambda>r. mapE (\<lambda>col.
         fma_chain (\<lambda>kk. a ! (r * k + kk)) (\<lambda>kk. b ! (kk * n + col)) [0..<k] 0) [0..<n]) [0..<m])
       (\<lambda>rows. Inr (concat rows))"

definition gemm_case ::
  "config \<Rightarrow> nat \<Rightarrow> nat \<Rightarrow> nat \<Rightarrow> bool \<Rightarrow> int list \<Rightarrow> int list \<Rightarrow> app_case \<Rightarrow> app_case result" where
  "gemm_case cfg m n k blocked a b c =
     bindE (c_alloc (m * k) (Some a) c) (\<lambda>(pa, c).
     bindE (c_alloc (k * n) (Some b) c) (\<lambda>(pb, c).
     bindE (c_alloc (m * n) None c) (\<lambda>(pc, c).
     bindE (if blocked then
         bindE (if m mod 4 = 0 then bindE (py_mod n (4 * LANES cfg)) (\<lambda>r. Inr (r = 0)) else Inr False) (\<lambda>ok.
         bindE (assertE ok) (\<lambda>_.
         launch_case cfg ''gemm'' ''gemm_rb'' [int pa, int pb, int pc, int k, bit_length (int n) - 1]
           (m * n div 16) 0 c))
       else launch_case cfg ''gemm'' ''gemm'' [int pa, int pb, int pc, int k, bit_length (int n) - 1]
           (m * n) 0 c) (\<lambda>c.
     bindE (gemm_out m n k a b) (\<lambda>out.
     Inr (expect pc out c))))))"

definition gemm :: "config \<Rightarrow> nat \<Rightarrow> nat \<Rightarrow> nat \<Rightarrow> bool \<Rightarrow> app_case gen" where
  "gemm cfg m n k blocked =
     (let c = new_case ((if blocked then ''gemmrb'' else ''gemm'') @ ''_'' @ str_nat m @ ''x'' @ str_nat n
                @ ''x'' @ str_nat k)
      in bindG (repeatG (m * k) rand_f32) (\<lambda>a.
         bindG (repeatG (k * n) rand_f32) (\<lambda>b.
         liftG (gemm_case cfg m n k blocked a b c))))"

section \<open>The product\<close>

lemma concat_nth:
  "(\<And>i. i < length rows \<Longrightarrow> length (rows ! i) = n) \<Longrightarrow> r < length rows \<Longrightarrow> col < n \<Longrightarrow>
     concat rows ! (r * n + col) = rows ! r ! col"
proof (induction rows arbitrary: r)
  case (Cons x xs)
  have x: "length x = n" using Cons.prems(1) [of 0] by simp
  have xs: "length (xs ! i) = n" if "i < length xs" for i using Cons.prems(1) [of "Suc i"] that by simp
  show ?case
  proof (cases r)
    case 0
    then show ?thesis using Cons.prems(3) x by (simp add: nth_append)
  next
    case (Suc r')
    then show ?thesis using Cons.IH [OF xs, of r'] Cons.prems x by (simp add: nth_append)
  qed
qed simp

lemma index_bound: "r < m \<Longrightarrow> col < n \<Longrightarrow> r * n + col < m * n" for m :: nat
proof -
  assume a: "r < m" "col < n"
  then have "r * n + col < Suc r * n" by simp
  also have "\<dots> \<le> m * n" using a by (intro mult_le_mono1) simp
  finally show ?thesis .
qed

lemma length_concat_const: "(\<And>r. r < length rows \<Longrightarrow> length (rows ! r) = n) \<Longrightarrow> length (concat rows) = length rows * n"
proof (induction rows)
  case (Cons x xs)
  have "length x = n" using Cons.prems [of 0] by simp
  moreover have "length (concat xs) = length xs * n" by (rule Cons.IH) (use Cons.prems [of "Suc _"] in auto)
  ultimately show ?case by simp
qed simp

lemma gemm_out_nth:
  assumes "gemm_out m n k a b = Inr out"
  shows "length out = m * n"
    and "r < m \<Longrightarrow> col < n \<Longrightarrow>
      fma_chain (\<lambda>kk. a ! (r * k + kk)) (\<lambda>kk. b ! (kk * n + col)) [0..<k] 0 = Inr (out ! (r * n + col))"
proof -
  obtain rows where m: "mapE (\<lambda>r. mapE (\<lambda>col.
         fma_chain (\<lambda>kk. a ! (r * k + kk)) (\<lambda>kk. b ! (kk * n + col)) [0..<k] 0) [0..<n]) [0..<m] = Inr rows"
    and out: "out = concat rows"
    using assms by (auto simp: gemm_out_def result_simps)
  have len: "length rows = m" using mapE_Inr_length [OF m] by simp
  have row: "mapE (\<lambda>col. fma_chain (\<lambda>kk. a ! (r * k + kk)) (\<lambda>kk. b ! (kk * n + col)) [0..<k] 0) [0..<n] = Inr (rows ! r)"
    if "r < m" for r using mapE_Inr_nth [OF m, of r] that by simp
  have rl: "length (rows ! r) = n" if "r < m" for r using mapE_Inr_length [OF row [OF that]] by simp
  show "length out = m * n" using length_concat_const [of rows n] rl len out by simp
  show "fma_chain (\<lambda>kk. a ! (r * k + kk)) (\<lambda>kk. b ! (kk * n + col)) [0..<k] 0 = Inr (out ! (r * n + col))"
    if "r < m" "col < n"
    using mapE_Inr_nth [OF row [OF that(1)], of col] concat_nth [of rows n r col] rl len that out by simp
qed

lemma gemm_out_total:
  assumes "length a = m * k" "length b = k * n" "\<forall>x \<in> set a \<union> set b. fp_within 1 x" "k \<le> 2 ^ 24"
  shows "\<exists>out. gemm_out m n k a b = Inr out \<and> (\<forall>x \<in> set out. fp_within (of_nat k) x)"
proof -
  let ?f = "\<lambda>r col. fma_chain (\<lambda>kk. a ! (r * k + kk)) (\<lambda>kk. b ! (kk * n + col)) [0..<k] 0"
  have cell: "\<exists>x. ?f r col = Inr x \<and> fp_within (of_nat k) x" if "r < m" "col < n" for r col
  proof -
    have "a ! (r * k + j) \<in> set a" "b ! (j * n + col) \<in> set b" if "j < k" for j
      using that index_bound [OF \<open>r < m\<close> that] index_bound [OF that \<open>col < n\<close>] assms(1,2) by simp_all
    then show ?thesis
      using fma_chain_within [of "[0..<k]" "\<lambda>kk. a ! (r * k + kk)" "\<lambda>kk. b ! (kk * n + col)" 0 0] assms(3,4) by auto
  qed
  have "\<exists>row. mapE (?f r) [0..<n] = Inr row" if "r < m" for r
    using cell [OF that] by (intro mapE_exists) fastforce
  then obtain rows where "mapE (\<lambda>r. mapE (?f r) [0..<n]) [0..<m] = Inr rows"
    using mapE_exists [of "[0..<m]" "\<lambda>r. mapE (?f r) [0..<n]"] by auto
  then have out: "gemm_out m n k a b = Inr (concat rows)" by (simp add: gemm_out_def)
  have "fp_within (of_nat k) x" if "x \<in> set (concat rows)" for x
  proof -
    have "length (concat rows) = m * n" by (rule gemm_out_nth(1) [OF out])
    moreover obtain i where "i < length (concat rows)" "concat rows ! i = x"
      using \<open>x \<in> set (concat rows)\<close> unfolding in_set_conv_nth by blast
    ultimately have i: "i < m * n" "x = concat rows ! i" by simp_all
    then have "0 < n" by (cases n) auto
    then have rc: "i div n < m" "i mod n < n" using i(1) by (auto simp: less_mult_imp_div_less)
    then have "?f (i div n) (i mod n) = Inr x" using gemm_out_nth(2) [OF out rc] i(2) by simp
    then show ?thesis using cell [OF rc] by auto
  qed
  then show ?thesis using out by blast
qed


section \<open>The case\<close>

text \<open>The steps every application shares, as one chain of facts about growing cases.\<close>

lemma init_vals_None [simp]: "init_vals n None = replicate n 0"
  and init_vals_Some [simp]: "init_vals n (Some xs) = xs"
  by (simp_all add: init_vals_def)

lemma expect_zeros:
  assumes "case_ok cfg c" "holds (c_img c) a (replicate n 0)" "length vs = n"
  shows "case_ok cfg (expect a vs c)" "golden (expect a vs c) a vs"
  using expect_facts [OF assms(1), of vs a] holds_look [OF assms(2)] assms(3) golden_expect by auto

lemma gemm_case_correct:
  assumes ok: "case_ok cfg c" and run: "gemm_case cfg m n k blocked a b c = Inr c'"
  obtains pa pb pc out where "gemm_out m n k a b = Inr out" "case_ok cfg c'" "c_name c' = c_name c"
    "holds (c_img c') pa a" "holds (c_img c') pb b" "golden c' pc out"
    "launched cfg c' ''gemm'' (if blocked then ''gemm_rb'' else ''gemm'')
       [int pa, int pb, int pc, int k, bit_length (int n) - 1] (if blocked then m * n div 16 else m * n) 0"
    "blocked \<Longrightarrow> 4 dvd m \<and> 4 * LANES cfg dvd n"
proof -
  let ?krn = "if blocked then ''gemm_rb'' else ''gemm''"
  let ?th = "if blocked then m * n div 16 else m * n"
  obtain pa c1 pb c2 pc c3 c4 out where
    a1: "c_alloc (m * k) (Some a) c = Inr (pa, c1)" and a2: "c_alloc (k * n) (Some b) c1 = Inr (pb, c2)"
    and a3: "c_alloc (m * n) None c2 = Inr (pc, c3)"
    and la: "launch_case cfg ''gemm'' ?krn [int pa, int pb, int pc, int k, bit_length (int n) - 1] ?th 0 c3 = Inr c4"
    and out: "gemm_out m n k a b = Inr out" and c': "c' = expect pc out c4"
    and blk: "blocked \<Longrightarrow> 4 dvd m \<and> 4 * LANES cfg dvd n"
    using run by (cases blocked) (auto simp: gemm_case_def result_simps mod_eq_0_iff_dvd split: if_splits)
  note f1 = c_alloc_facts [OF ok a1]
  note f2 = c_alloc_facts [OF f1(1) a2]
  note f3 = c_alloc_facts [OF f2(1) a3]
  note f4 = launch_case_facts [OF f3(1) la]
  have g3: "grows c2 c4" using grows_trans [OF f3(2) f4(2)] by simp
  have g2: "grows c1 c4" by (rule grows_trans [OF f2(2) g3])
  have z: "holds (c_img c4) pc (replicate (m * n) 0)" using grows_holds [OF f4(2) f3(3)] by simp
  have e: "case_ok cfg c'" "golden c' pc out"
    using expect_zeros [OF f4(1) z gemm_out_nth(1) [OF out]] c' by auto
  have "c_name c' = c_name c" using g2 f1(11) by (simp add: c' grows_def)
  moreover have "holds (c_img c') pa a" "holds (c_img c') pb b"
    using grows_holds [OF g2 f1(3)] grows_holds [OF g3 f2(3)] c' by simp_all
  moreover have "launched cfg c' ''gemm'' ?krn [int pa, int pb, int pc, int k, bit_length (int n) - 1] ?th 0"
    using grows_launched [OF grows_expect f4(5)] c' by simp
  ultimately show thesis using out e blk by (intro that)
qed

lemma c_alloc_total: "length (init_vals n init) = n \<Longrightarrow> \<exists>a c'. c_alloc n init c = Inr (a, c')"
  using alloc_total [of n init "c_img c"] by (auto simp: c_alloc_Inr)

lemma launch_case_total:
  "map_of (SLOTS cfg) krn = Some s \<Longrightarrow> \<exists>c'. launch_case cfg tag krn params threads blk c = Inr c'"
  using c_alloc_total [of "length params" "Some params" c] by (auto simp: launch_case_Inr)

lemma gemm_runs:
  assumes "map_of (SLOTS cfg) (if blocked then ''gemm_rb'' else ''gemm'') \<noteq> None" "k \<le> 2 ^ 24"
    and "blocked \<Longrightarrow> 4 dvd m \<and> 4 * LANES cfg dvd n \<and> LANES cfg \<noteq> 0"
  shows "\<exists>c g'. gemm cfg m n k blocked g = Inr (c, g')"
proof -
  obtain a g1 where a: "repeatG (m * k) rand_f32 g = Inr (a, g1)"
    using repeatG_total [of rand_f32] rand_f32_total by blast
  obtain b g2 where b: "repeatG (k * n) rand_f32 g1 = Inr (b, g2)"
    using repeatG_total [of rand_f32] rand_f32_total by blast
  have la: "length a = m * k" "length b = k * n" "\<forall>x \<in> set a \<union> set b. fp_within 1 x"
    using repeat_rand_f32_within [OF a] repeat_rand_f32_within [OF b] by auto
  obtain out where out: "gemm_out m n k a b = Inr out"
    using gemm_out_total [OF la assms(2)] by blast
  have "\<exists>c'. gemm_case cfg m n k blocked a b c = Inr c'" for c
  proof -
    obtain pa c1 where 1: "c_alloc (m * k) (Some a) c = Inr (pa, c1)"
      using c_alloc_total [of "m * k" "Some a" c] la by auto
    obtain pb c2 where 2: "c_alloc (k * n) (Some b) c1 = Inr (pb, c2)"
      using c_alloc_total [of "k * n" "Some b" c1] la by auto
    obtain pc c3 where 3: "c_alloc (m * n) None c2 = Inr (pc, c3)"
      using c_alloc_total [of "m * n" None c2] by auto
    obtain s where s: "map_of (SLOTS cfg) (if blocked then ''gemm_rb'' else ''gemm'') = Some s"
      using assms(1) by blast
    show ?thesis
    proof (cases blocked)
      case True
      then have "m mod 4 = 0" "py_mod n (4 * LANES cfg) = Inr 0"
        using assms(3) by (auto simp: py_mod_Inr mod_eq_0_iff_dvd)
      then show ?thesis using 1 2 3 out True s
          launch_case_total [of cfg "''gemm_rb''" s "''gemm''" "[int pa, int pb, int pc, int k, bit_length (int n) - 1]"
            "m * n div 16" 0 c3]
        by (auto simp: gemm_case_def)
    next
      case False
      then show ?thesis using 1 2 3 out s
          launch_case_total [of cfg "''gemm''" s "''gemm''" "[int pa, int pb, int pc, int k, bit_length (int n) - 1]"
            "m * n" 0 c3]
        by (auto simp: gemm_case_def)
    qed
  qed
  then show ?thesis using a b by (auto simp: gemm_def Let_def result_simps)
qed

section \<open>Properties\<close>

text \<open>\<^verbatim>\<open>gemm\<close> produces a case whenever its kernel is placed, its sizes pass the assertion of the
  blocked variant and the inner dimension is at most \<open>2 ^ 24\<close>: no product or sum of the random
  inputs leaves the range of FP32, so no assertion of the arithmetic fires, for any random stream.\<close>

theorem gemm_total:
  assumes "map_of (SLOTS cfg) (if blocked then ''gemm_rb'' else ''gemm'') \<noteq> None" "k \<le> 2 ^ 24"
    and "blocked \<Longrightarrow> 4 dvd m \<and> 4 * LANES cfg dvd n \<and> LANES cfg \<noteq> 0"
  shows "\<exists>c g'. gemm cfg m n k blocked g = Inr (c, g')"
  using assms by (rule gemm_runs)

lemma gemm_total_witness:
  "\<exists>c g'. gemm \<lparr>LANES = 8, WORDS = 2 ^ 20, SLOTS = [(''gemm'', 0), (''gemm_rb'', 12)]\<rparr> 4 32 7 True [3, 1, 4] = Inr (c, g')"
  by (rule gemm_total) simp_all

text \<open>C26: The case \<^verbatim>\<open>gemm\<close> returns is well formed, holds both matrices in row-major order, launches
  the kernel on the three buffers and expects, in the output buffer, for every row and column
  the fused accumulation over the inner index of row \<open>r\<close> of the first and column \<open>col\<close> of the
  second matrix; the accumulated value never exceeds the inner dimension.\<close>

theorem gemm_case_spec:
  assumes "gemm cfg m n k blocked g = Inr (c, g')" "k \<le> 2 ^ 24"
  shows "\<exists>a b pa pb pc out. length a = m * k \<and> length b = k * n \<and> length out = m * n \<and>
    case_ok cfg c \<and> holds (c_img c) pa a \<and> holds (c_img c) pb b \<and> golden c pc out \<and>
    launched cfg c ''gemm'' (if blocked then ''gemm_rb'' else ''gemm'')
      [int pa, int pb, int pc, int k, bit_length (int n) - 1] (if blocked then m * n div 16 else m * n) 0 \<and>
    (\<forall>r < m. \<forall>col < n. fp_within (of_nat k) (out ! (r * n + col)) \<and>
       fma_chain (\<lambda>kk. a ! (r * k + kk)) (\<lambda>kk. b ! (kk * n + col)) [0..<k] 0 = Inr (out ! (r * n + col)))"
proof -
  obtain a g1 b g2 c0 where a: "repeatG (m * k) rand_f32 g = Inr (a, g1)"
    and b: "repeatG (k * n) rand_f32 g1 = Inr (b, g2)"
    and c: "gemm_case cfg m n k blocked a b (new_case c0) = Inr c"
    using assms(1) by (auto simp: gemm_def Let_def result_simps)
  have la: "length a = m * k" "length b = k * n" "\<forall>x \<in> set a \<union> set b. fp_within 1 x"
    using repeat_rand_f32_within [OF a] repeat_rand_f32_within [OF b] by auto
  from new_case_ok c obtain pa pb pc out where
    out: "gemm_out m n k a b = Inr out" and ok: "case_ok cfg c" and h: "holds (c_img c) pa a" "holds (c_img c) pb b" "golden c pc out"
    and l: "launched cfg c ''gemm'' (if blocked then ''gemm_rb'' else ''gemm'')
      [int pa, int pb, int pc, int k, bit_length (int n) - 1] (if blocked then m * n div 16 else m * n) 0"
    by (rule gemm_case_correct)
  have "\<forall>x \<in> set out. fp_within (of_nat k) x" using gemm_out_total [OF la assms(2)] out by auto
  then have "fp_within (of_nat k) (out ! (r * n + col))" if "r < m" "col < n" for r col
    using index_bound [OF that] gemm_out_nth(1) [OF out] by simp
  then show ?thesis using la gemm_out_nth [OF out] ok h l by blast
qed

lemma gemm_case_spec_witness:
  "\<exists>c g' pc out. gemm \<lparr>LANES = 8, WORDS = 2 ^ 20, SLOTS = [(''gemm'', 0)]\<rparr> 2 2 3 False [5, 9] = Inr (c, g') \<and>
     golden c pc out \<and> length out = 4 \<and> fp_within 3 (out ! 3)"
proof -
  let ?cfg = "\<lparr>LANES = 8, WORDS = 2 ^ 20, SLOTS = [(''gemm'', 0)]\<rparr>"
  obtain c g' where c: "gemm ?cfg 2 2 3 False [5, 9] = Inr (c, g')"
    using gemm_runs [of ?cfg False 3 2 2 "[5, 9]"] by auto
  obtain pc out where "length out = 2 * 2" "golden c pc out" and
    w: "\<forall>r < 2. \<forall>col < 2. fp_within (of_nat 3) (out ! (r * 2 + col))"
    using gemm_case_spec [OF c] by auto
  moreover have "fp_within (of_nat 3) (out ! (1 * 2 + 1))" by (rule w [rule_format]) simp_all
  ultimately show ?thesis using c by auto
qed

text \<open>On integer-valued matrices whose products and partial sums stay within the 24-bit
  significand the expected words are the exact matrix product.\<close>

theorem gemm_out_exact:
  assumes "length a = m * k" "length b = k * n"
    and "\<forall>i < m * k. f2fr (a ! i) = Inr (of_int (A i))" "\<forall>i < k * n. f2fr (b ! i) = Inr (of_int (B i))"
    and "\<forall>i < m * k. \<bar>A i\<bar> \<le> u" "\<forall>i < k * n. \<bar>B i\<bar> \<le> w" "0 \<le> u" "int k * (u * w) \<le> 2 ^ 24"
  shows "\<exists>out. gemm_out m n k a b = Inr out \<and> (\<forall>r < m. \<forall>col < n.
    f2fr (out ! (r * n + col)) = Inr (of_int (\<Sum>kk\<leftarrow>[0..<k]. A (r * k + kk) * B (kk * n + col))))"
proof -
  let ?f = "\<lambda>r col. fma_chain (\<lambda>kk. a ! (r * k + kk)) (\<lambda>kk. b ! (kk * n + col)) [0..<k] 0"
  have cell: "\<exists>x. ?f r col = Inr x \<and>
      f2fr x = Inr (of_int (\<Sum>kk\<leftarrow>[0..<k]. A (r * k + kk) * B (kk * n + col)))" if "r < m" "col < n" for r col
  proof (cases "k = 0")
    case False
    have e: "f2fr (a ! (r * k + j)) = Inr (of_int (A (r * k + j))) \<and>
        f2fr (b ! (j * n + col)) = Inr (of_int (B (j * n + col))) \<and> \<bar>A (r * k + j) * B (j * n + col)\<bar> \<le> u * w"
      if "j < k" for j
      using that index_bound [OF \<open>r < m\<close> that] index_bound [OF that \<open>col < n\<close>] assms(3-7)
      by (simp add: abs_mult mult_mono)
    have "0 \<le> u * w" using e [of 0] False by linarith
    then show ?thesis
      using fma_chain_exact [of "[0..<k]" "\<lambda>kk. a ! (r * k + kk)" "\<lambda>kk. A (r * k + kk)" "\<lambda>kk. b ! (kk * n + col)"
          "\<lambda>kk. B (kk * n + col)" "u * w" 0 0] e assms(8) by simp
  qed (simp add: fma_chain_def)
  have "\<exists>row. mapE (?f r) [0..<n] = Inr row" if "r < m" for r
    using cell [OF that] by (intro mapE_exists) fastforce
  then obtain rows where "mapE (\<lambda>r. mapE (?f r) [0..<n]) [0..<m] = Inr rows"
    using mapE_exists [of "[0..<m]" "\<lambda>r. mapE (?f r) [0..<n]"] by auto
  then have out: "gemm_out m n k a b = Inr (concat rows)" by (simp add: gemm_out_def)
  then show ?thesis using cell gemm_out_nth(2) [OF out] by fastforce
qed

lemma gemm_out_exact_witness:
  "\<exists>out. gemm_out 1 1 2 [0x40000000, 0x40400000] [0x40000000, 0x3F800000] = Inr out \<and> f2fr (out ! 0) = Inr 7"
proof -
  let ?a = "[0x40000000, 0x40400000] :: int list"
  let ?b = "[0x40000000, 0x3F800000] :: int list"
  have d: "f2fr 0x40000000 = Inr 2" "f2fr 0x40400000 = Inr 3" "f2fr 0x3F800000 = Inr 1" by code_simp+
  have "\<forall>i < 1 * 2. f2fr (?a ! i) = Inr (of_int ([2, 3] ! i))"
    "\<forall>i < 2 * 1. f2fr (?b ! i) = Inr (of_int ([2, 1] ! i))"
    "\<forall>i < 1 * (2::nat). \<bar>[2, 3] ! i\<bar> \<le> (3 :: int)" "\<forall>i < 2 * (1::nat). \<bar>[2, 1] ! i\<bar> \<le> (2 :: int)"
    using d by (auto simp: less_2_cases_iff)
  then have "\<exists>out. gemm_out 1 1 2 ?a ?b = Inr out \<and> (\<forall>r < 1. \<forall>col < 1. f2fr (out ! (r * 1 + col)) =
      Inr (of_int (\<Sum>kk\<leftarrow>[0..<2]. [2, 3] ! (r * 2 + kk) * [2, 1] ! (kk * 1 + col))))"
    by (intro gemm_out_exact [where u = 3 and w = 2]) simp_all
  then show ?thesis by (simp add: upt_conv_Cons)
qed

end
