(* ===== verification/Spmv.thy ===== *)
theory Spmv
  imports Gemm
begin

text \<open>
  The application \<^verbatim>\<open>spmv\<close> of \<^verbatim>\<open>sim/gen_apps.py\<close>: a random sparse matrix in compressed-row form
  times a vector, with the invariant of the compressed form and the proof that the sparse
  accumulation computes the same values as the dense product.
\<close>

section \<open>The operation\<close>

definition spmv_row :: "nat \<Rightarrow> nat \<Rightarrow> nat list \<times> nat list \<times> int list \<Rightarrow> (nat list \<times> nat list \<times> int list) gen" where
  "spmv_row cols maxnnz = (\<lambda>(rowptr, col, val).
     bindG (randint 0 (int maxnnz)) (\<lambda>nz.
     bindG (sample_range cols (nat nz)) (\<lambda>s.
     bindG (repeatG (nat nz) rand_f32) (\<lambda>v.
     let col' = col @ sort s in returnG (rowptr @ [length col'], col', val @ v)))))"

definition spmv_matrix :: "nat \<Rightarrow> nat \<Rightarrow> nat \<Rightarrow> (nat list \<times> nat list \<times> int list) gen" where
  "spmv_matrix rows cols maxnnz = foldG (\<lambda>_. spmv_row cols maxnnz) [0..<rows] ([0], [], [])"

definition spmv_out :: "nat \<Rightarrow> nat list \<Rightarrow> nat list \<Rightarrow> int list \<Rightarrow> int list \<Rightarrow> int list result" where
  "spmv_out rows rowptr col val x =
     mapE (\<lambda>r. fma_chain (\<lambda>j. val ! j) (\<lambda>j. x ! (col ! j)) [rowptr ! r..<rowptr ! (r + 1)] 0) [0..<rows]"

definition spmv_case ::
  "config \<Rightarrow> nat \<Rightarrow> nat \<Rightarrow> bool \<Rightarrow> nat list \<Rightarrow> nat list \<Rightarrow> int list \<Rightarrow> int list \<Rightarrow> app_case \<Rightarrow> app_case result" where
  "spmv_case cfg rows cols zba rowptr col val x c =
     (let nnz = max (length col) 1
      in bindE (c_alloc (rows + 1) (Some (map int rowptr)) c) (\<lambda>(prp, c).
         bindE (c_alloc nnz (Some (if col = [] then [0] else map int col)) c) (\<lambda>(pcol, c).
         bindE (c_alloc nnz (Some (if val = [] then [0] else val)) c) (\<lambda>(pval, c).
         bindE (c_alloc cols (Some x) c) (\<lambda>(px, c).
         bindE (c_alloc rows None c) (\<lambda>(py, c).
         bindE (launch_case cfg ''spmv'' (if zba then ''spmv_z'' else ''spmv'')
                  [int prp, int pcol, int pval, int px, int py] rows 0 c) (\<lambda>c.
         bindE (spmv_out rows rowptr col val x) (\<lambda>y.
         Inr (expect py y c)))))))))"

definition spmv :: "config \<Rightarrow> nat \<Rightarrow> nat \<Rightarrow> nat \<Rightarrow> bool \<Rightarrow> app_case gen" where
  "spmv cfg rows cols maxnnz zba =
     (let c = new_case ((if zba then ''spmvz'' else ''spmv'') @ ''_'' @ str_nat rows @ ''x'' @ str_nat cols)
      in bindG (spmv_matrix rows cols maxnnz) (\<lambda>(rowptr, col, val).
         bindG (repeatG cols rand_f32) (\<lambda>x.
         liftG (spmv_case cfg rows cols zba rowptr col val x c))))"

section \<open>The compressed-row invariant\<close>

definition csr_slice :: "nat list \<Rightarrow> 'a list \<Rightarrow> nat \<Rightarrow> 'a list" where
  "csr_slice rowptr xs r = map (\<lambda>j. xs ! j) [rowptr ! r..<rowptr ! (r + 1)]"

definition csr_ok :: "nat \<Rightarrow> nat \<Rightarrow> nat \<Rightarrow> nat list \<Rightarrow> nat list \<Rightarrow> int list \<Rightarrow> bool" where
  "csr_ok rows cols maxnnz rowptr col val \<longleftrightarrow>
     length rowptr = rows + 1 \<and> rowptr ! 0 = 0 \<and> rowptr ! rows = length col \<and> length val = length col \<and>
     (\<forall>r < rows. rowptr ! r \<le> rowptr ! (r + 1) \<and> rowptr ! (r + 1) \<le> rowptr ! r + maxnnz \<and>
        rowptr ! (r + 1) \<le> length col \<and>
        sorted_wrt (<) (csr_slice rowptr col r)) \<and>
     (\<forall>c \<in> set col. c < cols) \<and> (\<forall>v \<in> set val. fp_within 1 v)"

lemma csr_slice_append:
  assumes "r + 1 < length rowptr" "rowptr ! (r + 1) \<le> length xs"
  shows "csr_slice (rowptr @ ps) (xs @ ys) r = csr_slice rowptr xs r"
  using assms by (auto simp: csr_slice_def nth_append)

lemma sorted_distinct_sort: "distinct s \<Longrightarrow> sorted_wrt (<) (sort s)" for s :: "nat list"
  by (simp add: strict_sorted_iff)

lemma spmv_row_ok:
  assumes ok: "csr_ok rows cols maxnnz rp col val"
    and run: "spmv_row cols maxnnz (rp, col, val) g = Inr ((rp', col', val'), g')"
  shows "csr_ok (Suc rows) cols maxnnz rp' col' val'"
proof -
  obtain nz h1 s h2 v where nz: "randint 0 (int maxnnz) g = Inr (nz, h1)"
    and s: "sample_range cols (nat nz) h1 = Inr (s, h2)" and v: "repeatG (nat nz) rand_f32 h2 = Inr (v, g')"
    and e: "col' = col @ sort s" "rp' = rp @ [length col']" "val' = val @ v"
    using run by (auto simp: spmv_row_def Let_def result_simps)
  have n: "nat nz \<le> maxnnz" using randint_range [OF nz] by linarith
  note sp = sample_range_spec [OF s]
  note vv = repeat_rand_f32_within [OF v]
  have len: "length rp = rows + 1" "rp ! rows = length col" "rp ! 0 = 0" "length val = length col"
    using ok by (auto simp: csr_ok_def)
  have old: "rp ! r \<le> rp ! (r + 1)" "rp ! (r + 1) \<le> rp ! r + maxnnz" "rp ! (r + 1) \<le> length col"
    "sorted_wrt (<) (csr_slice rp col r)" if "r < rows" for r
    using ok that by (auto simp: csr_ok_def)
  have new: "csr_slice rp' col' rows = sort s"
  proof -
    have "csr_slice rp' col' rows = map (\<lambda>j. (col @ sort s) ! j) [length col..<length col + length s]"
      using len by (simp add: csr_slice_def e nth_append)
    also have "\<dots> = sort s" by (rule nth_equalityI) (simp_all add: nth_append)
    finally show ?thesis .
  qed
  have "rp' ! r \<le> rp' ! (r + 1) \<and> rp' ! (r + 1) \<le> rp' ! r + maxnnz \<and> rp' ! (r + 1) \<le> length col' \<and>
      sorted_wrt (<) (csr_slice rp' col' r)" if "r < Suc rows" for r
  proof (cases "r = rows")
    case True
    then show ?thesis using new len sp n sorted_distinct_sort [OF sp(2)] by (simp add: e nth_append)
  next
    case False
    then have r: "r < rows" using that by simp
    have "csr_slice rp' col' r = csr_slice rp col r"
      unfolding e by (rule csr_slice_append) (use r len old(3) [OF r] in auto)
    then show ?thesis using old [OF r] r len by (simp add: e nth_append)
  qed
  moreover have "\<forall>c \<in> set col'. c < cols" using ok sp(3) by (auto simp: csr_ok_def e)
  moreover have "\<forall>w \<in> set val'. fp_within 1 w" using ok vv by (auto simp: csr_ok_def e)
  ultimately show ?thesis using len sp(1) vv by (simp add: csr_ok_def e nth_append)
qed

lemma foldG_csr:
  "foldG (\<lambda>_. spmv_row cols maxnnz) js s g = Inr (s', g') \<Longrightarrow> s = (rp, col, val) \<Longrightarrow> csr_ok rows cols maxnnz rp col val
     \<Longrightarrow> s' = (rp', col', val') \<Longrightarrow> csr_ok (rows + length js) cols maxnnz rp' col' val'"
proof (induction js arbitrary: s g rp col val rows)
  case (Cons j js)
  obtain t h where t: "spmv_row cols maxnnz (rp, col, val) g = Inr (t, h)"
    "foldG (\<lambda>_. spmv_row cols maxnnz) js t h = Inr (s', g')"
    using Cons.prems(1,2) by (auto simp: result_simps)
  obtain rp2 col2 val2 where t2: "t = (rp2, col2, val2)" by (cases t)
  have "csr_ok (Suc rows) cols maxnnz rp2 col2 val2" using spmv_row_ok Cons.prems(3) t(1) t2 by blast
  then show ?case using Cons.IH [OF t(2) t2 _ Cons.prems(4), of "Suc rows"] by simp
qed (simp add: returnG_def)

lemma csr_empty: "csr_ok 0 cols maxnnz [0] [] []"
  by (simp add: csr_ok_def)

lemma spmv_matrix_ok:
  "spmv_matrix rows cols maxnnz g = Inr ((rp, col, val), g') \<Longrightarrow> csr_ok rows cols maxnnz rp col val"
  using foldG_csr [OF _ refl csr_empty refl] unfolding spmv_matrix_def by fastforce

lemma spmv_row_total: "maxnnz \<le> cols \<Longrightarrow> \<exists>t g'. spmv_row cols maxnnz s g = Inr (t, g')"
proof -
  assume le: "maxnnz \<le> cols"
  obtain rp col val where s: "s = (rp, col, val)" by (cases s)
  obtain nz h1 where nz: "randint 0 (int maxnnz) g = Inr (nz, h1)" using randint_total by fastforce
  have "nat nz \<le> cols" using randint_range [OF nz] le by linarith
  then obtain sm h2 where "sample_range cols (nat nz) h1 = Inr (sm, h2)" using sample_range_total by blast
  moreover obtain v h3 where "repeatG (nat nz) rand_f32 h2 = Inr (v, h3)"
    using repeatG_total [of rand_f32] rand_f32_total by blast
  ultimately show ?thesis using nz by (auto simp: s spmv_row_def Let_def result_simps)
qed

section \<open>Sparse and dense accumulation\<close>

text \<open>The accumulation on decoded values: a step depends on the accumulator's value only.\<close>

definition value_step :: "rat \<Rightarrow> rat \<Rightarrow> rat result" where
  "value_step p v = bindE (fr2f (p + v)) f2fr"

definition value_chain :: "(nat \<Rightarrow> rat) \<Rightarrow> nat list \<Rightarrow> rat \<Rightarrow> rat result" where
  "value_chain p js v = foldE (\<lambda>j. value_step (p j)) js v"

lemma value_chain_simps [simp]:
  "value_chain p [] v = Inr v" "value_chain p (j # js) v = bindE (value_step (p j) v) (value_chain p js)"
  by (simp add: value_chain_def) (cases "value_step (p j) v"; simp add: value_chain_def)

lemma fma_chain_value:
  assumes "\<And>j. j \<in> set js \<Longrightarrow> f2fr (u j) = Inr (U j) \<and> f2fr (w j) = Inr (W j)"
    and "f2fr acc = Inr v"
  shows "bindE (fma_chain u w js acc) f2fr = value_chain (\<lambda>j. U j * W j) js v"
  using assms
proof (induction js arbitrary: acc v)
  case (Cons j js)
  have j: "f2fr (u j) = Inr (U j)" "f2fr (w j) = Inr (W j)" using Cons.prems(1) by auto
  show ?case
  proof (cases "fr2f (U j * W j + v)")
    case (Inl e)
    then show ?thesis using j Cons.prems(2) by (simp add: fma_chain_def fma_def value_step_def)
  next
    case (Inr r)
    obtain z where z: "f2fr r = Inr z" using fr2f_result [OF Inr] by blast
    have "bindE (fma_chain u w js r) f2fr = value_chain (\<lambda>j. U j * W j) js z"
      by (rule Cons.IH) (use Cons.prems z in auto)
    then show ?thesis using j Cons.prems(2) Inr z
      by (simp add: fma_chain_def fma_def value_step_def)
  qed
qed (simp add: fma_chain_def)

lemma fma_chain_decodes: "fma_chain u w js acc = Inr r \<Longrightarrow> \<exists>v. f2fr acc = Inr v \<Longrightarrow> \<exists>v. f2fr r = Inr v"
  unfolding fma_chain_def by (erule foldE_invariant) (auto simp: fma_def result_simps dest!: fr2f_result)

lemma value_step_representable: "value_step p v = Inr z \<Longrightarrow> \<exists>b. f2fr b = Inr z"
  by (auto simp: value_step_def result_simps)

lemma value_step_zero: "f2fr b = Inr v \<Longrightarrow> value_step 0 v = Inr v"
  unfolding value_step_def using fp.rnd_exact by (metis add_0 bindE.simps(2))

lemma value_chain_filter:
  assumes "f2fr b = Inr v" and "\<And>j. j \<in> set js \<Longrightarrow> \<not> P j \<Longrightarrow> p j = 0"
  shows "value_chain p js v = value_chain p (filter P js) v"
  using assms
proof (induction js arbitrary: v b)
  case (Cons j js)
  show ?case
  proof (cases "P j")
    case False
    then show ?thesis using Cons value_step_zero [OF Cons.prems(1)] by simp
  next
    case True
    show ?thesis
    proof (cases "value_step (p j) v")
      case (Inr z)
      then obtain b' where "f2fr b' = Inr z" using value_step_representable by blast
      then show ?thesis using True Inr Cons by simp
    qed (use True in simp)
  qed
qed simp

lemma value_chain_map: "value_chain p (map f js) v = value_chain (\<lambda>j. p (f j)) js v"
proof (induction js arbitrary: v)
  case (Cons j js)
  then show ?case by (cases "value_step (p (f j)) v") simp_all
qed simp

lemma value_chain_cong: "(\<And>j. j \<in> set js \<Longrightarrow> p j = q j) \<Longrightarrow> value_chain p js v = value_chain q js v"
proof (induction js arbitrary: v)
  case (Cons j js)
  then show ?case by (cases "value_step (q j) v") simp_all
qed simp

lemma filter_strict_sorted:
  fixes xs :: "nat list"
  assumes "sorted_wrt (<) xs" "\<forall>x \<in> set xs. x < n"
  shows "filter (\<lambda>i. i \<in> set xs) [0..<n] = xs"
proof (rule sorted_distinct_set_unique)
  show "sorted xs" "distinct xs" using assms(1) by (simp_all add: strict_sorted_iff)
qed (use assms(2) in \<open>auto simp: sorted_wrt_filter\<close>)

text \<open>Row \<open>r\<close> of the dense matrix a compressed matrix stands for.\<close>

definition csr_dense :: "nat list \<Rightarrow> nat list \<Rightarrow> int list \<Rightarrow> nat \<Rightarrow> nat \<Rightarrow> int" where
  "csr_dense rowptr col val r c =
     (case map_of (zip (csr_slice rowptr col r) (csr_slice rowptr val r)) c of Some v \<Rightarrow> v | None \<Rightarrow> 0)"

lemma csr_slice_nth:
  "i < rowptr ! (r + 1) - rowptr ! r \<Longrightarrow> csr_slice rowptr xs r ! i = xs ! (rowptr ! r + i)"
  "length (csr_slice rowptr xs r) = rowptr ! (r + 1) - rowptr ! r"
  by (simp_all add: csr_slice_def)

lemma csr_dense_entry:
  assumes "distinct (csr_slice rowptr col r)" "rowptr ! r \<le> j" "j < rowptr ! (r + 1)"
  shows "csr_dense rowptr col val r (col ! j) = val ! j"
proof -
  let ?i = "j - rowptr ! r"
  have i: "?i < rowptr ! (r + 1) - rowptr ! r" using assms(2,3) by simp
  have "map_of (zip (csr_slice rowptr col r) (csr_slice rowptr val r)) (csr_slice rowptr col r ! ?i)
      = Some (csr_slice rowptr val r ! ?i)"
    using assms(1) i by (intro map_of_zip_nth) (simp_all add: csr_slice_nth)
  then show ?thesis using csr_slice_nth(1) [OF i, of col] csr_slice_nth(1) [OF i, of val] assms(2)
    by (simp add: csr_dense_def)
qed

lemma sparse_dense_chain:
  assumes ok: "csr_ok rows cols maxnnz rowptr col val" and r: "r < rows"
    and x: "\<forall>i < cols. \<exists>v. f2fr (x ! i) = Inr v"
  shows "bindE (fma_chain (\<lambda>j. val ! j) (\<lambda>j. x ! (col ! j)) [rowptr ! r..<rowptr ! (r + 1)] 0) f2fr
       = bindE (fma_chain (csr_dense rowptr col val r) (\<lambda>c. x ! c) [0..<cols] 0) f2fr"
proof -
  let ?js = "[rowptr ! r..<rowptr ! (r + 1)]"
  let ?d = "csr_dense rowptr col val r"
  let ?dec = "\<lambda>b. case f2fr b of Inr v \<Rightarrow> v | Inl e \<Rightarrow> 0"
  have hi: "rowptr ! (r + 1) \<le> length col" "length val = length col" and s: "sorted_wrt (<) (csr_slice rowptr col r)"
    and inr: "\<forall>c \<in> set col. c < cols" and fin: "\<forall>v \<in> set val. fp_within 1 v"
    using ok r by (auto simp: csr_ok_def)
  have dist: "distinct (csr_slice rowptr col r)" using s by (simp add: strict_sorted_iff)
  have js: "col ! j < cols" "\<exists>v. f2fr (val ! j) = Inr v" if "j \<in> set ?js" for j
    using that hi inr fin by (fastforce simp: fp_within_def)+
  have dense: "\<exists>v. f2fr (?d c) = Inr v" for c
    using fin hi by (auto simp: csr_dense_def csr_slice_def fp_within_def split: option.splits
        dest!: map_of_SomeD set_zip_rightD) fastforce
  have "bindE (fma_chain (\<lambda>j. val ! j) (\<lambda>j. x ! (col ! j)) ?js 0) f2fr
      = value_chain (\<lambda>j. ?dec (val ! j) * ?dec (x ! (col ! j))) ?js 0"
    by (rule fma_chain_value) (use js x in fastforce)+
  also have "\<dots> = value_chain (\<lambda>j. ?dec (?d (col ! j)) * ?dec (x ! (col ! j))) ?js 0"
    by (rule value_chain_cong) (use csr_dense_entry [OF dist] in auto)
  also have "\<dots> = value_chain (\<lambda>c. ?dec (?d c) * ?dec (x ! c)) (csr_slice rowptr col r) 0"
    by (simp add: csr_slice_def value_chain_map)
  also have "csr_slice rowptr col r = filter (\<lambda>c. c \<in> set (csr_slice rowptr col r)) [0..<cols]"
    by (rule filter_strict_sorted [OF s, symmetric]) (use js in \<open>auto simp: csr_slice_def\<close>)
  also have "value_chain (\<lambda>c. ?dec (?d c) * ?dec (x ! c)) \<dots> 0 = value_chain (\<lambda>c. ?dec (?d c) * ?dec (x ! c)) [0..<cols] 0"
  proof (rule value_chain_filter [OF f2fr_zero, symmetric])
    fix c assume "c \<notin> set (csr_slice rowptr col r)"
    then have "?d c = 0"
      by (auto simp: csr_dense_def split: option.splits dest!: map_of_SomeD set_zip_leftD)
    then show "?dec (?d c) * ?dec (x ! c) = 0" by simp
  qed
  also have "\<dots> = bindE (fma_chain ?d (\<lambda>c. x ! c) [0..<cols] 0) f2fr"
  proof (rule fma_chain_value [symmetric])
    fix c assume "c \<in> set [0..<cols]"
    then obtain v w where "f2fr (?d c) = Inr v" "f2fr (x ! c) = Inr w" using dense x by fastforce
    then show "f2fr (?d c) = Inr (?dec (?d c)) \<and> f2fr (x ! c) = Inr (?dec (x ! c))" by simp
  qed simp
  finally show ?thesis .
qed


section \<open>The case\<close>

lemma spmv_out_nth:
  assumes "spmv_out rows rowptr col val x = Inr y"
  shows "length y = rows"
    and "r < rows \<Longrightarrow> fma_chain (\<lambda>j. val ! j) (\<lambda>j. x ! (col ! j)) [rowptr ! r..<rowptr ! (r + 1)] 0 = Inr (y ! r)"
  using mapE_Inr_length [OF assms [unfolded spmv_out_def]] mapE_Inr_nth [OF assms [unfolded spmv_out_def], of r]
  by simp_all

lemma spmv_out_total:
  assumes ok: "csr_ok rows cols maxnnz rowptr col val" and x: "length x = cols" "\<forall>v \<in> set x. fp_within 1 v"
    and nz: "maxnnz \<le> 2 ^ 24"
  shows "\<exists>y. spmv_out rows rowptr col val x = Inr y"
  unfolding spmv_out_def
proof (rule mapE_exists)
  fix r assume "r \<in> set [0..<rows]"
  then have r: "r < rows" by simp
  have b: "rowptr ! (r + 1) \<le> rowptr ! r + maxnnz" "rowptr ! (r + 1) \<le> length col" "length val = length col"
    "\<forall>c \<in> set col. c < cols" "\<forall>v \<in> set val. fp_within 1 v"
    using ok r by (auto simp: csr_ok_def)
  have "\<exists>z. fma_chain (\<lambda>j. val ! j) (\<lambda>j. x ! (col ! j)) [rowptr ! r..<rowptr ! (r + 1)] 0 = Inr z \<and>
      fp_within (of_nat (0 + length [rowptr ! r..<rowptr ! (r + 1)])) z"
  proof (rule fma_chain_within)
    fix j assume "j \<in> set [rowptr ! r..<rowptr ! (r + 1)]"
    then have "j < length col" using b(2) by simp
    then show "fp_within 1 (val ! j) \<and> fp_within 1 (x ! (col ! j))" using b(3-5) x by simp
  qed (use b(1) nz in simp_all)
  then show "\<exists>z. fma_chain (\<lambda>j. val ! j) (\<lambda>j. x ! (col ! j)) [rowptr ! r..<rowptr ! (r + 1)] 0 = Inr z" by blast
qed

lemma spmv_case_correct:
  assumes ok: "case_ok cfg c" and run: "spmv_case cfg rows cols zba rowptr col val x c = Inr c'"
  obtains prp pcol pval px py y where "spmv_out rows rowptr col val x = Inr y" "case_ok cfg c'"
    "holds (c_img c') prp (map int rowptr)" "holds (c_img c') pcol (if col = [] then [0] else map int col)"
    "holds (c_img c') pval (if val = [] then [0] else val)" "holds (c_img c') px x" "golden c' py y"
    "launched cfg c' ''spmv'' (if zba then ''spmv_z'' else ''spmv'') [int prp, int pcol, int pval, int px, int py] rows 0"
proof -
  let ?nnz = "max (length col) 1"
  let ?krn = "if zba then ''spmv_z'' else ''spmv''"
  obtain prp c1 pcol c2 pval c3 px c4 py c5 c6 y where
    a1: "c_alloc (rows + 1) (Some (map int rowptr)) c = Inr (prp, c1)"
    and a2: "c_alloc ?nnz (Some (if col = [] then [0] else map int col)) c1 = Inr (pcol, c2)"
    and a3: "c_alloc ?nnz (Some (if val = [] then [0] else val)) c2 = Inr (pval, c3)"
    and a4: "c_alloc cols (Some x) c3 = Inr (px, c4)" and a5: "c_alloc rows None c4 = Inr (py, c5)"
    and la: "launch_case cfg ''spmv'' ?krn [int prp, int pcol, int pval, int px, int py] rows 0 c5 = Inr c6"
    and y: "spmv_out rows rowptr col val x = Inr y" and c': "c' = expect py y c6"
    using run by (auto simp: spmv_case_def Let_def result_simps)
  note f1 = c_alloc_facts [OF ok a1]
  note f2 = c_alloc_facts [OF f1(1) a2]
  note f3 = c_alloc_facts [OF f2(1) a3]
  note f4 = c_alloc_facts [OF f3(1) a4]
  note f5 = c_alloc_facts [OF f4(1) a5]
  note f6 = launch_case_facts [OF f5(1) la]
  have g4: "grows c4 c6" using grows_trans [OF f5(2) f6(2)] by simp
  have g3: "grows c3 c6" by (rule grows_trans [OF f4(2) g4])
  have g2: "grows c2 c6" by (rule grows_trans [OF f3(2) g3])
  have g1: "grows c1 c6" by (rule grows_trans [OF f2(2) g2])
  have z: "holds (c_img c6) py (replicate rows 0)" using grows_holds [OF f6(2) f5(3)] by simp
  have "case_ok cfg c'" "golden c' py y"
    using expect_zeros [OF f6(1) z spmv_out_nth(1) [OF y]] c' by auto
  moreover have "holds (c_img c') prp (map int rowptr)" "holds (c_img c') pcol (if col = [] then [0] else map int col)"
    "holds (c_img c') pval (if val = [] then [0] else val)" "holds (c_img c') px x"
    using grows_holds [OF g1 f1(3)] grows_holds [OF g2 f2(3)] grows_holds [OF g3 f3(3)] grows_holds [OF g4 f4(3)]
    by (simp_all add: c' split del: if_split)
  moreover have "launched cfg c' ''spmv'' ?krn [int prp, int pcol, int pval, int px, int py] rows 0"
    using grows_launched [OF grows_expect f6(5)] c' by simp
  ultimately show thesis using y by (intro that)
qed

lemma spmv_case_total:
  assumes "csr_ok rows cols maxnnz rowptr col val" "length x = cols" "spmv_out rows rowptr col val x = Inr y"
    and "map_of (SLOTS cfg) (if zba then ''spmv_z'' else ''spmv'') = Some s"
  shows "\<exists>c'. spmv_case cfg rows cols zba rowptr col val x c = Inr c'"
proof -
  let ?nnz = "max (length col) 1"
  have len: "length rowptr = rows + 1" "length val = length col" using assms(1) by (auto simp: csr_ok_def)
  obtain prp c1 where 1: "c_alloc (rows + 1) (Some (map int rowptr)) c = Inr (prp, c1)"
    using c_alloc_total [of "rows + 1" "Some (map int rowptr)" c] len by auto
  obtain pcol c2 where 2: "c_alloc ?nnz (Some (if col = [] then [0] else map int col)) c1 = Inr (pcol, c2)"
    using c_alloc_total [of ?nnz "Some (if col = [] then [0] else map int col)" c1] by (cases col) auto
  obtain pval c3 where 3: "c_alloc ?nnz (Some (if val = [] then [0] else val)) c2 = Inr (pval, c3)"
    using c_alloc_total [of ?nnz "Some (if val = [] then [0] else val)" c2] len by (cases val) auto
  obtain px c4 where 4: "c_alloc cols (Some x) c3 = Inr (px, c4)"
    using c_alloc_total [of cols "Some x" c3] assms(2) by auto
  obtain py c5 where 5: "c_alloc rows None c4 = Inr (py, c5)"
    using c_alloc_total [of rows None c4] by auto
  show ?thesis
    using 1 2 3 4 5 assms(3) launch_case_total [OF assms(4), of "''spmv''" "[int prp, int pcol, int pval, int px, int py]" rows 0 c5]
    by (auto simp: spmv_case_def Let_def simp del: max.absorb1 max.absorb2 split del: if_split)
qed

lemma spmv_runs:
  assumes "map_of (SLOTS cfg) (if zba then ''spmv_z'' else ''spmv'') \<noteq> None" "maxnnz \<le> cols" "maxnnz \<le> 2 ^ 24"
  shows "\<exists>c g'. spmv cfg rows cols maxnnz zba g = Inr (c, g')"
proof -
  obtain t g1 where t: "spmv_matrix rows cols maxnnz g = Inr (t, g1)"
    using foldG_total [of "[0..<rows]" "\<lambda>_. spmv_row cols maxnnz"] spmv_row_total [OF assms(2)]
    unfolding spmv_matrix_def by blast
  obtain rowptr col val where tt: "t = (rowptr, col, val)" by (cases t)
  have ok: "csr_ok rows cols maxnnz rowptr col val" using spmv_matrix_ok t tt by blast
  obtain x g2 where x: "repeatG cols rand_f32 g1 = Inr (x, g2)"
    using repeatG_total [of rand_f32] rand_f32_total by blast
  have lx: "length x = cols" "\<forall>v \<in> set x. fp_within 1 v" using repeat_rand_f32_within [OF x] by auto
  obtain y where y: "spmv_out rows rowptr col val x = Inr y" using spmv_out_total [OF ok lx assms(3)] by blast
  obtain s where "map_of (SLOTS cfg) (if zba then ''spmv_z'' else ''spmv'') = Some s" using assms(1) by blast
  from spmv_case_total [OF ok lx(1) y this] show ?thesis
    using t tt x by (fastforce simp: spmv_def Let_def result_simps)
qed

section \<open>Properties\<close>

text \<open>\<^verbatim>\<open>spmv\<close> builds a well-formed compressed-row matrix for every random stream: the row
  pointers ascend from 0 to the number of entries in steps of at most \<^verbatim>\<open>maxnnz\<close>, the columns of a
  row are strictly increasing and in range, and every entry is a random value of magnitude at most 1.\<close>

theorem spmv_matrix_csr:
  assumes "spmv_matrix rows cols maxnnz g = Inr ((rowptr, col, val), g')"
  shows "csr_ok rows cols maxnnz rowptr col val"
  using assms by (rule spmv_matrix_ok)

lemma spmv_matrix_csr_witness:
  "\<exists>rowptr col val g'. spmv_matrix 3 8 4 [2, 7, 1] = Inr ((rowptr, col, val), g') \<and> csr_ok 3 8 4 rowptr col val"
proof -
  obtain t g' where t: "spmv_matrix 3 8 4 [2, 7, 1] = Inr (t, g')"
    using foldG_total [of "[0..<3]" "\<lambda>_. spmv_row 8 4"] spmv_row_total [of 4 8]
    unfolding spmv_matrix_def by fastforce
  obtain rowptr col val where "t = (rowptr, col, val)" by (cases t)
  with t spmv_matrix_csr show ?thesis by blast
qed

text \<open>C27: The case \<^verbatim>\<open>spmv\<close> returns is well formed, holds the compressed matrix and the vector, and
  expects for every row the fused accumulation over the row's entries, which decodes to the same
  value as the accumulation over all columns of the dense row the compressed one stands for.\<close>

theorem spmv_case_spec:
  assumes "spmv cfg rows cols maxnnz zba g = Inr (c, g')"
  shows "\<exists>rowptr col val x y prp pcol pval px py. csr_ok rows cols maxnnz rowptr col val \<and> length x = cols \<and>
    length y = rows \<and> case_ok cfg c \<and> holds (c_img c) prp (map int rowptr) \<and> holds (c_img c) px x \<and> golden c py y \<and>
    holds (c_img c) pcol (if col = [] then [0] else map int col) \<and> holds (c_img c) pval (if val = [] then [0] else val) \<and>
    launched cfg c ''spmv'' (if zba then ''spmv_z'' else ''spmv'') [int prp, int pcol, int pval, int px, int py] rows 0 \<and>
    (\<forall>r < rows. \<exists>w. f2fr (y ! r) = Inr w \<and>
       bindE (fma_chain (csr_dense rowptr col val r) (\<lambda>i. x ! i) [0..<cols] 0) f2fr = Inr w)"
proof -
  obtain rowptr col val g1 x g2 c0 where m: "spmv_matrix rows cols maxnnz g = Inr ((rowptr, col, val), g1)"
    and x: "repeatG cols rand_f32 g1 = Inr (x, g2)"
    and c: "spmv_case cfg rows cols zba rowptr col val x (new_case c0) = Inr c"
    using assms by (auto simp: spmv_def Let_def result_simps)
  have ok: "csr_ok rows cols maxnnz rowptr col val" by (rule spmv_matrix_ok [OF m])
  have lx: "length x = cols" "\<forall>v \<in> set x. fp_within 1 v" using repeat_rand_f32_within [OF x] by auto
  then have dx: "\<forall>i < cols. \<exists>v. f2fr (x ! i) = Inr v" by (auto simp: fp_within_def)
  from new_case_ok c obtain prp pcol pval px py y where y: "spmv_out rows rowptr col val x = Inr y" and h: "case_ok cfg c"
    "holds (c_img c) prp (map int rowptr)" "holds (c_img c) pcol (if col = [] then [0] else map int col)"
    "holds (c_img c) pval (if val = [] then [0] else val)" "holds (c_img c) px x" "golden c py y"
    "launched cfg c ''spmv'' (if zba then ''spmv_z'' else ''spmv'') [int prp, int pcol, int pval, int px, int py] rows 0"
    by (rule spmv_case_correct)
  have rows: "\<exists>w. f2fr (y ! r) = Inr w \<and>
      bindE (fma_chain (csr_dense rowptr col val r) (\<lambda>i. x ! i) [0..<cols] 0) f2fr = Inr w" if r: "r < rows" for r
  proof -
    have e: "bindE (Inr (y ! r)) f2fr = bindE (fma_chain (csr_dense rowptr col val r) (\<lambda>i. x ! i) [0..<cols] 0) f2fr"
      using sparse_dense_chain [OF ok r dx] spmv_out_nth(2) [OF y r] by simp
    have "\<exists>w. f2fr (y ! r) = Inr w" by (rule fma_chain_decodes [OF spmv_out_nth(2) [OF y r]]) simp
    with e show ?thesis by auto
  qed
  show ?thesis using ok lx(1) spmv_out_nth(1) [OF y] h rows by blast
qed

lemma spmv_case_spec_witness:
  "\<exists>c g' y py. spmv \<lparr>LANES = 8, WORDS = 2 ^ 20, SLOTS = [(''spmv_z'', 3)]\<rparr> 3 8 4 True [2, 7, 1] = Inr (c, g') \<and>
     length y = 3 \<and> golden c py y"
proof -
  obtain c g' where c: "spmv \<lparr>LANES = 8, WORDS = 2 ^ 20, SLOTS = [(''spmv_z'', 3)]\<rparr> 3 8 4 True [2, 7, 1] = Inr (c, g')"
    using spmv_runs [of "\<lparr>LANES = 8, WORDS = 2 ^ 20, SLOTS = [(''spmv_z'', 3)]\<rparr>" True 4 8 3 "[2, 7, 1]"] by auto
  then show ?thesis using spmv_case_spec [OF c] by blast
qed

text \<open>\<^verbatim>\<open>spmv\<close> returns a case for every random stream when its kernel is placed and a row has at
  most as many entries as there are columns; with more it may ask \<^verbatim>\<open>sample\<close> for too many columns.\<close>

theorem spmv_total:
  assumes "map_of (SLOTS cfg) (if zba then ''spmv_z'' else ''spmv'') \<noteq> None" "maxnnz \<le> cols" "maxnnz \<le> 2 ^ 24"
  shows "\<exists>c g'. spmv cfg rows cols maxnnz zba g = Inr (c, g')"
  using assms by (rule spmv_runs)

lemma spmv_total_witness:
  "(\<exists>c g'. spmv \<lparr>LANES = 8, WORDS = 2 ^ 20, SLOTS = [(''spmv'', 3)]\<rparr> 512 512 16 False [2, 7, 1] = Inr (c, g')) \<and>
   spmv \<lparr>LANES = 8, WORDS = 2 ^ 20, SLOTS = [(''spmv'', 3)]\<rparr> 1 2 3 False [3] = Inl ValueError"
proof
  show "\<exists>c g'. spmv \<lparr>LANES = 8, WORDS = 2 ^ 20, SLOTS = [(''spmv'', 3)]\<rparr> 512 512 16 False [2, 7, 1] = Inr (c, g')"
    by (rule spmv_total) simp_all
  show "spmv \<lparr>LANES = 8, WORDS = 2 ^ 20, SLOTS = [(''spmv'', 3)]\<rparr> 1 2 3 False [3] = Inl ValueError"
    by (simp add: spmv_def spmv_matrix_def spmv_row_def bindG_def liftG_def randint_def randrange_def draw_def
        returnG_def sample_range_def)
qed

end
