(* ===== verification/Stencil.thy ===== *)
theory Stencil
  imports Gemm
begin

text \<open>
  The application \<^verbatim>\<open>stencil\<close> of \<^verbatim>\<open>sim/gen_apps.py\<close>: five-point Jacobi sweeps on a padded grid,
  two buffers that swap roles, and the maximum principle that keeps every sweep inside FP32.
\<close>

section \<open>The operation\<close>

text \<open>\<^verbatim>\<open>struct.pack('<f', 0.5)\<close> and \<^verbatim>\<open>struct.pack('<f', 0.125)\<close>.\<close>

definition stencil_c0 :: int where "stencil_c0 = 0x3F000000"

definition stencil_c1 :: int where "stencil_c1 = 0x3E000000"

definition stencil_pos :: "nat \<Rightarrow> nat \<Rightarrow> nat \<Rightarrow> nat \<Rightarrow> nat" where
  "stencil_pos L s i j = (i + 1) * s + L + j"

definition stencil_point :: "nat \<Rightarrow> int list \<Rightarrow> nat \<Rightarrow> int result" where
  "stencil_point s cur p =
     bindE (fadd (cur ! (p - s)) (cur ! (p + s))) (\<lambda>v.
     bindE (fadd (cur ! (p - 1)) (cur ! (p + 1))) (\<lambda>h.
     bindE (fadd v h) (\<lambda>sm.
     bindE (fmul stencil_c0 (cur ! p)) (\<lambda>z.
     fma stencil_c1 sm z))))"

definition stencil_sweep :: "nat \<Rightarrow> nat \<Rightarrow> nat \<Rightarrow> int list \<Rightarrow> int list result" where
  "stencil_sweep L h w cur =
     (let s = w + 2 * L
      in foldE (\<lambda>i. foldE (\<lambda>j nxt.
           bindE (stencil_point s cur (stencil_pos L s i j)) (\<lambda>v. Inr (nxt[stencil_pos L s i j := v]))) [0..<w])
         [0..<h] cur)"

definition stencil_step ::
  "config \<Rightarrow> nat \<Rightarrow> nat \<Rightarrow> nat \<Rightarrow> nat list \<Rightarrow> nat \<Rightarrow> int list \<times> app_case \<Rightarrow> (int list \<times> app_case) result" where
  "stencil_step cfg h w rows bufs t = (\<lambda>(cur, c).
     (let s = w + 2 * LANES cfg; src = bufs ! (t mod 2); dst = bufs ! ((t + 1) mod 2)
      in bindE (if rows \<noteq> 0 then
             bindE (assertE (rows mod 2 = 0 \<and> h mod rows = 0)) (\<lambda>_.
             launch_case cfg (''stencil'' @ str_nat t) ''stencil_rb''
               [int src, int dst, bit_length (int w) - 1, int s, stencil_c0, stencil_c1, int rows]
               (h div rows * w) 0 c)
           else launch_case cfg (''stencil'' @ str_nat t) ''stencil''
               [int src, int dst, bit_length (int w) - 1, int s, stencil_c0, stencil_c1] (h * w) 0 c) (\<lambda>c.
         bindE (stencil_sweep (LANES cfg) h w cur) (\<lambda>nxt. Inr (nxt, c)))))"

definition stencil_case :: "config \<Rightarrow> nat \<Rightarrow> nat \<Rightarrow> nat \<Rightarrow> nat \<Rightarrow> int list \<Rightarrow> app_case \<Rightarrow> app_case result" where
  "stencil_case cfg h w sweeps rows grid c =
     bindE (c_alloc (length grid) (Some grid) c) (\<lambda>(b0, c).
     bindE (c_alloc (length grid) (Some grid) c) (\<lambda>(b1, c).
     bindE (foldE (stencil_step cfg h w rows [b0, b1]) [0..<sweeps] (grid, c)) (\<lambda>(cur, c).
     Inr (expect ([b0, b1] ! (sweeps mod 2)) cur c))))"

definition stencil :: "config \<Rightarrow> nat \<Rightarrow> nat \<Rightarrow> nat \<Rightarrow> nat \<Rightarrow> app_case gen" where
  "stencil cfg h w sweeps rows =
     (let c = new_case ((if rows \<noteq> 0 then ''stencilrb'' else ''stencil'') @ ''_'' @ str_nat h @ ''x'' @ str_nat w
                @ ''x'' @ str_nat sweeps)
      in bindG (repeatG ((h + 2) * (w + 2 * LANES cfg)) rand_f32) (\<lambda>grid.
         liftG (stencil_case cfg h w sweeps rows grid c)))"

section \<open>The maximum principle\<close>

lemma stencil_consts: "f2fr stencil_c0 = Inr (1 / 2)" "f2fr stencil_c1 = Inr (1 / 8)"
  by code_simp+

lemma fadd_within:
  assumes "fp_within A a" "fp_within B b" "f2fr lm = Inr (A + B)"
  obtains r where "fadd a b = Inr r" "fp_within (A + B) r"
proof -
  obtain x y where d: "f2fr a = Inr x" "f2fr b = Inr y" "\<bar>x\<bar> \<le> A" "\<bar>y\<bar> \<le> B"
    using assms(1,2) by (auto simp: fp_within_def)
  then have "\<bar>x + y\<bar> \<le> A + B" by linarith
  with assms(3) obtain r v where "fr2f (x + y) = Inr r" "f2fr r = Inr v" "\<bar>v\<bar> \<le> A + B"
    by (rule fp.rnd_bound)
  then show thesis using d by (intro that) (auto simp: fadd_def fp_within_def)
qed

lemma fp_bounds: "\<exists>b. f2fr b = Inr (1 + 1)" "\<exists>b. f2fr b = Inr (1 + 1 + (1 + 1))" "\<exists>b. f2fr b = Inr (1 / 2)" "\<exists>b. f2fr b = Inr 1"
proof -
  have "f2fr 0x40000000 = Inr 2" "f2fr 0x40800000 = Inr 4" "f2fr 0x3F000000 = Inr (1 / 2)" "f2fr 0x3F800000 = Inr 1"
    by code_simp+
  then show "\<exists>b. f2fr b = Inr (1 + 1)" "\<exists>b. f2fr b = Inr (1 + 1 + (1 + 1))" "\<exists>b. f2fr b = Inr (1 / 2)" "\<exists>b. f2fr b = Inr 1"
    by auto
qed

lemma stencil_point_within:
  assumes "fp_within 1 (cur ! (p - s))" "fp_within 1 (cur ! (p + s))" "fp_within 1 (cur ! (p - 1))"
    "fp_within 1 (cur ! (p + 1))" "fp_within 1 (cur ! p)"
  shows "\<exists>r. stencil_point s cur p = Inr r \<and> fp_within 1 r"
proof -
  obtain two where two: "f2fr two = Inr (1 + 1)" using fp_bounds by blast
  obtain four where four: "f2fr four = Inr (1 + 1 + (1 + 1))" using fp_bounds by blast
  obtain half where half: "f2fr half = Inr (1 / 2)" using fp_bounds by blast
  obtain one where one: "f2fr one = Inr 1" using fp_bounds by blast
  obtain v where v: "fadd (cur ! (p - s)) (cur ! (p + s)) = Inr v" "fp_within (1 + 1) v"
    by (rule fadd_within [OF assms(1,2) two])
  obtain h where h: "fadd (cur ! (p - 1)) (cur ! (p + 1)) = Inr h" "fp_within (1 + 1) h"
    by (rule fadd_within [OF assms(3,4) two])
  obtain sm where sm: "fadd v h = Inr sm" "fp_within (1 + 1 + (1 + 1)) sm"
    by (rule fadd_within [OF v(2) h(2) four])
  obtain x where x: "f2fr (cur ! p) = Inr x" "\<bar>x\<bar> \<le> 1" using assms(5) by (auto simp: fp_within_def)
  have "\<bar>1 / 2 * x\<bar> \<le> 1 / 2" using x(2) by (simp add: abs_mult)
  with half obtain z zv where z: "fr2f (1 / 2 * x) = Inr z" "f2fr z = Inr zv" "\<bar>zv\<bar> \<le> 1 / 2" by (rule fp.rnd_bound)
  obtain y where y: "f2fr sm = Inr y" "\<bar>y\<bar> \<le> 4" using sm(2) by (auto simp: fp_within_def)
  have "\<bar>1 / 8 * y + zv\<bar> \<le> 1" using y(2) z(3) by (auto simp: abs_le_iff)
  with one obtain r rv where r: "fr2f (1 / 8 * y + zv) = Inr r" "f2fr r = Inr rv" "\<bar>rv\<bar> \<le> 1" by (rule fp.rnd_bound)
  have "fmul stencil_c0 (cur ! p) = Inr z" using x z by (simp add: fmul_def stencil_consts)
  moreover have "fma stencil_c1 sm z = Inr r" using y z r by (simp add: fma_def stencil_consts)
  ultimately have "stencil_point s cur p = Inr r" using v h sm by (simp add: stencil_point_def)
  then show ?thesis using r by (auto simp: fp_within_def)
qed

section \<open>A sweep\<close>

text \<open>The padded grid and its interior.\<close>

definition stencil_interior :: "nat \<Rightarrow> nat \<Rightarrow> nat \<Rightarrow> nat \<Rightarrow> bool" where
  "stencil_interior L h w p \<longleftrightarrow> (\<exists>i < h. \<exists>j < w. p = stencil_pos L (w + 2 * L) i j)"

lemma stencil_pos_inj:
  assumes "j < w" "j' < w" "stencil_pos L (w + 2 * L) i j = stencil_pos L (w + 2 * L) i' j'"
  shows "i = i' \<and> j = j'"
proof -
  let ?s = "w + 2 * L"
  have lt: "L + j < ?s" "L + j' < ?s" using assms(1,2) by simp_all
  have e: "(i + 1) * ?s + (L + j) = (i' + 1) * ?s + (L + j')" using assms(3) by (simp only: stencil_pos_def add.assoc)
  have "((i + 1) * ?s + (L + j)) div ?s = i + 1" "((i' + 1) * ?s + (L + j')) div ?s = i' + 1"
    using lt by (simp_all only: div_mult_self3 div_less)
  then have "i = i'" using e by simp
  then show ?thesis using e by simp
qed

lemma stencil_pos_bounds:
  fixes L :: nat
  assumes "i < h" "j < w"
  defines "s \<equiv> w + 2 * L" and "p \<equiv> stencil_pos L (w + 2 * L) i j"
  shows "p - s < (h + 2) * s" "p + s < (h + 2) * s" "p - 1 < (h + 2) * s" "p + 1 < (h + 2) * s" "p < (h + 2) * s" "s \<le> p" "1 \<le> p"
proof -
  have "(i + 1) * s + s \<le> (h + 1) * s" using assms(1) mult_le_mono1 [of "i + 2" "h + 1" s] by simp
  moreover have "L + j < s" "0 < s" using assms(2) by (simp_all add: s_def)
  ultimately have m: "p + s < (h + 2) * s" "s \<le> p" by (simp_all add: p_def stencil_pos_def s_def [symmetric])
  then show "p + s < (h + 2) * s" "s \<le> p" .
  show "p - s < (h + 2) * s" "p - 1 < (h + 2) * s" "p + 1 < (h + 2) * s" "p < (h + 2) * s" "1 \<le> p"
    using m \<open>0 < s\<close> by linarith+
qed

text \<open>An inner row, then the whole sweep: interior points are computed from the old grid, the padding is kept.\<close>

lemma row_fold:
  assumes "foldE (\<lambda>j nxt. bindE (f (P j)) (\<lambda>v. Inr (nxt[P j := v]))) js nxt = Inr nxt'"
    and "inj_on P (set js)" "\<And>j. j \<in> set js \<Longrightarrow> P j < length nxt" "distinct js"
  shows "length nxt' = length nxt \<and> (\<forall>j \<in> set js. f (P j) = Inr (nxt' ! P j)) \<and> (\<forall>p. p \<notin> P ` set js \<longrightarrow> nxt' ! p = nxt ! p)"
  using assms
proof (induction js arbitrary: nxt)
  case (Cons j js)
  then obtain v where v: "f (P j) = Inr v"
    and r: "foldE (\<lambda>j nxt. bindE (f (P j)) (\<lambda>v. Inr (nxt[P j := v]))) js (nxt[P j := v]) = Inr nxt'"
    by (auto simp: result_simps)
  have IH: "length nxt' = length (nxt[P j := v]) \<and> (\<forall>j \<in> set js. f (P j) = Inr (nxt' ! P j)) \<and>
      (\<forall>p. p \<notin> P ` set js \<longrightarrow> nxt' ! p = (nxt[P j := v]) ! p)"
    by (rule Cons.IH [OF r]) (use Cons.prems in auto)
  have "P j \<notin> P ` set js" using Cons.prems(2,4) by (auto simp: inj_on_def)
  then have "nxt' ! P j = v" using IH Cons.prems(3) by simp
  then show ?case using IH v by auto
qed simp

lemma rows_fold:
  assumes "foldE (\<lambda>i. foldE (\<lambda>j nxt. bindE (f (P i j)) (\<lambda>v. Inr (nxt[P i j := v]))) [0..<w]) is nxt = Inr nxt'"
    and "\<And>i j i' j'. i \<in> set is \<Longrightarrow> i' \<in> set is \<Longrightarrow> j < w \<Longrightarrow> j' < w \<Longrightarrow> P i j = P i' j' \<Longrightarrow> i = i' \<and> j = j'"
    and "\<And>i j. i \<in> set is \<Longrightarrow> j < w \<Longrightarrow> P i j < length nxt" "distinct is"
  shows "length nxt' = length nxt \<and> (\<forall>i \<in> set is. \<forall>j < w. f (P i j) = Inr (nxt' ! P i j)) \<and>
     (\<forall>p. (\<forall>i \<in> set is. \<forall>j < w. p \<noteq> P i j) \<longrightarrow> nxt' ! p = nxt ! p)"
  using assms
proof (induction "is" arbitrary: nxt)
  case (Cons i "is")
  then obtain mid where mid: "foldE (\<lambda>j nxt. bindE (f (P i j)) (\<lambda>v. Inr (nxt[P i j := v]))) [0..<w] nxt = Inr mid"
    and r: "foldE (\<lambda>i. foldE (\<lambda>j nxt. bindE (f (P i j)) (\<lambda>v. Inr (nxt[P i j := v]))) [0..<w]) is mid = Inr nxt'"
    by (auto simp: result_simps)
  have inj: "inj_on (P i) (set [0..<w])" using Cons.prems(2) [of i i] by (auto simp: inj_on_def)
  have rf: "length mid = length nxt \<and> (\<forall>j \<in> set [0..<w]. f (P i j) = Inr (mid ! P i j)) \<and>
      (\<forall>p. p \<notin> P i ` set [0..<w] \<longrightarrow> mid ! p = nxt ! p)"
    by (rule row_fold [OF mid inj]) (use Cons.prems(3) in simp_all)
  then have row: "length mid = length nxt" "\<And>j. j < w \<Longrightarrow> f (P i j) = Inr (mid ! P i j)"
    "\<And>p. (\<forall>j < w. p \<noteq> P i j) \<Longrightarrow> mid ! p = nxt ! p"
    by (auto simp: image_iff)
  have "length nxt' = length mid \<and> (\<forall>i \<in> set is. \<forall>j < w. f (P i j) = Inr (nxt' ! P i j)) \<and>
     (\<forall>p. (\<forall>i \<in> set is. \<forall>j < w. p \<noteq> P i j) \<longrightarrow> nxt' ! p = mid ! p)"
  proof (rule Cons.IH [OF r])
    fix k j k' j'
    show "k \<in> set is \<Longrightarrow> k' \<in> set is \<Longrightarrow> j < w \<Longrightarrow> j' < w \<Longrightarrow> P k j = P k' j' \<Longrightarrow> k = k' \<and> j = j'"
      using Cons.prems(2) [of k k' j j'] by simp
    show "k \<in> set is \<Longrightarrow> j < w \<Longrightarrow> P k j < length mid" using Cons.prems(3) [of k j] row(1) by simp
  qed (use Cons.prems(4) in simp)
  then have IH: "length nxt' = length mid" "\<And>k j. k \<in> set is \<Longrightarrow> j < w \<Longrightarrow> f (P k j) = Inr (nxt' ! P k j)"
    "\<And>p. (\<forall>i \<in> set is. \<forall>j < w. p \<noteq> P i j) \<Longrightarrow> nxt' ! p = mid ! p"
    by blast+
  have "nxt' ! P i j = mid ! P i j" if j: "j < w" for j
  proof (rule IH(3), intro ballI allI impI)
    fix k j' assume "k \<in> set is" "j' < w"
    then show "P i j \<noteq> P k j'" using Cons.prems(2) [of i k j j'] Cons.prems(4) j by auto
  qed
  then have "f (P i j) = Inr (nxt' ! P i j)" if "j < w" for j using row(2) that by simp
  then show ?case using row(1,3) IH by simp
qed simp

lemma stencil_sweep_points:
  assumes run: "stencil_sweep L h w cur = Inr nxt" and len: "length cur = (h + 2) * (w + 2 * L)"
  shows "length nxt = length cur"
    and "i < h \<Longrightarrow> j < w \<Longrightarrow> stencil_point (w + 2 * L) cur (stencil_pos L (w + 2 * L) i j) = Inr (nxt ! stencil_pos L (w + 2 * L) i j)"
    and "\<not> stencil_interior L h w p \<Longrightarrow> nxt ! p = cur ! p"
proof -
  have r: "foldE (\<lambda>i. foldE (\<lambda>j nxt. bindE (stencil_point (w + 2 * L) cur (stencil_pos L (w + 2 * L) i j))
      (\<lambda>v. Inr (nxt[stencil_pos L (w + 2 * L) i j := v]))) [0..<w]) [0..<h] cur = Inr nxt"
    using run by (simp only: stencil_sweep_def Let_def)
  have "length nxt = length cur \<and>
     (\<forall>i \<in> set [0..<h]. \<forall>j < w. stencil_point (w + 2 * L) cur (stencil_pos L (w + 2 * L) i j) = Inr (nxt ! stencil_pos L (w + 2 * L) i j)) \<and>
     (\<forall>p. (\<forall>i \<in> set [0..<h]. \<forall>j < w. p \<noteq> stencil_pos L (w + 2 * L) i j) \<longrightarrow> nxt ! p = cur ! p)"
  proof (rule rows_fold [OF r])
    fix i j i' j'
    show "j < w \<Longrightarrow> j' < w \<Longrightarrow> stencil_pos L (w + 2 * L) i j = stencil_pos L (w + 2 * L) i' j' \<Longrightarrow> i = i' \<and> j = j'"
      by (rule stencil_pos_inj)
    show "i \<in> set [0..<h] \<Longrightarrow> j < w \<Longrightarrow> stencil_pos L (w + 2 * L) i j < length cur"
      using stencil_pos_bounds(5) [of i h j w L] len by simp
  qed simp
  then show "length nxt = length cur"
    "i < h \<Longrightarrow> j < w \<Longrightarrow> stencil_point (w + 2 * L) cur (stencil_pos L (w + 2 * L) i j) = Inr (nxt ! stencil_pos L (w + 2 * L) i j)"
    "\<not> stencil_interior L h w p \<Longrightarrow> nxt ! p = cur ! p"
    by (auto simp: stencil_interior_def)
qed

lemma stencil_sweep_within:
  assumes len: "length cur = (h + 2) * (w + 2 * L)" and b: "\<forall>x \<in> set cur. fp_within 1 x"
  shows "\<exists>nxt. stencil_sweep L h w cur = Inr nxt \<and> length nxt = length cur \<and> (\<forall>x \<in> set nxt. fp_within 1 x)"
proof -
  let ?s = "w + 2 * L"
  let ?inv = "\<lambda>nxt. length nxt = length cur \<and> (\<forall>x \<in> set nxt. fp_within 1 x)"
  have pt: "\<exists>v. stencil_point ?s cur (stencil_pos L ?s i j) = Inr v \<and> fp_within 1 v" if "i < h" "j < w" for i j
    by (rule stencil_point_within) (use stencil_pos_bounds [OF that] len b in simp_all)
  have row: "\<exists>n'. foldE (\<lambda>j nxt. bindE (stencil_point ?s cur (stencil_pos L ?s i j)) (\<lambda>v. Inr (nxt[stencil_pos L ?s i j := v])))
      [0..<w] n = Inr n' \<and> ?inv n'" if ih: "i < h" "?inv n" for i n
  proof (rule foldE_total)
    fix j nxt assume "j \<in> set [0..<w]" "?inv nxt"
    moreover from this obtain v where "stencil_point ?s cur (stencil_pos L ?s i j) = Inr v" "fp_within 1 v" using pt [of i j] ih by auto
    ultimately show "\<exists>s'. bindE (stencil_point ?s cur (stencil_pos L ?s i j)) (\<lambda>v. Inr (nxt[stencil_pos L ?s i j := v])) = Inr s' \<and> ?inv s'"
      by (auto dest!: set_update_subset_insert [THEN subsetD])
  qed (rule ih)
  have "\<exists>n'. foldE (\<lambda>i. foldE (\<lambda>j nxt. bindE (stencil_point ?s cur (stencil_pos L ?s i j))
      (\<lambda>v. Inr (nxt[stencil_pos L ?s i j := v]))) [0..<w]) [0..<h] cur = Inr n' \<and> ?inv n'"
    by (rule foldE_total) (use b row in auto)
  then show ?thesis by (simp only: stencil_sweep_def Let_def)
qed


section \<open>The sweeps of a case\<close>

fun stencil_iter :: "nat \<Rightarrow> nat \<Rightarrow> nat \<Rightarrow> nat \<Rightarrow> int list \<Rightarrow> int list result" where
  "stencil_iter L h w 0 cur = Inr cur"
| "stencil_iter L h w (Suc t) cur = bindE (stencil_iter L h w t cur) (stencil_sweep L h w)"

lemma stencil_iter_within:
  assumes "length cur = (h + 2) * (w + 2 * L)" "\<forall>x \<in> set cur. fp_within 1 x"
  shows "\<exists>nxt. stencil_iter L h w t cur = Inr nxt \<and> length nxt = length cur \<and> (\<forall>x \<in> set nxt. fp_within 1 x)"
proof (induction t)
  case (Suc t)
  then obtain mid where mid: "stencil_iter L h w t cur = Inr mid" "length mid = length cur" "\<forall>x \<in> set mid. fp_within 1 x"
    by blast
  then show ?case using stencil_sweep_within [of mid h w L] assms(1) by simp
qed (use assms in simp)

lemma stencil_iter_border:
  assumes "length cur = (h + 2) * (w + 2 * L)" "stencil_iter L h w t cur = Inr nxt"
  shows "length nxt = length cur \<and> (\<forall>p. \<not> stencil_interior L h w p \<longrightarrow> nxt ! p = cur ! p)"
  using assms(2)
proof (induction t arbitrary: nxt)
  case (Suc t)
  then obtain mid where mid: "stencil_iter L h w t cur = Inr mid" "stencil_sweep L h w mid = Inr nxt"
    by (auto simp: result_simps)
  have IH: "length mid = length cur" "\<And>p. \<not> stencil_interior L h w p \<Longrightarrow> mid ! p = cur ! p"
    using Suc.IH [OF mid(1)] by auto
  show ?case using stencil_sweep_points [OF mid(2)] IH assms(1) by simp
qed simp

definition stencil_params :: "config \<Rightarrow> nat \<Rightarrow> nat \<Rightarrow> nat \<Rightarrow> nat \<Rightarrow> int list" where
  "stencil_params cfg w rows src dst =
     [int src, int dst, bit_length (int w) - 1, int (w + 2 * LANES cfg), stencil_c0, stencil_c1]
       @ (if rows \<noteq> 0 then [int rows] else [])"

definition stencil_launch :: "config \<Rightarrow> nat \<Rightarrow> nat \<Rightarrow> nat \<Rightarrow> nat list \<Rightarrow> nat \<Rightarrow> app_case \<Rightarrow> bool" where
  "stencil_launch cfg h w rows bufs t c \<longleftrightarrow>
     launched cfg c (''stencil'' @ str_nat t) (if rows \<noteq> 0 then ''stencil_rb'' else ''stencil'')
       (stencil_params cfg w rows (bufs ! (t mod 2)) (bufs ! ((t + 1) mod 2)))
       (if rows \<noteq> 0 then h div rows * w else h * w) 0"

lemma stencil_step_correct:
  assumes ok: "case_ok cfg c" and run: "stencil_step cfg h w rows bufs t (cur, c) = Inr (nxt, c')"
  shows "stencil_sweep (LANES cfg) h w cur = Inr nxt" "case_ok cfg c'" "grows c c'" "stencil_launch cfg h w rows bufs t c'"
    "c_gold c' = c_gold c"
proof -
  have la: "launch_case cfg (''stencil'' @ str_nat t) (if rows \<noteq> 0 then ''stencil_rb'' else ''stencil'')
       (stencil_params cfg w rows (bufs ! (t mod 2)) (bufs ! ((t + 1) mod 2)))
       (if rows \<noteq> 0 then h div rows * w else h * w) 0 c = Inr c'"
    and sw: "stencil_sweep (LANES cfg) h w cur = Inr nxt"
    using run by (auto simp: stencil_step_def stencil_params_def Let_def result_simps split: if_splits)
  have ne: "stencil_params cfg w rows (bufs ! (t mod 2)) (bufs ! ((t + 1) mod 2)) \<noteq> []" by (simp add: stencil_params_def)
  note f = launch_case_facts [OF ok la ne]
  show "stencil_sweep (LANES cfg) h w cur = Inr nxt" by (rule sw)
  show "case_ok cfg c'" "grows c c'" "c_gold c' = c_gold c" by (rule f)+
  show "stencil_launch cfg h w rows bufs t c'" using f(5) by (simp add: stencil_launch_def)
qed

lemma stencil_loop_correct:
  assumes "case_ok cfg c" "foldE (stencil_step cfg h w rows bufs) [0..<n] (grid, c) = Inr (cur, c')"
  shows "stencil_iter (LANES cfg) h w n grid = Inr cur \<and> case_ok cfg c' \<and> grows c c' \<and>
     (\<forall>t < n. stencil_launch cfg h w rows bufs t c')"
  using assms(2)
proof (induction n arbitrary: cur c')
  case (Suc n)
  then obtain mid c1 where mid: "foldE (stencil_step cfg h w rows bufs) [0..<n] (grid, c) = Inr (mid, c1)"
    and st: "stencil_step cfg h w rows bufs n (mid, c1) = Inr (cur, c')"
    by (auto simp: foldE_append result_simps)
  have IH: "stencil_iter (LANES cfg) h w n grid = Inr mid" "case_ok cfg c1" "grows c c1"
    "\<And>t. t < n \<Longrightarrow> stencil_launch cfg h w rows bufs t c1"
    using Suc.IH [OF mid] by auto
  note s = stencil_step_correct [OF IH(2) st]
  have "stencil_launch cfg h w rows bufs t c'" if "t < Suc n" for t
    using that IH(4) [of t] s(4) grows_launched [OF s(3)] by (auto simp: less_Suc_eq stencil_launch_def)
  then show ?case using IH s grows_trans [OF IH(3) s(3)] by simp
qed (use assms(1) grows_refl in auto)

lemma stencil_case_correct:
  assumes ok: "case_ok cfg c" and run: "stencil_case cfg h w sweeps rows grid c = Inr c'"
    and len: "length grid = (h + 2) * (w + 2 * LANES cfg)"
  obtains b0 b1 cur where "stencil_iter (LANES cfg) h w sweeps grid = Inr cur" "case_ok cfg c'"
    "holds (c_img c') b0 grid" "holds (c_img c') b1 grid" "golden c' ([b0, b1] ! (sweeps mod 2)) cur"
    "\<forall>t < sweeps. stencil_launch cfg h w rows [b0, b1] t c'"
proof -
  obtain b0 c1 b1 c2 cur c3 where a0: "c_alloc (length grid) (Some grid) c = Inr (b0, c1)"
    and a1: "c_alloc (length grid) (Some grid) c1 = Inr (b1, c2)"
    and lp: "foldE (stencil_step cfg h w rows [b0, b1]) [0..<sweeps] (grid, c2) = Inr (cur, c3)"
    and c': "c' = expect ([b0, b1] ! (sweeps mod 2)) cur c3"
    using run by (auto simp: stencil_case_def result_simps)
  note f0 = c_alloc_facts [OF ok a0]
  note f1 = c_alloc_facts [OF f0(1) a1]
  have l: "stencil_iter (LANES cfg) h w sweeps grid = Inr cur" "case_ok cfg c3" "grows c2 c3"
    "\<And>t. t < sweeps \<Longrightarrow> stencil_launch cfg h w rows [b0, b1] t c3"
    using stencil_loop_correct [OF f1(1) lp] by auto
  have h: "holds (c_img c3) b0 grid" "holds (c_img c3) b1 grid"
    using grows_holds [OF grows_trans [OF f1(2) l(3)] f0(3)] grows_holds [OF l(3) f1(3)] by simp_all
  have "length cur = length grid" using stencil_iter_border [OF len l(1)] by simp
  then have "img_look (c_img c3) ([b0, b1] ! (sweeps mod 2) + 4 * i) \<noteq> None" if "i < length cur" for i
    using that holds_look [OF h(1)] holds_look [OF h(2)] by (cases "sweeps mod 2 = 0") auto
  then have okc: "case_ok cfg c'" unfolding c' by (intro expect_facts [OF l(2)])
  have hc: "holds (c_img c') b0 grid" "holds (c_img c') b1 grid" using h c' by simp_all
  have gold: "golden c' ([b0, b1] ! (sweeps mod 2)) cur" by (simp add: c' golden_expect)
  have "\<forall>t < sweeps. stencil_launch cfg h w rows [b0, b1] t c'"
    using l(4) grows_launched [OF grows_expect] by (simp add: c' stencil_launch_def)
  then show thesis by (rule that [OF l(1) okc hc gold])
qed

lemma stencil_step_total:
  assumes "map_of (SLOTS cfg) (if rows \<noteq> 0 then ''stencil_rb'' else ''stencil'') = Some slot"
    and "rows \<noteq> 0 \<Longrightarrow> even rows \<and> rows dvd h" and "length cur = (h + 2) * (w + 2 * LANES cfg)" "\<forall>x \<in> set cur. fp_within 1 x"
  shows "\<exists>nxt c'. stencil_step cfg h w rows bufs t (cur, c) = Inr (nxt, c') \<and> length nxt = length cur \<and> (\<forall>x \<in> set nxt. fp_within 1 x)"
proof -
  obtain nxt where nxt: "stencil_sweep (LANES cfg) h w cur = Inr nxt" "length nxt = length cur" "\<forall>x \<in> set nxt. fp_within 1 x"
    using stencil_sweep_within [OF assms(3,4)] by blast
  obtain c' where c': "launch_case cfg (''stencil'' @ str_nat t) (if rows \<noteq> 0 then ''stencil_rb'' else ''stencil'')
       (stencil_params cfg w rows (bufs ! (t mod 2)) (bufs ! ((t + 1) mod 2)))
       (if rows \<noteq> 0 then h div rows * w else h * w) 0 c = Inr c'"
    using launch_case_total [OF assms(1)] by blast
  have "stencil_step cfg h w rows bufs t (cur, c) = Inr (nxt, c')"
  proof (cases "rows = 0")
    case True
    then show ?thesis using nxt(1) c' by (simp add: stencil_step_def stencil_params_def Let_def)
  next
    case False
    then have "even rows" "h mod rows = 0" using assms(2) by auto
    then show ?thesis using False nxt(1) c' by (simp add: stencil_step_def stencil_params_def Let_def)
  qed
  then show ?thesis using nxt by blast
qed

lemma stencil_runs:
  assumes "map_of (SLOTS cfg) (if rows \<noteq> 0 then ''stencil_rb'' else ''stencil'') \<noteq> None"
    and "rows \<noteq> 0 \<Longrightarrow> even rows \<and> rows dvd h"
  shows "\<exists>c g'. stencil cfg h w sweeps rows g = Inr (c, g')"
proof -
  obtain grid g1 where g1: "repeatG ((h + 2) * (w + 2 * LANES cfg)) rand_f32 g = Inr (grid, g1)"
    using repeatG_total [of rand_f32] rand_f32_total by blast
  have len: "length grid = (h + 2) * (w + 2 * LANES cfg)" "\<forall>x \<in> set grid. fp_within 1 x"
    using repeat_rand_f32_within [OF g1] by auto
  obtain slot where slot: "map_of (SLOTS cfg) (if rows \<noteq> 0 then ''stencil_rb'' else ''stencil'') = Some slot"
    using assms(1) by blast
  have "\<exists>c'. stencil_case cfg h w sweeps rows grid c = Inr c'" for c
  proof -
    obtain b0 c1 where 0: "c_alloc (length grid) (Some grid) c = Inr (b0, c1)"
      using c_alloc_total [of "length grid" "Some grid" c] by auto
    obtain b1 c2 where 1: "c_alloc (length grid) (Some grid) c1 = Inr (b1, c2)"
      using c_alloc_total [of "length grid" "Some grid" c1] by auto
    have "\<exists>st. foldE (stencil_step cfg h w rows [b0, b1]) [0..<sweeps] (grid, c2) = Inr st \<and>
        (length (fst st) = length grid \<and> (\<forall>x \<in> set (fst st). fp_within 1 x))"
    proof (rule foldE_total)
      fix t and st :: "int list \<times> app_case"
      assume "length (fst st) = length grid \<and> (\<forall>x \<in> set (fst st). fp_within 1 x)"
      then show "\<exists>s'. stencil_step cfg h w rows [b0, b1] t st = Inr s' \<and>
          length (fst s') = length grid \<and> (\<forall>x \<in> set (fst s'). fp_within 1 x)"
        using stencil_step_total [OF slot assms(2), of "fst st" w "[b0, b1]" t "snd st"] len by fastforce
    qed (use len in simp)
    then show ?thesis using 0 1 by (fastforce simp: stencil_case_def result_simps)
  qed
  then show ?thesis using g1 by (fastforce simp: stencil_def Let_def result_simps)
qed

section \<open>Properties\<close>

text \<open>One Jacobi sweep computes every interior point from the old grid only (no point sees a
  neighbour of the same sweep), leaves the padding as it was, and keeps the grid's size.\<close>

theorem stencil_sweep_jacobi:
  assumes "stencil_sweep L h w cur = Inr nxt" "length cur = (h + 2) * (w + 2 * L)"
  shows "length nxt = length cur \<and>
    (\<forall>i < h. \<forall>j < w. stencil_point (w + 2 * L) cur (stencil_pos L (w + 2 * L) i j) = Inr (nxt ! stencil_pos L (w + 2 * L) i j)) \<and>
    (\<forall>p. \<not> stencil_interior L h w p \<longrightarrow> nxt ! p = cur ! p)"
  using stencil_sweep_points [OF assms] by blast

lemma stencil_sweep_jacobi_witness:
  "\<exists>nxt. stencil_sweep 1 1 1 [0, 0x3F800000, 0, 0, 0x3F000000, 0, 0, 0x3F800000, 0] = Inr nxt \<and>
     length nxt = 9 \<and> stencil_point 3 [0, 0x3F800000, 0, 0, 0x3F000000, 0, 0, 0x3F800000, 0] 4 = Inr (nxt ! 4)"
proof -
  let ?cur = "[0, 0x3F800000, 0, 0, 0x3F000000, 0, 0, 0x3F800000, 0] :: int list"
  have "stencil_sweep 1 1 1 ?cur = Inr [0, 0x3F800000, 0, 0, 0x3F000000, 0, 0, 0x3F800000, 0]" by code_simp
  from stencil_sweep_jacobi [OF this] this show ?thesis by (auto simp: stencil_pos_def eval_nat_numeral)
qed

text \<open>C28: Every \<^verbatim>\<open>stencil\<close> run returns a case (when its kernel is placed and the strip height fits the grid): by the maximum
  principle no sweep leaves the magnitude bound 1 of the random grid, so no FP32 operation overflows.
  The case is well formed, holds the start grid in both buffers, launches one kernel per sweep with
  the buffers swapped each time, and expects in the last destination buffer the iterated sweeps, with
  the padding of the start grid untouched.\<close>

theorem stencil_case_spec:
  assumes "map_of (SLOTS cfg) (if rows \<noteq> 0 then ''stencil_rb'' else ''stencil'') \<noteq> None"
    and "rows \<noteq> 0 \<Longrightarrow> even rows \<and> rows dvd h"
  shows "\<exists>c g' grid cur b0 b1. stencil cfg h w sweeps rows g = Inr (c, g') \<and> case_ok cfg c \<and>
    holds (c_img c) b0 grid \<and> holds (c_img c) b1 grid \<and> golden c ([b0, b1] ! (sweeps mod 2)) cur \<and>
    stencil_iter (LANES cfg) h w sweeps grid = Inr cur \<and> (\<forall>x \<in> set cur. fp_within 1 x) \<and>
    length cur = (h + 2) * (w + 2 * LANES cfg) \<and> (\<forall>p. \<not> stencil_interior (LANES cfg) h w p \<longrightarrow> cur ! p = grid ! p) \<and>
    (\<forall>t < sweeps. stencil_launch cfg h w rows [b0, b1] t c)"
proof -
  obtain c g' where run: "stencil cfg h w sweeps rows g = Inr (c, g')" using stencil_runs [OF assms] by blast
  then obtain grid g1 c0 where g1: "repeatG ((h + 2) * (w + 2 * LANES cfg)) rand_f32 g = Inr (grid, g1)"
    and c: "stencil_case cfg h w sweeps rows grid (new_case c0) = Inr c"
    by (auto simp: stencil_def Let_def result_simps)
  have len: "length grid = (h + 2) * (w + 2 * LANES cfg)" "\<forall>x \<in> set grid. fp_within 1 x"
    using repeat_rand_f32_within [OF g1] by auto
  obtain b0 b1 cur where r: "stencil_iter (LANES cfg) h w sweeps grid = Inr cur" "case_ok cfg c"
    "holds (c_img c) b0 grid" "holds (c_img c) b1 grid" "golden c ([b0, b1] ! (sweeps mod 2)) cur"
    "\<forall>t < sweeps. stencil_launch cfg h w rows [b0, b1] t c"
    by (rule stencil_case_correct [OF new_case_ok c len(1)])
  have "\<forall>x \<in> set cur. fp_within 1 x" using stencil_iter_within [OF len, of sweeps] r(1) by auto
  then show ?thesis using run r stencil_iter_border [OF len(1) r(1)] len(1) by metis
qed

lemma stencil_case_spec_witness:
  "\<exists>c g' cur b. stencil \<lparr>LANES = 8, WORDS = 2 ^ 20, SLOTS = [(''stencil_rb'', 3)]\<rparr> 32 32 2 16 [2, 7, 1] = Inr (c, g') \<and>
     golden c b cur \<and> length cur = 34 * 48"
  using stencil_case_spec [of "\<lparr>LANES = 8, WORDS = 2 ^ 20, SLOTS = [(''stencil_rb'', 3)]\<rparr>" 16 32 32 2 "[2, 7, 1]"]
  by auto

end
