(* ===== verification/Kmeans.thy ===== *)
theory Kmeans
  imports Gemm
begin

text \<open>
  The application \<^verbatim>\<open>kmeans\<close> of \<^verbatim>\<open>sim/gen_apps.py\<close>: one assignment step of k-means on integer points,
  with the per-cluster sums and counts.
\<close>

section \<open>The operation\<close>

text \<open>Python's \<^verbatim>\<open>min\<close> of a list and \<^verbatim>\<open>list.index\<close>; both raise \<^verbatim>\<open>ValueError\<close>.\<close>

fun py_min :: "int list \<Rightarrow> int result" where
  "py_min [] = Inl ValueError"
| "py_min (x # xs) = Inr (foldl min x xs)"

fun py_index :: "int list \<Rightarrow> int \<Rightarrow> nat result" where
  "py_index [] v = Inl ValueError"
| "py_index (x # xs) v = (if x = v then Inr 0 else bindE (py_index xs v) (\<lambda>i. Inr (Suc i)))"

definition kmeans_dist :: "int list \<Rightarrow> int list \<Rightarrow> int \<Rightarrow> int \<Rightarrow> nat \<Rightarrow> int" where
  "kmeans_dist cx cy x y j = (x - cx ! j) ^ 2 + (y - cy ! j) ^ 2"

definition kmeans_best :: "nat \<Rightarrow> int list \<Rightarrow> int list \<Rightarrow> int \<Rightarrow> int \<Rightarrow> nat result" where
  "kmeans_best k cx cy x y =
     (let d = map (kmeans_dist cx cy x y) [0..<k] in bindE (py_min d) (py_index d))"

record kmeans_acc =
  km_assign :: "int list"
  km_sx :: "int list"
  km_sy :: "int list"
  km_cn :: "int list"

definition kmeans_step :: "nat \<Rightarrow> int list \<Rightarrow> int list \<Rightarrow> int \<times> int \<Rightarrow> kmeans_acc \<Rightarrow> kmeans_acc result" where
  "kmeans_step k cx cy = (\<lambda>(x, y) st.
     bindE (kmeans_best k cx cy x y) (\<lambda>best.
     Inr \<lparr>km_assign = km_assign st @ [int best],
          km_sx = (km_sx st)[best := km_sx st ! best + x],
          km_sy = (km_sy st)[best := km_sy st ! best + y],
          km_cn = (km_cn st)[best := km_cn st ! best + 1]\<rparr>))"

definition kmeans_out :: "nat \<Rightarrow> int list \<Rightarrow> int list \<Rightarrow> int list \<Rightarrow> int list \<Rightarrow> kmeans_acc result" where
  "kmeans_out k cx cy px py =
     foldE (kmeans_step k cx cy) (zip px py)
       \<lparr>km_assign = [], km_sx = replicate k 0, km_sy = replicate k 0, km_cn = replicate k 0\<rparr>"

definition kmeans_case ::
  "config \<Rightarrow> nat \<Rightarrow> nat \<Rightarrow> bool \<Rightarrow> int list \<Rightarrow> int list \<Rightarrow> int list \<Rightarrow> int list \<Rightarrow> app_case \<Rightarrow> app_case result" where
  "kmeans_case cfg npts k two px py cx cy c =
     bindE (c_alloc npts (Some px) c) (\<lambda>(a_px, c).
     bindE (c_alloc npts (Some py) c) (\<lambda>(a_py, c).
     bindE (c_alloc k (Some cx) c) (\<lambda>(a_cx, c).
     bindE (c_alloc k (Some cy) c) (\<lambda>(a_cy, c).
     bindE (c_alloc npts None c) (\<lambda>(a_as, c).
     bindE (c_alloc k None c) (\<lambda>(a_sx, c).
     bindE (c_alloc k None c) (\<lambda>(a_sy, c).
     bindE (c_alloc k None c) (\<lambda>(a_cn, c).
     bindE (if two then assertE (npts mod 2 = 0 \<and> k mod 2 = 0) else Inr ()) (\<lambda>_.
     bindE (launch_case cfg ''kmeans'' (if two then ''kmeans_u'' else ''kmeans'')
         [int a_px, int a_py, int a_cx, int a_cy, int k, int a_as, int a_sx, int a_sy, int a_cn]
         (if two then npts div 2 else npts) 0 c) (\<lambda>c.
     bindE (kmeans_out k cx cy px py) (\<lambda>st.
     Inr (expect a_cn (km_cn st) (expect a_sy (km_sy st) (expect a_sx (km_sx st)
            (expect a_as (km_assign st) c)))))))))))))))"

definition kmeans :: "config \<Rightarrow> nat \<Rightarrow> nat \<Rightarrow> bool \<Rightarrow> app_case gen" where
  "kmeans cfg npts k two =
     (let c = new_case ((if two then ''kmeansu'' else ''kmeans'') @ ''_'' @ str_nat npts @ ''x'' @ str_nat k)
      in bindG (repeatG npts (randrange (2 ^ 14))) (\<lambda>px.
         bindG (repeatG npts (randrange (2 ^ 14))) (\<lambda>py.
         bindG (sample_range npts k) (\<lambda>seeds.
         liftG (kmeans_case cfg npts k two (map int px) (map int py)
           (map (\<lambda>i. int (px ! i)) seeds) (map (\<lambda>i. int (py ! i)) seeds) c)))))"

section \<open>The nearest centre\<close>

lemma foldl_min: "foldl min x xs \<in> set (x # xs) \<and> (\<forall>y \<in> set (x # xs). foldl min x xs \<le> y)" for x :: int
proof (induction xs arbitrary: x)
  case (Cons y ys)
  have "foldl min (min x y) ys \<in> set (min x y # ys)" "\<forall>z \<in> set (min x y # ys). foldl min (min x y) ys \<le> z"
    using Cons.IH [of "min x y"] by blast+
  then show ?case by (cases "x \<le> y") (auto simp: min_absorb1 min_absorb2)
qed simp

lemma py_min_Inr: "py_min d = Inr m \<longleftrightarrow> d \<noteq> [] \<and> m \<in> set d \<and> (\<forall>y \<in> set d. m \<le> y)"
proof (cases d)
  case (Cons x xs)
  then show ?thesis using foldl_min [of x xs] by (auto intro: antisym)
qed simp

lemma py_index_Inr: "py_index d v = Inr i \<longleftrightarrow> i < length d \<and> d ! i = v \<and> (\<forall>j < i. d ! j \<noteq> v)"
proof (induction d arbitrary: i)
  case (Cons x xs)
  show ?case
  proof (cases i)
    case 0
    then show ?thesis by (auto simp: result_simps)
  next
    case (Suc j)
    then show ?thesis using Cons.IH [of j] by (auto simp: result_simps less_Suc_eq_0_disj)
  qed
qed simp

lemma py_index_total: "v \<in> set d \<Longrightarrow> \<exists>i. py_index d v = Inr i"
  by (induction d) auto

text \<open>The first centre of minimal distance.\<close>

lemma kmeans_best_Inr:
  "kmeans_best k cx cy x y = Inr best \<longleftrightarrow>
     best < k \<and> (\<forall>j < k. kmeans_dist cx cy x y best \<le> kmeans_dist cx cy x y j) \<and>
     (\<forall>j < best. kmeans_dist cx cy x y best < kmeans_dist cx cy x y j)"
proof
  let ?d = "map (kmeans_dist cx cy x y) [0..<k]"
  assume "kmeans_best k cx cy x y = Inr best"
  then obtain m where m: "py_min ?d = Inr m" "py_index ?d m = Inr best"
    by (auto simp: kmeans_best_def Let_def result_simps)
  have i: "best < k" "kmeans_dist cx cy x y best = m" "\<forall>j < best. ?d ! j \<noteq> m"
    using m(2) unfolding py_index_Inr by auto
  have le: "m \<le> kmeans_dist cx cy x y j" if "j < k" for j using m(1) that unfolding py_min_Inr by auto
  have "m < kmeans_dist cx cy x y j" if "j < best" for j
    using that i(1,3) le [of j] by (auto simp: le_less)
  then show "best < k \<and> (\<forall>j < k. kmeans_dist cx cy x y best \<le> kmeans_dist cx cy x y j) \<and>
     (\<forall>j < best. kmeans_dist cx cy x y best < kmeans_dist cx cy x y j)"
    using i le by simp
next
  assume a: "best < k \<and> (\<forall>j < k. kmeans_dist cx cy x y best \<le> kmeans_dist cx cy x y j) \<and>
     (\<forall>j < best. kmeans_dist cx cy x y best < kmeans_dist cx cy x y j)"
  then have "py_min (map (kmeans_dist cx cy x y) [0..<k]) = Inr (kmeans_dist cx cy x y best)"
    unfolding py_min_Inr by auto
  moreover have "py_index (map (kmeans_dist cx cy x y) [0..<k]) (kmeans_dist cx cy x y best) = Inr best"
    using a by (auto simp: py_index_Inr)
  ultimately show "kmeans_best k cx cy x y = Inr best" by (simp add: kmeans_best_def)
qed

lemma kmeans_best_total: "0 < k \<Longrightarrow> \<exists>best. kmeans_best k cx cy x y = Inr best"
proof -
  assume "0 < k"
  then obtain m where "py_min (map (kmeans_dist cx cy x y) [0..<k]) = Inr m"
    by (cases "map (kmeans_dist cx cy x y) [0..<k]") auto
  moreover from this have "m \<in> set (map (kmeans_dist cx cy x y) [0..<k])" using py_min_Inr by blast
  ultimately show ?thesis using py_index_total unfolding kmeans_best_def Let_def by fastforce
qed

section \<open>Sums and counts\<close>

text \<open>The values of the points that an assignment gives to cluster \<open>j\<close>.\<close>

definition members :: "int list \<Rightarrow> nat \<Rightarrow> 'a list \<Rightarrow> 'a list" where
  "members assign j xs = map snd (filter (\<lambda>(a, _). a = int j) (zip assign xs))"

lemma members_snoc: "length assign = length xs \<Longrightarrow>
    members (assign @ [a]) j (xs @ [x]) = members assign j xs @ (if a = int j then [x] else [])"
  by (simp add: members_def)

definition kmeans_inv :: "nat \<Rightarrow> int list \<Rightarrow> int list \<Rightarrow> int list \<Rightarrow> int list \<Rightarrow> kmeans_acc \<Rightarrow> bool" where
  "kmeans_inv k cx cy px py st \<longleftrightarrow>
     length (km_assign st) = length px \<and> length py = length px \<and>
     (\<forall>i < length px. \<exists>best. km_assign st ! i = int best \<and> kmeans_best k cx cy (px ! i) (py ! i) = Inr best) \<and>
     length (km_sx st) = k \<and> length (km_sy st) = k \<and> length (km_cn st) = k \<and>
     (\<forall>j < k. km_sx st ! j = sum_list (members (km_assign st) j px) \<and>
        km_sy st ! j = sum_list (members (km_assign st) j py) \<and>
        km_cn st ! j = int (length (members (km_assign st) j px)))"

lemma kmeans_step_inv:
  assumes inv: "kmeans_inv k cx cy px py st" and step: "kmeans_step k cx cy (x, y) st = Inr st'"
  shows "kmeans_inv k cx cy (px @ [x]) (py @ [y]) st'"
proof -
  obtain best where b: "kmeans_best k cx cy x y = Inr best"
    and st': "st' = \<lparr>km_assign = km_assign st @ [int best],
          km_sx = (km_sx st)[best := km_sx st ! best + x],
          km_sy = (km_sy st)[best := km_sy st ! best + y],
          km_cn = (km_cn st)[best := km_cn st ! best + 1]\<rparr>"
    using step by (auto simp: kmeans_step_def result_simps)
  have len: "length (km_assign st) = length px" "length py = length px" "length (km_sx st) = k" "length (km_sy st) = k"
    "length (km_cn st) = k" using inv by (auto simp: kmeans_inv_def)
  have sums: "km_sx st ! j = sum_list (members (km_assign st) j px)" "km_sy st ! j = sum_list (members (km_assign st) j py)"
    "km_cn st ! j = int (length (members (km_assign st) j px))" if "j < k" for j
    using inv that by (auto simp: kmeans_inv_def)
  have mem: "members (km_assign st') j (px @ [x]) = members (km_assign st) j px @ (if best = j then [x] else [])"
    "members (km_assign st') j (py @ [y]) = members (km_assign st) j py @ (if best = j then [y] else [])" for j
    using len by (simp_all add: st' members_snoc)
  have "\<exists>q. km_assign st' ! i = int q \<and> kmeans_best k cx cy ((px @ [x]) ! i) ((py @ [y]) ! i) = Inr q"
    if "i < length (px @ [x])" for i
  proof (cases "i = length px")
    case True
    then show ?thesis using b len by (simp add: st' nth_append)
  next
    case False
    then have "i < length px" using that by simp
    then show ?thesis using inv len by (auto simp: kmeans_inv_def st' nth_append)
  qed
  moreover have "km_sx st' ! j = sum_list (members (km_assign st') j (px @ [x])) \<and>
      km_sy st' ! j = sum_list (members (km_assign st') j (py @ [y])) \<and>
      km_cn st' ! j = int (length (members (km_assign st') j (px @ [x])))" if "j < k" for j
    unfolding mem using sums [OF that] len that by (cases "best = j") (simp_all add: st')
  ultimately show ?thesis using len by (simp add: kmeans_inv_def) (simp add: st')
qed

lemma kmeans_fold_inv:
  assumes "kmeans_inv k cx cy px py st" "length qx = length qy" "foldE (kmeans_step k cx cy) (zip qx qy) st = Inr st'"
  shows "kmeans_inv k cx cy (px @ qx) (py @ qy) st'"
  using assms(2,1,3)
proof (induction qx qy arbitrary: px py st rule: list_induct2)
  case (Cons x xs y ys)
  then obtain st1 where "kmeans_step k cx cy (x, y) st = Inr st1" "foldE (kmeans_step k cx cy) (zip xs ys) st1 = Inr st'"
    by (auto simp: result_simps)
  then show ?case using Cons.IH [of "px @ [x]" "py @ [y]" st1] kmeans_step_inv [OF Cons.prems(1)] by simp
qed simp

lemma kmeans_out_inv:
  assumes "length px = length py" "kmeans_out k cx cy px py = Inr st"
  shows "kmeans_inv k cx cy px py st"
proof -
  have "kmeans_inv k cx cy [] [] \<lparr>km_assign = [], km_sx = replicate k 0, km_sy = replicate k 0, km_cn = replicate k 0\<rparr>"
    by (simp add: kmeans_inv_def members_def)
  from kmeans_fold_inv [OF this assms(1)] assms(2) show ?thesis by (simp add: kmeans_out_def)
qed

lemma kmeans_out_total: "0 < k \<or> px = [] \<Longrightarrow> \<exists>st. kmeans_out k cx cy px py = Inr st"
proof -
  assume k: "0 < k \<or> px = []"
  have "\<exists>st'. kmeans_step k cx cy p st = Inr st' \<and> True" if p: "p \<in> set (zip px py)" for p st
  proof -
    obtain x y where xy: "p = (x, y)" by (cases p)
    have "0 < k" using p k by auto
    then obtain best where "kmeans_best k cx cy x y = Inr best" using kmeans_best_total by blast
    then show ?thesis by (simp add: xy kmeans_step_def)
  qed
  then have "\<exists>t. foldE (kmeans_step k cx cy) (zip px py) st = Inr t \<and> True" for st
    by (intro foldE_total) auto
  then show ?thesis by (simp add: kmeans_out_def)
qed

text \<open>Every point is in exactly one cluster.\<close>

lemma sum_indicator: "a < k \<Longrightarrow> (\<Sum>j<k. if int a = int j then 1 else 0) = (1 :: int)"
  by simp

lemma members_total:
  "length assign = length xs \<Longrightarrow> \<forall>a \<in> set assign. \<exists>b < k. a = int b \<Longrightarrow>
     (\<Sum>j<k. int (length (members assign j xs))) = int (length xs)"
proof (induction assign xs rule: list_induct2)
  case (Cons a as x xs)
  then obtain b where b: "b < k" "a = int b" by auto
  have "(\<Sum>j<k. int (length (members (a # as) j (x # xs))))
      = (\<Sum>j<k. (if b = j then 1 else 0) + int (length (members as j xs)))"
    by (rule sum.cong) (auto simp: members_def b(2))
  also have "\<dots> = 1 + int (length xs)" using Cons b(1) by (simp add: sum.distrib)
  finally show ?case by simp
qed (simp add: members_def)

lemma members_bound:
  "length assign = length xs \<Longrightarrow> \<forall>x \<in> set xs. 0 \<le> x \<and> x \<le> B \<Longrightarrow>
     0 \<le> sum_list (members assign j xs) \<and> sum_list (members assign j xs) \<le> B * int (length xs)" for B :: int
proof (induction assign xs rule: list_induct2)
  case (Cons a as x xs)
  then have "0 \<le> sum_list (members as j xs)" "sum_list (members as j xs) \<le> B * int (length xs)" "0 \<le> x" "x \<le> B" by auto
  then show ?case by (auto simp: members_def algebra_simps)
qed (simp add: members_def)


lemma members_word:
  assumes "length assign = length xs" "\<forall>x \<in> set xs. 0 \<le> x \<and> x \<le> 2 ^ 14 - 1" "length xs \<le> 2 ^ 18"
  shows "0 \<le> sum_list (members assign j xs) \<and> sum_list (members assign j xs) < (2 :: int) ^ 32"
proof -
  have "sum_list (members assign j xs) \<le> (2 ^ 14 - 1) * int (length xs)" "0 \<le> sum_list (members assign j xs)"
    using members_bound [OF assms(1,2)] by auto
  moreover have "(2 ^ 14 - 1) * int (length xs) < 2 ^ 32" using assms(3) by simp
  ultimately show ?thesis by (intro conjI) (assumption, rule le_less_trans)
qed

text \<open>The result of the loop over the points: nearest centres, sums and numbers of their points.\<close>

lemma kmeans_inv_meaning:
  assumes inv: "kmeans_inv k cx cy px py st" and len: "length px = npts" "length py = npts"
  obtains assign where "km_assign st = map int assign" "length assign = npts"
    "\<forall>i < npts. assign ! i < k \<and>
       (\<forall>j < k. kmeans_dist cx cy (px ! i) (py ! i) (assign ! i) \<le> kmeans_dist cx cy (px ! i) (py ! i) j) \<and>
       (\<forall>j < assign ! i. kmeans_dist cx cy (px ! i) (py ! i) (assign ! i) < kmeans_dist cx cy (px ! i) (py ! i) j)"
    "\<forall>j < k. km_sx st ! j = sum_list (members (map int assign) j px) \<and> km_sy st ! j = sum_list (members (map int assign) j py) \<and>
       km_cn st ! j = int (length (members (map int assign) j px))"
    "(\<Sum>j<k. km_cn st ! j) = int npts"
proof -
  let ?assign = "map nat (km_assign st)"
  have best: "\<exists>b. km_assign st ! i = int b \<and> kmeans_best k cx cy (px ! i) (py ! i) = Inr b" if "i < npts" for i
    using inv that len by (simp add: kmeans_inv_def)
  have la: "length (km_assign st) = npts" using inv len by (simp add: kmeans_inv_def)
  have asg: "km_assign st = map int ?assign"
    by (rule nth_equalityI) (use best la in \<open>fastforce\<close>)+
  have near: "?assign ! i < k \<and>
       (\<forall>j < k. kmeans_dist cx cy (px ! i) (py ! i) (?assign ! i) \<le> kmeans_dist cx cy (px ! i) (py ! i) j) \<and>
       (\<forall>j < ?assign ! i. kmeans_dist cx cy (px ! i) (py ! i) (?assign ! i) < kmeans_dist cx cy (px ! i) (py ! i) j)"
    if i: "i < npts" for i
  proof -
    obtain b where b: "km_assign st ! i = int b" "kmeans_best k cx cy (px ! i) (py ! i) = Inr b" using best [OF i] by blast
    then have "?assign ! i = b" using i la by simp
    then show ?thesis using b(2) unfolding kmeans_best_Inr by simp
  qed
  have sums: "\<forall>j < k. km_sx st ! j = sum_list (members (map int ?assign) j px) \<and> km_sy st ! j = sum_list (members (map int ?assign) j py) \<and>
      km_cn st ! j = int (length (members (map int ?assign) j px))"
    using inv unfolding kmeans_inv_def asg [symmetric] by blast
  have "\<exists>b < k. a = int b" if a: "a \<in> set (map int ?assign)" for a :: int
  proof -
    obtain x where "x \<in> set ?assign" "a = int x" using a unfolding set_map by blast
    moreover from this obtain i where "i < length ?assign" "?assign ! i = x" unfolding in_set_conv_nth by blast
    ultimately show ?thesis using near [of i] la by auto
  qed
  then have "(\<Sum>j<k. km_cn st ! j) = int npts"
    using members_total [of "map int ?assign" px k] sums la len by simp
  with asg la near sums show thesis by (intro that [of ?assign]) simp_all
qed

section \<open>The case\<close>

lemma c_alloc_next:
  assumes "c_alloc n init c = Inr (a, c')" "c_alloc n' init' c' = Inr (a', c'')"
  shows "a + 4 * n \<le> a'"
proof -
  obtain img img' where al: "alloc n init (c_img c) = Inr (a, img)" "c_img c' = img" "alloc n' init' img = Inr (a', img')"
    using assms by (auto simp: c_alloc_Inr)
  have "a' = img_top img" using al(3) by (simp add: alloc_Inr)
  then show ?thesis using ddr.put_fresh [OF al(1)] by simp
qed

lemma kmeans_case_correct:
  assumes ok: "case_ok cfg c" and run: "kmeans_case cfg npts k two px py cx cy c = Inr c'"
    and len: "length px = npts" "length py = npts"
  obtains a_px a_py a_cx a_cy a_as a_sx a_sy a_cn st where "kmeans_out k cx cy px py = Inr st" "case_ok cfg c'"
    "holds (c_img c') a_px px" "holds (c_img c') a_py py" "holds (c_img c') a_cx cx" "holds (c_img c') a_cy cy"
    "golden c' a_as (km_assign st)" "golden c' a_sx (km_sx st)" "golden c' a_sy (km_sy st)" "golden c' a_cn (km_cn st)"
    "launched cfg c' ''kmeans'' (if two then ''kmeans_u'' else ''kmeans'')
       [int a_px, int a_py, int a_cx, int a_cy, int k, int a_as, int a_sx, int a_sy, int a_cn]
       (if two then npts div 2 else npts) 0"
proof -
  let ?krn = "if two then ''kmeans_u'' else ''kmeans''"
  let ?th = "if two then npts div 2 else npts"
  obtain a_px c1 a_py c2 a_cx c3 a_cy c4 a_as c5 a_sx c6 a_sy c7 a_cn c8 c9 st where
    a1: "c_alloc npts (Some px) c = Inr (a_px, c1)" and a2: "c_alloc npts (Some py) c1 = Inr (a_py, c2)"
    and a3: "c_alloc k (Some cx) c2 = Inr (a_cx, c3)" and a4: "c_alloc k (Some cy) c3 = Inr (a_cy, c4)"
    and a5: "c_alloc npts None c4 = Inr (a_as, c5)" and a6: "c_alloc k None c5 = Inr (a_sx, c6)"
    and a7: "c_alloc k None c6 = Inr (a_sy, c7)" and a8: "c_alloc k None c7 = Inr (a_cn, c8)"
    and la: "launch_case cfg ''kmeans'' ?krn
       [int a_px, int a_py, int a_cx, int a_cy, int k, int a_as, int a_sx, int a_sy, int a_cn] ?th 0 c8 = Inr c9"
    and st: "kmeans_out k cx cy px py = Inr st"
    and c': "c' = expect a_cn (km_cn st) (expect a_sy (km_sy st) (expect a_sx (km_sx st) (expect a_as (km_assign st) c9)))"
    using run by (auto simp: kmeans_case_def result_simps)
  note f1 = c_alloc_facts [OF ok a1] and g1 = c_alloc_facts(2) [OF ok a1]
  note f2 = c_alloc_facts [OF f1(1) a2]
  note f3 = c_alloc_facts [OF f2(1) a3]
  note f4 = c_alloc_facts [OF f3(1) a4]
  note f5 = c_alloc_facts [OF f4(1) a5]
  note f6 = c_alloc_facts [OF f5(1) a6]
  note f7 = c_alloc_facts [OF f6(1) a7]
  note f8 = c_alloc_facts [OF f7(1) a8]
  note f9 = launch_case_facts [OF f8(1) la]
  have k8: "grows c8 c9" by (rule f9(2)) simp
  have k7: "grows c7 c9" by (rule grows_trans [OF f8(2) k8])
  have k6: "grows c6 c9" by (rule grows_trans [OF f7(2) k7])
  have k5: "grows c5 c9" by (rule grows_trans [OF f6(2) k6])
  have k4: "grows c4 c9" by (rule grows_trans [OF f5(2) k5])
  have k3: "grows c3 c9" by (rule grows_trans [OF f4(2) k4])
  have k2: "grows c2 c9" by (rule grows_trans [OF f3(2) k3])
  have k1: "grows c1 c9" by (rule grows_trans [OF f2(2) k2])
  have inv: "kmeans_inv k cx cy px py st" by (rule kmeans_out_inv [OF _ st]) (simp add: len)
  have sz: "length (km_assign st) = npts" "length (km_sx st) = k" "length (km_sy st) = k" "length (km_cn st) = k"
    using inv len by (auto simp: kmeans_inv_def)
  have z: "holds (c_img c9) a_as (replicate npts 0)" "holds (c_img c9) a_sx (replicate k 0)"
    "holds (c_img c9) a_sy (replicate k 0)" "holds (c_img c9) a_cn (replicate k 0)"
    using grows_holds [OF k5 f5(3)] grows_holds [OF k6 f6(3)] grows_holds [OF k7 f7(3)] grows_holds [OF k8 f8(3)] by simp_all
  let ?e1 = "expect a_as (km_assign st) c9"
  let ?e2 = "expect a_sx (km_sx st) ?e1"
  let ?e3 = "expect a_sy (km_sy st) ?e2"
  have "case_ok cfg c9" by (rule f9(1)) simp
  then have e1: "case_ok cfg ?e1" using z(1) sz(1) by (rule expect_zeros)
  have e2: "case_ok cfg ?e2" by (rule expect_zeros [OF e1 _ sz(2)]) (simp add: z)
  have e3: "case_ok cfg ?e3" by (rule expect_zeros [OF e2 _ sz(3)]) (simp add: z)
  have e4: "case_ok cfg c'" unfolding c' by (rule expect_zeros [OF e3 _ sz(4)]) (simp add: z)
  have d: "a_as + 4 * npts \<le> a_sx" "a_sx + 4 * k \<le> a_sy" "a_sy + 4 * k \<le> a_cn"
    using c_alloc_next [OF a5 a6] c_alloc_next [OF a6 a7] c_alloc_next [OF a7 a8] by simp_all
  have gold: "golden c' a_as (km_assign st)" "golden c' a_sx (km_sx st)" "golden c' a_sy (km_sy st)" "golden c' a_cn (km_cn st)"
    unfolding c' by (intro golden_expect golden_keep; use d sz in simp)+
  have h: "holds (c_img c') a_px px" "holds (c_img c') a_py py" "holds (c_img c') a_cx cx" "holds (c_img c') a_cy cy"
    using grows_holds [OF k1 f1(3)] grows_holds [OF k2 f2(3)] grows_holds [OF k3 f3(3)] grows_holds [OF k4 f4(3)] c' by simp_all
  have "launched cfg c9 ''kmeans'' ?krn
       [int a_px, int a_py, int a_cx, int a_cy, int k, int a_as, int a_sx, int a_sy, int a_cn] ?th 0"
    by (rule f9(5)) simp
  then have "launched cfg c' ''kmeans'' ?krn
       [int a_px, int a_py, int a_cx, int a_cy, int k, int a_as, int a_sx, int a_sy, int a_cn] ?th 0"
    unfolding c' by (intro grows_launched [OF grows_expect])
  then show thesis by (rule that [OF st e4 h gold])
qed

lemma randrange_points: "repeatG n (randrange (2 ^ 14)) g = Inr (xs, g') \<Longrightarrow> length xs = n \<and> (\<forall>x \<in> set xs. x < 2 ^ 14)"
  using repeatG_all [of n "randrange (2 ^ 14)" g xs g' "\<lambda>x. x < 2 ^ 14"] randrange_range by blast

lemma kmeans_runs:
  assumes "map_of (SLOTS cfg) (if two then ''kmeans_u'' else ''kmeans'') \<noteq> None"
    and "0 < k" "k \<le> npts" "two \<Longrightarrow> even npts \<and> even k"
  shows "\<exists>c g'. kmeans cfg npts k two g = Inr (c, g')"
proof -
  have rt: "\<exists>x h'. randrange (2 ^ 14) h = Inr (x, h')" for h by (rule randrange_total) simp
  obtain px g1 where px: "repeatG npts (randrange (2 ^ 14)) g = Inr (px, g1)" using repeatG_total [of "randrange (2 ^ 14)"] rt by blast
  obtain py g2 where py: "repeatG npts (randrange (2 ^ 14)) g1 = Inr (py, g2)" using repeatG_total [of "randrange (2 ^ 14)"] rt by blast
  obtain seeds g3 where sd: "sample_range npts k g2 = Inr (seeds, g3)" using sample_range_total [OF assms(3)] by blast
  let ?px = "map int px" and ?py = "map int py"
  let ?cx = "map (\<lambda>i. int (px ! i)) seeds" and ?cy = "map (\<lambda>i. int (py ! i)) seeds"
  have len: "length ?px = npts" "length ?py = npts" "length ?cx = k" "length ?cy = k"
    using randrange_points [OF px] randrange_points [OF py] sample_range_spec [OF sd] by simp_all
  obtain slot where slot: "map_of (SLOTS cfg) (if two then ''kmeans_u'' else ''kmeans'') = Some slot" using assms(1) by blast
  obtain st where st: "kmeans_out k ?cx ?cy ?px ?py = Inr st" using kmeans_out_total assms(2) by blast
  have al: "\<exists>a c'. c_alloc n None c = Inr (a, c')" for n c by (rule c_alloc_total) simp
  have al2: "\<exists>a c'. c_alloc (length xs) (Some xs) c = Inr (a, c')" for xs c by (rule c_alloc_total) simp
  have "\<exists>c'. kmeans_case cfg npts k two ?px ?py ?cx ?cy c = Inr c'" for c
  proof -
    obtain a1 c1 where 1: "c_alloc npts (Some ?px) c = Inr (a1, c1)" using al2 [of ?px c] len by auto
    obtain a2 c2 where 2: "c_alloc npts (Some ?py) c1 = Inr (a2, c2)" using al2 [of ?py c1] len by auto
    obtain a3 c3 where 3: "c_alloc k (Some ?cx) c2 = Inr (a3, c3)" using al2 [of ?cx c2] len by auto
    obtain a4 c4 where 4: "c_alloc k (Some ?cy) c3 = Inr (a4, c4)" using al2 [of ?cy c3] len by auto
    obtain a5 c5 where 5: "c_alloc npts None c4 = Inr (a5, c5)" using al by blast
    obtain a6 c6 where 6: "c_alloc k None c5 = Inr (a6, c6)" using al by blast
    obtain a7 c7 where 7: "c_alloc k None c6 = Inr (a7, c7)" using al by blast
    obtain a8 c8 where 8: "c_alloc k None c7 = Inr (a8, c8)" using al by blast
    have as: "(if two then assertE (npts mod 2 = 0 \<and> k mod 2 = 0) else Inr ()) = Inr ()"
      using assms(4) by (auto simp: even_iff_mod_2_eq_zero)
    obtain c9 where "launch_case cfg ''kmeans'' (if two then ''kmeans_u'' else ''kmeans'')
        [int a1, int a2, int a3, int a4, int k, int a5, int a6, int a7, int a8] (if two then npts div 2 else npts) 0 c8 = Inr c9"
      using launch_case_total [OF slot] by blast
    then show ?thesis using 1 2 3 4 5 6 7 8 as st by (simp add: kmeans_case_def split del: if_split)
  qed
  then show ?thesis using px py sd by (fastforce simp: kmeans_def Let_def result_simps)
qed

section \<open>Properties\<close>

text \<open>C29: The case \<^verbatim>\<open>kmeans\<close> returns is well formed, holds the points and the centres, and expects for
  every point the lowest-numbered centre of minimal squared distance, and for every cluster the exact sums
  and the number of its points; the counts add up to the number of points, and up to \<open>2 ^ 18\<close> points
  no sum wraps around in its 32-bit word.\<close>

theorem kmeans_case_spec:
  assumes "kmeans cfg npts k two g = Inr (c, g')"
  shows "\<exists>px py cx cy assign sx sy cn a_px a_py a_cx a_cy a_as a_sx a_sy a_cn. case_ok cfg c \<and>
    holds (c_img c) a_px px \<and> holds (c_img c) a_py py \<and> holds (c_img c) a_cx cx \<and> holds (c_img c) a_cy cy \<and>
    golden c a_as (map int assign) \<and> golden c a_sx sx \<and> golden c a_sy sy \<and> golden c a_cn cn \<and>
    launched cfg c ''kmeans'' (if two then ''kmeans_u'' else ''kmeans'')
       [int a_px, int a_py, int a_cx, int a_cy, int k, int a_as, int a_sx, int a_sy, int a_cn]
       (if two then npts div 2 else npts) 0 \<and>
    length px = npts \<and> length py = npts \<and> length assign = npts \<and> length cx = k \<and> length cy = k \<and>
    (\<forall>i < npts. assign ! i < k \<and>
       (\<forall>j < k. kmeans_dist cx cy (px ! i) (py ! i) (assign ! i) \<le> kmeans_dist cx cy (px ! i) (py ! i) j) \<and>
       (\<forall>j < assign ! i. kmeans_dist cx cy (px ! i) (py ! i) (assign ! i) < kmeans_dist cx cy (px ! i) (py ! i) j)) \<and>
    (\<forall>j < k. sx ! j = sum_list (members (map int assign) j px) \<and> sy ! j = sum_list (members (map int assign) j py) \<and>
       cn ! j = int (length (members (map int assign) j px)) \<and>
       (npts \<le> 2 ^ 18 \<longrightarrow> 0 \<le> sx ! j \<and> sx ! j < 2 ^ 32 \<and> 0 \<le> sy ! j \<and> sy ! j < 2 ^ 32)) \<and>
    (\<Sum>j<k. cn ! j) = int npts"
proof -
  obtain qx g1 qy g2 seeds g3 c0 where qx: "repeatG npts (randrange (2 ^ 14)) g = Inr (qx, g1)"
    and qy: "repeatG npts (randrange (2 ^ 14)) g1 = Inr (qy, g2)" and sd: "sample_range npts k g2 = Inr (seeds, g3)"
    and c: "kmeans_case cfg npts k two (map int qx) (map int qy) (map (\<lambda>i. int (qx ! i)) seeds)
      (map (\<lambda>i. int (qy ! i)) seeds) (new_case c0) = Inr c"
    using assms by (auto simp: kmeans_def Let_def result_simps)
  define px py cx cy where d: "px = map int qx" "py = map int qy" "cx = map (\<lambda>i. int (qx ! i)) seeds"
    "cy = map (\<lambda>i. int (qy ! i)) seeds"
  have len: "length px = npts" "length py = npts" "length cx = k" "length cy = k"
    using randrange_points [OF qx] randrange_points [OF qy] sample_range_spec [OF sd] by (simp_all add: d)
  have c': "kmeans_case cfg npts k two px py cx cy (new_case c0) = Inr c" using c by (simp add: d)
  obtain a_px a_py a_cx a_cy a_as a_sx a_sy a_cn st where st: "kmeans_out k cx cy px py = Inr st" and r: "case_ok cfg c"
    "holds (c_img c) a_px px" "holds (c_img c) a_py py" "holds (c_img c) a_cx cx" "holds (c_img c) a_cy cy"
    "golden c a_as (km_assign st)" "golden c a_sx (km_sx st)" "golden c a_sy (km_sy st)" "golden c a_cn (km_cn st)"
    "launched cfg c ''kmeans'' (if two then ''kmeans_u'' else ''kmeans'')
       [int a_px, int a_py, int a_cx, int a_cy, int k, int a_as, int a_sx, int a_sy, int a_cn]
       (if two then npts div 2 else npts) 0"
    by (rule kmeans_case_correct [OF new_case_ok c' len(1,2)])
  have inv: "kmeans_inv k cx cy px py st" by (rule kmeans_out_inv [OF _ st]) (simp add: len)
  obtain assign where m: "km_assign st = map int assign" "length assign = npts"
    "\<forall>i < npts. assign ! i < k \<and>
       (\<forall>j < k. kmeans_dist cx cy (px ! i) (py ! i) (assign ! i) \<le> kmeans_dist cx cy (px ! i) (py ! i) j) \<and>
       (\<forall>j < assign ! i. kmeans_dist cx cy (px ! i) (py ! i) (assign ! i) < kmeans_dist cx cy (px ! i) (py ! i) j)"
    "\<forall>j < k. km_sx st ! j = sum_list (members (map int assign) j px) \<and> km_sy st ! j = sum_list (members (map int assign) j py) \<and>
       km_cn st ! j = int (length (members (map int assign) j px))"
    "(\<Sum>j<k. km_cn st ! j) = int npts"
    by (rule kmeans_inv_meaning [OF inv len(1,2)])
  have pts: "\<forall>x \<in> set px. 0 \<le> x \<and> x \<le> 2 ^ 14 - 1" "\<forall>x \<in> set py. 0 \<le> x \<and> x \<le> 2 ^ 14 - 1"
    using randrange_points [OF qx] randrange_points [OF qy] by (fastforce simp: d)+
  have word: "\<forall>j < k. npts \<le> 2 ^ 18 \<longrightarrow> 0 \<le> km_sx st ! j \<and> km_sx st ! j < 2 ^ 32 \<and> 0 \<le> km_sy st ! j \<and> km_sy st ! j < 2 ^ 32"
    using members_word [OF _ pts(1), of "map int assign"] members_word [OF _ pts(2), of "map int assign"] m(2,4) len by simp
  show ?thesis
    by (rule exI [of _ px], rule exI [of _ py], rule exI [of _ cx], rule exI [of _ cy],
        rule exI [of _ assign], rule exI [of _ "km_sx st"], rule exI [of _ "km_sy st"], rule exI [of _ "km_cn st"],
        rule exI [of _ a_px], rule exI [of _ a_py], rule exI [of _ a_cx], rule exI [of _ a_cy],
        rule exI [of _ a_as], rule exI [of _ a_sx], rule exI [of _ a_sy], rule exI [of _ a_cn])
      (use r len m word in \<open>simp only: m(1), blast\<close>)
qed

lemma kmeans_case_spec_witness:
  "\<exists>c g' assign a. kmeans \<lparr>LANES = 8, WORDS = 2 ^ 20, SLOTS = [(''kmeans_u'', 3)]\<rparr> 6 2 True [2, 7, 1] = Inr (c, g') \<and>
     length assign = 6 \<and> assign ! 5 < 2 \<and> golden c a (map int assign)"
proof -
  let ?cfg = "\<lparr>LANES = 8, WORDS = 2 ^ 20, SLOTS = [(''kmeans_u'', 3)]\<rparr>"
  obtain c g' where c: "kmeans ?cfg 6 2 True [2, 7, 1] = Inr (c, g')"
    using kmeans_runs [of ?cfg True 2 6 "[2, 7, 1]"] by auto
  obtain assign a where "length assign = 6" "golden c a (map int assign)" and n: "\<forall>i < 6. assign ! i < 2"
    using kmeans_case_spec [OF c] by blast
  moreover have "assign ! 5 < 2" by (rule n [rule_format]) simp
  ultimately show ?thesis using c by blast
qed

text \<open>\<^verbatim>\<open>kmeans\<close> returns a case for every random stream when its kernel is placed, there is at least
  one cluster and no more clusters than points (and both are even for the two-point kernel).\<close>

theorem kmeans_total:
  assumes "map_of (SLOTS cfg) (if two then ''kmeans_u'' else ''kmeans'') \<noteq> None"
    and "0 < k" "k \<le> npts" "two \<Longrightarrow> even npts \<and> even k"
  shows "\<exists>c g'. kmeans cfg npts k two g = Inr (c, g')"
  using assms by (rule kmeans_runs)

lemma kmeans_total_witness:
  "\<exists>c g'. kmeans \<lparr>LANES = 8, WORDS = 2 ^ 20, SLOTS = [(''kmeans'', 3)]\<rparr> 1024 8 False [5] = Inr (c, g')"
  by (rule kmeans_total) simp_all

end
