(* ===== verification/Bfs.thy ===== *)
theory Bfs
  imports Gemm
begin

text \<open>
  The application \<^verbatim>\<open>bfs\<close> of \<^verbatim>\<open>sim/gen_apps.py\<close>: a random connected graph in compressed-row form and
  the level-synchronous breadth-first search from vertex 0, one launch and one flag word per level.
  The search is shown to compute shortest distances, and its loop to stop within as many rounds
  as there are vertices.
\<close>

section \<open>The graph\<close>

type_synonym adjacency = "nat set list"

definition add_edge :: "nat \<Rightarrow> nat \<Rightarrow> adjacency \<Rightarrow> adjacency" where
  "add_edge u v adj = (let adj = adj[u := insert v (adj ! u)] in adj[v := insert u (adj ! v)])"

definition bfs_graph :: "nat \<Rightarrow> nat \<Rightarrow> adjacency gen" where
  "bfs_graph nv deg =
     bindG (foldG (\<lambda>v adj. bindG (randrange v) (\<lambda>u. returnG (add_edge u v adj))) [1..<nv] (replicate nv {}))
       (foldG (\<lambda>_ adj.
          bindG (randrange nv) (\<lambda>u.
          bindG (randrange nv) (\<lambda>v.
          returnG (if u \<noteq> v then add_edge u v adj else adj))))
        [0..<nat (int nv * (int deg - 2) div 2)])"

definition bfs_csr :: "nat \<Rightarrow> adjacency \<Rightarrow> nat list \<times> nat list" where
  "bfs_csr nv adj =
     fold (\<lambda>v (rowptr, col). let col' = col @ sorted_list_of_set (adj ! v) in (rowptr @ [length col'], col'))
       [0..<nv] ([0], [])"

section \<open>The search\<close>

text \<open>\<^verbatim>\<open>col[rowptr[v]:rowptr[v + 1]]\<close>.\<close>

definition neighbours :: "nat list \<Rightarrow> nat list \<Rightarrow> nat \<Rightarrow> nat list" where
  "neighbours rowptr col v = drop (rowptr ! v) (take (rowptr ! (v + 1)) col)"

definition bfs_visit :: "nat \<Rightarrow> nat \<Rightarrow> int list \<times> nat list \<Rightarrow> int list \<times> nat list" where
  "bfs_visit L u = (\<lambda>(lev, nxt). if lev ! u = UNSEEN then (lev[u := int L + 1], nxt @ [u]) else (lev, nxt))"

definition bfs_expand :: "nat list \<Rightarrow> nat list \<Rightarrow> nat \<Rightarrow> nat list \<Rightarrow> int list \<Rightarrow> int list \<times> nat list" where
  "bfs_expand rowptr col L frontier lev =
     fold (\<lambda>v. fold (bfs_visit L) (neighbours rowptr col v)) frontier (lev, [])"

record bfs_state =
  bs_lev :: "int list"
  bs_frontier :: "nat list"
  bs_L :: nat
  bs_flags :: "(nat \<times> int) list"
  bs_case :: app_case

text \<open>One round of the loop; the flag tells whether the search goes on.\<close>

definition bfs_round ::
  "config \<Rightarrow> nat \<Rightarrow> nat list \<Rightarrow> nat list \<Rightarrow> nat \<Rightarrow> nat \<Rightarrow> nat \<Rightarrow> bfs_state \<Rightarrow> (bool \<times> bfs_state) result" where
  "bfs_round cfg nv rowptr col prp pcol plev st =
     bindE (c_alloc 1 None (bs_case st)) (\<lambda>(pflag, c).
     bindE (launch_case cfg (''bfs'' @ str_nat (bs_L st)) ''bfs''
         [int prp, int pcol, int plev, int (bs_L st), int pflag] nv 0 c) (\<lambda>c.
     let (lev, nxt) = bfs_expand rowptr col (bs_L st) (bs_frontier st) (bs_lev st);
         flags = bs_flags st @ [(pflag, if nxt \<noteq> [] then 1 else 0)]
     in if nxt = [] then Inr (False, st\<lparr>bs_lev := lev, bs_flags := flags, bs_case := c\<rparr>)
        else Inr (True, \<lparr>bs_lev = lev, bs_frontier = nxt, bs_L = bs_L st + 1, bs_flags = flags, bs_case = c\<rparr>)))"

text \<open>The loop \<^verbatim>\<open>while True\<close>, with fuel; running out of fuel is an error of its own.\<close>

fun bfs_loop ::
  "config \<Rightarrow> nat \<Rightarrow> nat list \<Rightarrow> nat list \<Rightarrow> nat \<Rightarrow> nat \<Rightarrow> nat \<Rightarrow> nat \<Rightarrow> bfs_state \<Rightarrow> bfs_state result" where
  "bfs_loop cfg nv rowptr col prp pcol plev 0 st = Inl RecursionError"
| "bfs_loop cfg nv rowptr col prp pcol plev (Suc fuel) st =
     bindE (bfs_round cfg nv rowptr col prp pcol plev st) (\<lambda>(more, st).
       if more then bfs_loop cfg nv rowptr col prp pcol plev fuel st else Inr st)"

definition bfs_case :: "config \<Rightarrow> nat \<Rightarrow> nat list \<Rightarrow> nat list \<Rightarrow> app_case \<Rightarrow> app_case result" where
  "bfs_case cfg nv rowptr col c =
     bindE (if nv = 0 then Inl IndexError else Inr ((replicate nv UNSEEN)[0 := 0])) (\<lambda>level.
     bindE (c_alloc (nv + 1) (Some (map int rowptr)) c) (\<lambda>(prp, c).
     bindE (c_alloc (length col) (Some (map int col)) c) (\<lambda>(pcol, c).
     bindE (c_alloc nv (Some level) c) (\<lambda>(plev, c).
     bindE (bfs_loop cfg nv rowptr col prp pcol plev nv
         \<lparr>bs_lev = level, bs_frontier = [0], bs_L = 0, bs_flags = [], bs_case = c\<rparr>) (\<lambda>st.
     Inr (fold (\<lambda>(a, v). expect a [v]) (bs_flags st) (expect plev (bs_lev st) (bs_case st))))))))"

definition bfs :: "config \<Rightarrow> nat \<Rightarrow> nat \<Rightarrow> app_case gen" where
  "bfs cfg nv deg =
     (let c = new_case (''bfs_'' @ str_nat nv @ ''x'' @ str_nat deg)
      in bindG (bfs_graph nv deg) (\<lambda>adj.
         let (rowptr, col) = bfs_csr nv adj in liftG (bfs_case cfg nv rowptr col c)))"

section \<open>The invariant of the graph\<close>

definition graph_ok :: "nat \<Rightarrow> adjacency \<Rightarrow> bool" where
  "graph_ok nv adj \<longleftrightarrow> length adj = nv \<and>
     (\<forall>u < nv. \<forall>v \<in> adj ! u. v < nv \<and> v \<noteq> u \<and> u \<in> adj ! v)"

text \<open>The edges, and the vertices reachable from vertex 0.\<close>

definition edges :: "adjacency \<Rightarrow> (nat \<times> nat) set" where
  "edges adj = {(u, v). u < length adj \<and> v \<in> adj ! u}"

lemma graph_empty: "graph_ok nv (replicate nv {})"
  by (simp add: graph_ok_def)

lemma add_edge_nth:
  assumes "u < length adj" "v < length adj" "u \<noteq> v" "w < length adj"
  shows "add_edge u v adj ! w = adj ! w \<union> (if w = u then {v} else {}) \<union> (if w = v then {u} else {})"
  using assms by (auto simp: add_edge_def Let_def nth_list_update)

lemma add_edge_length [simp]: "length (add_edge u v adj) = length adj"
  by (simp add: add_edge_def Let_def)

lemma add_edge_ok:
  assumes "graph_ok nv adj" "u < nv" "v < nv" "u \<noteq> v"
  shows "graph_ok nv (add_edge u v adj)"
proof -
  have len: "length adj = nv" using assms(1) by (simp add: graph_ok_def)
  have nth: "add_edge u v adj ! w = adj ! w \<union> (if w = u then {v} else {}) \<union> (if w = v then {u} else {})" if "w < nv" for w
    using add_edge_nth [of u adj v w] assms that len by simp
  have "x < nv \<and> x \<noteq> w \<and> w \<in> add_edge u v adj ! x" if w: "w < nv" and x: "x \<in> add_edge u v adj ! w" for w x
  proof -
    have "x \<in> adj ! w \<or> w = u \<and> x = v \<or> w = v \<and> x = u" using x nth [OF w] by (auto split: if_splits)
    moreover have "x < nv \<and> x \<noteq> w \<and> w \<in> adj ! x" if "x \<in> adj ! w"
      using assms(1) w that unfolding graph_ok_def by blast
    ultimately have "x < nv \<and> x \<noteq> w \<and> (w \<in> adj ! x \<or> w = u \<and> x = v \<or> w = v \<and> x = u)"
      using assms(2-4) by blast
    then show ?thesis using nth [of x] by auto
  qed
  then have "\<forall>w < nv. \<forall>x \<in> add_edge u v adj ! w. x < nv \<and> x \<noteq> w \<and> w \<in> add_edge u v adj ! x" by blast
  then show ?thesis using len unfolding graph_ok_def by (simp only: add_edge_length simp_thms)
qed

lemma add_edge_edges:
  assumes "graph_ok nv adj" "u < nv" "v < nv" "u \<noteq> v"
  shows "edges (add_edge u v adj) = edges adj \<union> {(u, v), (v, u)}"
proof -
  have len: "length adj = nv" using assms(1) by (simp add: graph_ok_def)
  have "(a, b) \<in> edges (add_edge u v adj) \<longleftrightarrow> (a, b) \<in> edges adj \<union> {(u, v), (v, u)}" for a b
  proof (cases "a < nv")
    case True
    then show ?thesis using add_edge_nth [of u adj v a] assms(2-4) by (auto simp: edges_def len)
  qed (use assms(2,3) in \<open>auto simp: edges_def len\<close>)
  then show ?thesis by auto
qed

text \<open>The first loop makes a tree, the second only adds edges: every vertex is reachable from 0.\<close>

definition tree_upto :: "nat \<Rightarrow> adjacency \<Rightarrow> bool" where
  "tree_upto n adj \<longleftrightarrow> (\<forall>v < n. (0, v) \<in> (edges adj)\<^sup>*)"

lemma tree_loop:
  "foldG (\<lambda>v adj. bindG (randrange v) (\<lambda>u. returnG (add_edge u v adj))) [m..<n] adj g = Inr (adj', g') \<Longrightarrow>
     1 \<le> m \<Longrightarrow> m \<le> n \<Longrightarrow> n \<le> nv \<Longrightarrow> graph_ok nv adj \<Longrightarrow> tree_upto m adj \<Longrightarrow> graph_ok nv adj' \<and> tree_upto n adj'"
proof (induction "n - m" arbitrary: m adj g)
  case 0
  then show ?case by (simp add: returnG_def)
next
  case (Suc d)
  then have mn: "m < n" by simp
  then have "[m..<n] = m # [Suc m..<n]" by (simp add: upt_conv_Cons)
  then obtain u h where u: "randrange m g = Inr (u, h)"
    and rest: "foldG (\<lambda>v adj. bindG (randrange v) (\<lambda>u. returnG (add_edge u v adj))) [Suc m..<n] (add_edge u m adj) h = Inr (adj', g')"
    using Suc.prems(1) by (auto simp: result_simps)
  have um: "u < m" by (rule randrange_range [OF u])
  then have uv: "u < nv" "m < nv" "u \<noteq> m" using mn Suc.prems by auto
  have ok: "graph_ok nv (add_edge u m adj)" by (rule add_edge_ok [OF Suc.prems(5) uv])
  have e: "edges (add_edge u m adj) = edges adj \<union> {(u, m), (m, u)}" by (rule add_edge_edges [OF Suc.prems(5) uv])
  have old: "(0, v) \<in> (edges (add_edge u m adj))\<^sup>*" if "v < m" for v
    using Suc.prems(6) that rtrancl_mono [of "edges adj" "edges (add_edge u m adj)"] e by (auto simp: tree_upto_def)
  have "(0, m) \<in> (edges (add_edge u m adj))\<^sup>*"
    using old [OF um] by (rule rtrancl_into_rtrancl) (simp add: e)
  then have "tree_upto (Suc m) (add_edge u m adj)" using old by (auto simp: tree_upto_def less_Suc_eq)
  then show ?case using Suc.hyps(1) [OF _ rest] Suc.hyps(2) mn Suc.prems(2,4) ok by simp
qed

lemma extra_loop:
  assumes "foldG (\<lambda>_ adj. bindG (randrange nv) (\<lambda>u. bindG (randrange nv) (\<lambda>v.
      returnG (if u \<noteq> v then add_edge u v adj else adj)))) js adj g = Inr (adj', g')"
    and "graph_ok nv adj" "tree_upto n adj"
  shows "graph_ok nv adj' \<and> tree_upto n adj'"
  using assms
proof (induction js arbitrary: adj g)
  case (Cons j js)
  obtain u h v h' where u: "randrange nv g = Inr (u, h)" and v: "randrange nv h = Inr (v, h')"
    and rest: "foldG (\<lambda>_ adj. bindG (randrange nv) (\<lambda>u. bindG (randrange nv) (\<lambda>v.
      returnG (if u \<noteq> v then add_edge u v adj else adj)))) js (if u \<noteq> v then add_edge u v adj else adj) h' = Inr (adj', g')"
    using Cons.prems(1) by (auto simp: result_simps)
  have uv: "u < nv" "v < nv" using randrange_range u v by blast+
  have "graph_ok nv (if u \<noteq> v then add_edge u v adj else adj)"
    using add_edge_ok [OF Cons.prems(2) uv] Cons.prems(2) by simp
  moreover have "edges adj \<subseteq> edges (if u \<noteq> v then add_edge u v adj else adj)"
    using add_edge_edges [OF Cons.prems(2) uv] by auto
  then have "tree_upto n (if u \<noteq> v then add_edge u v adj else adj)"
    using Cons.prems(3) rtrancl_mono unfolding tree_upto_def by blast
  ultimately show ?case using Cons.IH [OF rest] by blast
qed (simp add: returnG_def)

lemma bfs_graph_ok:
  assumes "bfs_graph nv deg g = Inr (adj, g')"
  shows "graph_ok nv adj \<and> tree_upto nv adj"
proof (cases "nv = 0")
  case True
  then show ?thesis using assms
    by (auto simp: bfs_graph_def result_simps graph_ok_def tree_upto_def)
next
  case False
  obtain adj1 g1 where 1: "foldG (\<lambda>v adj. bindG (randrange v) (\<lambda>u. returnG (add_edge u v adj))) [1..<nv] (replicate nv {}) g = Inr (adj1, g1)"
    and 2: "foldG (\<lambda>_ adj. bindG (randrange nv) (\<lambda>u. bindG (randrange nv) (\<lambda>v.
      returnG (if u \<noteq> v then add_edge u v adj else adj)))) [0..<nat (int nv * (int deg - 2) div 2)] adj1 g1 = Inr (adj, g')"
    using assms by (auto simp: bfs_graph_def result_simps)
  have "graph_ok nv adj1 \<and> tree_upto nv adj1"
    by (rule tree_loop [OF 1]) (use False graph_empty in \<open>auto simp: tree_upto_def\<close>)
  then show ?thesis using extra_loop [OF 2] by blast
qed

lemma bfs_graph_total: "0 < nv \<Longrightarrow> \<exists>adj g'. bfs_graph nv deg g = Inr (adj, g')"
proof -
  assume nv: "0 < nv"
  have 1: "\<exists>t g'. foldG (\<lambda>v adj. bindG (randrange v) (\<lambda>u. returnG (add_edge u v adj))) [1..<nv] s g = Inr (t, g')" for s
  proof (rule foldG_total)
    fix v adj and h :: rng assume "v \<in> set [1..<nv]"
    then obtain u h' where "randrange v h = Inr (u, h')" using randrange_total [of v h] by auto
    then show "\<exists>t g'. bindG (randrange v) (\<lambda>u. returnG (add_edge u v adj)) h = Inr (t, g')"
      by (simp add: result_simps)
  qed
  have 2: "\<exists>t g'. foldG (\<lambda>_ adj. bindG (randrange nv) (\<lambda>u. bindG (randrange nv) (\<lambda>v.
      returnG (if u \<noteq> v then add_edge u v adj else adj)))) js s g = Inr (t, g')" for js s and g :: rng
  proof (rule foldG_total)
    fix adj and h :: rng
    obtain u h1 where "randrange nv h = Inr (u, h1)" using randrange_total [OF nv] by blast
    moreover obtain v h2 where "randrange nv h1 = Inr (v, h2)" using randrange_total [OF nv] by blast
    ultimately show "\<exists>t g'. bindG (randrange nv) (\<lambda>u. bindG (randrange nv) (\<lambda>v.
      returnG (if u \<noteq> v then add_edge u v adj else adj))) h = Inr (t, g')"
      by (simp add: result_simps)
  qed
  show ?thesis unfolding bfs_graph_def bindG_Inr using 1 2 by blast
qed

section \<open>The compressed rows\<close>

lemma bfs_csr_step:
  "bfs_csr (Suc n) adj = (let (rowptr, col) = bfs_csr n adj; col' = col @ sorted_list_of_set (adj ! n)
     in (rowptr @ [length col'], col'))"
  by (simp add: bfs_csr_def Let_def)

lemma bfs_csr_slices:
  assumes "bfs_csr n adj = (rowptr, col)"
  shows "length rowptr = n + 1 \<and> rowptr ! n = length col \<and>
    (\<forall>v < n. rowptr ! v \<le> rowptr ! (v + 1) \<and> rowptr ! (v + 1) \<le> length col \<and>
       neighbours rowptr col v = sorted_list_of_set (adj ! v))"
  using assms
proof (induction n arbitrary: rowptr col)
  case 0
  then show ?case by (auto simp: bfs_csr_def)
next
  case (Suc n)
  obtain rp c where b: "bfs_csr n adj = (rp, c)" by (cases "bfs_csr n adj")
  let ?s = "sorted_list_of_set (adj ! n)"
  have e: "rowptr = rp @ [length (c @ ?s)]" "col = c @ ?s" using Suc.prems b by (auto simp: bfs_csr_step Let_def)
  have IH: "length rp = n + 1" "rp ! n = length c"
    "v < n \<Longrightarrow> rp ! v \<le> rp ! (v + 1) \<and> rp ! (v + 1) \<le> length c \<and> neighbours rp c v = sorted_list_of_set (adj ! v)" for v
    using Suc.IH [OF b] by auto
  have "rowptr ! v \<le> rowptr ! (v + 1) \<and> rowptr ! (v + 1) \<le> length col \<and> neighbours rowptr col v = sorted_list_of_set (adj ! v)"
    if "v < Suc n" for v
  proof (cases "v = n")
    case True
    then show ?thesis using IH(1,2) by (simp add: e neighbours_def nth_append)
  next
    case False
    then have v: "v < n" using that by simp
    then have "rowptr ! v = rp ! v" "rowptr ! (v + 1) = rp ! (v + 1)" using IH(1) by (simp_all add: e nth_append)
    then show ?thesis using IH(3) [OF v] by (simp add: e neighbours_def)
  qed
  then show ?case using IH(1) by (simp add: e nth_append)
qed


section \<open>Distances\<close>

text \<open>\<open>dist_is E n v\<close>: the shortest path from vertex 0 to \<open>v\<close> has \<open>n\<close> edges.\<close>

definition dist_is :: "(nat \<times> nat) set \<Rightarrow> nat \<Rightarrow> nat \<Rightarrow> bool" where
  "dist_is E n v \<longleftrightarrow> (0, v) \<in> E ^^ n \<and> (\<forall>m < n. (0, v) \<notin> E ^^ m)"

lemma dist_is_unique: "dist_is E m v \<Longrightarrow> dist_is E n v \<Longrightarrow> m = n"
  unfolding dist_is_def by (metis linorder_neqE_nat)

lemma dist_is_0: "dist_is E 0 v \<longleftrightarrow> v = 0"
  by (auto simp: dist_is_def)

lemma dist_least: "(0, v) \<in> E ^^ n \<Longrightarrow> \<exists>m \<le> n. dist_is E m v"
proof (induction n rule: less_induct)
  case (less n)
  show ?case
  proof (cases "\<forall>m < n. (0, v) \<notin> E ^^ m")
    case True
    then show ?thesis using less.prems by (auto simp: dist_is_def)
  next
    case False
    then obtain m where "m < n" "(0, v) \<in> E ^^ m" by blast
    then show ?thesis using less.IH [of m] by (meson less_imp_le order_trans)
  qed
qed

lemma dist_pred: "dist_is E (Suc n) u \<Longrightarrow> \<exists>v. dist_is E n v \<and> (v, u) \<in> E"
proof -
  assume d: "dist_is E (Suc n) u"
  then obtain v where v: "(0, v) \<in> E ^^ n" "(v, u) \<in> E" unfolding dist_is_def by auto
  then obtain m where m: "m \<le> n" "dist_is E m v" using dist_least by blast
  then have "(0, u) \<in> E ^^ Suc m" using v(2) by (auto simp: dist_is_def)
  then have "\<not> Suc m < Suc n" using d unfolding dist_is_def by blast
  then show ?thesis using m v(2) by (cases "m = n") auto
qed

lemma dist_Suc: "dist_is E (Suc n) u \<longleftrightarrow> (\<exists>v. dist_is E n v \<and> (v, u) \<in> E) \<and> (\<forall>m \<le> n. \<not> dist_is E m u)"
proof
  assume d: "dist_is E (Suc n) u"
  show "(\<exists>v. dist_is E n v \<and> (v, u) \<in> E) \<and> (\<forall>m \<le> n. \<not> dist_is E m u)"
    using dist_pred [OF d] dist_is_unique [OF d] by fastforce
next
  assume a: "(\<exists>v. dist_is E n v \<and> (v, u) \<in> E) \<and> (\<forall>m \<le> n. \<not> dist_is E m u)"
  then have "(0, u) \<in> E ^^ Suc n" by (auto simp: dist_is_def)
  then obtain m where "m \<le> Suc n" "dist_is E m u" using dist_least by blast
  then show "dist_is E (Suc n) u" using a by (metis le_Suc_eq)
qed

lemma dist_below: "dist_is E n v \<Longrightarrow> k \<le> n \<Longrightarrow> \<exists>w. dist_is E k w"
proof (induction n arbitrary: v)
  case (Suc n)
  then show ?case using dist_pred [of E n v] by (cases "k = Suc n") auto
qed auto

text \<open>A distance is below the number of vertices.\<close>

lemma dist_bound:
  assumes "dist_is E n v" and "\<And>m w. dist_is E m w \<Longrightarrow> w < nv"
  shows "n < nv"
proof -
  have "\<forall>k \<in> {..n}. \<exists>w. dist_is E k w" using dist_below [OF assms(1)] by simp
  then obtain f where f: "\<forall>k \<in> {..n}. dist_is E k (f k)" using bchoice by metis
  have "inj_on f {..n}"
  proof (rule inj_onI)
    fix a b assume ab: "a \<in> {..n}" "b \<in> {..n}" and e: "f a = f b"
    have "dist_is E a (f a)" "dist_is E b (f b)" using f ab by blast+
    then show "a = b" unfolding e by (rule dist_is_unique)
  qed
  moreover have "f ` {..n} \<subseteq> {..<nv}" using f assms(2) by auto
  ultimately have "card {..n} \<le> card {..<nv}" by (metis card_inj_on_le finite_lessThan)
  then show ?thesis by simp
qed

section \<open>A round of the search\<close>

definition lev_ok :: "(nat \<times> nat) set \<Rightarrow> nat \<Rightarrow> nat \<Rightarrow> int list \<Rightarrow> bool" where
  "lev_ok E nv L lev \<longleftrightarrow> length lev = nv \<and>
     (\<forall>v < nv. (\<exists>n \<le> L. dist_is E n v \<and> lev ! v = int n) \<or> ((\<forall>n \<le> L. \<not> dist_is E n v) \<and> lev ! v = UNSEEN))"

lemma bfs_visit_fold:
  assumes "int L + 1 \<noteq> UNSEEN" "\<forall>u \<in> set us. u < length lev"
  shows "length (fst (fold (bfs_visit L) us (lev, nxt))) = length lev \<and>
    (\<forall>v < length lev. fst (fold (bfs_visit L) us (lev, nxt)) ! v =
       (if lev ! v = UNSEEN \<and> v \<in> set us then int L + 1 else lev ! v)) \<and>
    set (snd (fold (bfs_visit L) us (lev, nxt))) = set nxt \<union> {u \<in> set us. lev ! u = UNSEEN}"
  using assms(2)
proof (induction us arbitrary: lev nxt)
  case (Cons u us)
  show ?case
  proof (cases "lev ! u = UNSEEN")
    case True
    let ?lev = "lev[u := int L + 1]"
    have IH: "length (fst (fold (bfs_visit L) us (?lev, nxt @ [u]))) = length ?lev"
      "\<And>v. v < length ?lev \<Longrightarrow> fst (fold (bfs_visit L) us (?lev, nxt @ [u])) ! v =
         (if ?lev ! v = UNSEEN \<and> v \<in> set us then int L + 1 else ?lev ! v)"
      "set (snd (fold (bfs_visit L) us (?lev, nxt @ [u]))) = set (nxt @ [u]) \<union> {w \<in> set us. ?lev ! w = UNSEEN}"
      using Cons.IH [of ?lev "nxt @ [u]"] Cons.prems by auto
    have e: "fold (bfs_visit L) (u # us) (lev, nxt) = fold (bfs_visit L) us (?lev, nxt @ [u])"
      using True by (simp add: bfs_visit_def)
    have u: "u < length lev" using Cons.prems by simp
    have v: "fst (fold (bfs_visit L) (u # us) (lev, nxt)) ! v =
       (if lev ! v = UNSEEN \<and> v \<in> set (u # us) then int L + 1 else lev ! v)" if "v < length lev" for v
      using IH(2) [of v] that True assms(1) u unfolding e by (cases "v = u") auto
    have "{w \<in> set (u # us). lev ! w = UNSEEN} = {u} \<union> {w \<in> set us. ?lev ! w = UNSEEN}"
    proof (rule set_eqI)
      fix w
      show "w \<in> {w \<in> set (u # us). lev ! w = UNSEEN} \<longleftrightarrow> w \<in> {u} \<union> {w \<in> set us. ?lev ! w = UNSEEN}"
        using True u assms(1) by (cases "w = u") auto
    qed
    then have s: "set (snd (fold (bfs_visit L) (u # us) (lev, nxt))) = set nxt \<union> {w \<in> set (u # us). lev ! w = UNSEEN}"
      unfolding e IH(3) by simp
    show ?thesis using IH(1) v s unfolding e by simp
  next
    case False
    then have e: "fold (bfs_visit L) (u # us) (lev, nxt) = fold (bfs_visit L) us (lev, nxt)" by (simp add: bfs_visit_def)
    have "{w \<in> set (u # us). lev ! w = UNSEEN} = {w \<in> set us. lev ! w = UNSEEN}" using False by auto
    then show ?thesis unfolding e using Cons.IH [of lev nxt] Cons.prems False by auto
  qed
qed simp

lemma bfs_expand_flat:
  "bfs_expand rowptr col L frontier lev = fold (bfs_visit L) (concat (map (neighbours rowptr col) frontier)) (lev, [])"
proof -
  have "fold (\<lambda>v. fold (bfs_visit L) (neighbours rowptr col v)) fr s = fold (bfs_visit L) (concat (map (neighbours rowptr col) fr)) s" for fr s
    by (induction fr arbitrary: s) simp_all
  then show ?thesis by (simp add: bfs_expand_def)
qed

lemma bfs_expand_levels:
  assumes lev: "lev_ok E nv L lev" and fr: "set frontier = {v. dist_is E L v}" and L: "int L + 1 < UNSEEN"
    and nb: "\<And>v. v < nv \<Longrightarrow> set (neighbours rowptr col v) = {u. (v, u) \<in> E}"
    and E: "E \<subseteq> {..<nv} \<times> {..<nv}" and nv: "0 < nv"
    and ex: "bfs_expand rowptr col L frontier lev = (lev', nxt)"
  shows "lev_ok E nv (Suc L) lev' \<and> set nxt = {v. dist_is E (Suc L) v}"
proof -
  let ?us = "concat (map (neighbours rowptr col) frontier)"
  have inv: "v < nv" if "dist_is E n v" for n v
  proof (cases n)
    case 0
    then show ?thesis using that nv by (simp add: dist_is_0)
  next
    case (Suc m)
    then show ?thesis using dist_pred [of E m v] that E by auto
  qed
  have us: "u \<in> set ?us \<longleftrightarrow> (\<exists>v. dist_is E L v \<and> (v, u) \<in> E)" for u
    using nb inv fr by auto
  have len: "length lev = nv" using lev by (simp add: lev_ok_def)
  have bnd: "\<forall>u \<in> set ?us. u < length lev" using E len by (auto simp only: us)
  have uns: "lev ! v = UNSEEN \<longleftrightarrow> (\<forall>n \<le> L. \<not> dist_is E n v)" if "v < nv" for v
  proof -
    have "int n \<noteq> UNSEEN" if "n \<le> L" for n using that L by linarith
    then show ?thesis using lev that unfolding lev_ok_def by metis
  qed
  have "int L + 1 \<noteq> UNSEEN" using L by simp
  note r = bfs_visit_fold [OF this bnd, of "[]", folded bfs_expand_flat, unfolded ex fst_conv snd_conv]
  have new: "(u \<in> set ?us \<and> lev ! u = UNSEEN) \<longleftrightarrow> dist_is E (Suc L) u" if "u < nv" for u
    unfolding us uns [OF that] dist_Suc by simp
  have "set nxt = {v. dist_is E (Suc L) v}"
  proof (rule set_eqI)
    fix v
    show "v \<in> set nxt \<longleftrightarrow> v \<in> {v. dist_is E (Suc L) v}"
      using r bnd new [of v] inv [of "Suc L" v] len by auto
  qed
  moreover have "(\<exists>n \<le> Suc L. dist_is E n v \<and> lev' ! v = int n) \<or> ((\<forall>n \<le> Suc L. \<not> dist_is E n v) \<and> lev' ! v = UNSEEN)"
    if v: "v < nv" for v
  proof (cases "dist_is E (Suc L) v")
    case True
    then have "lev' ! v = int L + 1" using r v len new [OF v] by auto
    then show ?thesis using True by (intro disjI1 exI [of _ "Suc L"]) simp
  next
    case False
    then have "lev' ! v = lev ! v" using r v len new [OF v] by auto
    then show ?thesis using lev v False unfolding lev_ok_def by (metis le_Suc_eq)
  qed
  ultimately show ?thesis using r len by (simp add: lev_ok_def)
qed


section \<open>The loop\<close>

lemma c_alloc_top: "c_alloc n init c = Inr (a, c') \<Longrightarrow> a = img_top (c_img c) \<and> img_top (c_img c') = a + line_up n"
  by (auto simp: c_alloc_Inr alloc_Inr)

lemma launch_case_top: "launch_case cfg tag krn params threads blk c = Inr c' \<Longrightarrow> img_top (c_img c) \<le> img_top (c_img c')"
  by (auto simp: launch_case_Inr dest!: c_alloc_top)

text \<open>The flag words: allocated in order, behind one another.\<close>

definition flags_ok :: "app_case \<Rightarrow> nat \<Rightarrow> (nat \<times> int) list \<Rightarrow> bool" where
  "flags_ok c lo flags \<longleftrightarrow>
     (\<forall>(a, v) \<in> set flags. lo \<le> a \<and> a + 4 \<le> img_top (c_img c) \<and> img_look (c_img c) a \<noteq> None) \<and>
     sorted_wrt (\<lambda>(a, _) (b, _). a + 4 \<le> b) flags"

definition bfs_launch :: "config \<Rightarrow> nat \<Rightarrow> nat \<Rightarrow> nat \<Rightarrow> nat \<Rightarrow> (nat \<times> int) list \<Rightarrow> nat \<Rightarrow> app_case \<Rightarrow> bool" where
  "bfs_launch cfg nv prp pcol plev flags i c \<longleftrightarrow>
     launched cfg c (''bfs'' @ str_nat i) ''bfs'' [int prp, int pcol, int plev, int i, int (fst (flags ! i))] nv 0"

definition bfs_inv ::
  "config \<Rightarrow> nat \<Rightarrow> (nat \<times> nat) set \<Rightarrow> nat \<Rightarrow> nat \<Rightarrow> nat \<Rightarrow> nat \<Rightarrow> app_case \<Rightarrow> bfs_state \<Rightarrow> bool" where
  "bfs_inv cfg nv E prp pcol plev lo c0 st \<longleftrightarrow>
     lev_ok E nv (bs_L st) (bs_lev st) \<and> set (bs_frontier st) = {v. dist_is E (bs_L st) v} \<and> bs_frontier st \<noteq> [] \<and>
     map snd (bs_flags st) = replicate (bs_L st) 1 \<and> case_ok cfg (bs_case st) \<and> grows c0 (bs_case st) \<and>
     c_gold (bs_case st) = c_gold c0 \<and> lo \<le> img_top (c_img (bs_case st)) \<and> flags_ok (bs_case st) lo (bs_flags st) \<and>
     (\<forall>i < bs_L st. bfs_launch cfg nv prp pcol plev (bs_flags st) i (bs_case st))"

text \<open>What the search leaves behind.\<close>

definition bfs_done ::
  "config \<Rightarrow> nat \<Rightarrow> (nat \<times> nat) set \<Rightarrow> nat \<Rightarrow> nat \<Rightarrow> nat \<Rightarrow> nat \<Rightarrow> app_case \<Rightarrow> bfs_state \<Rightarrow> bool" where
  "bfs_done cfg nv E prp pcol plev lo c0 st \<longleftrightarrow>
     length (bs_lev st) = nv \<and> (\<forall>n v. dist_is E n v \<longrightarrow> n \<le> bs_L st \<and> bs_lev st ! v = int n) \<and>
     (\<forall>v < nv. (\<forall>n. \<not> dist_is E n v) \<longrightarrow> bs_lev st ! v = UNSEEN) \<and>
     (\<exists>v. dist_is E (bs_L st) v) \<and>
     map snd (bs_flags st) = replicate (bs_L st) 1 @ [0] \<and> case_ok cfg (bs_case st) \<and> grows c0 (bs_case st) \<and>
     c_gold (bs_case st) = c_gold c0 \<and> flags_ok (bs_case st) lo (bs_flags st) \<and>
     (\<forall>i \<le> bs_L st. bfs_launch cfg nv prp pcol plev (bs_flags st) i (bs_case st))"

definition bfs_view :: "nat \<Rightarrow> nat list \<Rightarrow> nat list \<Rightarrow> (nat \<times> nat) set \<Rightarrow> bool" where
  "bfs_view nv rowptr col E \<longleftrightarrow> (\<forall>v < nv. set (neighbours rowptr col v) = {u. (v, u) \<in> E}) \<and>
     E \<subseteq> {..<nv} \<times> {..<nv} \<and> 0 < nv \<and> int nv < UNSEEN"

lemma dist_in: "bfs_view nv rowptr col E \<Longrightarrow> dist_is E n v \<Longrightarrow> v < nv"
proof (cases n)
  case (Suc m)
  assume "bfs_view nv rowptr col E" "dist_is E n v"
  then show ?thesis using dist_pred [of E m v] Suc by (auto simp: bfs_view_def)
qed (simp add: dist_is_0 bfs_view_def)

text \<open>What one round does to the case: a fresh flag word and a launch that names it.\<close>

lemma flags_ok_snoc:
  assumes fl: "flags_ok c lo flags" and ok: "case_ok cfg c" and lo: "lo \<le> img_top (c_img c)"
    and al: "c_alloc 1 None c = Inr (pflag, c1)"
    and la: "launch_case cfg tag krn params th blk c1 = Inr c2" and ne: "params \<noteq> []"
  shows "flags_ok c2 lo (flags @ [(pflag, b)])" "lo \<le> img_top (c_img c2)"
proof -
  note f1 = c_alloc_facts [OF ok al]
  note f2 = launch_case_facts [OF f1(1) la ne]
  have p: "pflag = img_top (c_img c)" "img_top (c_img c1) = pflag + line_up 1" using c_alloc_top [OF al] by auto
  have t: "img_top (c_img c1) \<le> img_top (c_img c2)" by (rule launch_case_top [OF la])
  have top: "img_top (c_img c) + 4 \<le> img_top (c_img c2)" using t p line_up_ge [of 1] by simp
  have g: "grows c c2" by (rule grows_trans [OF f1(2) f2(2)])
  have "img_look (c_img c1) pflag \<noteq> None" using holds_look [OF f1(3), of 0] by simp
  then have "img_look (c_img c2) pflag \<noteq> None" by (rule grows_look [OF f2(2)])
  moreover have "lo \<le> a \<and> a + 4 \<le> img_top (c_img c2) \<and> img_look (c_img c2) a \<noteq> None" if "(a, v) \<in> set flags" for a v
  proof -
    have "lo \<le> a \<and> a + 4 \<le> img_top (c_img c) \<and> img_look (c_img c) a \<noteq> None" using fl that by (auto simp: flags_ok_def)
    then show ?thesis using top grows_look [OF g, of a] by auto
  qed
  moreover have "a + 4 \<le> pflag" if "(a, v) \<in> set flags" for a v using fl that p(1) by (auto simp: flags_ok_def)
  ultimately show "flags_ok c2 lo (flags @ [(pflag, b)])"
    using fl p(1) lo top by (auto simp: flags_ok_def sorted_wrt_append)
  show "lo \<le> img_top (c_img c2)" using lo top by simp
qed

text \<open>When no vertex is one round further, the levels are the distances.\<close>

lemma levels_final:
  assumes vw: "bfs_view nv rowptr col E" and ok: "lev_ok E nv (Suc L) lev" and none: "\<And>v. \<not> dist_is E (Suc L) v"
  shows "dist_is E n v \<Longrightarrow> n \<le> L \<and> lev ! v = int n" and "v < nv \<Longrightarrow> \<forall>n. \<not> dist_is E n v \<Longrightarrow> lev ! v = UNSEEN"
proof -
  show "n \<le> L \<and> lev ! v = int n" if d: "dist_is E n v"
  proof -
    have "n \<le> L" using dist_below [OF d, of "Suc L"] none by (cases "n \<le> L") auto
    then show ?thesis
      using ok dist_in [OF vw d] dist_is_unique [OF d] d unfolding lev_ok_def by (metis le_SucI)
  qed
qed (use ok in \<open>auto simp: lev_ok_def\<close>)

lemma bfs_round_correct:
  assumes vw: "bfs_view nv rowptr col E" and inv: "bfs_inv cfg nv E prp pcol plev lo c0 st"
    and run: "bfs_round cfg nv rowptr col prp pcol plev st = Inr (cont, st')"
  shows "if cont then bfs_inv cfg nv E prp pcol plev lo c0 st' \<and> bs_L st' = Suc (bs_L st) \<and> bs_L st' < nv
         else bfs_done cfg nv E prp pcol plev lo c0 st'"
proof -
  let ?L = "bs_L st" and ?params = "\<lambda>pflag. [int prp, int pcol, int plev, int (bs_L st), int pflag]"
  obtain lev nxt where ex: "bfs_expand rowptr col ?L (bs_frontier st) (bs_lev st) = (lev, nxt)"
    by (cases "bfs_expand rowptr col ?L (bs_frontier st) (bs_lev st)")
  obtain pflag c1 c2 where al: "c_alloc 1 None (bs_case st) = Inr (pflag, c1)"
    and la: "launch_case cfg (''bfs'' @ str_nat ?L) ''bfs'' (?params pflag) nv 0 c1 = Inr c2"
    and res: "if nxt = [] then cont = False \<and> st' = st\<lparr>bs_lev := lev, bs_flags := bs_flags st @ [(pflag, 0)], bs_case := c2\<rparr>
      else cont = True \<and> st' = \<lparr>bs_lev = lev, bs_frontier = nxt, bs_L = ?L + 1, bs_flags = bs_flags st @ [(pflag, 1)], bs_case = c2\<rparr>"
    using run ex by (auto simp: bfs_round_def result_simps Let_def split: if_splits)
  have i: "lev_ok E nv ?L (bs_lev st)" "set (bs_frontier st) = {v. dist_is E ?L v}" "bs_frontier st \<noteq> []"
    "map snd (bs_flags st) = replicate ?L 1" "case_ok cfg (bs_case st)" "grows c0 (bs_case st)"
    "c_gold (bs_case st) = c_gold c0" "lo \<le> img_top (c_img (bs_case st))" "flags_ok (bs_case st) lo (bs_flags st)"
    "\<And>i. i < ?L \<Longrightarrow> bfs_launch cfg nv prp pcol plev (bs_flags st) i (bs_case st)"
    using inv unfolding bfs_inv_def by blast+
  obtain w where w: "dist_is E ?L w" using i(2,3) by (cases "bs_frontier st") auto
  have Lnv: "?L < nv" by (rule dist_bound [OF w]) (rule dist_in [OF vw])
  have v: "int ?L + 1 < UNSEEN" "E \<subseteq> {..<nv} \<times> {..<nv}" "0 < nv"
    "\<And>v. v < nv \<Longrightarrow> set (neighbours rowptr col v) = {u. (v, u) \<in> E}"
    using vw Lnv unfolding bfs_view_def by auto
  have lv: "lev_ok E nv (Suc ?L) lev" "set nxt = {v. dist_is E (Suc ?L) v}"
    using bfs_expand_levels [OF i(1,2) v(1) v(4) v(2,3) ex] by auto
  note f1 = c_alloc_facts [OF i(5) al]
  note f2 = launch_case_facts [OF f1(1) la]
  have c2: "case_ok cfg c2" "grows c1 c2" "c_gold c2 = c_gold c1" by (rule f2; simp)+
  have g: "grows (bs_case st) c2" by (rule grows_trans [OF f1(2) c2(2)])
  have fl: "flags_ok c2 lo (bs_flags st @ [(pflag, b)])" "lo \<le> img_top (c_img c2)" for b
    using flags_ok_snoc [OF i(9,5,8) al la] by auto
  have len: "length (bs_flags st) = ?L" using i(4) by (metis length_map length_replicate)
  have la2: "launched cfg c2 (''bfs'' @ str_nat ?L) ''bfs'' (?params pflag) nv 0" by (rule f2(5)) simp
  have ls: "bfs_launch cfg nv prp pcol plev (bs_flags st @ [(pflag, b)]) j c2" if "j \<le> ?L" for b j
  proof (cases "j = ?L")
    case True
    then show ?thesis using la2 len by (simp add: bfs_launch_def nth_append)
  next
    case False
    then have "j < ?L" using that by simp
    then show ?thesis using grows_launched [OF g] i(10) len by (simp add: bfs_launch_def nth_append)
  qed
  have base: "grows c0 c2" "c_gold c2 = c_gold c0" using grows_trans [OF i(6) g] c2(3) f1(4) i(7) by simp_all
  show ?thesis
  proof (cases "nxt = []")
    case True
    then have none: "\<not> dist_is E (Suc ?L) v" for v using lv(2) by auto
    have st': "cont = False" "st' = st\<lparr>bs_lev := lev, bs_flags := bs_flags st @ [(pflag, 0)], bs_case := c2\<rparr>"
      using res True by auto
    have final: "\<And>n v. dist_is E n v \<Longrightarrow> n \<le> ?L \<and> lev ! v = int n" "\<And>v. v < nv \<Longrightarrow> \<forall>n. \<not> dist_is E n v \<Longrightarrow> lev ! v = UNSEEN"
      using levels_final [OF vw lv(1) none] by blast+
    show ?thesis
      using final st' lv(1) w i(4) c2(1) base fl ls by (auto simp: bfs_done_def lev_ok_def)
  next
    case False
    then have st': "cont = True" "st' = \<lparr>bs_lev = lev, bs_frontier = nxt, bs_L = ?L + 1, bs_flags = bs_flags st @ [(pflag, 1)], bs_case = c2\<rparr>"
      using res by auto
    obtain v where "dist_is E (Suc ?L) v" using False lv(2) by (cases nxt) auto
    then have "Suc ?L < nv" using dist_bound dist_in [OF vw] by blast
    moreover have "map snd (bs_flags st @ [(pflag, 1)]) = replicate (Suc ?L) 1"
      using i(4) by (simp add: replicate_append_same)
    ultimately show ?thesis
      using st' lv False c2(1) base fl ls by (simp add: bfs_inv_def less_Suc_eq_le)
  qed
qed

lemma bfs_loop_correct:
  assumes vw: "bfs_view nv rowptr col E" and inv: "bfs_inv cfg nv E prp pcol plev lo c0 st"
    and run: "bfs_loop cfg nv rowptr col prp pcol plev fuel st = Inr st'"
  shows "bfs_done cfg nv E prp pcol plev lo c0 st'"
  using inv run
proof (induction fuel arbitrary: st)
  case (Suc fuel)
  then obtain cont st1 where r: "bfs_round cfg nv rowptr col prp pcol plev st = Inr (cont, st1)"
    and k: "(if cont then bfs_loop cfg nv rowptr col prp pcol plev fuel st1 else Inr st1) = Inr st'"
    by (auto simp: result_simps)
  show ?case using bfs_round_correct [OF vw Suc.prems(1) r] k Suc.IH [of st1] by (cases cont) auto
qed simp

lemma bfs_round_total:
  assumes "map_of (SLOTS cfg) ''bfs'' = Some slot"
  shows "\<exists>cont st'. bfs_round cfg nv rowptr col prp pcol plev st = Inr (cont, st')"
proof -
  obtain pflag c1 where "c_alloc 1 None (bs_case st) = Inr (pflag, c1)" using c_alloc_total [of 1 None "bs_case st"] by auto
  moreover obtain c2 where "launch_case cfg (''bfs'' @ str_nat (bs_L st)) ''bfs''
      [int prp, int pcol, int plev, int (bs_L st), int pflag] nv 0 c1 = Inr c2"
    using launch_case_total [OF assms] by blast
  ultimately show ?thesis by (auto simp: bfs_round_def Let_def split: prod.splits)
qed

text \<open>With as many rounds as there are vertices left the loop ends.\<close>

lemma bfs_loop_total:
  assumes vw: "bfs_view nv rowptr col E" and slot: "map_of (SLOTS cfg) ''bfs'' = Some slot"
    and inv: "bfs_inv cfg nv E prp pcol plev lo c0 st" and fuel: "nv \<le> bs_L st + fuel" "bs_L st < nv"
  shows "\<exists>st'. bfs_loop cfg nv rowptr col prp pcol plev fuel st = Inr st'"
  using inv fuel
proof (induction fuel arbitrary: st)
  case (Suc fuel)
  obtain cont st1 where r: "bfs_round cfg nv rowptr col prp pcol plev st = Inr (cont, st1)"
    using bfs_round_total [OF slot] by blast
  show ?case using bfs_round_correct [OF vw Suc.prems(1) r] r Suc.IH [of st1] Suc.prems(2) by (cases cont) auto
qed simp


section \<open>The case\<close>

lemma expect_flags_keep:
  "golden c p vs \<Longrightarrow> \<forall>(a, v) \<in> set flags. p + 4 * length vs \<le> a \<Longrightarrow>
     golden (fold (\<lambda>(a, v). expect a [v]) flags c) p vs"
  by (induction flags arbitrary: c) (auto intro: golden_keep)

lemma expect_flags_ok:
  "case_ok cfg c \<Longrightarrow> \<forall>(a, v) \<in> set flags. img_look (c_img c) a \<noteq> None \<Longrightarrow>
     case_ok cfg (fold (\<lambda>(a, v). expect a [v]) flags c) \<and> grows c (fold (\<lambda>(a, v). expect a [v]) flags c)"
proof (induction flags arbitrary: c)
  case (Cons f fs)
  obtain a v where f: "f = (a, v)" by (cases f)
  have "case_ok cfg (expect a [v] c)" by (rule expect_facts [OF Cons.prems(1)]) (use Cons.prems(2) f in auto)
  then have "case_ok cfg (fold (\<lambda>(a, v). expect a [v]) fs (expect a [v] c)) \<and>
      grows (expect a [v] c) (fold (\<lambda>(a, v). expect a [v]) fs (expect a [v] c))"
    by (rule Cons.IH) (use Cons.prems(2) in auto)
  then show ?case using grows_trans [OF grows_expect] by (auto simp: f)
qed (simp add: grows_refl)

lemma expect_flags_golden:
  "sorted_wrt (\<lambda>(a, _) (b, _). a + 4 \<le> b) flags \<Longrightarrow>
     \<forall>(a, v) \<in> set flags. golden (fold (\<lambda>(a, v). expect a [v]) flags c) a [v]"
proof (induction flags arbitrary: c)
  case (Cons f fs)
  obtain a v where f: "f = (a, v)" by (cases f)
  have "golden (fold (\<lambda>(a, v). expect a [v]) fs (expect a [v] c)) a [v]"
    by (rule expect_flags_keep [OF golden_expect]) (use Cons.prems f in auto)
  then show ?case using Cons by (auto simp: f)
qed simp

lemma bfs_case_correct:
  assumes ok: "case_ok cfg c" and vw: "bfs_view nv rowptr col E" and run: "bfs_case cfg nv rowptr col c = Inr c'"
  obtains prp pcol plev st where "bfs_done cfg nv E prp pcol plev 0 c st" "case_ok cfg c'"
    "holds (c_img c') prp (map int rowptr)" "holds (c_img c') pcol (map int col)" "golden c' plev (bs_lev st)"
    "\<forall>(a, v) \<in> set (bs_flags st). golden c' a [v]"
    "\<forall>i \<le> bs_L st. bfs_launch cfg nv prp pcol plev (bs_flags st) i c'"
proof -
  let ?level = "(replicate nv UNSEEN)[0 := 0]"
  have nv: "0 < nv" using vw by (simp add: bfs_view_def)
  obtain prp c1 pcol c2 plev c3 st where a1: "c_alloc (nv + 1) (Some (map int rowptr)) c = Inr (prp, c1)"
    and a2: "c_alloc (length col) (Some (map int col)) c1 = Inr (pcol, c2)"
    and a3: "c_alloc nv (Some ?level) c2 = Inr (plev, c3)"
    and lp: "bfs_loop cfg nv rowptr col prp pcol plev nv
         \<lparr>bs_lev = ?level, bs_frontier = [0], bs_L = 0, bs_flags = [], bs_case = c3\<rparr> = Inr st"
    and c': "c' = fold (\<lambda>(a, v). expect a [v]) (bs_flags st) (expect plev (bs_lev st) (bs_case st))"
    using run nv by (auto simp: bfs_case_def result_simps)
  note f1 = c_alloc_facts [OF ok a1]
  note f2 = c_alloc_facts [OF f1(1) a2]
  note f3 = c_alloc_facts [OF f2(1) a3]
  let ?lo = "plev + 4 * nv"
  have "lev_ok E nv 0 ?level" using nv by (auto simp: lev_ok_def dist_is_0 nth_list_update)
  then have "bfs_inv cfg nv E prp pcol plev ?lo c3
      \<lparr>bs_lev = ?level, bs_frontier = [0], bs_L = 0, bs_flags = [], bs_case = c3\<rparr>"
    using f3(1,10) by (simp add: bfs_inv_def dist_is_0 grows_refl flags_ok_def)
  then have dn: "bfs_done cfg nv E prp pcol plev ?lo c3 st" using lp by (rule bfs_loop_correct [OF vw])
  then have d: "length (bs_lev st) = nv" "case_ok cfg (bs_case st)" "grows c3 (bs_case st)"
    "flags_ok (bs_case st) ?lo (bs_flags st)" "\<And>i. i \<le> bs_L st \<Longrightarrow> bfs_launch cfg nv prp pcol plev (bs_flags st) i (bs_case st)"
    unfolding bfs_done_def by blast+
  have fl: "\<forall>(a, v) \<in> set (bs_flags st). ?lo \<le> a \<and> img_look (c_img (bs_case st)) a \<noteq> None"
    "sorted_wrt (\<lambda>(a, _) (b, _). a + 4 \<le> b) (bs_flags st)" using d(4) by (auto simp: flags_ok_def)
  let ?e = "expect plev (bs_lev st) (bs_case st)"
  have "holds (c_img (bs_case st)) plev ?level" using grows_holds [OF d(3) f3(3)] by simp
  then have oke: "case_ok cfg ?e"
    by (intro expect_facts [OF d(2)] holds_look [of _ _ ?level]) (simp_all add: d(1))
  have e: "case_ok cfg c'" "grows ?e c'" using expect_flags_ok [OF oke, of "bs_flags st"] fl(1) c' by auto
  have g: "grows (bs_case st) c'" by (rule grows_trans [OF grows_expect e(2)])
  have g2: "grows c2 c'" by (rule grows_trans [OF f3(2) grows_trans [OF d(3) g]])
  have g1: "grows c1 c'" by (rule grows_trans [OF f2(2) g2])
  have "golden c' plev (bs_lev st)"
    unfolding c' by (rule expect_flags_keep [OF golden_expect]) (use fl(1) d(1) in auto)
  moreover have "\<forall>(a, v) \<in> set (bs_flags st). golden c' a [v]" unfolding c' by (rule expect_flags_golden [OF fl(2)])
  moreover have "\<forall>i \<le> bs_L st. bfs_launch cfg nv prp pcol plev (bs_flags st) i c'"
    using d(5) grows_launched [OF g] by (simp add: bfs_launch_def)
  moreover have "holds (c_img c') prp (map int rowptr)" "holds (c_img c') pcol (map int col)"
    using grows_holds [OF g1 f1(3)] grows_holds [OF g2 f2(3)] by simp_all
  moreover have "bfs_done cfg nv E prp pcol plev 0 c st"
  proof -
    have "grows c (bs_case st)" by (rule grows_trans [OF f1(2) grows_trans [OF f2(2) grows_trans [OF f3(2) d(3)]]])
    moreover have "flags_ok (bs_case st) 0 (bs_flags st)" using d(4) by (auto simp: flags_ok_def)
    moreover have "c_gold (bs_case st) = c_gold c" using dn f1(4) f2(4) f3(4) by (simp add: bfs_done_def)
    ultimately show ?thesis using dn unfolding bfs_done_def by blast
  qed
  ultimately show thesis using e(1) by (intro that)
qed

lemma bfs_csr_view:
  assumes "graph_ok nv adj" "bfs_csr nv adj = (rowptr, col)" "0 < nv" "int nv < UNSEEN"
  shows "bfs_view nv rowptr col (edges adj)"
proof -
  have len: "length adj = nv" and nbr: "\<And>u v. u < nv \<Longrightarrow> v \<in> adj ! u \<Longrightarrow> v < nv"
    using assms(1) unfolding graph_ok_def by blast+
  have fin: "finite (adj ! v)" if "v < nv" for v
    by (rule finite_subset [of _ "{..<nv}"]) (use nbr [OF that] in auto)
  have "set (neighbours rowptr col v) = {u. (v, u) \<in> edges adj}" if v: "v < nv" for v
  proof -
    have "neighbours rowptr col v = sorted_list_of_set (adj ! v)" using bfs_csr_slices [OF assms(2)] v by blast
    then show ?thesis using fin [OF v] v by (simp add: edges_def len)
  qed
  moreover have "edges adj \<subseteq> {..<nv} \<times> {..<nv}" using nbr by (auto simp: edges_def len)
  ultimately show ?thesis using assms(3,4) by (simp add: bfs_view_def)
qed

lemma bfs_runs:
  assumes "map_of (SLOTS cfg) ''bfs'' \<noteq> None" "0 < nv" "int nv < UNSEEN"
  shows "\<exists>c g'. bfs cfg nv deg g = Inr (c, g')"
proof -
  obtain adj g1 where adj: "bfs_graph nv deg g = Inr (adj, g1)" using bfs_graph_total [OF assms(2)] by blast
  have gok: "graph_ok nv adj" using bfs_graph_ok [OF adj] by blast
  obtain rowptr col where csr: "bfs_csr nv adj = (rowptr, col)" by (cases "bfs_csr nv adj")
  have vw: "bfs_view nv rowptr col (edges adj)" by (rule bfs_csr_view [OF gok csr assms(2,3)])
  obtain slot where slot: "map_of (SLOTS cfg) ''bfs'' = Some slot" using assms(1) by blast
  let ?level = "(replicate nv UNSEEN)[0 := 0]"
  have "\<exists>c'. bfs_case cfg nv rowptr col (new_case nm) = Inr c'" for nm
  proof -
    obtain prp c1 where a1: "c_alloc (nv + 1) (Some (map int rowptr)) (new_case nm) = Inr (prp, c1)"
      using c_alloc_total [of "nv + 1" "Some (map int rowptr)" "new_case nm"] bfs_csr_slices [OF csr] by auto
    obtain pcol c2 where a2: "c_alloc (length col) (Some (map int col)) c1 = Inr (pcol, c2)"
      using c_alloc_total [of "length col" "Some (map int col)" c1] by auto
    obtain plev c3 where a3: "c_alloc nv (Some ?level) c2 = Inr (plev, c3)"
      using c_alloc_total [of nv "Some ?level" c2] by auto
    note f1 = c_alloc_facts [OF new_case_ok [of cfg] a1]
    note f2 = c_alloc_facts [OF f1(1) a2]
    note f3 = c_alloc_facts [OF f2(1) a3]
    have "lev_ok (edges adj) nv 0 ?level" using assms(2) by (auto simp: lev_ok_def dist_is_0 nth_list_update)
    then have inv: "bfs_inv cfg nv (edges adj) prp pcol plev (plev + 4 * nv) c3
        \<lparr>bs_lev = ?level, bs_frontier = [0], bs_L = 0, bs_flags = [], bs_case = c3\<rparr>"
      using f3(1,10) by (simp add: bfs_inv_def dist_is_0 grows_refl flags_ok_def)
    have "\<exists>st. bfs_loop cfg nv rowptr col prp pcol plev nv
        \<lparr>bs_lev = ?level, bs_frontier = [0], bs_L = 0, bs_flags = [], bs_case = c3\<rparr> = Inr st"
      by (rule bfs_loop_total [OF vw slot inv]) (use assms(2) in simp_all)
    then show ?thesis using a1 a2 a3 assms(2) by (auto simp: bfs_case_def)
  qed
  then obtain c' where "bfs_case cfg nv rowptr col (new_case (''bfs_'' @ str_nat nv @ ''x'' @ str_nat deg)) = Inr c'" by blast
  then have "bfs cfg nv deg g = Inr (c', g1)"
    using adj csr by (simp add: bfs_def Let_def bindG_def liftG_def)
  then show ?thesis by blast
qed

section \<open>Properties\<close>

text \<open>The random graph \<^verbatim>\<open>bfs\<close> builds is a simple undirected graph on its vertices and connected, for
  every random stream, and its compressed rows list each vertex's neighbours in ascending order.\<close>

theorem bfs_graph_connected:
  assumes "bfs_graph nv deg g = Inr (adj, g')" "bfs_csr nv adj = (rowptr, col)"
  shows "length adj = nv \<and> (\<forall>u < nv. \<forall>v \<in> adj ! u. v < nv \<and> v \<noteq> u \<and> u \<in> adj ! v) \<and>
    (\<forall>v < nv. (0, v) \<in> (edges adj)\<^sup>*) \<and>
    (\<forall>v < nv. neighbours rowptr col v = sorted_list_of_set (adj ! v)) \<and> rowptr ! nv = length col"
  using bfs_graph_ok [OF assms(1)] bfs_csr_slices [OF assms(2)] unfolding graph_ok_def tree_upto_def by blast

lemma bfs_graph_connected_witness:
  "\<exists>adj g'. bfs_graph 5 3 [0, 1, 2, 0, 4, 1] = Inr (adj, g') \<and> (0, 4) \<in> (edges adj)\<^sup>*"
proof -
  obtain adj g' where g: "bfs_graph 5 3 [0, 1, 2, 0, 4, 1] = Inr (adj, g')" 
    using bfs_graph_total [of 5 3 "[0, 1, 2, 0, 4, 1]"] by auto
  obtain rowptr col where c: "bfs_csr 5 adj = (rowptr, col)" by (cases "bfs_csr 5 adj")
  have "\<forall>v < 5. (0, v) \<in> (edges adj)\<^sup>*" using bfs_graph_connected [OF g c] by blast
  from this [rule_format, of 4] have "(0, 4) \<in> (edges adj)\<^sup>*" by simp
  then show ?thesis using g by blast
qed

text \<open>C36: The search ends and \<^verbatim>\<open>bfs\<close> returns a case for every graph size below the unseen mark, when its
  kernel is placed: the loop needs at most as many rounds as there are vertices.\<close>

theorem bfs_terminates:
  assumes "map_of (SLOTS cfg) ''bfs'' \<noteq> None" "0 < nv" "int nv < UNSEEN"
  shows "\<exists>c g'. bfs cfg nv deg g = Inr (c, g')"
  using assms by (rule bfs_runs)

lemma bfs_terminates_witness:
  "\<exists>c g'. bfs \<lparr>LANES = 8, WORDS = 2 ^ 20, SLOTS = [(''bfs'', 9)]\<rparr> 1024 6 [5, 3] = Inr (c, g')"
  by (rule bfs_terminates) (simp_all add: UNSEEN_def)

text \<open>C7: The case \<^verbatim>\<open>bfs\<close> returns is well formed, launches one kernel per level, and expects for every vertex
  its distance from vertex 0 in the graph (no vertex stays unseen) and in the flag word of every level
  whether it found new vertices: 1 for all levels but the last.\<close>

theorem bfs_case_spec:
  assumes "bfs cfg nv deg g = Inr (c, g')" "int nv < UNSEEN"
  shows "\<exists>adj rowptr col lev flags depth prp pcol plev. graph_ok nv adj \<and> bfs_csr nv adj = (rowptr, col) \<and>
    case_ok cfg c \<and> holds (c_img c) prp (map int rowptr) \<and> holds (c_img c) pcol (map int col) \<and>
    golden c plev lev \<and> length lev = nv \<and>
    (\<forall>v < nv. \<exists>n \<le> depth. dist_is (edges adj) n v \<and> lev ! v = int n) \<and>
    (\<exists>v < nv. dist_is (edges adj) depth v) \<and>
    map snd flags = replicate depth 1 @ [0] \<and> (\<forall>(a, v) \<in> set flags. golden c a [v]) \<and>
    (\<forall>i \<le> depth. launched cfg c (''bfs'' @ str_nat i) ''bfs''
       [int prp, int pcol, int plev, int i, int (fst (flags ! i))] nv 0)"
proof -
  obtain adj g1 c0 where adj: "bfs_graph nv deg g = Inr (adj, g1)"
    and c: "(let (rowptr, col) = bfs_csr nv adj in liftG (bfs_case cfg nv rowptr col (new_case c0))) g1 = Inr (c, g')"
    using assms(1) by (auto simp: bfs_def Let_def result_simps)
  obtain rowptr col where csr: "bfs_csr nv adj = (rowptr, col)" by (cases "bfs_csr nv adj")
  have run: "bfs_case cfg nv rowptr col (new_case c0) = Inr c" using c csr by (auto simp: result_simps)
  then have nv: "0 < nv" by (cases nv) (simp_all add: bfs_case_def)
  have gok: "graph_ok nv adj" "tree_upto nv adj" using bfs_graph_ok [OF adj] by auto
  have vw: "bfs_view nv rowptr col (edges adj)" by (rule bfs_csr_view [OF gok(1) csr nv assms(2)])
  obtain prp pcol plev st where d: "bfs_done cfg nv (edges adj) prp pcol plev 0 (new_case c0) st" and r: "case_ok cfg c"
    "holds (c_img c) prp (map int rowptr)" "holds (c_img c) pcol (map int col)" "golden c plev (bs_lev st)"
    "\<forall>(a, v) \<in> set (bs_flags st). golden c a [v]" "\<forall>i \<le> bs_L st. bfs_launch cfg nv prp pcol plev (bs_flags st) i c"
    by (rule bfs_case_correct [OF new_case_ok vw run])
  have dd: "length (bs_lev st) = nv" "\<And>n v. dist_is (edges adj) n v \<Longrightarrow> n \<le> bs_L st \<and> bs_lev st ! v = int n"
    "\<exists>v. dist_is (edges adj) (bs_L st) v" "map snd (bs_flags st) = replicate (bs_L st) 1 @ [0]"
    using d unfolding bfs_done_def by blast+
  have "\<exists>n \<le> bs_L st. dist_is (edges adj) n v \<and> bs_lev st ! v = int n" if "v < nv" for v
  proof -
    have "(0, v) \<in> (edges adj)\<^sup>*" using gok(2) that by (simp add: tree_upto_def)
    then obtain n where "(0, v) \<in> edges adj ^^ n" using rtrancl_power by blast
    then obtain m where "dist_is (edges adj) m v" using dist_least by blast
    then show ?thesis using dd(2) by blast
  qed
  moreover have "\<exists>v < nv. dist_is (edges adj) (bs_L st) v" using dd(3) dist_in [OF vw] by blast
  ultimately show ?thesis using gok(1) csr r dd(1,4) unfolding bfs_launch_def by blast
qed

lemma bfs_case_spec_witness:
  "\<exists>c g' plev lev. bfs \<lparr>LANES = 8, WORDS = 2 ^ 20, SLOTS = [(''bfs'', 9)]\<rparr> 6 4 [5, 3] = Inr (c, g') \<and>
     golden c plev lev \<and> (\<exists>n. lev ! 5 = int n)"
proof -
  let ?cfg = "\<lparr>LANES = 8, WORDS = 2 ^ 20, SLOTS = [(''bfs'', 9)]\<rparr>"
  obtain c g' where c: "bfs ?cfg 6 4 [5, 3] = Inr (c, g')" using bfs_runs [of ?cfg 6 4 "[5, 3]"] by (auto simp: UNSEEN_def)
  have "int 6 < UNSEEN" by (simp add: UNSEEN_def)
  from bfs_case_spec [OF c this] obtain plev lev where "golden c plev lev"
    and n: "\<forall>v < 6. \<exists>n. lev ! v = int n" by blast
  moreover have "\<exists>n. lev ! 5 = int n" by (rule n [rule_format]) simp
  ultimately show ?thesis using c by blast
qed

end
