(* ===== verification/Scan.thy ===== *)
theory Scan
  imports Gemm
begin

text \<open>
  The applications \<^verbatim>\<open>scan\<close> and \<^verbatim>\<open>scanseg\<close> of \<^verbatim>\<open>sim/gen_apps.py\<close>: prefix sums modulo
  \<open>2 ^ 32\<close>, with the recursive chain of launches that scans blocks, then block totals, then adds them back.
\<close>

section \<open>The operations\<close>

text \<open>\<^verbatim>\<open>for v in vals: acc = (acc + v) & 0xFFFF_FFFF; pre.append(acc)\<close>.\<close>

fun scan_prefix :: "int \<Rightarrow> int list \<Rightarrow> int list" where
  "scan_prefix acc [] = []"
| "scan_prefix acc (v # vs) = (let acc = (acc + v) AND 0xFFFFFFFF in acc # scan_prefix acc vs)"

text \<open>The words of the totals buffer: \<^verbatim>\<open>-(-nb // b) * b\<close>.\<close>

definition pad_up :: "nat \<Rightarrow> nat \<Rightarrow> nat" where
  "pad_up nb b = ceil_div nb b * b"

lemma pad_up_bounds: "0 < b \<Longrightarrow> nb \<le> pad_up nb b \<and> pad_up nb b < nb + b \<and> b dvd pad_up nb b"
proof -
  assume b: "0 < b"
  define k where "k = (- int nb) div int b"
  have m: "- int nb = int b * k + (- int nb) mod int b" "0 \<le> (- int nb) mod int b" "(- int nb) mod int b < int b"
    using b by (simp_all add: k_def)
  have "k \<le> 0" using b unfolding k_def by (simp add: div_nonpos_pos_le0)
  then have p: "int (pad_up nb b) = - (int b * k)" by (simp add: pad_up_def ceil_div_def k_def mult.commute)
  have "int nb \<le> int (pad_up nb b)" "int (pad_up nb b) < int (nb + b)" using m unfolding p by linarith+
  then show ?thesis by (simp only: of_nat_le_iff of_nat_less_iff) (simp add: pad_up_def)
qed

lemma pad_up_less:
  assumes "2 \<le> b" "1 < nb"
  shows "pad_up nb b < nb * b"
proof -
  obtain b' where b: "b = Suc b'" "1 \<le> b'" using assms(1) by (cases b) auto
  obtain n' where n: "nb = Suc n'" "1 \<le> n'" using assms(2) by (cases nb) auto
  have "1 * 1 \<le> n' * b'" using b n by (intro mult_le_mono) auto
  then have "nb + b \<le> nb * b" by (simp add: b n)
  moreover have "pad_up nb b < nb + b" using pad_up_bounds [of b nb] assms(1) by simp
  ultimately show ?thesis by linarith
qed

text \<open>The nested function \<^verbatim>\<open>level\<close> of \<^verbatim>\<open>scan\<close>; \<open>lvl\<close> is the launch counter.\<close>

function scan_level :: "config \<Rightarrow> nat \<Rightarrow> nat \<Rightarrow> nat \<Rightarrow> app_case \<Rightarrow> (nat \<times> nat \<times> app_case) result" where
  "scan_level cfg src m lvl c =
     (let b = 4 * LANES cfg
      in if b = 0 then Inl ZeroDivisionError
         else bindE (c_alloc m None c) (\<lambda>(out, c).
              let nb = m div b
              in bindE (c_alloc (pad_up nb b) None c) (\<lambda>(bs, c).
                 bindE (launch_case cfg (''scan'' @ str_nat lvl) ''scan'' [int src, int out, int bs] m 2 c) (\<lambda>c.
                 if nb > 1 then
                   bindE (scan_level cfg bs (pad_up nb b) (lvl + 1) c) (\<lambda>(bsc, lvl, c).
                   bindE (launch_case cfg (''add'' @ str_nat lvl) ''scan_add'' [int out, int bsc] m 0 c) (\<lambda>c.
                   Inr (out, lvl + 1, c)))
                 else Inr (out, lvl + 1, c)))))"
  by pat_completeness auto
termination
proof (relation "measure (\<lambda>(cfg, src, m, lvl, c). m)", goal_cases)
  case (2 cfg src m lvl c b x out c1 nb y bs c2 c3)
  have "nb * b \<le> m" by (simp add: 2)
  moreover have "pad_up nb b < nb * b" by (rule pad_up_less) (use 2 in auto)
  ultimately show ?case by simp
qed simp

declare scan_level.simps [simp del]

definition scan_case :: "config \<Rightarrow> nat \<Rightarrow> int list \<Rightarrow> app_case \<Rightarrow> app_case result" where
  "scan_case cfg n vals c =
     bindE (c_alloc n (Some vals) c) (\<lambda>(src, c).
     bindE (scan_level cfg src n 0 c) (\<lambda>(out, _, c).
     Inr (expect out (scan_prefix 0 vals) c)))"

definition scan_app :: "config \<Rightarrow> nat \<Rightarrow> app_case gen" where
  "scan_app cfg n =
     (let c = new_case (''scan_'' @ str_nat n); b = 4 * LANES cfg
      in bindG (liftG (bindE (py_mod n b) (\<lambda>r. assertE (r = 0)))) (\<lambda>_.
         bindG (repeatG n (randrange (2 ^ 16))) (\<lambda>vals.
         liftG (scan_case cfg n (map int vals) c))))"

text \<open>The rows a warp takes in \<^verbatim>\<open>scanseg\<close>: \<^verbatim>\<open>while m % (r * LANES): r //= 2\<close>.\<close>

function seg_rows :: "nat \<Rightarrow> nat \<Rightarrow> nat \<Rightarrow> nat result" where
  "seg_rows lanes m r =
     bindE (py_mod m (r * lanes)) (\<lambda>k. if k \<noteq> 0 then seg_rows lanes m (r div 2) else Inr r)"
  by pat_completeness auto
termination by (relation "measure (\<lambda>(lanes, m, r). r)") (auto simp: py_mod_Inr)

declare seg_rows.simps [simp del]

text \<open>
  The nested function \<^verbatim>\<open>level\<close> of \<^verbatim>\<open>scanseg\<close>; with one lane a level need not be smaller than the one
  before, so the recursion carries the depth Python allows it.
\<close>

fun seg_level :: "config \<Rightarrow> nat \<Rightarrow> nat \<Rightarrow> nat \<Rightarrow> nat \<Rightarrow> nat \<Rightarrow> app_case \<Rightarrow> (nat \<times> nat \<times> app_case) result" where
  "seg_level cfg rows 0 src m lvl c = Inl RecursionError"
| "seg_level cfg rows (Suc depth) src m lvl c =
     (let L = LANES cfg
      in bindE (py_div m L) (\<lambda>q.
         bindE (seg_rows L m (min rows q)) (\<lambda>r.
         let nseg = m div (r * L)
         in bindE (c_alloc m None c) (\<lambda>(out, c).
            bindE (c_alloc (pad_up nseg L) None c) (\<lambda>(tot, c).
            bindE (launch_case cfg (''seg'' @ str_nat lvl) ''scan_seg'' [int src, int out, int tot, int r] (L * nseg) 0 c) (\<lambda>c.
            if nseg > 1 then
              bindE (seg_level cfg rows depth tot (pad_up nseg L) (lvl + 1) c) (\<lambda>(tsc, lvl, c).
              bindE (launch_case cfg (''segadd'' @ str_nat lvl) ''scan_segadd'' [int out, int tsc, int r] (L * nseg) 0 c) (\<lambda>c.
              Inr (out, lvl + 1, c)))
            else Inr (out, lvl + 1, c)))))))"

declare seg_level.simps(2) [simp del]

definition scanseg_case :: "config \<Rightarrow> nat \<Rightarrow> nat \<Rightarrow> nat \<Rightarrow> int list \<Rightarrow> app_case \<Rightarrow> app_case result" where
  "scanseg_case cfg rows depth n vals c =
     bindE (c_alloc n (Some vals) c) (\<lambda>(src, c).
     bindE (seg_level cfg rows depth src n 0 c) (\<lambda>(out, _, c).
     Inr (expect out (scan_prefix 0 vals) c)))"

definition scanseg :: "config \<Rightarrow> nat \<Rightarrow> nat \<Rightarrow> nat \<Rightarrow> app_case gen" where
  "scanseg cfg rows depth n =
     (let c = new_case (''scanseg_'' @ str_nat n)
      in bindG (repeatG n (randrange (2 ^ 16))) (\<lambda>vals.
         liftG (scanseg_case cfg rows depth n (map int vals) c)))"

section \<open>Prefix sums\<close>

lemma scan_prefix_length [simp]: "length (scan_prefix acc vs) = length vs"
  by (induction vs arbitrary: acc) (simp_all add: Let_def)

lemma scan_prefix_nth:
  "i < length vs \<Longrightarrow> scan_prefix acc vs ! i = (acc + sum_list (take (Suc i) vs)) mod 2 ^ 32"
proof (induction vs arbitrary: acc i)
  case (Cons v vs)
  show ?case
  proof (cases i)
    case 0
    then show ?thesis by (simp add: word_mask Let_def)
  next
    case (Suc j)
    then have "scan_prefix acc (v # vs) ! i = ((acc + v) mod 2 ^ 32 + sum_list (take (Suc j) vs)) mod 2 ^ 32"
      using Cons by (simp only: scan_prefix.simps Let_def word_mask nth_Cons_Suc length_Cons Suc_less_eq)
    then show ?thesis by (simp add: Suc mod_add_left_eq add.assoc)
  qed
qed simp

lemma int_sum_list: "sum_list (map int xs) = int (sum_list xs)"
  by (induction xs) simp_all

lemma sum_list_bound: "\<forall>x \<in> set xs. 0 \<le> x \<and> x \<le> B \<Longrightarrow> 0 \<le> sum_list xs \<and> sum_list xs \<le> int (length xs) * B" for B :: int
  by (induction xs) (auto simp: algebra_simps)

section \<open>The schedule of a scan\<close>

text \<open>Launch \<open>l\<close> runs kernel \<open>krn\<close> on the given parameters.\<close>

definition runs :: "config \<Rightarrow> image \<Rightarrow> launch \<Rightarrow> string \<Rightarrow> string \<Rightarrow> int list \<Rightarrow> nat \<Rightarrow> nat \<Rightarrow> bool" where
  "runs cfg img l tag krn params threads blk \<longleftrightarrow>
     l_tag l = tag \<and> map_of (SLOTS cfg) krn = Some (l_slot l) \<and> holds img (l_param l) params \<and> l_threads l = threads \<and> l_blk l = blk"

lemma grows_runs: "grows c d \<Longrightarrow> runs cfg (c_img c) l tag krn ps n blk \<Longrightarrow> runs cfg (c_img d) l tag krn ps n blk"
  using grows_holds by (auto simp: runs_def)

lemma launch_case_runs:
  assumes "case_ok cfg c" "launch_case cfg tag krn params threads blk c = Inr c'"
  shows "\<exists>l. c_launches c' = c_launches c @ [l] \<and> runs cfg (c_img c') l tag krn params threads blk"
proof -
  obtain p d slot where al: "c_alloc (length params) (Some params) c = Inr (p, d)" and "map_of (SLOTS cfg) krn = Some slot"
    and "c' = d\<lparr>c_launches := c_launches d @ [\<lparr>l_tag = tag, l_slot = slot, l_param = p, l_threads = threads, l_blk = blk\<rparr>]\<rparr>"
    using assms(2) by (auto simp: launch_case_Inr)
  with c_alloc_facts(3,5) [OF assms(1) al] show ?thesis by (simp add: runs_def init_vals_def)
qed

text \<open>
  The launches of a scan of \<open>m\<close> words at \<open>src\<close> into \<open>out\<close>, in order: the blocks are scanned, with their totals in a zeroed
  buffer \<open>bs\<close> of as many words, rounded up to whole blocks; with more than one block the totals are then scanned in the same way,
  and last the scanned totals are added to the blocks. Tags count the launches.
\<close>

inductive scan_plan :: "config \<Rightarrow> image \<Rightarrow> nat \<Rightarrow> nat \<Rightarrow> nat \<Rightarrow> nat \<Rightarrow> launch list \<Rightarrow> bool" for cfg img where
  one_block: "b = 4 * LANES cfg \<Longrightarrow> m div b \<le> 1 \<Longrightarrow>
     runs cfg img l (''scan'' @ str_nat lvl) ''scan'' [int src, int out, int bs] m 2 \<Longrightarrow>
     holds img bs (replicate (pad_up (m div b) b) 0) \<Longrightarrow> scan_plan cfg img src m lvl out [l]"
| blocks: "b = 4 * LANES cfg \<Longrightarrow> 1 < m div b \<Longrightarrow>
     runs cfg img l (''scan'' @ str_nat lvl) ''scan'' [int src, int out, int bs] m 2 \<Longrightarrow>
     holds img bs (replicate (pad_up (m div b) b) 0) \<Longrightarrow>
     scan_plan cfg img bs (pad_up (m div b) b) (lvl + 1) bsc ls \<Longrightarrow>
     runs cfg img l' (''add'' @ str_nat (lvl + 1 + length ls)) ''scan_add'' [int out, int bsc] m 0 \<Longrightarrow>
     scan_plan cfg img src m lvl out (l # ls @ [l'])"

lemma grows_scan_plan: "scan_plan cfg img src m lvl out ls \<Longrightarrow> img = c_img c \<Longrightarrow> grows c d \<Longrightarrow> scan_plan cfg (c_img d) src m lvl out ls"
proof (induction rule: scan_plan.induct)
  case (one_block b m l lvl src out bs)
  then show ?case using grows_runs grows_holds by (intro scan_plan.one_block) auto
next
  case (blocks b m l lvl src out bs bsc ls l')
  then show ?case using grows_runs grows_holds by (intro scan_plan.blocks) auto
qed

section \<open>The levels\<close>

lemma scan_level_plan:
  "scan_level cfg src m lvl c = Inr (out, lvl', c') \<Longrightarrow> case_ok cfg c \<Longrightarrow>
     case_ok cfg c' \<and> grows c c' \<and>
     (\<exists>ls. c_launches c' = c_launches c @ ls \<and> lvl' = lvl + length ls \<and> scan_plan cfg (c_img c') src m lvl out ls)"
proof (induction cfg src m lvl c arbitrary: out lvl' c' rule: scan_level.induct)
  case (1 cfg src m lvl c)
  let ?b = "4 * LANES cfg"
  let ?nb = "m div ?b"
  have b: "0 < ?b" using "1.prems"(1) by (cases "LANES cfg") (simp_all add: scan_level.simps)
  obtain c1 bs c2 c3 where a1: "c_alloc m None c = Inr (out, c1)" and a2: "c_alloc (pad_up ?nb ?b) None c1 = Inr (bs, c2)"
    and la: "launch_case cfg (''scan'' @ str_nat lvl) ''scan'' [int src, int out, int bs] m 2 c2 = Inr c3"
    and rest: "if ?nb > 1 then
        \<exists>bsc k c4. scan_level cfg bs (pad_up ?nb ?b) (lvl + 1) c3 = Inr (bsc, k, c4) \<and>
          launch_case cfg (''add'' @ str_nat k) ''scan_add'' [int out, int bsc] m 0 c4 = Inr c' \<and> lvl' = k + 1
      else c' = c3 \<and> lvl' = lvl + 1"
    using "1.prems"(1) b by (auto simp: scan_level.simps [of cfg src m lvl c] Let_def result_simps split: if_splits)
  note f1 = c_alloc_facts [OF "1.prems"(2) a1]
  note f2 = c_alloc_facts [OF f1(1) a2]
  have c3: "case_ok cfg c3" "grows c2 c3" using launch_case_facts [OF f2(1) la] by simp_all
  obtain l where l: "c_launches c3 = c_launches c @ [l]" "runs cfg (c_img c3) l (''scan'' @ str_nat lvl) ''scan'' [int src, int out, int bs] m 2"
    using launch_case_runs [OF f2(1) la] f1(5) f2(5) by auto
  have h: "holds (c_img c3) bs (replicate (pad_up ?nb ?b) 0)" using grows_holds [OF c3(2) f2(3)] by simp
  have g: "grows c c3" using grows_trans [OF f1(2) grows_trans [OF f2(2) c3(2)]] .
  show ?case
  proof (cases "?nb > 1")
    case False
    then have "c' = c3" "lvl' = lvl + 1" using rest by simp_all
    then show ?thesis using c3(1) g l False scan_plan.one_block [OF refl _ l(2) h] by auto
  next
    case True
    then obtain bsc k c4 where r: "scan_level cfg bs (pad_up ?nb ?b) (lvl + 1) c3 = Inr (bsc, k, c4)"
      and a: "launch_case cfg (''add'' @ str_nat k) ''scan_add'' [int out, int bsc] m 0 c4 = Inr c'" and lvl': "lvl' = k + 1"
      using rest by auto
    have "case_ok cfg c4 \<and> grows c3 c4 \<and>
      (\<exists>ls. c_launches c4 = c_launches c3 @ ls \<and> k = lvl + 1 + length ls \<and> scan_plan cfg (c_img c4) bs (pad_up ?nb ?b) (lvl + 1) bsc ls)"
      by (rule "1.IH" [of ?b "(out, c1)" out c1 ?nb "(bs, c2)" bs c2 c3]) (use b a1 a2 la True r c3(1) in simp_all)
    then obtain ls where IH: "case_ok cfg c4" "grows c3 c4" "c_launches c4 = c_launches c3 @ ls" "k = lvl + 1 + length ls"
      "scan_plan cfg (c_img c4) bs (pad_up ?nb ?b) (lvl + 1) bsc ls" by blast
    have c': "case_ok cfg c'" "grows c4 c'" by (rule launch_case_facts [OF IH(1) a]; simp)+
    obtain l' where l': "c_launches c' = c_launches c4 @ [l']" "runs cfg (c_img c') l' (''add'' @ str_nat k) ''scan_add'' [int out, int bsc] m 0"
      using launch_case_runs [OF IH(1) a] by blast
    have g': "grows c3 c'" by (rule grows_trans [OF IH(2) c'(2)])
    have "scan_plan cfg (c_img c') src m lvl out (l # ls @ [l'])"
      by (rule scan_plan.blocks [OF refl True grows_runs [OF g' l(2)] grows_holds [OF g' h] grows_scan_plan [OF IH(5) refl c'(2)]])
        (use l'(2) IH(4) in simp)
    then show ?thesis using c'(1) grows_trans [OF g g'] l(1) IH(3,4) l'(1) lvl'
      by (intro conjI exI [of _ "l # ls @ [l']"]) simp_all
  qed
qed

lemma scan_level_correct:
  "scan_level cfg src m lvl c = Inr (out, lvl', c') \<Longrightarrow> case_ok cfg c \<Longrightarrow>
     case_ok cfg c' \<and> grows c c' \<and> c_gold c' = c_gold c \<and> holds (c_img c') out (replicate m 0) \<and>
     (\<exists>bs. launched cfg c' (''scan'' @ str_nat lvl) ''scan'' [int src, int out, int bs] m 2 \<and>
        holds (c_img c') bs (replicate (pad_up (m div (4 * LANES cfg)) (4 * LANES cfg)) 0)) \<and>
     (1 < m div (4 * LANES cfg) \<longrightarrow> (\<exists>bsc k. launched cfg c' (''add'' @ str_nat k) ''scan_add'' [int out, int bsc] m 0))"
proof (induction cfg src m lvl c arbitrary: out lvl' c' rule: scan_level.induct)
  case (1 cfg src m lvl c)
  let ?b = "4 * LANES cfg"
  let ?nb = "m div ?b"
  have b: "0 < ?b" using "1.prems"(1) by (cases "LANES cfg") (simp_all add: scan_level.simps)
  obtain c1 bs c2 c3 where a1: "c_alloc m None c = Inr (out, c1)" and a2: "c_alloc (pad_up ?nb ?b) None c1 = Inr (bs, c2)"
    and la: "launch_case cfg (''scan'' @ str_nat lvl) ''scan'' [int src, int out, int bs] m 2 c2 = Inr c3"
    and rest: "if ?nb > 1 then
        \<exists>bsc k c4. scan_level cfg bs (pad_up ?nb ?b) (lvl + 1) c3 = Inr (bsc, k, c4) \<and>
          launch_case cfg (''add'' @ str_nat k) ''scan_add'' [int out, int bsc] m 0 c4 = Inr c'
      else c' = c3"
    using "1.prems"(1) b by (auto simp: scan_level.simps [of cfg src m lvl c] Let_def result_simps split: if_splits)
  note f1 = c_alloc_facts [OF "1.prems"(2) a1]
  note f2 = c_alloc_facts [OF f1(1) a2]
  have f3: "case_ok cfg c3" "grows c2 c3" "c_gold c3 = c_gold c2"
    "launched cfg c3 (''scan'' @ str_nat lvl) ''scan'' [int src, int out, int bs] m 2"
    using launch_case_facts [OF f2(1) la] by simp_all
  have g: "grows c1 c3" "grows c c3" using grows_trans [OF f2(2) f3(2)] grows_trans [OF f1(2)] by blast+
  have c3: "case_ok cfg c' \<and> grows c3 c' \<and> c_gold c' = c_gold c3 \<and>
      (1 < ?nb \<longrightarrow> (\<exists>bsc k. launched cfg c' (''add'' @ str_nat k) ''scan_add'' [int out, int bsc] m 0))"
  proof (cases "?nb > 1")
    case True
    then obtain bsc k c4 where r: "scan_level cfg bs (pad_up ?nb ?b) (lvl + 1) c3 = Inr (bsc, k, c4)"
      and l: "launch_case cfg (''add'' @ str_nat k) ''scan_add'' [int out, int bsc] m 0 c4 = Inr c'"
      using rest by auto
    have IH: "case_ok cfg c4" "grows c3 c4" "c_gold c4 = c_gold c3"
      using "1.IH" [of ?b _ out c1 ?nb _ bs c2 c3] b a1 a2 la True r f3(1) by auto
    note f = launch_case_facts [OF IH(1) l]
    have "case_ok cfg c'" "grows c4 c'" "c_gold c' = c_gold c4"
      "launched cfg c' (''add'' @ str_nat k) ''scan_add'' [int out, int bsc] m 0" by (rule f; simp)+
    then show ?thesis using grows_trans [OF IH(2)] IH(3) by auto
  next
    case False
    then show ?thesis using rest f3(1) grows_refl by auto
  qed
  have "holds (c_img c') out (replicate m 0)" "holds (c_img c') bs (replicate (pad_up ?nb ?b) 0)"
    using grows_holds [OF grows_trans [OF g(1) conjunct1 [OF conjunct2 [OF c3]]] f1(3)]
      grows_holds [OF grows_trans [OF f3(2) conjunct1 [OF conjunct2 [OF c3]]] f2(3)] by simp_all
  moreover have "launched cfg c' (''scan'' @ str_nat lvl) ''scan'' [int src, int out, int bs] m 2"
    using c3 grows_launched f3(4) by blast
  ultimately show ?case using c3 grows_trans [OF g(2)] f1(4) f2(4) f3(3) by auto
qed

lemma scan_level_total:
  "map_of (SLOTS cfg) ''scan'' = Some s \<Longrightarrow> map_of (SLOTS cfg) ''scan_add'' = Some s' \<Longrightarrow> LANES cfg \<noteq> 0 \<Longrightarrow>
     \<exists>r. scan_level cfg src m lvl c = Inr r"
proof (induction cfg src m lvl c rule: scan_level.induct)
  case (1 cfg src m lvl c)
  let ?b = "4 * LANES cfg"
  let ?nb = "m div ?b"
  obtain out c1 where a1: "c_alloc m None c = Inr (out, c1)" using c_alloc_total [of m None c] by auto
  obtain bs c2 where a2: "c_alloc (pad_up ?nb ?b) None c1 = Inr (bs, c2)" using c_alloc_total [of "pad_up ?nb ?b" None c1] by auto
  obtain c3 where la: "launch_case cfg (''scan'' @ str_nat lvl) ''scan'' [int src, int out, int bs] m 2 c2 = Inr c3"
    using launch_case_total [OF "1.prems"(1)] by blast
  show ?case
  proof (cases "?nb > 1")
    case True
    then have "\<exists>r. scan_level cfg bs (pad_up ?nb ?b) (lvl + 1) c3 = Inr r"
      using "1.IH" [of ?b "(out, c1)" out c1 ?nb "(bs, c2)" bs c2 c3] "1.prems" a1 a2 la by simp
    then obtain bsc k c4 where r: "scan_level cfg bs (pad_up ?nb ?b) (lvl + 1) c3 = Inr (bsc, k, c4)" by auto
    obtain c5 where "launch_case cfg (''add'' @ str_nat k) ''scan_add'' [int out, int bsc] m 0 c4 = Inr c5"
      using launch_case_total [OF "1.prems"(2)] by blast
    then show ?thesis using a1 a2 la r True "1.prems"(3) by (simp add: scan_level.simps [of cfg src m lvl c] Let_def)
  next
    case False
    then show ?thesis using a1 a2 la "1.prems"(3) by (simp add: scan_level.simps [of cfg src m lvl c] Let_def)
  qed
qed


section \<open>Segments\<close>

lemma seg_rows_correct: "seg_rows lanes m r = Inr q \<Longrightarrow> 0 < q \<and> q \<le> r \<and> q * lanes dvd m \<and> 0 < lanes"
proof (induction lanes m r rule: seg_rows.induct)
  case (1 lanes m r)
  show ?case
  proof (cases "m mod (r * lanes) = 0")
    case True
    then show ?thesis using "1.prems" by (subst (asm) seg_rows.simps) (auto simp: py_mod_def split: if_splits)
  next
    case False
    then have "py_mod m (r * lanes) = Inr (m mod (r * lanes))" "seg_rows lanes m (r div 2) = Inr q"
      using "1.prems" by (subst (asm) seg_rows.simps, auto simp: py_mod_def split: if_splits)+
    then have "0 < q \<and> q \<le> r div 2 \<and> q * lanes dvd m \<and> 0 < lanes" using "1.IH" False by blast
    then show ?thesis by auto
  qed
qed

lemma seg_rows_total: "0 < lanes \<Longrightarrow> lanes dvd m \<Longrightarrow> 0 < r \<Longrightarrow> \<exists>q. seg_rows lanes m r = Inr q"
proof (induction lanes m r rule: seg_rows.induct)
  case (1 lanes m r)
  show ?case
  proof (cases "m mod (r * lanes) = 0")
    case True
    then show ?thesis using "1.prems" by (simp add: seg_rows.simps [of lanes m r] py_mod_def)
  next
    case False
    have "r \<noteq> 1" using False "1.prems"(2) by auto
    then have "0 < r div 2" using "1.prems"(3) by simp
    moreover have "py_mod m (r * lanes) = Inr (m mod (r * lanes))" using "1.prems" by (simp add: py_mod_def)
    ultimately have "\<exists>q. seg_rows lanes m (r div 2) = Inr q" using "1.IH" "1.prems" False by blast
    then show ?thesis using False "1.prems" by (simp add: seg_rows.simps [of lanes m r] py_mod_def)
  qed
qed

text \<open>
  The launches of a segmented scan, in order: every warp scans \<open>r\<close> rows of one word per lane, where \<open>r\<close> is found by halving the
  rows allowed until the segments cover the words exactly; the totals of the segments, padded with zeros to whole rows, are scanned in the
  same way when there is more than one, and last added to the segments.
\<close>

definition halved :: "nat \<Rightarrow> nat \<Rightarrow> nat \<Rightarrow> nat \<Rightarrow> bool" where
  "halved lanes m r0 r \<longleftrightarrow> 0 < r \<and> r \<le> r0 \<and> r * lanes dvd m \<and> (\<exists>k. r = r0 div 2 ^ k \<and> (\<forall>j < k. \<not> (r0 div 2 ^ j) * lanes dvd m))"

inductive seg_plan :: "config \<Rightarrow> image \<Rightarrow> nat \<Rightarrow> nat \<Rightarrow> nat \<Rightarrow> nat \<Rightarrow> nat \<Rightarrow> launch list \<Rightarrow> bool" for cfg img rows where
  one_segment: "L = LANES cfg \<Longrightarrow> halved L m (min rows (m div L)) r \<Longrightarrow> m div (r * L) \<le> 1 \<Longrightarrow>
     runs cfg img l (''seg'' @ str_nat lvl) ''scan_seg'' [int src, int out, int tot, int r] (m div r) 0 \<Longrightarrow>
     holds img tot (replicate (pad_up (m div (r * L)) L) 0) \<Longrightarrow> seg_plan cfg img rows src m lvl out [l]"
| segments: "L = LANES cfg \<Longrightarrow> halved L m (min rows (m div L)) r \<Longrightarrow> 1 < m div (r * L) \<Longrightarrow>
     runs cfg img l (''seg'' @ str_nat lvl) ''scan_seg'' [int src, int out, int tot, int r] (m div r) 0 \<Longrightarrow>
     holds img tot (replicate (pad_up (m div (r * L)) L) 0) \<Longrightarrow>
     seg_plan cfg img rows tot (pad_up (m div (r * L)) L) (lvl + 1) tsc ls \<Longrightarrow>
     runs cfg img l' (''segadd'' @ str_nat (lvl + 1 + length ls)) ''scan_segadd'' [int out, int tsc, int r] (m div r) 0 \<Longrightarrow>
     seg_plan cfg img rows src m lvl out (l # ls @ [l'])"

lemma grows_seg_plan:
  "seg_plan cfg img rows src m lvl out ls \<Longrightarrow> img = c_img c \<Longrightarrow> grows c d \<Longrightarrow> seg_plan cfg (c_img d) rows src m lvl out ls"
proof (induction rule: seg_plan.induct)
  case (one_segment L m r l lvl src out tot)
  then show ?case using grows_runs grows_holds by (intro seg_plan.one_segment) auto
next
  case (segments L m r l lvl src out tot tsc ls l')
  then show ?case using grows_runs grows_holds by (intro seg_plan.segments) auto
qed

lemma seg_rows_halved: "seg_rows lanes m r0 = Inr r \<Longrightarrow> halved lanes m r0 r"
proof (induction lanes m r0 rule: seg_rows.induct)
  case (1 lanes m r0)
  have p: "0 < r" "r \<le> r0" "r * lanes dvd m" using seg_rows_correct [OF "1.prems"] by auto
  show ?case
  proof (cases "r0 * lanes dvd m")
    case True
    then have "r = r0" using "1.prems" by (subst (asm) seg_rows.simps) (auto simp: py_mod_def split: if_splits)
    then show ?thesis using p by (auto simp: halved_def intro!: exI [of _ 0])
  next
    case False
    then have "py_mod m (r0 * lanes) = Inr (m mod (r0 * lanes))" "m mod (r0 * lanes) \<noteq> 0" "seg_rows lanes m (r0 div 2) = Inr r"
      using "1.prems" by (subst (asm) seg_rows.simps, auto simp: py_mod_def dvd_eq_mod_eq_0 split: if_splits)+
    then obtain k where k: "r = r0 div 2 div 2 ^ k" "\<forall>j < k. \<not> (r0 div 2 div 2 ^ j) * lanes dvd m"
      using "1.IH" unfolding halved_def by blast
    have "\<not> (r0 div 2 ^ j) * lanes dvd m" if "j < Suc k" for j
      using that k(2) False by (cases j) (auto simp: div_mult2_eq)
    then show ?thesis using p k(1) unfolding halved_def by (intro conjI exI [of _ "Suc k"]) (simp_all add: div_mult2_eq)
  qed
qed

lemma whole_rows: "0 < r \<Longrightarrow> L \<noteq> 0 \<Longrightarrow> r * L dvd m \<Longrightarrow> L * (m div (r * L)) = m div r" for m :: nat
  by (auto elim!: dvdE simp: mult.assoc)

lemma seg_level_plan:
  "seg_level cfg rows depth src m lvl c = Inr (out, lvl', c') \<Longrightarrow> case_ok cfg c \<Longrightarrow>
     case_ok cfg c' \<and> grows c c' \<and>
     (\<exists>ls. c_launches c' = c_launches c @ ls \<and> lvl' = lvl + length ls \<and> seg_plan cfg (c_img c') rows src m lvl out ls)"
proof (induction depth arbitrary: src m lvl c out lvl' c')
  case (Suc depth)
  let ?L = "LANES cfg"
  obtain r c1 tot c2 c3 where q: "?L \<noteq> 0" and sr: "seg_rows ?L m (min rows (m div ?L)) = Inr r"
    and a1: "c_alloc m None c = Inr (out, c1)" and a2: "c_alloc (pad_up (m div (r * ?L)) ?L) None c1 = Inr (tot, c2)"
    and la: "launch_case cfg (''seg'' @ str_nat lvl) ''scan_seg'' [int src, int out, int tot, int r] (?L * (m div (r * ?L))) 0 c2 = Inr c3"
    and rest: "if m div (r * ?L) > 1 then
        \<exists>tsc k c4. seg_level cfg rows depth tot (pad_up (m div (r * ?L)) ?L) (lvl + 1) c3 = Inr (tsc, k, c4) \<and>
          launch_case cfg (''segadd'' @ str_nat k) ''scan_segadd'' [int out, int tsc, int r] (?L * (m div (r * ?L))) 0 c4 = Inr c' \<and> lvl' = k + 1
      else c' = c3 \<and> lvl' = lvl + 1"
    using Suc.prems(1) by (auto simp: seg_level.simps(2) Let_def result_simps split: if_splits)
  have hv: "halved ?L m (min rows (m div ?L)) r" by (rule seg_rows_halved [OF sr])
  have e: "?L * (m div (r * ?L)) = m div r" using hv q by (intro whole_rows) (auto simp: halved_def)
  note f1 = c_alloc_facts [OF Suc.prems(2) a1]
  note f2 = c_alloc_facts [OF f1(1) a2]
  have c3: "case_ok cfg c3" "grows c2 c3" using launch_case_facts [OF f2(1) la] by simp_all
  obtain l where l: "c_launches c3 = c_launches c @ [l]"
    "runs cfg (c_img c3) l (''seg'' @ str_nat lvl) ''scan_seg'' [int src, int out, int tot, int r] (m div r) 0"
    using launch_case_runs [OF f2(1) la] f1(5) f2(5) unfolding e by auto
  have h: "holds (c_img c3) tot (replicate (pad_up (m div (r * ?L)) ?L) 0)" using grows_holds [OF c3(2) f2(3)] by simp
  have g: "grows c c3" using grows_trans [OF f1(2) grows_trans [OF f2(2) c3(2)]] .
  show ?case
  proof (cases "m div (r * ?L) > 1")
    case False
    then have "c' = c3" "lvl' = lvl + 1" using rest by simp_all
    then show ?thesis using c3(1) g l False seg_plan.one_segment [OF refl hv _ l(2) h] by auto
  next
    case True
    then obtain tsc k c4 where s: "seg_level cfg rows depth tot (pad_up (m div (r * ?L)) ?L) (lvl + 1) c3 = Inr (tsc, k, c4)"
      and a: "launch_case cfg (''segadd'' @ str_nat k) ''scan_segadd'' [int out, int tsc, int r] (m div r) 0 c4 = Inr c'" and lvl': "lvl' = k + 1"
      using rest unfolding e by auto
    obtain ls where IH: "case_ok cfg c4" "grows c3 c4" "c_launches c4 = c_launches c3 @ ls" "k = lvl + 1 + length ls"
      "seg_plan cfg (c_img c4) rows tot (pad_up (m div (r * ?L)) ?L) (lvl + 1) tsc ls"
      using Suc.IH [OF s c3(1)] by auto
    have c': "case_ok cfg c'" "grows c4 c'" by (rule launch_case_facts [OF IH(1) a]; simp)+
    obtain l' where l': "c_launches c' = c_launches c4 @ [l']"
      "runs cfg (c_img c') l' (''segadd'' @ str_nat k) ''scan_segadd'' [int out, int tsc, int r] (m div r) 0"
      using launch_case_runs [OF IH(1) a] by blast
    have g': "grows c3 c'" by (rule grows_trans [OF IH(2) c'(2)])
    have "seg_plan cfg (c_img c') rows src m lvl out (l # ls @ [l'])"
      by (rule seg_plan.segments [OF refl hv True grows_runs [OF g' l(2)] grows_holds [OF g' h] grows_seg_plan [OF IH(5) refl c'(2)]])
        (use l'(2) IH(4) in simp)
    then show ?thesis using c'(1) grows_trans [OF g g'] l(1) IH(3,4) l'(1) lvl'
      by (intro conjI exI [of _ "l # ls @ [l']"]) simp_all
  qed
qed simp

lemma seg_level_correct:
  "seg_level cfg rows depth src m lvl c = Inr (out, lvl', c') \<Longrightarrow> case_ok cfg c \<Longrightarrow>
     case_ok cfg c' \<and> grows c c' \<and> c_gold c' = c_gold c \<and> holds (c_img c') out (replicate m 0) \<and>
     (\<exists>r tot. 0 < r \<and> r \<le> rows \<and> r * LANES cfg dvd m \<and>
        launched cfg c' (''seg'' @ str_nat lvl) ''scan_seg'' [int src, int out, int tot, int r] (m div r) 0)"
proof (induction depth arbitrary: src m lvl c out lvl' c')
  case (Suc depth)
  let ?L = "LANES cfg"
  obtain r c1 tot c2 c3 where q: "?L \<noteq> 0" and sr: "seg_rows ?L m (min rows (m div ?L)) = Inr r"
    and a1: "c_alloc m None c = Inr (out, c1)" and a2: "c_alloc (pad_up (m div (r * ?L)) ?L) None c1 = Inr (tot, c2)"
    and la: "launch_case cfg (''seg'' @ str_nat lvl) ''scan_seg'' [int src, int out, int tot, int r] (?L * (m div (r * ?L))) 0 c2 = Inr c3"
    and rest: "if m div (r * ?L) > 1 then
        \<exists>tsc k c4. seg_level cfg rows depth tot (pad_up (m div (r * ?L)) ?L) (lvl + 1) c3 = Inr (tsc, k, c4) \<and>
          launch_case cfg (''segadd'' @ str_nat k) ''scan_segadd'' [int out, int tsc, int r] (?L * (m div (r * ?L))) 0 c4 = Inr c'
      else c' = c3"
    using Suc.prems(1) by (auto simp: seg_level.simps(2) Let_def result_simps split: if_splits)
  note f1 = c_alloc_facts [OF Suc.prems(2) a1]
  note f2 = c_alloc_facts [OF f1(1) a2]
  have f3: "case_ok cfg c3" "grows c2 c3" "c_gold c3 = c_gold c2"
    "launched cfg c3 (''seg'' @ str_nat lvl) ''scan_seg'' [int src, int out, int tot, int r] (?L * (m div (r * ?L))) 0"
    using launch_case_facts [OF f2(1) la] by simp_all
  have g: "grows c1 c3" "grows c c3" using grows_trans [OF f2(2) f3(2)] grows_trans [OF f1(2)] by blast+
  have c3: "case_ok cfg c' \<and> grows c3 c' \<and> c_gold c' = c_gold c3"
  proof (cases "m div (r * ?L) > 1")
    case True
    then obtain tsc k c4 where s: "seg_level cfg rows depth tot (pad_up (m div (r * ?L)) ?L) (lvl + 1) c3 = Inr (tsc, k, c4)"
      and l: "launch_case cfg (''segadd'' @ str_nat k) ''scan_segadd'' [int out, int tsc, int r] (?L * (m div (r * ?L))) 0 c4 = Inr c'"
      using rest by auto
    have IH: "case_ok cfg c4" "grows c3 c4" "c_gold c4 = c_gold c3" using Suc.IH [OF s f3(1)] by auto
    note f = launch_case_facts [OF IH(1) l]
    have "case_ok cfg c'" "grows c4 c'" "c_gold c' = c_gold c4" by (rule f; simp)+
    then show ?thesis using grows_trans [OF IH(2)] IH(3) by auto
  next
    case False
    then show ?thesis using rest f3(1) grows_refl by auto
  qed
  have r: "0 < r" "r \<le> rows" "r * ?L dvd m" using seg_rows_correct [OF sr] by auto
  obtain k where m: "m = r * ?L * k" using r(3) by blast
  have "m div (r * ?L) = k" using r(1) q m by simp
  moreover have "m div r = ?L * k" using r(1) m by (simp add: mult.assoc)
  ultimately have e: "?L * (m div (r * ?L)) = m div r" by simp
  have "grows c3 c'" using c3 by blast
  from grows_launched [OF this f3(4)]
  have "launched cfg c' (''seg'' @ str_nat lvl) ''scan_seg'' [int src, int out, int tot, int r] (m div r) 0"
    unfolding e .
  moreover have "holds (c_img c') out (replicate m 0)"
    using grows_holds [OF grows_trans [OF g(1) conjunct1 [OF conjunct2 [OF c3]]] f1(3)] by simp
  ultimately show ?case using c3 grows_trans [OF g(2)] f1(4) f2(4) f3(3) r by auto
qed simp

lemma seg_level_total:
  assumes "map_of (SLOTS cfg) ''scan_seg'' = Some s" "map_of (SLOTS cfg) ''scan_segadd'' = Some s'" "2 \<le> LANES cfg" "0 < rows"
  shows "LANES cfg dvd m \<Longrightarrow> 0 < m \<Longrightarrow> m < depth \<Longrightarrow> \<exists>r. seg_level cfg rows depth src m lvl c = Inr r"
proof (induction depth arbitrary: src m lvl c)
  case (Suc depth)
  let ?L = "LANES cfg"
  have L: "0 < ?L" using assms(3) by simp
  have "0 < m div ?L" using Suc.prems(1,2) L by (auto simp: div_greater_zero_iff dest: dvd_imp_le)
  then obtain r where sr: "seg_rows ?L m (min rows (m div ?L)) = Inr r"
    using seg_rows_total [OF L Suc.prems(1), of "min rows (m div ?L)"] assms(4) by auto
  have r: "0 < r" "r * ?L dvd m" using seg_rows_correct [OF sr] by auto
  let ?n = "m div (r * ?L)"
  obtain out c1 where a1: "c_alloc m None c = Inr (out, c1)" using c_alloc_total [of m None c] by auto
  obtain tot c2 where a2: "c_alloc (pad_up ?n ?L) None c1 = Inr (tot, c2)" using c_alloc_total [of "pad_up ?n ?L" None c1] by auto
  obtain c3 where la: "launch_case cfg (''seg'' @ str_nat lvl) ''scan_seg'' [int src, int out, int tot, int r] (?L * ?n) 0 c2 = Inr c3"
    using launch_case_total [OF assms(1)] by blast
  have d: "py_div m ?L = Inr (m div ?L)" using L by (simp add: py_div_def)
  show ?case
  proof (cases "?n > 1")
    case True
    have "pad_up ?n ?L < ?n * ?L" by (rule pad_up_less [OF assms(3) True])
    also have "\<dots> \<le> ?n * (r * ?L)" using r(1) by simp
    also have "\<dots> = m" using r(2) by simp
    finally have "pad_up ?n ?L < depth" using Suc.prems(3) by simp
    moreover have "?L dvd pad_up ?n ?L" "0 < pad_up ?n ?L" using pad_up_bounds [OF L, of ?n] True by auto
    ultimately have "\<exists>x. seg_level cfg rows depth tot (pad_up ?n ?L) (lvl + 1) c3 = Inr x" using Suc.IH by blast
    then obtain tsc k c4 where s: "seg_level cfg rows depth tot (pad_up ?n ?L) (lvl + 1) c3 = Inr (tsc, k, c4)" by auto
    obtain c5 where "launch_case cfg (''segadd'' @ str_nat k) ''scan_segadd'' [int out, int tsc, int r] (?L * ?n) 0 c4 = Inr c5"
      using launch_case_total [OF assms(2)] by blast
    then show ?thesis using d sr a1 a2 la s True by (simp add: seg_level.simps(2) Let_def)
  next
    case False
    then show ?thesis using d sr a1 a2 la by (simp add: seg_level.simps(2) Let_def)
  qed
qed simp

section \<open>The cases\<close>

text \<open>The part the two applications share: the result buffer is zero, the golden prefix sums go there.\<close>

lemma prefix_expect:
  assumes "case_ok cfg c" "holds (c_img c) out (replicate n 0)" "length vals = n"
  shows "case_ok cfg (expect out (scan_prefix 0 vals) c)" "golden (expect out (scan_prefix 0 vals) c) out (scan_prefix 0 vals)"
  by (rule expect_zeros [OF assms(1,2)], simp add: assms(3))+

lemma randrange_values: "repeatG n (randrange (2 ^ 16)) g = Inr (xs, g') \<Longrightarrow> length xs = n \<and> (\<forall>x \<in> set xs. x < 2 ^ 16)"
  using repeatG_all [of n "randrange (2 ^ 16)" g xs g' "\<lambda>x. x < 2 ^ 16"] randrange_range by blast

lemma prefix_exact:
  assumes "\<forall>x \<in> set vals. x < 2 ^ 16" "i < length vals" "length vals \<le> 2 ^ 16"
  shows "scan_prefix 0 (map int vals) ! i = int (sum_list (take (Suc i) vals))"
proof -
  have e: "sum_list (take (Suc i) (map int vals)) = int (sum_list (take (Suc i) vals))"
    by (simp add: take_map int_sum_list)
  have "\<forall>x \<in> set (take (Suc i) (map int vals)). 0 \<le> x \<and> x \<le> 2 ^ 16 - 1"
    using assms(1) by (auto simp: take_map dest!: in_set_takeD)
  then have b: "0 \<le> sum_list (take (Suc i) (map int vals))"
    "sum_list (take (Suc i) (map int vals)) \<le> int (length (take (Suc i) (map int vals))) * (2 ^ 16 - 1)"
    using sum_list_bound [of "take (Suc i) (map int vals)" "2 ^ 16 - 1"] by auto
  have "int (length (take (Suc i) (map int vals))) * (2 ^ 16 - 1) \<le> 2 ^ 16 * (2 ^ 16 - 1)"
    by (rule mult_right_mono) (use assms(3) in auto)
  then have "sum_list (take (Suc i) (map int vals)) < 2 ^ 32" using b(2) by simp
  then show ?thesis using b(1) assms(2) e by (simp add: scan_prefix_nth)
qed

lemma scan_case_correct:
  assumes ok: "case_ok cfg c" and run: "scan_case cfg n vals c = Inr c'"
  obtains src out bs where "length vals = n" "case_ok cfg c'" "holds (c_img c') src vals" "golden c' out (scan_prefix 0 vals)"
    "launched cfg c' ''scan0'' ''scan'' [int src, int out, int bs] n 2" "\<exists>ls. c_launches c' = c_launches c @ ls \<and> scan_plan cfg (c_img c') src n 0 out ls"
proof -
  obtain src c1 out k c2 where a1: "c_alloc n (Some vals) c = Inr (src, c1)" and l: "scan_level cfg src n 0 c1 = Inr (out, k, c2)"
    and c': "c' = expect out (scan_prefix 0 vals) c2"
    using run by (auto simp: scan_case_def result_simps)
  note f1 = c_alloc_facts [OF ok a1]
  obtain bs where f2: "case_ok cfg c2" "grows c1 c2" "holds (c_img c2) out (replicate n 0)"
    "launched cfg c2 (''scan'' @ str_nat 0) ''scan'' [int src, int out, int bs] n 2"
    using scan_level_correct [OF l f1(1)] by blast
  have n: "length vals = n" using f1(6) by simp
  have "str_nat 0 = ''0''" by (simp add: str_nat_def digits.simps digit_char_def)
  then have "launched cfg c' ''scan0'' ''scan'' [int src, int out, int bs] n 2"
    using grows_launched [OF grows_expect f2(4)] c' by simp
  moreover have "\<exists>ls. c_launches c' = c_launches c @ ls \<and> scan_plan cfg (c_img c') src n 0 out ls"
    using scan_level_plan [OF l f1(1)] f1(5) c' by auto
  ultimately show thesis
    using that n prefix_expect [OF f2(1,3) n] grows_holds [OF f2(2) f1(3)] c' by auto
qed

lemma scan_runs:
  assumes "map_of (SLOTS cfg) ''scan'' \<noteq> None" "map_of (SLOTS cfg) ''scan_add'' \<noteq> None" "LANES cfg \<noteq> 0" "4 * LANES cfg dvd n"
  shows "\<exists>c g'. scan_app cfg n g = Inr (c, g')"
proof -
  have rt: "\<exists>x h'. randrange (2 ^ 16) h = Inr (x, h')" for h by (rule randrange_total) simp
  obtain vals g1 where v: "repeatG n (randrange (2 ^ 16)) g = Inr (vals, g1)"
    using repeatG_total [of "randrange (2 ^ 16)"] rt by blast
  have len: "length (map int vals) = n" using randrange_values [OF v] by simp
  obtain s s' where s: "map_of (SLOTS cfg) ''scan'' = Some s" "map_of (SLOTS cfg) ''scan_add'' = Some s'" using assms(1,2) by blast
  have "\<exists>c'. scan_case cfg n (map int vals) c = Inr c'" for c
  proof -
    obtain src c1 where 1: "c_alloc n (Some (map int vals)) c = Inr (src, c1)"
      using c_alloc_total [of n "Some (map int vals)" c] len by auto
    obtain r where "scan_level cfg src n 0 c1 = Inr r" using scan_level_total [OF s assms(3)] by blast
    then show ?thesis using 1 by (cases r) (simp add: scan_case_def)
  qed
  moreover have "bindE (py_mod n (4 * LANES cfg)) (\<lambda>r. assertE (r = 0)) = Inr ()"
    using assms(3,4) by (simp add: py_mod_def)
  ultimately show ?thesis using v by (fastforce simp: scan_app_def Let_def result_simps)
qed

lemma scanseg_runs:
  assumes "map_of (SLOTS cfg) ''scan_seg'' \<noteq> None" "map_of (SLOTS cfg) ''scan_segadd'' \<noteq> None" "2 \<le> LANES cfg" "0 < rows"
    and "LANES cfg dvd n" "0 < n" "n < depth"
  shows "\<exists>c g'. scanseg cfg rows depth n g = Inr (c, g')"
proof -
  have rt: "\<exists>x h'. randrange (2 ^ 16) h = Inr (x, h')" for h by (rule randrange_total) simp
  obtain vals g1 where v: "repeatG n (randrange (2 ^ 16)) g = Inr (vals, g1)"
    using repeatG_total [of "randrange (2 ^ 16)"] rt by blast
  have len: "length (map int vals) = n" using randrange_values [OF v] by simp
  obtain s s' where s: "map_of (SLOTS cfg) ''scan_seg'' = Some s" "map_of (SLOTS cfg) ''scan_segadd'' = Some s'" using assms(1,2) by blast
  have "\<exists>c'. scanseg_case cfg rows depth n (map int vals) c = Inr c'" for c
  proof -
    obtain src c1 where 1: "c_alloc n (Some (map int vals)) c = Inr (src, c1)"
      using c_alloc_total [of n "Some (map int vals)" c] len by auto
    obtain r where "seg_level cfg rows depth src n 0 c1 = Inr r" using seg_level_total [OF s assms(3-7)] by blast
    then show ?thesis using 1 by (cases r) (simp add: scanseg_case_def)
  qed
  then show ?thesis using v by (fastforce simp: scanseg_def Let_def result_simps)
qed

section \<open>Properties\<close>

text \<open>\<^verbatim>\<open>scan\<close> with its kernels placed has three outcomes, decided by its sizes alone: a division by
  zero without lanes, the assertion when the length is no multiple of a block of \<open>4 * LANES\<close> threads,
  and otherwise a case: the recursion over the block totals ends.\<close>

theorem scan_outcome:
  assumes "map_of (SLOTS cfg) ''scan'' \<noteq> None" "map_of (SLOTS cfg) ''scan_add'' \<noteq> None"
  shows "if LANES cfg = 0 then scan_app cfg n g = Inl ZeroDivisionError
    else if \<not> 4 * LANES cfg dvd n then scan_app cfg n g = Inl AssertionError
    else \<exists>c g'. scan_app cfg n g = Inr (c, g')"
  using scan_runs [OF assms] by (auto simp: scan_app_def Let_def bindG_def liftG_def py_mod_def assertE_def dvd_eq_mod_eq_0)

lemma scan_outcome_witness:
  "(\<exists>c g'. scan_app \<lparr>LANES = 8, WORDS = 2 ^ 20, SLOTS = [(''scan'', 0), (''scan_add'', 1)]\<rparr> 2048 [5] = Inr (c, g')) \<and>
   scan_app \<lparr>LANES = 8, WORDS = 2 ^ 20, SLOTS = [(''scan'', 0), (''scan_add'', 1)]\<rparr> 2047 [5] = Inl AssertionError"
proof -
  let ?cfg = "\<lparr>LANES = 8, WORDS = 2 ^ 20, SLOTS = [(''scan'', 0), (''scan_add'', 1)]\<rparr>"
  have s: "map_of (SLOTS ?cfg) ''scan'' \<noteq> None" "map_of (SLOTS ?cfg) ''scan_add'' \<noteq> None" by simp_all
  have "\<not> 32 dvd (2047 :: nat)" "32 dvd (2048 :: nat)" by presburger+
  then show ?thesis using scan_outcome [OF s, of 2048 "[5]"] scan_outcome [OF s, of 2047 "[5]"] by simp
qed

text \<open>C30: The case \<^verbatim>\<open>scan\<close> returns is well formed, holds the values and expects in the result buffer the inclusive prefix
  sums modulo \<open>2 ^ 32\<close>, which are the exact sums up to \<open>2 ^ 16\<close> values. Its launches are, in this order and no others: the block scan
  of the values, then, when there is more than one block, the same schedule for the block totals of that level, padded with zeros to whole
  blocks, and last the addition of the scanned totals to the blocks; each launch has its tag, kernel, threads, block size and buffers.\<close>

theorem scan_case_spec:
  assumes "scan_app cfg n g = Inr (c, g')"
  shows "\<exists>vals pre src out bs. length vals = n \<and> length pre = n \<and> case_ok cfg c \<and> holds (c_img c) src (map int vals) \<and>
    golden c out pre \<and> launched cfg c ''scan0'' ''scan'' [int src, int out, int bs] n 2 \<and>
    scan_plan cfg (c_img c) src n 0 out (c_launches c) \<and>
    (\<forall>i < n. pre ! i = int (sum_list (take (Suc i) vals)) mod 2 ^ 32) \<and>
    (n \<le> 2 ^ 16 \<longrightarrow> (\<forall>i < n. pre ! i = int (sum_list (take (Suc i) vals))))"
proof -
  obtain vals g1 c0 where v: "repeatG n (randrange (2 ^ 16)) g = Inr (vals, g1)"
    and c: "scan_case cfg n (map int vals) (new_case c0) = Inr c"
    using assms by (auto simp: scan_app_def Let_def result_simps)
  have len: "length vals = n" "\<forall>x \<in> set vals. x < 2 ^ 16" using randrange_values [OF v] by auto
  obtain src out bs where r: "case_ok cfg c" "holds (c_img c) src (map int vals)" "golden c out (scan_prefix 0 (map int vals))"
    "launched cfg c ''scan0'' ''scan'' [int src, int out, int bs] n 2" "scan_plan cfg (c_img c) src n 0 out (c_launches c)"
    by (rule scan_case_correct [OF new_case_ok c]) (auto simp: new_case_def)
  have "scan_prefix 0 (map int vals) ! i = int (sum_list (take (Suc i) vals)) mod 2 ^ 32" if "i < n" for i
    using that len(1) by (simp add: scan_prefix_nth take_map int_sum_list)
  moreover have "n \<le> 2 ^ 16 \<longrightarrow> (\<forall>i < n. scan_prefix 0 (map int vals) ! i = int (sum_list (take (Suc i) vals)))"
    using prefix_exact [OF len(2)] len(1) by simp
  ultimately show ?thesis
    using len(1) r by (intro exI [of _ vals] exI [of _ "scan_prefix 0 (map int vals)"]) auto
qed

lemma scan_case_spec_witness:
  "\<exists>c g' out pre. scan_app \<lparr>LANES = 4, WORDS = 2 ^ 20, SLOTS = [(''scan'', 0), (''scan_add'', 1)]\<rparr> 64 [5, 3] = Inr (c, g') \<and>
     golden c out pre \<and> length pre = 64"
proof -
  let ?cfg = "\<lparr>LANES = 4, WORDS = 2 ^ 20, SLOTS = [(''scan'', 0), (''scan_add'', 1)]\<rparr>"
  obtain c g' where c: "scan_app ?cfg 64 [5, 3] = Inr (c, g')" using scan_runs [of ?cfg 64 "[5, 3]"] by auto
  then show ?thesis using scan_case_spec [OF c] by blast
qed

text \<open>C31: \<^verbatim>\<open>scanseg\<close> with at least two lanes returns a case for every positive multiple of the lanes below the recursion depth
  allowed: halving the rows finds a divisor, every level is shorter than the one before, and the recursion ends. The case expects the prefix
  sums. Its launches are, in this order and no others: the segmented scan, then, when there is more than one segment, the same
  schedule for the totals of the segments, and last their addition. On every level a warp scans at most \<^verbatim>\<open>rows\<close> rows, the largest
  number found by halving that divides the words of the level, and the threads launched cover these words exactly.\<close>

theorem scanseg_case_spec:
  assumes "map_of (SLOTS cfg) ''scan_seg'' \<noteq> None" "map_of (SLOTS cfg) ''scan_segadd'' \<noteq> None" "2 \<le> LANES cfg" "0 < rows"
    and "LANES cfg dvd n" "0 < n" "n < depth"
  shows "\<exists>c g' vals src out tot r. scanseg cfg rows depth n g = Inr (c, g') \<and> length vals = n \<and> case_ok cfg c \<and>
    holds (c_img c) src (map int vals) \<and> golden c out (scan_prefix 0 (map int vals)) \<and>
    (\<forall>i < n. scan_prefix 0 (map int vals) ! i = int (sum_list (take (Suc i) vals)) mod 2 ^ 32) \<and>
    launched cfg c ''seg0'' ''scan_seg'' [int src, int out, int tot, int r] (n div r) 0 \<and>
    0 < r \<and> r \<le> rows \<and> r * LANES cfg dvd n \<and>
    seg_plan cfg (c_img c) rows src n 0 out (c_launches c)"
proof -
  obtain c g' where run: "scanseg cfg rows depth n g = Inr (c, g')" using scanseg_runs [OF assms] by blast
  then obtain vals g1 c0 src c1 out k c2 where v: "repeatG n (randrange (2 ^ 16)) g = Inr (vals, g1)"
    and a1: "c_alloc n (Some (map int vals)) (new_case c0) = Inr (src, c1)"
    and l: "seg_level cfg rows depth src n 0 c1 = Inr (out, k, c2)"
    and c: "c = expect out (scan_prefix 0 (map int vals)) c2"
    by (auto simp: scanseg_def scanseg_case_def Let_def result_simps)
  have len: "length vals = n" using randrange_values [OF v] by auto
  note f1 = c_alloc_facts [OF new_case_ok [of cfg] a1]
  obtain r tot where f2: "case_ok cfg c2" "grows c1 c2" "holds (c_img c2) out (replicate n 0)"
    "launched cfg c2 (''seg'' @ str_nat 0) ''scan_seg'' [int src, int out, int tot, int r] (n div r) 0"
    and r: "0 < r" "r \<le> rows" "r * LANES cfg dvd n"
    using seg_level_correct [OF l f1(1)] by blast
  have "length (map int vals) = n" using len by simp
  note p = prefix_expect [OF f2(1,3) this]
  have "str_nat 0 = ''0''" by (simp add: str_nat_def digits.simps digit_char_def)
  then have la: "launched cfg c ''seg0'' ''scan_seg'' [int src, int out, int tot, int r] (n div r) 0"
    using grows_launched [OF grows_expect f2(4)] c by simp
  have h: "holds (c_img c) src (map int vals)" using grows_holds [OF f2(2) f1(3)] c by simp
  have "\<forall>i < n. scan_prefix 0 (map int vals) ! i = int (sum_list (take (Suc i) vals)) mod 2 ^ 32"
    using len by (simp add: scan_prefix_nth take_map int_sum_list)
  moreover have "seg_plan cfg (c_img c) rows src n 0 out (c_launches c)"
    using seg_level_plan [OF l f1(1)] f1(5) c by (auto simp: new_case_def)
  ultimately show ?thesis using run len p h la r c by blast
qed

lemma scanseg_case_spec_witness:
  "\<exists>c g' r. scanseg \<lparr>LANES = 8, WORDS = 2 ^ 20, SLOTS = [(''scan_seg'', 0), (''scan_segadd'', 1)]\<rparr> 64 65537 65536 [5, 3] = Inr (c, g') \<and>
     0 < r \<and> r \<le> 64 \<and> r * 8 dvd (65536 :: nat)"
proof -
  let ?cfg = "\<lparr>LANES = 8, WORDS = 2 ^ 20, SLOTS = [(''scan_seg'', 0), (''scan_segadd'', 1)]\<rparr>"
  have "LANES ?cfg dvd 65536" by (simp add: dvd_eq_mod_eq_0)
  then show ?thesis using scanseg_case_spec [of ?cfg 64 65536 65537 "[5, 3]"] by auto
qed

end
