(* ===== verification/Zbtest.thy ===== *)
theory Zbtest
  imports Gemm
begin

text \<open>
  The application \<^verbatim>\<open>zbtest\<close> of \<^verbatim>\<open>sim/gen_apps.py\<close>: nine results per operand pair, computed with
  unbounded integers and masks, and their refinement of the Zba, Zbb and Zicond instructions on 32-bit
  words.
\<close>

section \<open>The operation\<close>

definition zb_edge :: "int list" where
  "zb_edge = [0, 1, 0x7FFFFFFF, 0x80000000, 0xFFFFFFFF, 0xFFFFFFFE]"

text \<open>\<^verbatim>\<open>rng.choice(edge) if rng.random() < 0.2 else rng.getrandbits(32)\<close>; the literal is the double nearest \<open>0.2\<close>.\<close>

definition zb_operand :: "int gen" where
  "zb_operand = bindG random_unit (\<lambda>u.
     if u < 3602879701896397 / 2 ^ 54 then choice zb_edge
     else bindG (getrandbits 32) (\<lambda>d. returnG (int d)))"

definition zb_sx :: "int \<Rightarrow> int" where
  "zb_sx v = (if drop_bit 31 v \<noteq> 0 then v - 2 ^ 32 else v)"

definition zb_words :: "int \<Rightarrow> int \<Rightarrow> int list" where
  "zb_words x y =
     (let m = 0xFFFFFFFF
      in [(y + push_bit 1 x) AND m, (y + push_bit 2 x) AND m, (y + push_bit 3 x) AND m,
          if zb_sx x < zb_sx y then x else y, min x y,
          if zb_sx x > zb_sx y then x else y, max x y,
          if y AND 1 = 0 then 0 else x, if y AND 1 \<noteq> 0 then 0 else x])"

definition zbtest_case :: "config \<Rightarrow> nat \<Rightarrow> int list \<Rightarrow> int list \<Rightarrow> app_case \<Rightarrow> app_case result" where
  "zbtest_case cfg n a b c =
     bindE (c_alloc n (Some a) c) (\<lambda>(pa, c).
     bindE (c_alloc n (Some b) c) (\<lambda>(pb, c).
     bindE (c_alloc (9 * n) None c) (\<lambda>(pr, c).
     bindE (launch_case cfg ''zbtest'' ''zbtest'' [int pa, int pb, int pr] n 0 c) (\<lambda>c.
     Inr (expect pr (concat (map (\<lambda>(x, y). zb_words x y) (zip a b))) c)))))"

definition zbtest :: "config \<Rightarrow> nat \<Rightarrow> app_case gen" where
  "zbtest cfg n =
     (let c = new_case (''zbtest_'' @ str_nat n)
      in bindG (repeatG n zb_operand) (\<lambda>a.
         bindG (repeatG n zb_operand) (\<lambda>b.
         liftG (zbtest_case cfg n a b c))))"

section \<open>The instructions\<close>

text \<open>The instructions under test on 32-bit words.\<close>

definition shadd :: "nat \<Rightarrow> 32 word \<Rightarrow> 32 word \<Rightarrow> 32 word" where
  "shadd k x y = push_bit k x + y"

definition czero_eqz :: "32 word \<Rightarrow> 32 word \<Rightarrow> 32 word" where
  "czero_eqz x cond = (if cond = 0 then 0 else x)"

definition czero_nez :: "32 word \<Rightarrow> 32 word \<Rightarrow> 32 word" where
  "czero_nez x cond = (if cond \<noteq> 0 then 0 else x)"

definition zb_spec :: "32 word \<Rightarrow> 32 word \<Rightarrow> 32 word list" where
  "zb_spec x y =
     [shadd 1 x y, shadd 2 x y, shadd 3 x y,
      if sint x < sint y then x else y, min x y, if sint y < sint x then x else y, max x y,
      czero_eqz x (y AND 1), czero_nez x (y AND 1)]"

lemma zb_sx_sint: "zb_sx (uint a) = sint (a :: 32 word)"
proof -
  have v: "0 \<le> uint a" "uint a < 2 ^ 32" using uint_lt2p [of a] by simp_all
  have "sint a = sint (word_of_int (uint a) :: 32 word)" by simp
  also have "\<dots> = (uint a + 2 ^ 31) mod 2 ^ 32 - 2 ^ 31" unfolding int_word_sint by simp
  also have "\<dots> = (if uint a < 2 ^ 31 then uint a else uint a - 2 ^ 32)"
  proof (cases "uint a < 2 ^ 31")
    case False
    then have "(uint a + 2 ^ 31) mod 2 ^ 32 = uint a + 2 ^ 31 - 2 ^ 32"
      using v mod_add_self2 [of "uint a - 2 ^ 31" "2 ^ 32"] by (simp add: mod_pos_pos_trivial add.commute)
    then show ?thesis using False by simp
  qed (use v in simp)
  also have "\<dots> = zb_sx (uint a)" using v by (simp add: zb_sx_def drop_bit_eq_div zdiv_eq_0_iff)
  finally show ?thesis ..
qed

lemma zb_shadd: "(uint b + push_bit k (uint a)) AND 0xFFFFFFFF = uint (shadd k a b)" for a b :: "32 word"
proof -
  have "uint (shadd k a b) = (uint (push_bit k a) + uint b) mod 2 ^ 32"
    by (simp add: shadd_def uint_word_ariths)
  also have "uint (push_bit k a) = (push_bit k (uint a)) mod 2 ^ 32"
    by (simp add: unsigned_push_bit_eq take_bit_eq_mod)
  finally show ?thesis unfolding word_mask by (simp add: mod_add_right_eq add.commute)
qed

lemma zb_and_1: "(uint b AND 1 = 0) = (b AND 1 = 0)" for b :: "32 word"
proof -
  have "uint (b AND 1) = uint b AND 1" by (simp add: unsigned_and_eq)
  then show ?thesis by (metis uint_0_iff)
qed


lemma zb_words_spec: "zb_words (uint a) (uint b) = map uint (zb_spec a b)"
proof -
  have sh: "(uint b + push_bit k (uint a)) AND 4294967295 = uint (shadd k a b)" for k
    using zb_shadd [of b k a] by simp
  have mn: "min (uint a) (uint b) = uint (min a b)" "max (uint a) (uint b) = uint (max a b)"
    by (simp_all add: min_def max_def word_le_def)
  show ?thesis
    unfolding zb_words_def zb_spec_def Let_def list.map sh mn zb_sx_sint zb_and_1 czero_eqz_def czero_nez_def
    by simp
qed

section \<open>The case\<close>

lemma zb_operand_word: "zb_operand g = Inr (v, g') \<Longrightarrow> v = uint (word_of_int v :: 32 word)"
proof -
  assume "zb_operand g = Inr (v, g')"
  then have "0 \<le> v \<and> v < 2 ^ 32"
    by (auto simp: zb_operand_def result_simps zb_edge_def dest!: choice_in getrandbits_range split: if_splits)
  then show ?thesis by (simp add: uint_word_of_int)
qed

lemma zb_operand_total: "\<exists>v h. zb_operand g = Inr (v, h)"
proof -
  obtain u g1 where u: "random_unit g = Inr (u, g1)" using random_unit_total by blast
  have "zb_edge \<noteq> []" by (simp add: zb_edge_def)
  then obtain v h where "choice zb_edge g1 = Inr (v, h)" using choice_total by blast
  moreover obtain d h' where "getrandbits 32 g1 = Inr (d, h')" using getrandbits_total by blast
  ultimately show ?thesis using u by (auto simp: zb_operand_def result_simps)
qed

lemma zb_operands:
  assumes "repeatG n zb_operand g = Inr (xs, g')"
  obtains ws :: "32 word list" where "xs = map uint ws" "length ws = n"
proof
  have "length xs = n" "\<forall>x \<in> set xs. x = uint (word_of_int x :: 32 word)"
    using repeatG_Inr [OF assms] zb_operand_word by blast+
  then show "xs = map uint (map word_of_int xs :: 32 word list)" "length (map word_of_int xs :: 32 word list) = n"
    by (simp_all add: map_idI)
qed

lemma zb_spec_length: "length (zb_spec a b) = 9"
  by (simp add: zb_spec_def)

lemma zb_concat:
  "concat (map (\<lambda>(x, y). zb_words x y) (zip (map uint as) (map uint bs))) = map uint (concat (map2 zb_spec as bs))"
  by (induction as bs rule: list_induct2') (simp_all add: zb_words_spec)

lemma zb_concat_length: "length as = length bs \<Longrightarrow> length (concat (map2 zb_spec as bs)) = 9 * length as"
  by (induction as bs rule: list_induct2) (simp_all add: zb_spec_length)

lemma zbtest_runs:
  assumes "map_of (SLOTS cfg) ''zbtest'' \<noteq> None"
  shows "\<exists>c g'. zbtest cfg n g = Inr (c, g')"
proof -
  obtain a g1 where a: "repeatG n zb_operand g = Inr (a, g1)" using repeatG_total zb_operand_total by blast
  obtain b g2 where b: "repeatG n zb_operand g1 = Inr (b, g2)" using repeatG_total zb_operand_total by blast
  have len: "length a = n" "length b = n" using repeatG_Inr [OF a] repeatG_Inr [OF b] by auto
  obtain s where s: "map_of (SLOTS cfg) ''zbtest'' = Some s" using assms by blast
  have "\<exists>c'. zbtest_case cfg n a b c = Inr c'" for c
  proof -
    obtain pa c1 where 1: "c_alloc n (Some a) c = Inr (pa, c1)" using c_alloc_total [of n "Some a" c] len by auto
    obtain pb c2 where 2: "c_alloc n (Some b) c1 = Inr (pb, c2)" using c_alloc_total [of n "Some b" c1] len by auto
    obtain pr c3 where 3: "c_alloc (9 * n) None c2 = Inr (pr, c3)" using c_alloc_total [of "9 * n" None c2] by auto
    obtain c4 where "launch_case cfg ''zbtest'' ''zbtest'' [int pa, int pb, int pr] n 0 c3 = Inr c4"
      using launch_case_total [OF s] by blast
    then show ?thesis using 1 2 3 by (simp add: zbtest_case_def)
  qed
  then show ?thesis using a b by (fastforce simp: zbtest_def Let_def result_simps)
qed

lemma zbtest_full:
  assumes "map_of (SLOTS cfg) ''zbtest'' \<noteq> None"
  shows "\<exists>c g' as bs pa pb pr. zbtest cfg n g = Inr (c, g') \<and> length as = n \<and> length bs = n \<and> case_ok cfg c \<and>
    holds (c_img c) pa (map uint as) \<and> holds (c_img c) pb (map uint bs) \<and>
    golden c pr (map uint (concat (map2 zb_spec as bs))) \<and>
    launched cfg c ''zbtest'' ''zbtest'' [int pa, int pb, int pr] n 0"
proof -
  obtain c g' where run: "zbtest cfg n g = Inr (c, g')" using zbtest_runs [OF assms] by blast
  then obtain a g1 b g2 c0 where a: "repeatG n zb_operand g = Inr (a, g1)" and b: "repeatG n zb_operand g1 = Inr (b, g2)"
    and c: "zbtest_case cfg n a b (new_case c0) = Inr c"
    by (auto simp: zbtest_def Let_def result_simps)
  obtain as :: "32 word list" where as: "a = map uint as" "length as = n" by (rule zb_operands [OF a])
  obtain bs :: "32 word list" where bs: "b = map uint bs" "length bs = n" by (rule zb_operands [OF b])
  let ?out = "map uint (concat (map2 zb_spec as bs))"
  obtain pa c1 pb c2 pr c3 c4 where a1: "c_alloc n (Some a) (new_case c0) = Inr (pa, c1)"
    and a2: "c_alloc n (Some b) c1 = Inr (pb, c2)" and a3: "c_alloc (9 * n) None c2 = Inr (pr, c3)"
    and la: "launch_case cfg ''zbtest'' ''zbtest'' [int pa, int pb, int pr] n 0 c3 = Inr c4"
    and c': "c = expect pr ?out c4"
    using c by (auto simp: zbtest_case_def result_simps as(1) bs(1) zb_concat)
  note f1 = c_alloc_facts [OF new_case_ok [of cfg] a1]
  note f2 = c_alloc_facts [OF f1(1) a2]
  note f3 = c_alloc_facts [OF f2(1) a3]
  note f4 = launch_case_facts [OF f3(1) la]
  have g: "case_ok cfg c4" "grows c3 c4" "launched cfg c4 ''zbtest'' ''zbtest'' [int pa, int pb, int pr] n 0"
    by (rule f4; simp)+
  have g2: "grows c2 c4" by (rule grows_trans [OF f3(2) g(2)])
  have g1: "grows c1 c4" by (rule grows_trans [OF f2(2) g2])
  have z: "holds (c_img c4) pr (replicate (9 * n) 0)" using grows_holds [OF g(2) f3(3)] by simp
  have "length ?out = 9 * n" using zb_concat_length as bs by simp
  note e = expect_zeros [OF g(1) z this]
  have "holds (c_img c) pa (map uint as)" "holds (c_img c) pb (map uint bs)"
    using grows_holds [OF g1 f1(3)] grows_holds [OF g2 f2(3)] by (simp_all add: c' as(1) bs(1))
  moreover have "launched cfg c ''zbtest'' ''zbtest'' [int pa, int pb, int pr] n 0"
    using grows_launched [OF grows_expect g(3)] c' by simp
  ultimately show ?thesis using run as(2) bs(2) e c' by blast
qed

section \<open>Properties\<close>

text \<open>The nine expressions of \<^verbatim>\<open>zbtest\<close> on Python integers are the Zba, Zbb and Zicond instructions on
  32-bit words: wrapping shift-and-add, signed and unsigned minimum and maximum, conditional zero.\<close>

theorem zb_words_refine: "zb_words (uint a) (uint b) = map uint (zb_spec a b)"
  by (rule zb_words_spec)

text \<open>C32: \<^verbatim>\<open>zbtest\<close> returns a case for every random stream when its kernel is placed; the operands are 32-bit
  words, and the expected words are the nine instruction results of the pairs, in order.\<close>

theorem zbtest_case_spec:
  assumes "map_of (SLOTS cfg) ''zbtest'' \<noteq> None"
  shows "\<exists>c g' as bs pa pb pr. zbtest cfg n g = Inr (c, g') \<and> length as = n \<and> length bs = n \<and> case_ok cfg c \<and>
    holds (c_img c) pa (map uint as) \<and> holds (c_img c) pb (map uint bs) \<and>
    golden c pr (map uint (concat (map2 zb_spec as bs))) \<and>
    launched cfg c ''zbtest'' ''zbtest'' [int pa, int pb, int pr] n 0"
  using assms by (rule zbtest_full)

lemma zbtest_case_spec_witness:
  "\<exists>c g' as. zbtest \<lparr>LANES = 8, WORDS = 2 ^ 20, SLOTS = [(''zbtest'', 1)]\<rparr> 256 [5, 3] = Inr (c, g') \<and>
     length (as :: 32 word list) = 256"
  using zbtest_case_spec [of "\<lparr>LANES = 8, WORDS = 2 ^ 20, SLOTS = [(''zbtest'', 1)]\<rparr>" 256 "[5, 3]"] by auto

end
