(* ===== verification/Mlp.thy ===== *)
theory Mlp
  imports Gemm
begin

text \<open>
  The application \<^verbatim>\<open>mlp\<close> of \<^verbatim>\<open>sim/gen_apps.py\<close>: a quantized multi-layer perceptron with packed
  INT8 words, the requantization between the layers, and the packing routine.
\<close>

section \<open>Packing and requantization\<close>

definition pack_word :: "int list \<Rightarrow> int" where
  "pack_word vs = (\<Sum>i\<leftarrow>[0..<length vs]. push_bit (8 * i) (vs ! i AND 0xFF))"

definition pack8 :: "int list \<Rightarrow> int list" where
  "pack8 vals = map (\<lambda>q. pack_word (take 4 (drop (4 * q) vals))) [0..<ceil_div (length vals) 4]"

definition F127 :: int where "F127 = 0x42FE0000"

definition requant :: "int \<Rightarrow> int \<Rightarrow> int \<Rightarrow> int result" where
  "requant acc scale zp =
     bindE (fr2f (of_int acc)) (\<lambda>a.
     bindE (fma a scale zp) (\<lambda>r.
     bindE (f2fr r) (\<lambda>v.
     bindE (f2fr F127) (\<lambda>hi.
     Inr (py_round (min (max v 0) hi))))))"

section \<open>The operation\<close>

text \<open>\<^verbatim>\<open>struct.pack('<f', 2.0 ** -10)\<close> and \<^verbatim>\<open>struct.pack('<f', 3.0)\<close>.\<close>

definition mlp_scale :: int where "mlp_scale = 0x3A800000"

definition mlp_zp :: int where "mlp_zp = 0x40400000"

definition mlp_npad :: "nat \<Rightarrow> nat" where
  "mlp_npad n = max 8 (2 ^ nat (bit_length (int n - 1)))"

definition mlp_weights :: "nat \<Rightarrow> nat \<Rightarrow> int list list gen" where
  "mlp_weights n k =
     repeatG k (mapG (\<lambda>col. if col < n then randint (- 64) 63 else returnG 0) [0..<mlp_npad n])"

definition mlp_wp :: "nat \<Rightarrow> nat \<Rightarrow> int list list \<Rightarrow> int list" where
  "mlp_wp npad k w =
     concat (map (\<lambda>kk. map (\<lambda>col. pack8 (map (\<lambda>i. w ! (4 * kk + i) ! col) [0..<4]) ! 0) [0..<npad]) [0..<k div 4])"

definition mlp_acc :: "nat \<Rightarrow> nat \<Rightarrow> nat \<Rightarrow> int list list \<Rightarrow> int list list \<Rightarrow> int list list" where
  "mlp_acc batch npad k x w =
     map (\<lambda>b. map (\<lambda>col. \<Sum>kk\<leftarrow>[0..<k]. x ! b ! kk * w ! kk ! col) [0..<npad]) [0..<batch]"

type_synonym mlp_state = "int list list \<times> nat \<times> nat \<times> app_case"

definition mlp_layer_case :: "config \<Rightarrow> nat \<Rightarrow> bool \<Rightarrow> nat \<Rightarrow> nat \<Rightarrow> int list list \<Rightarrow> mlp_state \<Rightarrow> mlp_state result" where
  "mlp_layer_case cfg batch last_layer li n w = (\<lambda>(x, px, k, c).
     (let npad = mlp_npad n; wp = mlp_wp npad k w;
          out_words = (if last_layer then batch * npad else batch * npad div 4)
      in bindE (c_alloc (length wp) (Some wp) c) (\<lambda>(pw, c).
         bindE (c_alloc out_words None c) (\<lambda>(po, c).
         bindE (launch_case cfg (''layer'' @ str_nat li) ''mlp''
             [int px, int pw, int po, int (k div 4), bit_length (int npad) - 1, mlp_scale, mlp_zp, if last_layer then 0 else 1]
             (batch * npad) 0 c) (\<lambda>c.
         let acc = mlp_acc batch npad k x w
         in if last_layer then Inr (x, po, npad, expect po (concat acc) c)
            else bindE (mapE (mapE (\<lambda>a. requant a mlp_scale mlp_zp)) acc) (\<lambda>x.
                 Inr (x, po, npad, expect po (concat (map pack8 x)) c)))))))"

definition mlp_layer :: "config \<Rightarrow> nat \<Rightarrow> nat \<Rightarrow> nat \<times> nat \<Rightarrow> mlp_state \<Rightarrow> mlp_state gen" where
  "mlp_layer cfg batch nlayers = (\<lambda>(li, n) st.
     bindG (mlp_weights n (fst (snd (snd st)))) (\<lambda>w.
     liftG (mlp_layer_case cfg batch (li + 1 = nlayers) li n w st)))"

definition mlp :: "config \<Rightarrow> nat \<Rightarrow> nat list \<Rightarrow> app_case gen" where
  "mlp cfg batch dims =
     (let c = new_case (''mlp_'' @ join ''x'' (map str_nat dims) @ ''_b'' @ str_nat batch)
      in case dims of
           [] \<Rightarrow> liftG (Inl IndexError)
         | k # ns \<Rightarrow>
             bindG (repeatG batch (repeatG k (randrange 128))) (\<lambda>x.
             bindG (liftG (c_alloc (batch * k div 4) (Some (concat (map (\<lambda>img. pack8 (map int img)) x))) c)) (\<lambda>(px, c).
             bindG (foldG (mlp_layer cfg batch (length ns)) (zip [0..<length ns] ns) (map (map int) x, px, k, c)) (\<lambda>(_, _, _, c).
             returnG c))))"

section \<open>Bytes of a packed word\<close>

lemma and_255_mod: "v AND 0xFF = v mod 256" for v :: int
  using take_bit_eq_mask [of 8 v] by (simp add: take_bit_eq_mod mask_eq_exp_minus_1)

lemma pack_word_Nil [simp]: "pack_word [] = 0"
  by (simp add: pack_word_def)

lemma pack_word_Cons: "pack_word (v # vs) = v mod 256 + 256 * pack_word vs"
proof -
  have "pack_word (v # vs) = (v AND 0xFF) + (\<Sum>i\<leftarrow>[0..<length vs]. push_bit (8 * Suc i) (vs ! i AND 0xFF))"
    by (simp add: pack_word_def upt_conv_Cons map_Suc_upt [symmetric] del: upt_Suc map_Suc_upt)
       (simp add: o_def)
  also have "(\<Sum>i\<leftarrow>[0..<length vs]. push_bit (8 * Suc i) (vs ! i AND 0xFF)) = 256 * pack_word vs"
    by (simp add: pack_word_def push_bit_eq_mult power_add mult_ac flip: sum_list_const_mult)
  finally show ?thesis by (simp add: and_255_mod)
qed

lemma pack_word_range: "0 \<le> pack_word vs \<and> pack_word vs < 256 ^ length vs"
proof (induction vs)
  case (Cons v vs)
  have "0 \<le> v mod 256" "v mod 256 < 256" by simp_all
  moreover have "256 * (pack_word vs + 1) \<le> 256 * 256 ^ length vs" using Cons by (intro mult_left_mono) simp_all
  ultimately have "v mod 256 + 256 * pack_word vs < 256 * 256 ^ length vs" "0 \<le> v mod 256 + 256 * pack_word vs"
    using Cons by linarith+
  then show ?case by (simp add: pack_word_Cons)
qed simp

definition byte_of :: "int \<Rightarrow> nat \<Rightarrow> int" where
  "byte_of w i = drop_bit (8 * i) w AND 0xFF"

lemma byte_pack_word: "i < length vs \<Longrightarrow> byte_of (pack_word vs) i = vs ! i mod 256"
proof (induction vs arbitrary: i)
  case (Cons v vs)
  show ?case
  proof (cases i)
    case 0
    then show ?thesis by (simp add: byte_of_def pack_word_Cons and_255_mod)
  next
    case (Suc j)
    have "drop_bit (8 * Suc j) (pack_word (v # vs)) = drop_bit (8 * j) (pack_word (v # vs) div 256)"
      by (simp add: drop_bit_eq_div power_add zdiv_zmult2_eq mult.commute)
    also have "pack_word (v # vs) div 256 = pack_word vs" by (simp add: pack_word_Cons)
    finally show ?thesis using Cons Suc by (simp add: byte_of_def)
  qed
qed simp

text \<open>The signed byte, and the dot product of four signed bytes that the accelerator computes per word.\<close>

definition sbyte :: "int \<Rightarrow> nat \<Rightarrow> int" where
  "sbyte w i = (let b = byte_of w i in if b < 128 then b else b - 256)"

definition pdot8 :: "int \<Rightarrow> int \<Rightarrow> int" where
  "pdot8 a b = (\<Sum>i\<leftarrow>[0..<4]. sbyte a i * sbyte b i)"

lemma sbyte_pack_word:
  assumes "i < length vs" "- 128 \<le> vs ! i" "vs ! i < 128"
  shows "sbyte (pack_word vs) i = vs ! i"
proof (cases "0 \<le> vs ! i")
  case True
  then show ?thesis using assms byte_pack_word [OF assms(1)] by (simp add: sbyte_def)
next
  case False
  then have "vs ! i mod 256 = vs ! i + 256" using assms(2) mod_add_self2 [of "vs ! i" 256]
    by (simp add: mod_pos_pos_trivial del: mod_add_self2)
  then show ?thesis using assms False byte_pack_word [OF assms(1)] by (simp add: sbyte_def)
qed

lemma pack8_length: "length (pack8 vals) = ceil_div (length vals) 4"
  by (simp add: pack8_def)

lemma ceil_div_mult [simp]: "0 < b \<Longrightarrow> ceil_div (b * q) b = q"
proof -
  assume "0 < b"
  then have "(- int (b * q)) div int b = - int q"
    using nonzero_mult_div_cancel_left [of "int b" "- int q"] by simp
  then show ?thesis by (simp add: ceil_div_def)
qed

lemma pack8_nth: "q < ceil_div (length vals) 4 \<Longrightarrow> pack8 vals ! q = pack_word (take 4 (drop (4 * q) vals))"
  by (simp add: pack8_def)

lemma pack8_byte:
  assumes "length vals = 4 * q" "j < length vals"
  shows "byte_of (pack8 vals ! (j div 4)) (j mod 4) = vals ! j mod 256"
proof -
  have q: "j div 4 < q" using assms by (simp add: div_less_iff_less_mult mult.commute)
  have "j mod 4 < length (take 4 (drop (4 * (j div 4)) vals))" using assms q by simp
  then have "byte_of (pack_word (take 4 (drop (4 * (j div 4)) vals))) (j mod 4) = take 4 (drop (4 * (j div 4)) vals) ! (j mod 4) mod 256"
    by (rule byte_pack_word)
  moreover have "take 4 (drop (4 * (j div 4)) vals) ! (j mod 4) = vals ! j" using assms q by simp
  ultimately show ?thesis using q assms(1) by (simp add: pack8_nth)
qed

text \<open>The packed dot product is the dot product of the unpacked values.\<close>

lemma sum_list_upt: "(\<Sum>i\<leftarrow>[0..<n]. f i) = (\<Sum>i<n. f i)" for f :: "nat \<Rightarrow> int"
  by (simp add: interv_sum_list_conv_sum_set_nat lessThan_atLeast0)

lemma sum_by_four: "(\<Sum>j<4 * q. f j) = (\<Sum>kk<q. \<Sum>i<4. f (4 * kk + i))" for f :: "nat \<Rightarrow> int"
proof (induction q)
  case (Suc q)
  have "(\<Sum>j<4 * Suc q. f j) = (\<Sum>j<4 * q. f j) + (f (4 * q) + f (4 * q + 1) + f (4 * q + 2) + f (4 * q + 3))"
    by (simp add: eval_nat_numeral)
  then show ?case using Suc by (simp add: eval_nat_numeral)
qed simp


definition small8 :: "int \<Rightarrow> bool" where
  "small8 v \<longleftrightarrow> - 128 \<le> v \<and> v < 128"

lemma pdot8_pack:
  assumes "length u = 4" "length v = 4" "\<forall>x \<in> set u \<union> set v. small8 x"
  shows "pdot8 (pack_word u) (pack_word v) = (\<Sum>i<4. u ! i * v ! i)"
proof -
  have "sbyte (pack_word u) i * sbyte (pack_word v) i = u ! i * v ! i" if "i < 4" for i
    using sbyte_pack_word [of i u] sbyte_pack_word [of i v] assms that by (simp add: small8_def)
  then show ?thesis by (simp add: pdot8_def sum_list_upt)
qed

section \<open>Requantization\<close>

lemma py_round_clamped: "0 \<le> v \<Longrightarrow> v \<le> 127 \<Longrightarrow> 0 \<le> py_round v \<and> py_round v \<le> 127"
proof -
  assume v: "0 \<le> v" "v \<le> 127"
  then have f: "0 \<le> \<lfloor>v\<rfloor>" "\<lfloor>v\<rfloor> \<le> 127" by (simp_all add: floor_le_iff)
  show ?thesis
  proof (cases "\<lfloor>v\<rfloor> = 127")
    case True
    then have "v = 127" using v of_int_floor_le [of v] by simp
    then show ?thesis by (simp add: py_round_def)
  next
    case False
    then have "0 \<le> \<lfloor>v\<rfloor>" "\<lfloor>v\<rfloor> \<le> 126" using f by linarith+
    then have "\<forall>k \<in> {\<lfloor>v\<rfloor>, \<lfloor>v\<rfloor> + 1}. 0 \<le> k \<and> k \<le> 127" by simp
    moreover have "py_round v \<in> {\<lfloor>v\<rfloor>, \<lfloor>v\<rfloor> + 1}" by (simp add: py_round_def Let_def)
    ultimately show ?thesis by blast
  qed
qed

lemma py_round_near: "\<bar>of_int (py_round v) - v\<bar> \<le> 1 / 2"
proof -
  define f where "f = \<lfloor>v\<rfloor>"
  have "of_int f \<le> v" "v < of_int f + 1" unfolding f_def by linarith+
  then show ?thesis unfolding py_round_def Let_def f_def [symmetric] by (auto simp: abs_if)
qed

lemma F127_value: "f2fr F127 = Inr 127"
  by code_simp

lemma requant_range: "requant acc scale zp = Inr q \<Longrightarrow> 0 \<le> q \<and> q \<le> 127"
  using py_round_clamped [of "min (max v 0) 127" for v] by (auto simp: requant_def result_simps F127_value)

definition mlp_rq :: "int \<Rightarrow> int" where
  "mlp_rq a = py_round (min (max (of_int (a + 3072) / 1024) 0) 127)"

lemma mlp_consts: "f2fr mlp_scale = Inr (1 / 1024)" "f2fr mlp_zp = Inr 3"
  by code_simp+

lemma requant_exact:
  assumes "\<bar>a\<bar> \<le> 2 ^ 23"
  shows "requant a mlp_scale mlp_zp = Inr (mlp_rq a)"
proof -
  have a: "\<bar>a\<bar> \<le> 2 ^ 24" "\<bar>a + 3072\<bar> \<le> 2 ^ 24" using assms by simp_all
  obtain b where b: "fr2f (of_int a) = Inr b" "f2fr b = Inr (of_int a)" using fr2f_of_int [OF a(1)] by blast
  let ?v = "of_int (a + 3072) / 1024 :: rat"
  have "(2::rat) powi (- 10) = 1 / 1024" by (simp add: power_int_def power_divide)
  then have e: "?v = of_int (a + 3072) * 2 powi (- 10)" by simp
  obtain r where r: "f2fr r = Inr ?v" using fp_representable [OF a(2), of "- 10"] unfolding e by auto
  obtain q where q: "fr2f ?v = Inr q" "f2fr q = Inr ?v" by (rule fp.rnd_exact [OF r])
  have v: "of_int a * (1 / 1024) + 3 = ?v" by (simp add: field_simps)
  have "fma b mlp_scale mlp_zp = Inr q" using q(1) by (simp only: fma_def mlp_consts b(2) bindE.simps v)
  then show ?thesis using b(1) q(2) by (simp add: requant_def F127_value mlp_rq_def)
qed

lemma mlp_rq_range: "0 \<le> mlp_rq a \<and> mlp_rq a \<le> 127"
  unfolding mlp_rq_def by (rule py_round_clamped) simp_all

section \<open>Layers\<close>

definition grid_ok :: "nat \<Rightarrow> nat \<Rightarrow> int \<Rightarrow> int \<Rightarrow> int list list \<Rightarrow> bool" where
  "grid_ok m n lo hi x \<longleftrightarrow> length x = m \<and> (\<forall>row \<in> set x. length row = n \<and> (\<forall>v \<in> set row. lo \<le> v \<and> v \<le> hi))"

lemma grid_okD: "grid_ok m n lo hi x \<Longrightarrow> i < m \<Longrightarrow> length (x ! i) = n \<and> (\<forall>j < n. lo \<le> x ! i ! j \<and> x ! i ! j \<le> hi)"
  unfolding grid_ok_def by (metis nth_mem)

lemma mlp_npad_props: "8 \<le> mlp_npad n" "4 dvd mlp_npad n"
proof -
  show "8 \<le> mlp_npad n" by (simp add: mlp_npad_def)
  show "4 dvd mlp_npad n"
  proof (cases "nat (bit_length (int n - 1)) \<le> 3")
    case True
    then have "(2::nat) ^ nat (bit_length (int n - 1)) \<le> 2 ^ 3" by (intro power_increasing) simp_all
    then show ?thesis by (simp add: mlp_npad_def max_absorb1)
  next
    case False
    then obtain k where "nat (bit_length (int n - 1)) = Suc (Suc k)" by (metis Suc_le_D not_less_eq_eq numeral_3_eq_3)
    then show ?thesis by (simp add: mlp_npad_def max_def)
  qed
qed

lemma mlp_npad_le: "n \<le> 1024 \<Longrightarrow> mlp_npad n \<le> 1024"
proof -
  assume n: "n \<le> 1024"
  have "nat (bit_length (int n - 1)) \<le> 10"
  proof (cases "n \<le> 1")
    case True
    then consider "n = 0" | "n = 1" by linarith
    then show ?thesis by cases (simp_all add: bit_length_def bit_len.simps)
  next
    case False
    then have p: "0 < int n - 1" by simp
    have "(2::int) ^ nat (bit_length (int n - 1) - 1) \<le> int n - 1" by (rule bit_length_bounds(1) [OF p])
    also have "\<dots> < 2 ^ 10" using n by simp
    finally have "nat (bit_length (int n - 1) - 1) < 10" by (rule power_less_imp_less_exp [rotated]) simp
    then show ?thesis by simp
  qed
  then have "(2::nat) ^ nat (bit_length (int n - 1)) \<le> 2 ^ 10" by (intro power_increasing) simp_all
  then show ?thesis by (simp add: mlp_npad_def)
qed

lemma mlp_weights_ok: "mlp_weights n k g = Inr (w, g') \<Longrightarrow> grid_ok k (mlp_npad n) (- 64) 63 w"
proof -
  assume w: "mlp_weights n k g = Inr (w, g')"
  have row: "length row = mlp_npad n \<and> (\<forall>v \<in> set row. - 64 \<le> v \<and> v \<le> 63)"
    if "mapG (\<lambda>col. if col < n then randint (- 64) 63 else returnG 0) [0..<mlp_npad n] h = Inr (row, h')" for h row h'
  proof -
    have st: "- 64 \<le> v \<and> v \<le> 63" if v: "(if col < n then randint (- 64) 63 else returnG 0) h = Inr (v, h')" for col v h h'
    proof (cases "col < n")
      case True
      then show ?thesis using v randint_range [of "- 64" 63 h v h'] by simp
    qed (use v in \<open>simp add: returnG_Inr\<close>)
    show ?thesis using mapG_all [OF that, of "\<lambda>v. - 64 \<le> v \<and> v \<le> 63"] st by simp
  qed
  note R = repeatG_Inr [OF w [unfolded mlp_weights_def]]
  have "length r = mlp_npad n \<and> (\<forall>v \<in> set r. - 64 \<le> v \<and> v \<le> 63)" if r: "r \<in> set w" for r
  proof -
    obtain h h' where "mapG (\<lambda>col. if col < n then randint (- 64) 63 else returnG 0) [0..<mlp_npad n] h = Inr (r, h')"
      using R r by blast
    then show ?thesis by (rule row)
  qed
  then show ?thesis using R unfolding grid_ok_def by simp
qed

lemma mlp_weights_total: "\<exists>w g'. mlp_weights n k g = Inr (w, g')"
proof -
  have "\<exists>row h'. mapG (\<lambda>col. if col < n then randint (- 64) 63 else returnG 0) [0..<mlp_npad n] h = Inr (row, h')" for h
    by (rule mapG_total) (auto simp: returnG_def intro: randint_total)
  then show ?thesis unfolding mlp_weights_def using repeatG_total by blast
qed

lemma mlp_acc_grid:
  assumes "grid_ok batch k 0 127 x" "grid_ok k npad (- 64) 63 w" "k \<le> 1024"
  shows "grid_ok batch npad (- (2 ^ 23)) (2 ^ 23) (mlp_acc batch npad k x w)"
    and "b < batch \<Longrightarrow> col < npad \<Longrightarrow> mlp_acc batch npad k x w ! b ! col = (\<Sum>kk<k. x ! b ! kk * w ! kk ! col)"
proof -
  have bound: "\<bar>\<Sum>kk<k. x ! b ! kk * w ! kk ! col\<bar> \<le> 2 ^ 23" if "b < batch" "col < npad" for b col
  proof -
    have "\<bar>x ! b ! kk * w ! kk ! col\<bar> \<le> 127 * 64" if kk: "kk < k" for kk
    proof -
      have "0 \<le> x ! b ! kk \<and> x ! b ! kk \<le> 127" "- 64 \<le> w ! kk ! col \<and> w ! kk ! col \<le> 63"
        using grid_okD [OF assms(1) \<open>b < batch\<close>] grid_okD [OF assms(2) kk] kk \<open>col < npad\<close> by blast+
      then show ?thesis unfolding abs_mult by (intro mult_mono) auto
    qed
    then have "\<bar>\<Sum>kk<k. x ! b ! kk * w ! kk ! col\<bar> \<le> (\<Sum>kk<k. 127 * 64)"
      by (intro order_trans [OF sum_abs] sum_mono) simp
    also have "\<dots> \<le> 2 ^ 23" using assms(3) by simp
    finally show ?thesis .
  qed
  show "b < batch \<Longrightarrow> col < npad \<Longrightarrow> mlp_acc batch npad k x w ! b ! col = (\<Sum>kk<k. x ! b ! kk * w ! kk ! col)"
    by (simp add: mlp_acc_def sum_list_upt)
  have r: "- (2 ^ 23) \<le> v \<and> v \<le> 2 ^ 23" if "b < batch" "col < npad" "v = (\<Sum>kk<k. x ! b ! kk * w ! kk ! col)" for b col v
    using bound [OF that(1,2)] unfolding that(3) abs_le_iff by linarith
  have "length row = npad \<and> (\<forall>v \<in> set row. - (2 ^ 23) \<le> v \<and> v \<le> 2 ^ 23)" if rw: "row \<in> set (mlp_acc batch npad k x w)" for row
  proof -
    obtain b where b: "b < batch" "row = map (\<lambda>col. \<Sum>kk<k. x ! b ! kk * w ! kk ! col) [0..<npad]"
      using rw by (auto simp: mlp_acc_def sum_list_upt)
    have "- (2 ^ 23) \<le> v \<and> v \<le> 2 ^ 23" if "v \<in> set row" for v
    proof -
      obtain col where "col < npad" "v = (\<Sum>kk<k. x ! b ! kk * w ! kk ! col)" using \<open>v \<in> set row\<close> b(2) by auto
      then show ?thesis using r [OF b(1)] by blast
    qed
    then show ?thesis using b(2) by simp
  qed
  moreover have "length (mlp_acc batch npad k x w) = batch" by (simp add: mlp_acc_def)
  ultimately show "grid_ok batch npad (- (2 ^ 23)) (2 ^ 23) (mlp_acc batch npad k x w)"
    unfolding grid_ok_def by blast
qed

text \<open>The packed words a kernel reads give the same accumulators.\<close>

lemma mlp_wp_length: "length (mlp_wp npad k w) = k div 4 * npad"
  unfolding mlp_wp_def by (subst length_concat_const [of _ npad]) simp_all

lemma mlp_wp_nth:
  assumes "kk < k div 4" "col < npad"
  shows "mlp_wp npad k w ! (kk * npad + col) = pack_word (map (\<lambda>i. w ! (4 * kk + i) ! col) [0..<4])"
proof -
  have "mlp_wp npad k w ! (kk * npad + col) = pack8 (map (\<lambda>i. w ! (4 * kk + i) ! col) [0..<4]) ! 0"
    unfolding mlp_wp_def by (subst concat_nth [of _ npad]) (use assms in simp_all)
  moreover have "ceil_div 4 4 = 1" by (simp add: ceil_div_def)
  ultimately show ?thesis by (simp add: pack8_def)
qed

lemma packed_dot:
  assumes "length r = 4 * q" "\<forall>v \<in> set r. small8 v" "\<And>j. j < 4 * q \<Longrightarrow> small8 (w ! j ! col)" "col < npad"
  shows "(\<Sum>kk<q. pdot8 (pack8 r ! kk) (mlp_wp npad (4 * q) w ! (kk * npad + col))) = (\<Sum>j<4 * q. r ! j * w ! j ! col)"
proof -
  have step: "pdot8 (pack8 r ! kk) (mlp_wp npad (4 * q) w ! (kk * npad + col)) = (\<Sum>i<4. r ! (4 * kk + i) * w ! (4 * kk + i) ! col)"
    if kk: "kk < q" for kk
  proof -
    let ?u = "take 4 (drop (4 * kk) r)" and ?v = "map (\<lambda>i. w ! (4 * kk + i) ! col) [0..<4]"
    have u: "length ?u = 4" "?u ! i = r ! (4 * kk + i)" if "i < 4" for i
      using assms(1) kk that by simp_all
    have "small8 (w ! (4 * kk + i) ! col)" if "i < 4" for i using assms(3) [of "4 * kk + i"] kk that by simp
    then have sm: "\<forall>v \<in> set ?u \<union> set ?v. small8 v" using assms(2) by (auto dest!: in_set_takeD in_set_dropD)
    have lu: "length ?u = 4" using u(1) [of 0] by simp
    have "pdot8 (pack_word ?u) (pack_word ?v) = (\<Sum>i<4. ?u ! i * ?v ! i)"
      by (rule pdot8_pack [OF lu _ sm]) simp
    moreover have "pack8 r ! kk = pack_word ?u" using kk assms(1) by (simp add: pack8_nth)
    moreover have "mlp_wp npad (4 * q) w ! (kk * npad + col) = pack_word ?v"
      using mlp_wp_nth [of kk "4 * q" col npad w] kk assms(4) by simp
    moreover have "(\<Sum>i<4. ?u ! i * ?v ! i) = (\<Sum>i<4. r ! (4 * kk + i) * w ! (4 * kk + i) ! col)"
      by (rule sum.cong) (use u in simp_all)
    ultimately show ?thesis by simp
  qed
  then show ?thesis by (simp add: sum_by_four)
qed

lemma mlp_packed_dot:
  assumes "grid_ok batch k 0 127 x" "grid_ok k npad (- 64) 63 w" "4 dvd k" "b < batch" "col < npad"
  shows "(\<Sum>kk<k div 4. pdot8 (pack8 (x ! b) ! kk) (mlp_wp npad k w ! (kk * npad + col))) = (\<Sum>kk<k. x ! b ! kk * w ! kk ! col)"
proof -
  obtain q where k: "k = 4 * q" using assms(3) by blast
  have x: "length (x ! b) = 4 * q" "\<forall>v \<in> set (x ! b). small8 v"
    using grid_okD [OF assms(1,4)] k by (fastforce simp: in_set_conv_nth small8_def)+
  have "small8 (w ! j ! col)" if "j < 4 * q" for j
    using grid_okD [OF assms(2), of j] that assms(5) k by (fastforce simp: small8_def)
  from packed_dot [OF x this assms(5)] k show ?thesis by simp
qed

section \<open>The run of the layers\<close>

lemma requant_grid:
  assumes "grid_ok m n (- (2 ^ 23)) (2 ^ 23) acc"
  shows "mapE (mapE (\<lambda>a. requant a mlp_scale mlp_zp)) acc = Inr (map (map mlp_rq) acc)" "grid_ok m n 0 127 (map (map mlp_rq) acc)"
proof -
  show "mapE (mapE (\<lambda>a. requant a mlp_scale mlp_zp)) acc = Inr (map (map mlp_rq) acc)"
  proof (intro mapE_total)
    fix row a assume "row \<in> set acc" "a \<in> set row"
    then have "- (2 ^ 23) \<le> a \<and> a \<le> 2 ^ 23" using assms unfolding grid_ok_def by blast
    then show "requant a mlp_scale mlp_zp = Inr (mlp_rq a)" by (intro requant_exact) linarith
  qed
  show "grid_ok m n 0 127 (map (map mlp_rq) acc)" using assms mlp_rq_range by (auto simp: grid_ok_def)
qed

text \<open>The expected words only grow: a fresh buffer never hides an older one.\<close>

definition gold_keeps :: "app_case \<Rightarrow> app_case \<Rightarrow> bool" where
  "gold_keeps c c' \<longleftrightarrow> (\<forall>k v. map_of (c_gold c) k = Some v \<longrightarrow> map_of (c_gold c') k = Some v)"

lemma gold_keeps_golden: "gold_keeps c c' \<Longrightarrow> golden c a vs \<Longrightarrow> golden c' a vs"
  by (simp add: gold_keeps_def golden_def)

lemma gold_keeps_trans: "gold_keeps c d \<Longrightarrow> gold_keeps d e \<Longrightarrow> gold_keeps c e"
  by (simp add: gold_keeps_def)

lemma gold_keeps_expect:
  assumes "\<And>i. map_of (c_gold c) (a + i) = None"
  shows "gold_keeps c (expect a vs c)"
proof -
  have "\<not> a \<le> k" if "map_of (c_gold c) k = Some v" for k v
    using assms [of "k - a"] that by auto
  then show ?thesis by (auto simp: gold_keeps_def expect_def map_of_put_words)
qed

text \<open>What the final case says of every layer.\<close>

fun mlp_run_ok :: "config \<Rightarrow> nat \<Rightarrow> app_case \<Rightarrow> nat \<Rightarrow> int list list \<Rightarrow> nat \<Rightarrow> nat \<Rightarrow> (nat \<times> int list list) list \<Rightarrow> bool" where
  "mlp_run_ok cfg batch c li x px k [] = True"
| "mlp_run_ok cfg batch c li x px k ((n, w) # ls) =
     (let npad = mlp_npad n; acc = mlp_acc batch npad k x w; x' = map (map mlp_rq) acc
      in grid_ok batch k 0 127 x \<and> grid_ok k npad (- 64) 63 w \<and> (\<exists>pw po. holds (c_img c) pw (mlp_wp npad k w) \<and>
           launched cfg c (''layer'' @ str_nat li) ''mlp''
             [int px, int pw, int po, int (k div 4), bit_length (int npad) - 1, mlp_scale, mlp_zp, if ls = [] then 0 else 1]
             (batch * npad) 0 \<and>
           golden c po (if ls = [] then concat acc else concat (map pack8 x')) \<and>
           mlp_run_ok cfg batch c (Suc li) x' po npad ls))"

definition mlp_inv :: "config \<Rightarrow> nat \<Rightarrow> mlp_state \<Rightarrow> bool" where
  "mlp_inv cfg batch = (\<lambda>(x, px, k, c). case_ok cfg c \<and> grid_ok batch k 0 127 x \<and> 4 dvd k \<and> k \<le> 1024)"

lemma packed_rows_length:
  assumes "grid_ok m n lo hi x" "4 dvd n"
  shows "length (concat (map pack8 x)) = m * n div 4"
proof -
  obtain q where n: "n = 4 * q" using assms(2) by blast
  have "length (concat (map pack8 x)) = length (map pack8 x) * q"
    by (rule length_concat_const) (use assms(1) n in \<open>simp add: grid_ok_def pack8_length\<close>)
  then show ?thesis using assms(1) n by (simp add: grid_ok_def mult.assoc [symmetric] mult.left_commute)
qed

lemma grid_concat_length: "grid_ok m n lo hi x \<Longrightarrow> length (concat x) = m * n"
  using length_concat_const [of x n] by (simp add: grid_ok_def)

lemma mlp_layer_step:
  assumes inv: "mlp_inv cfg batch (x, px, k, c)" and w: "grid_ok k (mlp_npad n) (- 64) 63 w" and n: "n \<le> 1024"
    and slot: "map_of (SLOTS cfg) ''mlp'' = Some slot"
  shows "\<exists>pw po c'. let npad = mlp_npad n; acc = mlp_acc batch npad k x w; x' = map (map mlp_rq) acc in
      mlp_layer_case cfg batch lst li n w (x, px, k, c) = Inr (if lst then x else x', po, npad, c') \<and>
      (\<not> lst \<longrightarrow> mlp_inv cfg batch (x', po, npad, c')) \<and> case_ok cfg c' \<and> grows c c' \<and> gold_keeps c c' \<and>
      holds (c_img c') pw (mlp_wp npad k w) \<and>
      launched cfg c' (''layer'' @ str_nat li) ''mlp''
        [int px, int pw, int po, int (k div 4), bit_length (int npad) - 1, mlp_scale, mlp_zp, if lst then 0 else 1]
        (batch * npad) 0 \<and>
      golden c' po (if lst then concat acc else concat (map pack8 x'))"
proof -
  define npad acc x' wp where d: "npad = mlp_npad n" "acc = mlp_acc batch npad k x w" "x' = map (map mlp_rq) acc" "wp = mlp_wp npad k w"
  have i: "case_ok cfg c" "grid_ok batch k 0 127 x" "4 dvd k" "k \<le> 1024" using inv by (auto simp: mlp_inv_def)
  have acc: "grid_ok batch npad (- (2 ^ 23)) (2 ^ 23) acc" unfolding d by (rule mlp_acc_grid(1) [OF i(2) w i(4)])
  note rq = requant_grid [OF acc, folded d(3)]
  let ?out = "if lst then concat acc else concat (map pack8 x')"
  let ?n = "if lst then batch * npad else batch * npad div 4"
  have len: "length ?out = ?n"
    using grid_concat_length [OF acc] packed_rows_length [OF rq(2)] mlp_npad_props(2) by (simp add: d(1))
  let ?params = "\<lambda>pw po. [int px, int pw, int po, int (k div 4), bit_length (int npad) - 1, mlp_scale, mlp_zp, if lst then 0 else 1]"
  obtain pw c1 where a1: "c_alloc (length wp) (Some wp) c = Inr (pw, c1)" using c_alloc_total [of "length wp" "Some wp" c] by auto
  obtain po c2 where a2: "c_alloc ?n None c1 = Inr (po, c2)" using c_alloc_total [of ?n None c1] by auto
  obtain c3 where la: "launch_case cfg (''layer'' @ str_nat li) ''mlp'' (?params pw po) (batch * npad) 0 c2 = Inr c3"
    using launch_case_total [OF slot] by blast
  note f1 = c_alloc_facts [OF i(1) a1]
  note f2 = c_alloc_facts [OF f1(1) a2]
  note f3 = launch_case_facts [OF f2(1) la]
  have g: "case_ok cfg c3" "grows c2 c3" "c_gold c3 = c_gold c2"
    "launched cfg c3 (''layer'' @ str_nat li) ''mlp'' (?params pw po) (batch * npad) 0" by (rule f3; simp)+
  let ?c = "expect po ?out c3"
  have z: "holds (c_img c3) po (replicate ?n 0)" using grows_holds [OF g(2) f2(3)] by simp
  note e = expect_zeros [OF g(1) z len]
  have g1: "grows c1 c3" by (rule grows_trans [OF f2(2) g(2)])
  have "grows c c3" by (rule grows_trans [OF f1(2) g1])
  then have gr: "grows c ?c" by (rule grows_trans [OF _ grows_expect])
  have "map_of (c_gold c3) (po + j) = None" for j
  proof (cases "map_of (c_gold c3) (po + j)")
    case (Some v)
    then have "img_look (c_img c1) (po + j) \<noteq> None"
      using f1(1) g(3) f2(4) unfolding case_ok_def by metis
    with f2(7) [of j] show ?thesis by simp
  qed simp
  then have "gold_keeps c3 ?c" by (rule gold_keeps_expect)
  then have gk: "gold_keeps c ?c" using g(3) f2(4) f1(4) by (simp add: gold_keeps_def)
  have h: "holds (c_img ?c) pw wp" using grows_holds [OF g1 f1(3)] by simp
  have l: "launched cfg ?c (''layer'' @ str_nat li) ''mlp'' (?params pw po) (batch * npad) 0"
    by (rule grows_launched [OF grows_expect g(4)])
  have run: "mlp_layer_case cfg batch lst li n w (x, px, k, c) = Inr (if lst then x else x', po, npad, ?c)"
    using a1 a2 la rq(1) by (simp add: mlp_layer_case_def d(1) [symmetric] d(2) [symmetric] d(4) [symmetric] Let_def)
  have "mlp_inv cfg batch (x', po, npad, ?c)"
    using e(1) rq(2) mlp_npad_props(2) mlp_npad_le [OF n] by (simp add: mlp_inv_def d(1))
  then show ?thesis using run e gr gk h l unfolding Let_def d by (intro exI conjI) auto
qed

lemma mlp_layers_run:
  assumes slot: "map_of (SLOTS cfg) ''mlp'' = Some slot"
  shows "mlp_inv cfg batch (x, px, k, c) \<Longrightarrow> i + length ns = L \<Longrightarrow> \<forall>n \<in> set ns. n \<le> 1024 \<Longrightarrow>
    \<exists>x' px' k' c' g' ws. foldG (mlp_layer cfg batch L) (zip [i..<L] ns) (x, px, k, c) g = Inr ((x', px', k', c'), g') \<and>
      length ws = length ns \<and> case_ok cfg c' \<and> grows c c' \<and> gold_keeps c c' \<and> mlp_run_ok cfg batch c' i x px k (zip ns ws)"
proof (induction ns arbitrary: i x px k c g)
  case Nil
  then show ?case by (auto simp: returnG_def mlp_inv_def grows_refl gold_keeps_def)
next
  case (Cons n ns)
  let ?lst = "i + 1 = L"
  have lst: "?lst = (ns = [])" using Cons.prems(2) by auto
  have il: "i < L" using Cons.prems(2) by simp
  obtain w h where w: "mlp_weights n k g = Inr (w, h)" using mlp_weights_total by blast
  have wok: "grid_ok k (mlp_npad n) (- 64) 63 w" by (rule mlp_weights_ok [OF w])
  define npad acc x' where d: "npad = mlp_npad n" "acc = mlp_acc batch npad k x w" "x' = map (map mlp_rq) acc"
  have n: "n \<le> 1024" using Cons.prems(3) by simp
  obtain pw po c1 where s: "mlp_layer_case cfg batch ?lst i n w (x, px, k, c) = Inr (if ?lst then x else x', po, npad, c1)"
      "\<not> ?lst \<longrightarrow> mlp_inv cfg batch (x', po, npad, c1)" "case_ok cfg c1" "grows c c1" "gold_keeps c c1"
      "holds (c_img c1) pw (mlp_wp npad k w)"
      "launched cfg c1 (''layer'' @ str_nat i) ''mlp''
        [int px, int pw, int po, int (k div 4), bit_length (int npad) - 1, mlp_scale, mlp_zp, if ?lst then 0 else 1] (batch * npad) 0"
      "golden c1 po (if ?lst then concat acc else concat (map pack8 x'))"
    using mlp_layer_step [OF Cons.prems(1) wok n slot, of ?lst i] unfolding Let_def d by blast
  have st: "mlp_layer cfg batch L (i, n) (x, px, k, c) g = Inr ((if ?lst then x else x', po, npad, c1), h)"
    using w s(1) by (simp add: mlp_layer_def bindG_def liftG_def)
  have z: "zip [i..<L] (n # ns) = (i, n) # zip [Suc i..<L] ns" using il by (simp add: upt_conv_Cons)
  have gx: "grid_ok batch k 0 127 x" using Cons.prems(1) by (simp add: mlp_inv_def)
  show ?case
  proof (cases "ns = []")
    case True
    then have "foldG (mlp_layer cfg batch L) (zip [i..<L] (n # ns)) (x, px, k, c) g = Inr ((x, po, npad, c1), h)"
      using st lst z by (simp add: bindG_def returnG_def)
    moreover have "mlp_run_ok cfg batch c1 i x px k (zip (n # ns) [w])"
      using s(6-8) wok lst True gx by (auto simp: Let_def d)
    moreover have "length [w] = length (n # ns)" using True by simp
    ultimately show ?thesis using s(3-5) by blast
  next
    case False
    have inv1: "mlp_inv cfg batch (x', po, npad, c1)" using s(2) lst False by simp
    obtain x2 px2 k2 c2 g2 ws where r: "foldG (mlp_layer cfg batch L) (zip [Suc i..<L] ns) (x', po, npad, c1) h = Inr ((x2, px2, k2, c2), g2)"
      and ws: "length ws = length ns" "case_ok cfg c2" "grows c1 c2" "gold_keeps c1 c2" "mlp_run_ok cfg batch c2 (Suc i) x' po npad (zip ns ws)"
      using Cons.IH [OF inv1, of "Suc i" h] Cons.prems(2,3) by auto
    have "foldG (mlp_layer cfg batch L) (zip [i..<L] (n # ns)) (x, px, k, c) g = Inr ((x2, px2, k2, c2), g2)"
      using st r lst False z by (simp add: bindG_def)
    moreover have "zip ns ws \<noteq> []" using False ws(1) by (cases ns; cases ws) auto
    then have "mlp_run_ok cfg batch c2 i x px k (zip (n # ns) (w # ws))"
      using grows_holds [OF ws(3) s(6)] grows_launched [OF ws(3) s(7)] gold_keeps_golden [OF ws(4) s(8)] wok ws(5) lst False gx
      by (auto simp: Let_def d)
    moreover have "length (w # ws) = length (n # ns)" using ws(1) by simp
    ultimately show ?thesis
      using ws(2) grows_trans [OF s(4) ws(3)] gold_keeps_trans [OF s(5) ws(4)] by blast
  qed
qed


lemma byte_rows: "repeatG m (repeatG k (randrange 128)) g = Inr (x, g') \<Longrightarrow> grid_ok m k 0 127 (map (map int) x)"
proof -
  assume x: "repeatG m (repeatG k (randrange 128)) g = Inr (x, g')"
  have "length row = k \<and> (\<forall>v \<in> set row. v < 128)" if r: "row \<in> set x" for row
  proof -
    obtain h h' where h: "repeatG k (randrange 128) h = Inr (row, h')" using repeatG_Inr [OF x] r by blast
    show ?thesis using repeatG_all [OF h, of "\<lambda>v. v < 128"] randrange_range by blast
  qed
  then show ?thesis using repeatG_Inr [OF x] by (fastforce simp: grid_ok_def)
qed

lemma byte_rows_total: "\<exists>x g'. repeatG m (repeatG k (randrange 128)) g = Inr (x, g')"
proof -
  have "\<exists>v h'. randrange 128 h = Inr (v, h')" for h by (rule randrange_total) simp
  then have "\<exists>row h'. repeatG k (randrange 128) h = Inr (row, h')" for h by (rule repeatG_total)
  then show ?thesis by (rule repeatG_total)
qed

lemma mlp_runs:
  assumes slot: "map_of (SLOTS cfg) ''mlp'' \<noteq> None" and k: "4 dvd k" "k \<le> 1024" and ns: "\<forall>n \<in> set ns. n \<le> 1024"
  shows "\<exists>c g' x ws px. mlp cfg batch (k # ns) g = Inr (c, g') \<and> grid_ok batch k 0 127 x \<and> length ws = length ns \<and>
    case_ok cfg c \<and> holds (c_img c) px (concat (map pack8 x)) \<and> mlp_run_ok cfg batch c 0 x px k (zip ns ws)"
proof -
  let ?c0 = "new_case (''mlp_'' @ join ''x'' (map str_nat (k # ns)) @ ''_b'' @ str_nat batch)"
  obtain s where s: "map_of (SLOTS cfg) ''mlp'' = Some s" using slot by blast
  obtain x g1 where x: "repeatG batch (repeatG k (randrange 128)) g = Inr (x, g1)" using byte_rows_total by blast
  let ?x = "map (map int) x"
  have gx: "grid_ok batch k 0 127 ?x" by (rule byte_rows [OF x])
  have e: "concat (map (\<lambda>img. pack8 (map int img)) x) = concat (map pack8 ?x)" by (simp add: comp_def)
  have len: "length (concat (map pack8 ?x)) = batch * k div 4" by (rule packed_rows_length [OF gx k(1)])
  obtain px c1 where a1: "c_alloc (batch * k div 4) (Some (concat (map pack8 ?x))) ?c0 = Inr (px, c1)"
    using c_alloc_total [of "batch * k div 4" "Some (concat (map pack8 ?x))" ?c0] len by auto
  note f1 = c_alloc_facts [OF new_case_ok [of cfg] a1]
  have inv: "mlp_inv cfg batch (?x, px, k, c1)" using f1(1) gx k by (simp add: mlp_inv_def)
  have l0: "0 + length ns = length ns" by simp
  obtain x' px' k' c' g' ws where
    r: "foldG (mlp_layer cfg batch (length ns)) (zip [0..<length ns] ns) (?x, px, k, c1) g1 = Inr ((x', px', k', c'), g')"
    and ws: "length ws = length ns" "case_ok cfg c'" "grows c1 c'" "mlp_run_ok cfg batch c' 0 ?x px k (zip ns ws)"
    using mlp_layers_run [OF s inv l0 ns] by blast
  have "mlp cfg batch (k # ns) g = Inr (c', g')"
    using x a1 r by (simp add: mlp_def Let_def bindG_def liftG_def returnG_def e)
  moreover have "holds (c_img c') px (concat (map pack8 ?x))" using grows_holds [OF ws(3) f1(3)] by simp
  ultimately show ?thesis using gx ws(1,2,4) by blast
qed

section \<open>Properties\<close>

text \<open>\<^verbatim>\<open>pack8\<close> loses nothing: on a list of whole words, byte \<open>j mod 4\<close> of word \<open>j div 4\<close> is the
  low byte of value \<open>j\<close>, and read as a signed byte it is the value itself when that fits INT8.\<close>

theorem pack8_roundtrip:
  assumes "4 dvd length vals" "j < length vals"
  shows "byte_of (pack8 vals ! (j div 4)) (j mod 4) = vals ! j mod 256 \<and>
    (- 128 \<le> vals ! j \<and> vals ! j < 128 \<longrightarrow> sbyte (pack8 vals ! (j div 4)) (j mod 4) = vals ! j)"
proof -
  obtain q where q: "length vals = 4 * q" using assms(1) by blast
  have b: "byte_of (pack8 vals ! (j div 4)) (j mod 4) = vals ! j mod 256" by (rule pack8_byte [OF q assms(2)])
  moreover have "sbyte (pack8 vals ! (j div 4)) (j mod 4) = vals ! j" if v: "- 128 \<le> vals ! j" "vals ! j < 128"
  proof (cases "0 \<le> vals ! j")
    case True
    then show ?thesis using b v by (simp add: sbyte_def)
  next
    case False
    then have "vals ! j mod 256 = vals ! j + 256" using v mod_add_self2 [of "vals ! j" 256]
      by (simp add: mod_pos_pos_trivial del: mod_add_self2)
    then show ?thesis using b False v by (simp add: sbyte_def)
  qed
  ultimately show ?thesis by blast
qed

lemma pack8_roundtrip_witness:
  "pack8 [1, -2, 3, -128] = [0x8003FE01] \<and> sbyte (pack8 [1, -2, 3, -128] ! 0) 3 = - 128"
proof
  show "pack8 [1, -2, 3, -128] = [0x8003FE01]" by code_simp
  have "4 dvd length [1, -2, 3, -128 :: int]" by (simp add: eval_nat_numeral)
  from pack8_roundtrip [OF this, of 3] show "sbyte (pack8 [1, -2, 3, -128] ! 0) 3 = - 128" by simp
qed

text \<open>C37: With the constants of \<^verbatim>\<open>mlp\<close>, \<^verbatim>\<open>requant\<close> of an accumulator up to \<open>2 ^ 23\<close> in magnitude never
  rounds in FP32: it is the exact value \<open>acc / 1024 + 3\<close>, clamped to 0..127 and rounded once to the
  nearest integer (ties to even), so an INT8 activation.\<close>

theorem requant_no_double_rounding:
  assumes "\<bar>acc\<bar> \<le> 2 ^ 23"
  shows "\<exists>q. requant acc mlp_scale mlp_zp = Inr q \<and> 0 \<le> q \<and> q \<le> 127 \<and>
    q = py_round (min (max (of_int acc / 1024 + 3) 0) 127) \<and>
    \<bar>of_int q - min (max (of_int acc / 1024 + 3) 0) 127\<bar> \<le> (1 / 2 :: rat)"
proof -
  have e: "(of_int (acc + 3072) / 1024 :: rat) = of_int acc / 1024 + 3" by (simp add: field_simps)
  have "mlp_rq acc = py_round (min (max (of_int acc / 1024 + 3) 0) 127)" unfolding mlp_rq_def e ..
  then show ?thesis using requant_exact [OF assms] mlp_rq_range [of acc] py_round_near by auto
qed

lemma requant_no_double_rounding_witness:
  "requant 4608 mlp_scale mlp_zp = Inr 8 \<and> (\<exists>q. requant 4608 mlp_scale mlp_zp = Inr q \<and> q \<le> 127)"
proof
  show "requant 4608 mlp_scale mlp_zp = Inr 8" by code_simp
  show "\<exists>q. requant 4608 mlp_scale mlp_zp = Inr q \<and> q \<le> 127" using requant_no_double_rounding [of 4608] by auto
qed

text \<open>The packed words of a layer carry its matrix product: the four-way signed byte products of the
  packed image rows and the packed weight columns, at the positions the kernel reads, add up to the
  accumulator that \<^verbatim>\<open>mlp\<close> computes from the unpacked values.\<close>

theorem mlp_packed_layout:
  assumes "grid_ok batch k 0 127 x" "grid_ok k npad (- 64) 63 w" "4 dvd k" "k \<le> 1024" "b < batch" "col < npad"
  shows "(\<Sum>kk<k div 4. pdot8 (pack8 (x ! b) ! kk) (mlp_wp npad k w ! (kk * npad + col))) = mlp_acc batch npad k x w ! b ! col"
  using mlp_packed_dot [OF assms(1-3,5,6)] mlp_acc_grid(2) [OF assms(1,2,4-6)] by simp

lemma mlp_packed_layout_witness:
  "(\<Sum>kk<4 div 4. pdot8 (pack8 ([[1, 2, 3, 4]] ! 0) ! kk) (mlp_wp 1 4 [[- 1], [5], [- 64], [63]] ! (kk * 1 + 0))) = (69 :: int)"
proof -
  have g: "grid_ok 1 4 0 127 [[1, 2, 3, 4]]" "grid_ok 4 1 (- 64) 63 [[- 1], [5], [- 64], [63]]" by (simp_all add: grid_ok_def)
  have "mlp_acc 1 1 4 [[1, 2, 3, 4]] [[- 1], [5], [- 64], [63]] ! 0 ! 0 = 69" by code_simp
  then show ?thesis using mlp_packed_layout [OF g, of 0 0] by simp
qed

text \<open>C25: \<^verbatim>\<open>mlp\<close> returns a case for every random stream when its kernel is placed, the input width is a
  multiple of 4 and no layer is wider than 1024. The case holds the packed images, and for every layer
  the packed weights and a launch on the right buffers; the layer's output buffer expects the requantized
  activations, packed, which are the input of the next layer, or the accumulators of the last one.\<close>

theorem mlp_case_spec:
  assumes "map_of (SLOTS cfg) ''mlp'' \<noteq> None" "4 dvd k" "k \<le> 1024" "\<forall>n \<in> set ns. n \<le> 1024"
  shows "\<exists>c g' x ws px. mlp cfg batch (k # ns) g = Inr (c, g') \<and> grid_ok batch k 0 127 x \<and> length ws = length ns \<and>
    case_ok cfg c \<and> holds (c_img c) px (concat (map pack8 x)) \<and> mlp_run_ok cfg batch c 0 x px k (zip ns ws)"
  using assms by (rule mlp_runs)

lemma mlp_case_spec_witness:
  "\<exists>c g'. mlp \<lparr>LANES = 8, WORDS = 2 ^ 20, SLOTS = [(''mlp'', 1)]\<rparr> 8 [784, 128, 10] [5, 3] = Inr (c, g') \<and>
     case_ok \<lparr>LANES = 8, WORDS = 2 ^ 20, SLOTS = [(''mlp'', 1)]\<rparr> c"
  using mlp_case_spec [of "\<lparr>LANES = 8, WORDS = 2 ^ 20, SLOTS = [(''mlp'', 1)]\<rparr>" 784 "[128, 10]" 8 "[5, 3]"] by auto

end
