(* ===== verification/CaseName.thy ===== *)
theory CaseName
  imports Spmv Stencil Kmeans Bfs Scan Zbtest Mlp
begin

text \<open>
  The names of the cases of \<^verbatim>\<open>sim/gen_apps.py\<close>, which are the names of the files \<^verbatim>\<open>main\<close> writes: an application never
  changes the name its case is created with, and that name begins with a prefix of its own.
\<close>

section \<open>No step renames a case\<close>

lemma alloc_name: "c_alloc n init c = Inr (a, d) \<Longrightarrow> c_name d = c_name c"
  by (auto simp: c_alloc_Inr)

lemma launch_name: "launch_case cfg tag krn ps n blk c = Inr d \<Longrightarrow> c_name d = c_name c"
  by (auto simp: launch_case_Inr dest: alloc_name)

lemma foldE_keeps:
  assumes "\<And>x s t. f x s = Inr t \<Longrightarrow> P s \<Longrightarrow> P t"
  shows "foldE f xs s = Inr t \<Longrightarrow> P s \<Longrightarrow> P t"
  by (induction xs arbitrary: s) (auto simp: result_simps dest: assms)

lemma expects_name: "c_name (fold (\<lambda>(a, v). expect a [v]) fs c) = c_name c"
  by (induction fs arbitrary: c) auto

lemma gemm_case_name: "gemm_case cfg m n k z a b c = Inr d \<Longrightarrow> c_name d = c_name c"
  by (auto simp: gemm_case_def Let_def result_simps split: if_splits dest!: alloc_name launch_name)

lemma spmv_case_name: "spmv_case cfg m n z rp col val x c = Inr d \<Longrightarrow> c_name d = c_name c"
  by (auto simp: spmv_case_def Let_def result_simps split: if_splits dest!: alloc_name launch_name)

lemma kmeans_case_name: "kmeans_case cfg n k z px py cx cy c = Inr d \<Longrightarrow> c_name d = c_name c"
  by (auto simp: kmeans_case_def Let_def result_simps split: if_splits dest!: alloc_name launch_name)

lemma zbtest_case_name: "zbtest_case cfg n a b c = Inr d \<Longrightarrow> c_name d = c_name c"
  by (auto simp: zbtest_case_def result_simps dest!: alloc_name launch_name)

lemma stencil_step_name: "stencil_step cfg h w r bufs t (cur, c) = Inr (nxt, d) \<Longrightarrow> c_name d = c_name c"
  by (auto simp: stencil_step_def Let_def result_simps split: if_splits dest!: launch_name)

lemma stencil_case_name: "stencil_case cfg h w n r grid c = Inr d \<Longrightarrow> c_name d = c_name c"
proof -
  assume "stencil_case cfg h w n r grid c = Inr d"
  then obtain b0 c1 b1 c2 cur c3 where a: "c_alloc (length grid) (Some grid) c = Inr (b0, c1)" "c_alloc (length grid) (Some grid) c1 = Inr (b1, c2)"
    and l: "foldE (stencil_step cfg h w r [b0, b1]) [0..<n] (grid, c2) = Inr (cur, c3)" and d: "c_name d = c_name c3"
    by (auto simp: stencil_case_def result_simps)
  have "c_name (snd (cur, c3)) = c_name c2"
    by (rule foldE_keeps [OF _ l, where P = "\<lambda>s. c_name (snd s) = c_name c2"]) (auto dest: stencil_step_name)
  then show ?thesis using d alloc_name [OF a(1)] alloc_name [OF a(2)] by simp
qed

lemma bfs_loop_name: "bfs_loop cfg nv rp col prp pcol plev n st = Inr st' \<Longrightarrow> c_name (bs_case st') = c_name (bs_case st)"
proof (induction n arbitrary: st)
  case (Suc n)
  then obtain more st1 where r: "bfs_round cfg nv rp col prp pcol plev st = Inr (more, st1)"
    and l: "if more then bfs_loop cfg nv rp col prp pcol plev n st1 = Inr st' else st' = st1"
    by (auto simp: result_simps split: if_splits)
  have "c_name (bs_case st1) = c_name (bs_case st)"
    using r by (auto simp: bfs_round_def Let_def case_prod_beta result_simps split: if_splits dest!: alloc_name launch_name)
  then show ?case using l Suc.IH [of st1] by (cases more) auto
qed simp

lemma bfs_case_name: "bfs_case cfg nv rp col c = Inr d \<Longrightarrow> c_name d = c_name c"
  by (auto simp: bfs_case_def result_simps expects_name split: if_splits dest!: alloc_name bfs_loop_name)

lemma scan_case_name: "case_ok cfg c \<Longrightarrow> scan_case cfg n vals c = Inr d \<Longrightarrow> c_name d = c_name c"
proof -
  assume ok: "case_ok cfg c" and "scan_case cfg n vals c = Inr d"
  then obtain src c1 out k c2 where a: "c_alloc n (Some vals) c = Inr (src, c1)" and l: "scan_level cfg src n 0 c1 = Inr (out, k, c2)"
    and d: "d = expect out (scan_prefix 0 vals) c2"
    by (auto simp: scan_case_def result_simps)
  have "grows c1 c2" using scan_level_plan [OF l c_alloc_facts(1) [OF ok a]] by blast
  then show ?thesis using d alloc_name [OF a] by (simp add: grows_def)
qed

lemma scanseg_case_name: "case_ok cfg c \<Longrightarrow> scanseg_case cfg rows depth n vals c = Inr d \<Longrightarrow> c_name d = c_name c"
proof -
  assume ok: "case_ok cfg c" and "scanseg_case cfg rows depth n vals c = Inr d"
  then obtain src c1 out k c2 where a: "c_alloc n (Some vals) c = Inr (src, c1)" and l: "seg_level cfg rows depth src n 0 c1 = Inr (out, k, c2)"
    and d: "d = expect out (scan_prefix 0 vals) c2"
    by (auto simp: scanseg_case_def result_simps)
  have "grows c1 c2" using seg_level_plan [OF l c_alloc_facts(1) [OF ok a]] by blast
  then show ?thesis using d alloc_name [OF a] by (simp add: grows_def)
qed

lemma mlp_layer_name: "mlp_layer cfg b nl x (y, p, k, c) g = Inr ((y', p', k', d), g') \<Longrightarrow> c_name d = c_name c"
  by (cases x) (auto simp: mlp_layer_def mlp_layer_case_def Let_def result_simps split: if_splits dest!: alloc_name launch_name)

lemma mlp_layers_name: "foldG (mlp_layer cfg b nl) xs (y, p, k, c) g = Inr ((y', p', k', d), g') \<Longrightarrow> c_name d = c_name c"
proof (induction xs arbitrary: y p k c g)
  case (Cons x xs)
  then obtain y1 p1 k1 c1 g1 where "mlp_layer cfg b nl x (y, p, k, c) g = Inr ((y1, p1, k1, c1), g1)"
    "foldG (mlp_layer cfg b nl) xs (y1, p1, k1, c1) g1 = Inr ((y', p', k', d), g')"
    by (auto simp: result_simps)
  then show ?case using mlp_layer_name Cons.IH by metis
qed (simp add: result_simps returnG_def)

section \<open>The prefix of each application\<close>

definition named :: "string \<Rightarrow> app_case gen \<Rightarrow> bool" where
  "named t f \<longleftrightarrow> (\<forall>g c g'. f g = Inr (c, g') \<longrightarrow> (\<exists>s. c_name c = t @ ''_'' @ s))"

lemma new_case_name [simp]: "c_name (new_case s) = s"
  by (simp add: new_case_def)

lemma gemm_named: "named (if z then ''gemmrb'' else ''gemm'') (gemm cfg m n k z)"
  unfolding named_def gemm_def Let_def by (auto simp: result_simps dest!: gemm_case_name)

lemma spmv_named: "named (if z then ''spmvz'' else ''spmv'') (spmv cfg m n k z)"
  unfolding named_def spmv_def Let_def by (auto simp: result_simps dest!: spmv_case_name)

lemma kmeans_named: "named (if z then ''kmeansu'' else ''kmeans'') (kmeans cfg n k z)"
  unfolding named_def kmeans_def Let_def by (auto simp: result_simps dest!: kmeans_case_name)

lemma stencil_named: "named (if r \<noteq> 0 then ''stencilrb'' else ''stencil'') (stencil cfg h w n r)"
  unfolding named_def stencil_def Let_def by (auto simp: result_simps dest!: stencil_case_name)

lemma bfs_named: "named ''bfs'' (bfs cfg nv d)"
  unfolding named_def bfs_def Let_def by (auto simp: result_simps case_prod_beta dest!: bfs_case_name)

lemma scan_named: "named ''scan'' (scan_app cfg n)"
  unfolding named_def scan_app_def Let_def by (auto simp: result_simps dest!: scan_case_name [OF new_case_ok])

lemma scanseg_named: "named ''scanseg'' (scanseg cfg rows depth n)"
  unfolding named_def scanseg_def Let_def by (auto simp: result_simps dest!: scanseg_case_name [OF new_case_ok])

lemma zbtest_named: "named ''zbtest'' (zbtest cfg n)"
  unfolding named_def zbtest_def Let_def by (auto simp: result_simps dest!: zbtest_case_name)

lemma mlp_named: "named ''mlp'' (mlp cfg b (k # ks))"
  unfolding named_def mlp_def Let_def list.case
  by (auto simp: result_simps returnG_def dest!: alloc_name mlp_layers_name)

end
