(* ===== verification/PyFile.thy ===== *)
theory PyFile
  imports PyText "HOL-Library.Char_ord" "HOL-Library.List_Lexorder" "HOL-Library.Product_Lexorder"
begin

text \<open>
  Files and text as the scripts under \<^verbatim>\<open>sim/\<close> see them: paths, a file system of whole files, the
  lines of a text, substrings, decimal numbers, column padding and the comma-separated format of the
  \<^verbatim>\<open>csv\<close> module with its quoting, whose reader is shown to invert its writer.
\<close>

section \<open>Strings\<close>

text \<open>\<^verbatim>\<open>p in s\<close>.\<close>

fun contains :: "string \<Rightarrow> string \<Rightarrow> bool" where
  "contains p [] \<longleftrightarrow> p = []"
| "contains p (c # cs) \<longleftrightarrow> take (length p) (c # cs) = p \<or> contains p cs"

definition starts_with :: "string \<Rightarrow> string \<Rightarrow> bool" where
  "starts_with p s \<longleftrightarrow> take (length p) s = p"

definition ends_with :: "string \<Rightarrow> string \<Rightarrow> bool" where
  "ends_with p s \<longleftrightarrow> starts_with (rev p) (rev s)"

text \<open>\<^verbatim>\<open>s.strip()\<close>.\<close>

definition strip :: "string \<Rightarrow> string" where
  "strip s = rev (dropWhile is_space (rev (dropWhile is_space s)))"

text \<open>\<^verbatim>\<open>s.replace('\\', '/')\<close>.\<close>

definition slashes :: "string \<Rightarrow> string" where
  "slashes = map (\<lambda>c. if c = CHR 0x5C then CHR ''/'' else c)"

text \<open>
  What reading a file in text mode makes of the line ends; then the lines a \<^verbatim>\<open>for\<close> loop over the
  file sees (without their line feed, which the scripts strip) and the lines of \<^verbatim>\<open>str.splitlines\<close>.
\<close>

fun univ_nl :: "string \<Rightarrow> string" where
  "univ_nl [] = []"
| "univ_nl (c # cs) =
     (if c = CHR 0x0D then
        (case cs of d # ds \<Rightarrow> if d = CHR 0x0A then CHR 0x0A # univ_nl ds else CHR 0x0A # univ_nl cs | [] \<Rightarrow> [CHR 0x0A])
      else c # univ_nl cs)"

definition file_lines :: "string \<Rightarrow> string list" where
  "file_lines s = (let ls = split_on (CHR 0x0A) s in if last ls = [] then butlast ls else ls)"

definition line_break :: "char \<Rightarrow> bool" where
  "line_break c \<longleftrightarrow> c \<in> set [CHR 0x0A, CHR 0x0B, CHR 0x0C, CHR 0x0D, CHR 0x1C, CHR 0x1D, CHR 0x1E, CHR 0x85]"

fun splitlines :: "string \<Rightarrow> string \<Rightarrow> string list" where
  "splitlines acc [] = (if acc = [] then [] else [rev acc])"
| "splitlines acc (c # cs) =
     (if c = CHR 0x0D \<and> (case cs of d # _ \<Rightarrow> d = CHR 0x0A | [] \<Rightarrow> False) then rev acc # splitlines [] (tl cs)
      else if line_break c then rev acc # splitlines [] cs
      else splitlines (c # acc) cs)"

text \<open>Lines written one per element, each with its line feed.\<close>

definition unlines :: "string list \<Rightarrow> string" where
  "unlines ls = concat (map (\<lambda>l. l @ [CHR 0x0A]) ls)"

lemma contains_append: "contains p (s @ p @ t)"
proof (induction s)
  case Nil
  show ?case by (cases "p @ t") (auto dest: arg_cong [where f = "take (length p)"])
qed auto

lemma starts_with_iff: "starts_with p s \<longleftrightarrow> (\<exists>t. s = p @ t)"
  unfolding starts_with_def by (metis append_take_drop_id append_eq_conv_conj)

lemma file_lines_unlines:
  assumes "\<forall>l \<in> set ls. CHR 0x0A \<notin> set l"
  shows "file_lines (unlines ls) = ls"
proof -
  have "split_on (CHR 0x0A) (unlines ls) = ls @ [[]]" using assms
    by (induction ls) (simp_all add: unlines_def split_on_append_sep)
  then show ?thesis by (simp add: file_lines_def)
qed

section \<open>Paths and files\<close>

text \<open>\<^verbatim>\<open>os.path.join\<close> of POSIX: an absolute second part replaces the first.\<close>

definition pjoin :: "string \<Rightarrow> string \<Rightarrow> string" where
  "pjoin a b =
     (if starts_with ''/'' b then b
      else if a = [] \<or> ends_with ''/'' a then a @ b else a @ ''/'' @ b)"

text \<open>A file system maps paths to contents, in order of creation.\<close>

type_synonym fs = "(string \<times> string) list"

definition write_file :: "string \<Rightarrow> string \<Rightarrow> fs \<Rightarrow> fs" where
  "write_file p s fs = AList.update p s fs"

definition is_file :: "fs \<Rightarrow> string \<Rightarrow> bool" where
  "is_file fs p \<longleftrightarrow> map_of fs p \<noteq> None"

definition read_file :: "fs \<Rightarrow> string \<Rightarrow> string result" where
  "read_file fs p = (case map_of fs p of None \<Rightarrow> Inl FileNotFoundError | Some s \<Rightarrow> Inr s)"

text \<open>\<^verbatim>\<open>shutil.rmtree(d, ignore_errors=True)\<close>.\<close>

definition rmtree :: "string \<Rightarrow> fs \<Rightarrow> fs" where
  "rmtree d fs = filter (\<lambda>(p, _). \<not> starts_with (d @ ''/'') p) fs"

lemma set_update: "set (AList.update k v d) \<subseteq> insert (k, v) (set d)"
  by (induction d) auto

lemma map_of_write_file [simp]: "map_of (write_file p s fs) q = (if q = p then Some s else map_of fs q)"
  by (simp add: write_file_def update_conv)

lemma map_of_rmtree: "map_of (rmtree d fs) q = (if starts_with (d @ ''/'') q then None else map_of fs q)"
  by (induction fs) (auto simp: rmtree_def)

section \<open>Numbers in text\<close>

text \<open>\<^verbatim>\<open>int(s)\<close> of a decimal numeral with an optional sign, surrounded by white space.\<close>

definition int_of :: "string \<Rightarrow> int result" where
  "int_of s =
     (let t = strip s;
          (sg, ds) = (case t of c # cs \<Rightarrow> if c = CHR ''-'' then (- 1, cs) else if c = CHR ''+'' then (1, cs) else (1, t) | [] \<Rightarrow> (1, []))
      in if ds = [] \<or> \<not> list_all (\<lambda>c. \<exists>d \<in> set [0..<10]. c = digit_char d) ds then Inl ValueError
         else (case read_digits 10 0 ds of None \<Rightarrow> Inl ValueError | Some n \<Rightarrow> Inr (sg * int n)))"

text \<open>A number with \<open>d\<close> decimals, the quotient taken exactly and rounded half to even.\<close>

definition fixed :: "nat \<Rightarrow> rat \<Rightarrow> string" where
  "fixed d q =
     (let x = \<bar>q\<bar> * 10 ^ d; n = \<lfloor>x\<rfloor>; r = x - of_int n;
          m = nat (if r > 1 / 2 \<or> (r = 1 / 2 \<and> odd n) then n + 1 else n);
          s = str_nat m; t = replicate (Suc d - length s) (CHR ''0'') @ s
      in (if q < 0 then ''-'' else []) @ take (length t - d) t
         @ (if d = 0 then [] else CHR ''.'' # drop (length t - d) t))"

text \<open>\<^verbatim>\<open>{s:10s}\<close> and \<^verbatim>\<open>{n:10d}\<close>.\<close>

definition padr :: "nat \<Rightarrow> string \<Rightarrow> string" where
  "padr n s = s @ replicate (n - length s) (CHR '' '')"

definition padl :: "nat \<Rightarrow> string \<Rightarrow> string" where
  "padl n s = replicate (n - length s) (CHR '' '') @ s"

section \<open>Comma-separated files\<close>

definition csv_special :: "char \<Rightarrow> bool" where
  "csv_special c \<longleftrightarrow> c \<in> set [CHR '','', CHR 0x22, CHR 0x0A, CHR 0x0D]"

definition csv_quote :: "string \<Rightarrow> string" where
  "csv_quote f = CHR 0x22 # concat (map (\<lambda>c. if c = CHR 0x22 then [c, c] else [c]) f) @ [CHR 0x22]"

definition csv_field :: "string \<Rightarrow> string" where
  "csv_field f = (if list_ex csv_special f then csv_quote f else f)"

text \<open>A row of one empty field is written quoted, so that it is not an empty line.\<close>

definition csv_row :: "string list \<Rightarrow> string" where
  "csv_row r = (if r = [[]] then csv_quote [] else join '','' (map csv_field r)) @ [CHR 0x0A]"

definition csv_write :: "string list list \<Rightarrow> string" where
  "csv_write rows = concat (map csv_row rows)"

text \<open>The states of the reader: at the start of a row, at the start of a field, inside a plain field,
  inside a quoted field, after a quote inside a quoted field.\<close>

datatype csv_state = StartRow | StartField | InField | InQuoted | QuoteInQuoted

text \<open>The reader's loop; it carries the current field and the fields of the current row, both reversed.\<close>

fun csv_scan :: "csv_state \<Rightarrow> string \<Rightarrow> string list \<Rightarrow> string \<Rightarrow> string list list" where
  "csv_scan st f r [] = (if st = StartRow then [] else [rev (rev f # r)])"
| "csv_scan st f r (c # cs) =
     (if st = InQuoted then
        (if c = CHR 0x22 then csv_scan QuoteInQuoted f r cs else csv_scan InQuoted (c # f) r cs)
      else if c = CHR 0x22 \<and> st \<noteq> InField then
        (if st = QuoteInQuoted then csv_scan InQuoted (c # f) r cs else csv_scan InQuoted [] r cs)
      else if c = CHR '','' then csv_scan StartField [] (rev f # r) cs
      else if c = CHR 0x0A \<or> c = CHR 0x0D then
        (if st = StartRow then [] else rev (rev f # r)) #
          csv_scan StartRow [] [] (if c = CHR 0x0D \<and> (case cs of d # _ \<Rightarrow> d = CHR 0x0A | [] \<Rightarrow> False) then tl cs else cs)
      else csv_scan InField (c # f) r cs)"

definition csv_read :: "string \<Rightarrow> string list list" where
  "csv_read s = csv_scan StartRow [] [] s"

text \<open>The reader inverts the writer, whatever the fields contain.\<close>

lemma csv_scan_plain:
  assumes "\<not> list_ex csv_special f"
  shows "csv_scan InField acc r (f @ cs) = csv_scan InField (rev f @ acc) r cs"
  using assms by (induction f arbitrary: acc) (auto simp: csv_special_def)

lemma csv_scan_quoted:
  "csv_scan InQuoted acc r (concat (map (\<lambda>c. if c = CHR 0x22 then [c, c] else [c]) f) @ CHR 0x22 # cs) =
     csv_scan QuoteInQuoted (rev f @ acc) r cs"
  by (induction f arbitrary: acc) auto

text \<open>What follows a field: a comma and the next field, or the end of the row.\<close>

definition csv_after :: "string list \<Rightarrow> string \<Rightarrow> string list list" where
  "csv_after r cs =
     (case cs of c # ds \<Rightarrow> if c = CHR '','' then csv_scan StartField [] r ds else rev r # csv_scan StartRow [] [] ds | [] \<Rightarrow> [])"

lemma csv_scan_end:
  assumes "d = CHR '','' \<or> d = CHR 0x0A" "st \<in> {InField, QuoteInQuoted, StartField} \<or> (st = StartRow \<and> d = CHR '','')"
  shows "csv_scan st f r (d # ds) = csv_after (rev f # r) (d # ds)"
  using assms by (auto simp: csv_after_def)

lemma csv_scan_quote:
  assumes "d = CHR '','' \<or> d = CHR 0x0A" "st = StartField \<or> st = StartRow"
  shows "csv_scan st [] r (csv_quote f @ d # ds) = csv_after (f # r) (d # ds)"
proof -
  have "csv_scan st [] r (csv_quote f @ d # ds) = csv_scan QuoteInQuoted (rev f @ []) r (d # ds)"
    using assms(2) csv_scan_quoted [of "[]" r f "d # ds"] by (auto simp: csv_quote_def)
  then show ?thesis using csv_scan_end [OF assms(1), of QuoteInQuoted "rev f" r ds] by simp
qed

lemma csv_scan_field:
  assumes d: "d = CHR '','' \<or> d = CHR 0x0A" and st: "st = StartField \<or> st = StartRow \<and> \<not> (f = [] \<and> d = CHR 0x0A)"
  shows "csv_scan st [] r (csv_field f @ d # ds) = csv_after (f # r) (d # ds)"
proof (cases "list_ex csv_special f")
  case True
  have "csv_scan st [] r (csv_quote f @ d # ds) = csv_after (f # r) (d # ds)"
    by (rule csv_scan_quote [OF d]) (use st in blast)
  with True show ?thesis by (simp add: csv_field_def)
next
  case False
  show ?thesis
  proof (cases f)
    case Nil
    have "csv_scan st [] r (d # ds) = csv_after ([] # r) (d # ds)"
      using csv_scan_end [OF d, of st "[]" r ds] st Nil d by auto
    with Nil show ?thesis by (simp add: csv_field_def)
  next
    case (Cons c cs)
    have "csv_scan st [] r (f @ d # ds) = csv_scan InField [c] r (cs @ d # ds)"
      using False st by (auto simp: Cons csv_special_def)
    also have "\<dots> = csv_scan InField (rev f) r (d # ds)"
      using csv_scan_plain [of cs "[c]" r "d # ds"] False by (simp add: Cons)
    also have "\<dots> = csv_after (f # r) (d # ds)" using csv_scan_end [OF d, of InField "rev f" r ds] by simp
    finally show ?thesis using False by (simp add: csv_field_def)
  qed
qed

lemma csv_scan_fields:
  assumes "fs \<noteq> []" "st = StartField \<or> st = StartRow \<and> fs \<noteq> [[]]"
  shows "csv_scan st [] r (join '','' (map csv_field fs) @ CHR 0x0A # cs) = rev (rev fs @ r) # csv_scan StartRow [] [] cs"
  using assms
proof (induction fs arbitrary: r st rule: induct_list012)
  case (2 f)
  then show ?case using csv_scan_field [of "CHR 0x0A" st f r cs] by (auto simp: csv_after_def)
next
  case (3 f g fs)
  let ?rest = "join '','' (map csv_field (g # fs)) @ CHR 0x0A # cs"
  have "csv_scan st [] r (csv_field f @ CHR '','' # ?rest) = csv_after (f # r) (CHR '','' # ?rest)"
    by (rule csv_scan_field) (use "3.prems" in auto)
  also have "\<dots> = csv_scan StartField [] (f # r) ?rest" by (simp add: csv_after_def)
  also have "\<dots> = rev (rev (g # fs) @ f # r) # csv_scan StartRow [] [] cs" by (rule "3.IH"(2)) auto
  finally show ?case by simp
qed simp

lemma csv_scan_row: "csv_scan StartRow [] [] (csv_row r @ cs) = r # csv_scan StartRow [] [] cs"
proof (cases "r = [] \<or> r = [[]]")
  case True
  then show ?thesis
    using csv_scan_quote [of "CHR 0x0A" StartRow "[]" "[]" cs] by (auto simp: csv_row_def csv_after_def)
next
  case False
  then show ?thesis using csv_scan_fields [of r StartRow "[]" cs] by (simp add: csv_row_def)
qed

lemma csv_read_write [simp]: "csv_read (csv_write rows) = rows"
  by (induction rows) (simp_all add: csv_read_def csv_write_def csv_scan_row)

end
