(* ===== verification/GenMain.thy ===== *)
theory GenMain
  imports CaseName PyFile
begin

text \<open>
  The tables \<^verbatim>\<open>SIZES\<close>, \<^verbatim>\<open>APPS\<close>, \<^verbatim>\<open>SEED\<close> and the function \<^verbatim>\<open>main\<close> of
  \<^verbatim>\<open>sim/gen_apps.py\<close>: the argument checks, the kernel placement, the random streams, and the manifest,
  image and golden files. The random stream of a seed, the files on disk and the absolute paths of the kernel and
  output directories are parameters.
\<close>

section \<open>The tables\<close>

text \<open>\<^verbatim>\<open>scanseg\<close> with its default rows; the recursion depth is one more than the number of values.\<close>

definition scanseg_app :: "config \<Rightarrow> nat \<Rightarrow> app_case gen" where
  "scanseg_app cfg n = scanseg cfg 64 (n + 1) n"

definition SIZES :: "config \<Rightarrow> (string \<times> app_case gen list) list" where
  "SIZES cfg =
     [(''small'', [gemm cfg 32 32 32 False, spmv cfg 512 512 16 False, stencil cfg 32 32 2 0, kmeans cfg 1024 8 False,
         bfs cfg 1024 6, scan_app cfg 2048, mlp cfg 8 [784, 128, 10], zbtest cfg 256]),
      (''large'', [gemm cfg 64 64 64 False, spmv cfg 4096 4096 16 False, stencil cfg 128 128 2 0, kmeans cfg 16384 16 False,
         bfs cfg 16384 8, scan_app cfg 65536, mlp cfg 64 [784, 256, 128, 10]]),
      (''board'', [gemm cfg 64 64 64 False, spmv cfg 4096 4096 16 False, stencil cfg 128 128 4 0, kmeans cfg 16384 16 False,
         bfs cfg 16384 8, scan_app cfg 65536, mlp cfg 16 [784, 256, 128, 10],
         gemm cfg 64 64 64 True, scanseg_app cfg 65536, stencil cfg 128 128 4 16, kmeans cfg 16384 16 True,
         spmv cfg 4096 4096 16 True]),
      (''dram'', [gemm cfg 256 256 256 False, spmv cfg 65536 65536 16 False, stencil cfg 512 512 4 0, kmeans cfg 262144 16 False,
         bfs cfg 262144 8, scan_app cfg (2 ^ 20), mlp cfg 256 [784, 256, 128, 10],
         gemm cfg 256 256 256 True, scanseg_app cfg (2 ^ 20), stencil cfg 512 512 4 16, kmeans cfg 262144 16 True,
         spmv cfg 65536 65536 16 True])]"

definition APPS :: "string list" where
  "APPS = [''gemm'', ''spmv'', ''stencil'', ''kmeans'', ''bfs'', ''scan'', ''mlp'', ''gemmrb'',
     ''scanseg'', ''stencilrb'', ''kmeansu'', ''spmvz'']"

definition SEED :: "(string \<times> nat) list" where
  "SEED = [(''gemmrb'', 0), (''scanseg'', 5), (''stencilrb'', 2), (''kmeansu'', 3), (''spmvz'', 1)]"

section \<open>The main function\<close>

text \<open>The parsed arguments; \<open>a_default_kdir\<close> tells that \<^verbatim>\<open>--kdir\<close> names the repository's own kernels.\<close>

record gen_args =
  a_size :: string
  a_lanes :: nat
  a_default_kdir :: bool
  a_words_lg :: int
  a_only :: "string list"

text \<open>
  What the run writes: the lines of the manifest, which stays open during the run, the lines of every other file by its path, and
  the lines printed.
\<close>

record gen_files =
  o_manifest :: "string list"
  o_files :: "(string \<times> string list) list"
  o_stdout :: "string list"

definition check_args :: "gen_args \<Rightarrow> unit result" where
  "check_args args =
     (if a_size args \<notin> set [''small'', ''large'', ''board'', ''dram''] then Inl (SystemExit ''invalid choice: --size'')
      else if a_lanes args \<notin> set [4, 8, 16] then Inl (SystemExit ''invalid choice: --lanes'')
      else if a_words_lg args < 0 then Inl ValueError
      else if a_lanes args \<noteq> 8 \<and> a_default_kdir args then Inl (SystemExit ''--lanes other than 8 needs --kdir'')
      else Inr ())"

text \<open>One stream for all cases, or a stream per application, where \<^verbatim>\<open>--only\<close> may select.\<close>

definition seed_of :: "nat \<Rightarrow> nat" where
  "seed_of i = 2027 + (case map_of SEED (APPS ! i) of Some s \<Rightarrow> s | None \<Rightarrow> i)"

definition gen_cases :: "(nat \<Rightarrow> rng) \<Rightarrow> config \<Rightarrow> gen_args \<Rightarrow> app_case list result" where
  "gen_cases stream cfg args =
     (let fs = the (map_of (SIZES cfg) (a_size args))
      in if a_size args \<in> set [''small'', ''large''] then
           bindE (mapG (\<lambda>f. f) fs (stream 2027)) (\<lambda>(cs, _). Inr cs)
         else mapE (\<lambda>(i, f). bindE (f (stream (seed_of i))) (\<lambda>(c, _). Inr c))
                (filter (\<lambda>(i, f). a_only args = [] \<or> APPS ! i \<in> set (a_only args)) (enumerate 0 fs)))"

definition gold_lines :: "nat \<Rightarrow> app_case \<Rightarrow> string list" where
  "gold_lines words c =
     map (\<lambda>a. hex (word_index words a) @ '' '' @ hex8 (nat (the (map_of (c_gold c) a)))) (sort (map fst (c_gold c)))"

definition launch_line :: "launch \<Rightarrow> string" where
  "launch_line l = ''LAUNCH '' @ l_tag l @ '' '' @ str_nat (l_slot l) @ '' '' @ hex8 (l_param l) @ '' ''
     @ str_nat (l_threads l) @ '' '' @ str_nat (l_blk l)"

definition case_lines :: "(string \<Rightarrow> string) \<Rightarrow> app_case \<Rightarrow> string list" where
  "case_lines path c =
     [''CASE '' @ c_name c, ''MEM '' @ path (c_name c @ ''.mem'')]
       @ map launch_line (c_launches c) @ [''GOLD '' @ path (c_name c @ ''.gold''), ''END'']"

text \<open>\<^verbatim>\<open>{c.name:22s}\<close>: padded with spaces on the right.\<close>

definition ljust :: "nat \<Rightarrow> string \<Rightarrow> string" where
  "ljust n s = s @ replicate (n - length s) (CHR '' '')"

definition summary_line :: "app_case \<Rightarrow> string" where
  "summary_line c = ljust 22 (c_name c) @ '' '' @ str_nat (length (c_launches c)) @ '' launch(es), ''
     @ str_nat ((img_top (c_img c) - DDR_BASE) div 1024) @ '' KB, '' @ str_nat (length (c_gold c)) @ '' checked words''"

definition write_case :: "(string \<Rightarrow> string) \<Rightarrow> config \<Rightarrow> app_case \<Rightarrow> gen_files \<Rightarrow> gen_files result" where
  "write_case path cfg c out =
     bindE (assertE (img_top (c_img c) - DDR_BASE \<le> 4 * WORDS cfg)) (\<lambda>_.
     Inr \<lparr>o_manifest = o_manifest out @ case_lines path c,
          o_files = AList.update (path (c_name c @ ''.gold'')) (gold_lines (WORDS cfg) c)
                     (AList.update (path (c_name c @ ''.mem'')) (write_image (WORDS cfg) (c_img c)) (o_files out)),
          o_stdout = o_stdout out @ [summary_line c]\<rparr>)"

text \<open>The nested function \<^verbatim>\<open>p\<close>: a path below a directory, with slashes.\<close>

definition path_in :: "string \<Rightarrow> string \<Rightarrow> string" where
  "path_in dir f = slashes (pjoin dir f)"

text \<open>The kernel images of \<^verbatim>\<open>--kdir\<close>.\<close>

definition kernel_files :: "(string \<Rightarrow> string option) \<Rightarrow> string \<Rightarrow> string \<Rightarrow> string option" where
  "kernel_files disk kdir k = disk (pjoin kdir (k @ ''.hex''))"

definition gen_main ::
  "(nat \<Rightarrow> rng) \<Rightarrow> (string \<Rightarrow> string option) \<Rightarrow> string \<Rightarrow> string \<Rightarrow> gen_args \<Rightarrow> gen_files result" where
  "gen_main stream disk kdir out_dir args =
     bindE (check_args args) (\<lambda>_.
     bindE (place_kernels (kernel_files disk kdir) []) (\<lambda>slots.
     let cfg = \<lparr>LANES = a_lanes args, WORDS = 2 ^ nat (a_words_lg args), SLOTS = slots\<rparr>; path = path_in out_dir
     in bindE (gen_cases stream cfg args) (\<lambda>cases.
        bindE (foldE (write_case path cfg) cases
          \<lparr>o_manifest = map (\<lambda>(name, slot). ''KERNEL '' @ str_nat slot @ '' '' @ path_in kdir (name @ ''.hex'')) slots,
           o_files = [], o_stdout = []\<rparr>) (\<lambda>out.
        Inr (out\<lparr>o_stdout := o_stdout out @ [''wrote '' @ path ''apps.manifest'']\<rparr>)))))"

section \<open>Every application of the tables\<close>

definition app_good :: "config \<Rightarrow> app_case gen \<Rightarrow> bool" where
  "app_good cfg f \<longleftrightarrow> (\<forall>g. \<exists>c g'. f g = Inr (c, g') \<and> case_ok cfg c)"

lemma app_goodI:
  assumes "\<And>g. \<exists>c g'. f g = Inr (c, g')" "\<And>g c g'. f g = Inr (c, g') \<Longrightarrow> case_ok cfg c"
  shows "app_good cfg f"
  using assms unfolding app_good_def by blast

lemma app_goodE:
  assumes "app_good cfg f"
  obtains c g' where "f g = Inr (c, g')" "case_ok cfg c"
  using assms unfolding app_good_def by blast

lemma gemm_good:
  assumes "map_of (SLOTS cfg) (if blocked then ''gemm_rb'' else ''gemm'') \<noteq> None" "k \<le> 2 ^ 24"
    and "blocked \<Longrightarrow> 4 dvd m \<and> 4 * LANES cfg dvd n \<and> LANES cfg \<noteq> 0"
  shows "app_good cfg (gemm cfg m n k blocked)"
proof (rule app_goodI)
  show "\<exists>c g'. gemm cfg m n k blocked g = Inr (c, g')" for g by (rule gemm_runs [OF assms])
  fix g c g' assume "gemm cfg m n k blocked g = Inr (c, g')"
  then obtain a b c0 where r: "gemm_case cfg m n k blocked a b (new_case c0) = Inr c"
    by (auto simp: gemm_def Let_def result_simps)
  show "case_ok cfg c" by (rule gemm_case_correct [OF new_case_ok r])
qed

lemma spmv_good:
  assumes "map_of (SLOTS cfg) (if zba then ''spmv_z'' else ''spmv'') \<noteq> None" "maxnnz \<le> cols" "maxnnz \<le> 2 ^ 24"
  shows "app_good cfg (spmv cfg rows cols maxnnz zba)"
proof (rule app_goodI)
  show "\<exists>c g'. spmv cfg rows cols maxnnz zba g = Inr (c, g')" for g by (rule spmv_runs [OF assms])
  fix g c g' assume "spmv cfg rows cols maxnnz zba g = Inr (c, g')"
  then obtain rp col val x c0 where r: "spmv_case cfg rows cols zba rp col val x (new_case c0) = Inr c"
    by (auto simp: spmv_def Let_def result_simps)
  show "case_ok cfg c" by (rule spmv_case_correct [OF new_case_ok r])
qed

lemma stencil_good:
  assumes "map_of (SLOTS cfg) (if rows \<noteq> 0 then ''stencil_rb'' else ''stencil'') \<noteq> None"
    and "rows \<noteq> 0 \<Longrightarrow> even rows \<and> rows dvd h"
  shows "app_good cfg (stencil cfg h w sweeps rows)"
proof (rule app_goodI)
  show "\<exists>c g'. stencil cfg h w sweeps rows g = Inr (c, g')" for g by (rule stencil_runs [OF assms])
  fix g c g' assume "stencil cfg h w sweeps rows g = Inr (c, g')"
  then obtain grid g1 c0 where g1: "repeatG ((h + 2) * (w + 2 * LANES cfg)) rand_f32 g = Inr (grid, g1)"
    and r: "stencil_case cfg h w sweeps rows grid (new_case c0) = Inr c"
    by (auto simp: stencil_def Let_def result_simps)
  have len: "length grid = (h + 2) * (w + 2 * LANES cfg)" using repeat_rand_f32_within [OF g1] by blast
  show "case_ok cfg c" by (rule stencil_case_correct [OF new_case_ok r len])
qed

lemma kmeans_good:
  assumes "map_of (SLOTS cfg) (if two then ''kmeans_u'' else ''kmeans'') \<noteq> None"
    and "0 < k" "k \<le> npts" "two \<Longrightarrow> even npts \<and> even k"
  shows "app_good cfg (kmeans cfg npts k two)"
proof (rule app_goodI)
  show "\<exists>c g'. kmeans cfg npts k two g = Inr (c, g')" for g by (rule kmeans_runs [OF assms])
  fix g c g' assume "kmeans cfg npts k two g = Inr (c, g')"
  then obtain px g1 py g2 seeds c0 where px: "repeatG npts (randrange (2 ^ 14)) g = Inr (px, g1)"
    and py: "repeatG npts (randrange (2 ^ 14)) g1 = Inr (py, g2)"
    and r: "kmeans_case cfg npts k two (map int px) (map int py) (map (\<lambda>i. int (px ! i)) seeds)
      (map (\<lambda>i. int (py ! i)) seeds) (new_case c0) = Inr c"
    by (auto simp: kmeans_def Let_def result_simps)
  have len: "length (map int px) = npts" "length (map int py) = npts"
    using randrange_points [OF px] randrange_points [OF py] by simp_all
  show "case_ok cfg c" by (rule kmeans_case_correct [OF new_case_ok r len])
qed

lemma bfs_good:
  assumes "map_of (SLOTS cfg) ''bfs'' \<noteq> None" "0 < nv" "int nv < UNSEEN"
  shows "app_good cfg (bfs cfg nv deg)"
proof (rule app_goodI)
  show "\<exists>c g'. bfs cfg nv deg g = Inr (c, g')" for g by (rule bfs_runs [OF assms])
  fix g c g' assume "bfs cfg nv deg g = Inr (c, g')"
  then obtain adj g1 c0 where adj: "bfs_graph nv deg g = Inr (adj, g1)"
    and c: "(let (rowptr, col) = bfs_csr nv adj in liftG (bfs_case cfg nv rowptr col (new_case c0))) g1 = Inr (c, g')"
    by (auto simp: bfs_def Let_def result_simps)
  obtain rowptr col where csr: "bfs_csr nv adj = (rowptr, col)" by (cases "bfs_csr nv adj")
  have r: "bfs_case cfg nv rowptr col (new_case c0) = Inr c" using c csr by (auto simp: result_simps)
  have vw: "bfs_view nv rowptr col (edges adj)"
    by (rule bfs_csr_view [OF conjunct1 [OF bfs_graph_ok [OF adj]] csr assms(2,3)])
  show "case_ok cfg c" by (rule bfs_case_correct [OF new_case_ok vw r])
qed

lemma scan_good:
  assumes "map_of (SLOTS cfg) ''scan'' \<noteq> None" "map_of (SLOTS cfg) ''scan_add'' \<noteq> None" "LANES cfg \<noteq> 0" "4 * LANES cfg dvd n"
  shows "app_good cfg (scan_app cfg n)"
proof (rule app_goodI)
  show "\<exists>c g'. scan_app cfg n g = Inr (c, g')" for g by (rule scan_runs [OF assms])
  fix g c g' assume "scan_app cfg n g = Inr (c, g')"
  then obtain vals c0 where r: "scan_case cfg n vals (new_case c0) = Inr c"
    by (auto simp: scan_app_def Let_def result_simps)
  show "case_ok cfg c" by (rule scan_case_correct [OF new_case_ok r])
qed

lemma scanseg_good:
  assumes "map_of (SLOTS cfg) ''scan_seg'' \<noteq> None" "map_of (SLOTS cfg) ''scan_segadd'' \<noteq> None" "2 \<le> LANES cfg"
    and "LANES cfg dvd n" "0 < n"
  shows "app_good cfg (scanseg_app cfg n)"
proof (rule app_goodI)
  show "\<exists>c g'. scanseg_app cfg n g = Inr (c, g')" for g
    unfolding scanseg_app_def by (rule scanseg_runs) (use assms in auto)
  fix g c g' assume "scanseg_app cfg n g = Inr (c, g')"
  then obtain vals c0 src c1 out k c2 where a1: "c_alloc n (Some vals) (new_case c0) = Inr (src, c1)"
    and l: "seg_level cfg 64 (n + 1) src n 0 c1 = Inr (out, k, c2)" and c: "c = expect out (scan_prefix 0 vals) c2"
    by (auto simp: scanseg_app_def scanseg_def scanseg_case_def Let_def result_simps)
  note f1 = c_alloc_facts [OF new_case_ok [of cfg] a1]
  have f2: "case_ok cfg c2" "holds (c_img c2) out (replicate n 0)" using seg_level_correct [OF l f1(1)] by auto
  have "length vals = n" using f1(6) by simp
  then show "case_ok cfg c" unfolding c by (rule prefix_expect(1) [OF f2])
qed

lemma zbtest_good: "map_of (SLOTS cfg) ''zbtest'' \<noteq> None \<Longrightarrow> app_good cfg (zbtest cfg n)"
  unfolding app_good_def using zbtest_full by blast

lemma mlp_good:
  assumes "map_of (SLOTS cfg) ''mlp'' \<noteq> None" "4 dvd k" "k \<le> 1024" "\<forall>n \<in> set ns. n \<le> 1024"
  shows "app_good cfg (mlp cfg batch (k # ns))"
  unfolding app_good_def using mlp_runs [OF assms] by blast


lemma mlp_good3:
  assumes "map_of (SLOTS cfg) ''mlp'' \<noteq> None"
  shows "app_good cfg (mlp cfg batch [784, 128, 10])" "app_good cfg (mlp cfg batch [784, 256, 128, 10])"
  by (rule mlp_good; use assms in simp)+

lemma sizes_good:
  assumes slots: "\<forall>k \<in> set KERNELS. map_of (SLOTS cfg) k \<noteq> None" and lanes: "LANES cfg \<in> {4, 8, 16}"
    and f: "(name, fs) \<in> set (SIZES cfg)" "f \<in> set fs"
  shows "app_good cfg f"
proof -
  have s: "map_of (SLOTS cfg) k \<noteq> None" if "k \<in> set KERNELS" for k using slots that by blast
  have "4 * LANES cfg dvd 64" using lanes by auto
  then have d: "4 * LANES cfg dvd n" if "64 dvd n" for n using that by (rule dvd_trans)
  then have d': "LANES cfg dvd n" if "64 dvd n" for n using that dvd_mult_right by blast
  have l: "LANES cfg \<noteq> 0" "2 \<le> LANES cfg" using lanes by auto
  have g: "app_good cfg (gemm cfg m n k False)" if "k \<le> 2 ^ 24" for m n k
    by (rule gemm_good) (use that s [of "''gemm''"] in \<open>auto simp: KERNELS_def\<close>)
  have gb: "app_good cfg (gemm cfg m n k True)" if "k \<le> 2 ^ 24" "4 dvd m" "64 dvd n" for m n k
    by (rule gemm_good) (use that s [of "''gemm_rb''"] d l in \<open>auto simp: KERNELS_def\<close>)
  have sp: "app_good cfg (spmv cfg m n 16 z)" if "16 \<le> n" for m n z
    by (rule spmv_good) (use that s [of "''spmv''"] s [of "''spmv_z''"] in \<open>auto simp: KERNELS_def\<close>)
  have st: "app_good cfg (stencil cfg h w t 0)" for h w t
    by (rule stencil_good) (use s [of "''stencil''"] in \<open>auto simp: KERNELS_def\<close>)
  have sb: "app_good cfg (stencil cfg h w t 16)" if "16 dvd h" for h w t
    by (rule stencil_good) (use that s [of "''stencil_rb''"] in \<open>auto simp: KERNELS_def\<close>)
  have km: "app_good cfg (kmeans cfg n k False)" if "0 < k" "k \<le> n" for n k
    by (rule kmeans_good) (use that s [of "''kmeans''"] in \<open>auto simp: KERNELS_def\<close>)
  have ku: "app_good cfg (kmeans cfg n k True)" if "0 < k" "k \<le> n" "even n" "even k" for n k
    by (rule kmeans_good) (use that s [of "''kmeans_u''"] in \<open>auto simp: KERNELS_def\<close>)
  have bf: "app_good cfg (bfs cfg n k)" if "0 < n" "int n < UNSEEN" for n k
    by (rule bfs_good) (use that s [of "''bfs''"] in \<open>auto simp: KERNELS_def\<close>)
  have sc: "app_good cfg (scan_app cfg n)" if "64 dvd n" for n
    by (rule scan_good) (use that d l s [of "''scan''"] s [of "''scan_add''"] in \<open>auto simp: KERNELS_def\<close>)
  have ss: "app_good cfg (scanseg_app cfg n)" if "64 dvd n" "0 < n" for n
    by (rule scanseg_good) (use that d' l s [of "''scan_seg''"] s [of "''scan_segadd''"] in \<open>auto simp: KERNELS_def\<close>)
  have ml: "app_good cfg (mlp cfg b [784, 128, 10])" "app_good cfg (mlp cfg b [784, 256, 128, 10])" for b
    by (rule mlp_good3; use s [of "''mlp''"] in \<open>simp add: KERNELS_def\<close>)+
  have zb: "app_good cfg (zbtest cfg n)" for n
    by (rule zbtest_good) (use s [of "''zbtest''"] in \<open>simp add: KERNELS_def\<close>)
  have dv: "64 dvd (64::nat)" "64 dvd (256::nat)" "64 dvd (2048::nat)" "64 dvd (65536::nat)" "64 dvd (2 ^ 20 :: nat)"
    "16 dvd (128::nat)" "16 dvd (512::nat)" "4 dvd (64::nat)" "4 dvd (256::nat)" by (simp_all add: dvd_eq_mod_eq_0)
  have p20: "(0::nat) < 2 ^ 20" by simp
  have "list_all (\<lambda>(_, fs). list_all (app_good cfg) fs) (SIZES cfg)"
    unfolding SIZES_def list.pred_inject prod.case
    by (intro conjI TrueI g gb sp st sb km ku bf sc ss ml zb dv p20) (simp_all add: UNSEEN_def)
  then show ?thesis using f by (auto simp: list_all_iff)
qed

section \<open>The cases of a run\<close>

lemma SIZES_names: "map fst (SIZES cfg) = [''small'', ''large'', ''board'', ''dram'']"
  by (simp add: SIZES_def)

lemma gen_cases_good:
  assumes slots: "\<forall>k \<in> set KERNELS. map_of (SLOTS cfg) k \<noteq> None" and lanes: "LANES cfg \<in> {4, 8, 16}"
    and size: "a_size args \<in> set [''small'', ''large'', ''board'', ''dram'']"
  shows "\<exists>cs. gen_cases stream cfg args = Inr cs \<and> (\<forall>c \<in> set cs. case_ok cfg c)"
proof -
  obtain fs where fs: "map_of (SIZES cfg) (a_size args) = Some fs"
    using size SIZES_names [of cfg] by (metis map_of_eq_None_iff option.exhaust set_map)
  then have good: "app_good cfg f" if "f \<in> set fs" for f
    using sizes_good [OF slots lanes] map_of_SomeD that by metis
  show ?thesis
  proof (cases "a_size args \<in> set [''small'', ''large'']")
    case True
    have "\<exists>cs g'. mapG (\<lambda>f. f) xs g = Inr (cs, g') \<and> (\<forall>c \<in> set cs. case_ok cfg c)"
      if "set xs \<subseteq> set fs" for xs g using that
    proof (induction xs arbitrary: g)
      case (Cons f xs)
      obtain c g1 where c: "f g = Inr (c, g1)" "case_ok cfg c"
        by (rule app_goodE [OF good [of f]]) (use Cons.prems in auto)
      obtain cs g2 where "mapG (\<lambda>f. f) xs g1 = Inr (cs, g2)" "\<forall>c \<in> set cs. case_ok cfg c"
        using Cons.IH [of g1] Cons.prems by auto
      with c show ?case by (simp add: bindG_def returnG_def)
    qed (simp add: returnG_def)
    then obtain cs g' where "mapG (\<lambda>f. f) fs (stream 2027) = Inr (cs, g')" "\<forall>c \<in> set cs. case_ok cfg c" by blast
    with True fs show ?thesis by (simp add: gen_cases_def)
  next
    case False
    have "\<exists>cs. mapE (\<lambda>(i, f). bindE (f (stream (seed_of i))) (\<lambda>(c, _). Inr c)) xs = Inr cs \<and> (\<forall>c \<in> set cs. case_ok cfg c)"
      if "snd ` set xs \<subseteq> set fs" for xs using that
    proof (induction xs)
      case (Cons x xs)
      obtain i f where x: "x = (i, f)" by (cases x)
      obtain c g1 where c: "f (stream (seed_of i)) = Inr (c, g1)" "case_ok cfg c"
        by (rule app_goodE [OF good [of f]]) (use Cons.prems x in auto)
      with Cons.IH Cons.prems x show ?case by auto
    qed simp
    moreover have "snd ` set (filter (\<lambda>(i, f). a_only args = [] \<or> APPS ! i \<in> set (a_only args)) (enumerate 0 fs)) \<subseteq> set fs"
      by (auto simp: in_set_enumerate_eq)
    ultimately show ?thesis using False fs by (simp add: gen_cases_def del: set_simps)
  qed
qed

section \<open>The names of a run\<close>

text \<open>The applications of a table, by the prefix of their names.\<close>

definition prefixes :: "string \<Rightarrow> string list" where
  "prefixes tab =
     (if tab = ''small'' then take 7 APPS @ [''zbtest''] else if tab = ''large'' then take 7 APPS else APPS)"

text \<open>No prefix holds a separator.\<close>

definition plain_char :: "char \<Rightarrow> bool" where
  "plain_char c \<longleftrightarrow> c \<noteq> CHR ''_'' \<and> c \<noteq> CHR 0x5C \<and> c \<noteq> CHR ''/''"

lemma prefixes_sub: "set (prefixes tab) \<subseteq> set (APPS @ [''zbtest''])"
  by (auto simp only: prefixes_def set_append split: if_splits dest: in_set_takeD)

lemma prefixes_distinct: "distinct (prefixes tab)"
proof -
  have "distinct APPS" "distinct (take 7 APPS)" "distinct (take 7 APPS @ [''zbtest''])" by code_simp+
  then show ?thesis by (simp only: prefixes_def split: if_splits) simp
qed

lemma prefixes_plain: "t \<in> set (prefixes tab) \<Longrightarrow> t \<noteq> [] \<and> list_all plain_char t"
proof -
  have "list_all (\<lambda>t. t \<noteq> [] \<and> list_all plain_char t) (APPS @ [''zbtest''])" by code_simp
  then show "t \<in> set (prefixes tab) \<Longrightarrow> t \<noteq> [] \<and> list_all plain_char t"
    using prefixes_sub [of tab] unfolding list_all_iff [of _ "APPS @ [''zbtest'']"] by blast
qed

lemma SIZES_named:
  assumes "map_of (SIZES cfg) tab = Some fs"
  shows "list_all2 named (prefixes tab) fs"
proof -
  have n: "named ''gemm'' (gemm cfg m n k False)" "named ''gemmrb'' (gemm cfg m n k True)" "named ''spmv'' (spmv cfg m n k False)"
    "named ''spmvz'' (spmv cfg m n k True)" "named ''kmeans'' (kmeans cfg m n False)" "named ''kmeansu'' (kmeans cfg m n True)"
    "named ''stencil'' (stencil cfg m n k 0)" "named ''stencilrb'' (stencil cfg m n k 16)" for m n k
    using gemm_named [of False] gemm_named [of True] spmv_named [of False] spmv_named [of True] kmeans_named [of False] kmeans_named [of True]
      stencil_named [of 0] stencil_named [of 16] by simp_all
  have "tab \<in> set (map fst (SIZES cfg))" using assms by (metis domI dom_map_of_conv_image_fst set_map)
  then have "tab = ''small'' \<or> tab = ''large'' \<or> tab = ''board'' \<or> tab = ''dram''" by (simp add: SIZES_def)
  moreover have "fs = the (map_of (SIZES cfg) tab)" using assms by simp
  ultimately show ?thesis
    by (elim disjE) (simp_all add: SIZES_def prefixes_def APPS_def scanseg_app_def n bfs_named scan_named scanseg_named zbtest_named mlp_named)
qed

definition has_prefix :: "string \<Rightarrow> app_case \<Rightarrow> bool" where
  "has_prefix t c \<longleftrightarrow> (\<exists>s. c_name c = t @ ''_'' @ s)"

lemma mapG_named: "list_all2 named ts fs \<Longrightarrow> mapG (\<lambda>f. f) fs g = Inr (cs, g') \<Longrightarrow> list_all2 has_prefix ts cs"
proof (induction arbitrary: cs g rule: list_all2_induct)
  case (Cons t ts f fs)
  then obtain c g1 cs1 where "f g = Inr (c, g1)" "mapG (\<lambda>f. f) fs g1 = Inr (cs1, g')" "cs = c # cs1"
    by (auto simp: result_simps returnG_def)
  with Cons show ?case by (auto simp: named_def has_prefix_def)
qed (simp add: result_simps returnG_def)

lemma mapE_named:
  assumes "list_all2 named ts fs" "set xs \<subseteq> set (enumerate 0 fs)" "mapE (\<lambda>(i, f). bindE (f (stream (seed_of i))) (\<lambda>(c, _). Inr c)) xs = Inr cs"
  shows "list_all2 has_prefix (map (\<lambda>(i, f). ts ! i) xs) cs"
  using assms(2,3)
proof (induction xs arbitrary: cs)
  case (Cons x xs)
  obtain i f where x: "x = (i, f)" by (cases x)
  obtain c g cs1 where c: "f (stream (seed_of i)) = Inr (c, g)" "cs = c # cs1"
    and r: "mapE (\<lambda>(i, f). bindE (f (stream (seed_of i))) (\<lambda>(c, _). Inr c)) xs = Inr cs1"
    using Cons.prems(2) x by (auto simp: result_simps)
  have "i < length fs" "fs ! i = f" using Cons.prems(1) x by (auto simp: in_set_enumerate_eq)
  then have "named (ts ! i) f" using assms(1) by (auto simp: list_all2_conv_all_nth)
  then have "has_prefix (ts ! i) c" using c(1) by (auto simp: named_def has_prefix_def)
  then show ?case using Cons.IH [OF _ r] Cons.prems(1) x c(2) by simp
qed simp

text \<open>The cases of a run have different prefixes.\<close>

lemma gen_cases_names:
  assumes "gen_cases stream cfg args = Inr cs" "a_size args \<in> set [''small'', ''large'', ''board'', ''dram'']"
  shows "\<exists>ts. distinct ts \<and> set ts \<subseteq> set (prefixes (a_size args)) \<and> list_all2 has_prefix ts cs"
proof -
  obtain fs where fs: "map_of (SIZES cfg) (a_size args) = Some fs"
    using assms(2) SIZES_names [of cfg] by (metis map_of_eq_None_iff option.exhaust set_map)
  let ?ts = "prefixes (a_size args)"
  have nm: "list_all2 named ?ts fs" by (rule SIZES_named [OF fs])
  show ?thesis
  proof (cases "a_size args \<in> set [''small'', ''large'']")
    case True
    then obtain g' where "mapG (\<lambda>f. f) fs (stream 2027) = Inr (cs, g')"
      using assms(1) fs by (auto simp: gen_cases_def result_simps)
    then show ?thesis using mapG_named [OF nm] prefixes_distinct by (intro exI [of _ ?ts]) auto
  next
    case False
    define xs where "xs = filter (\<lambda>(i, f). a_only args = [] \<or> APPS ! i \<in> set (a_only args)) (enumerate 0 fs)"
    have r: "mapE (\<lambda>(i, f). bindE (f (stream (seed_of i))) (\<lambda>(c, _). Inr c)) xs = Inr cs"
      using assms(1) fs False by (simp add: gen_cases_def xs_def del: set_simps)
    have sub: "set xs \<subseteq> set (enumerate 0 fs)" by (auto simp: xs_def)
    have len: "length fs = length ?ts" using nm by (simp add: list_all2_lengthD)
    have "map fst (enumerate 0 fs) = [0..<length fs]" by simp
    then have "distinct (map fst (enumerate 0 fs))" by (simp only: distinct_upt)
    then have "distinct (map fst xs)" unfolding xs_def by (rule distinct_map_filter)
    moreover have lt: "i < length ?ts" if "i \<in> fst ` set xs" for i using sub that len by (force simp: in_set_enumerate_eq)
    then have "inj_on ((!) ?ts) (fst ` set xs)" using nth_eq_iff_index_eq [OF prefixes_distinct] by (blast intro: inj_onI)
    ultimately have "distinct (map ((!) ?ts) (map fst xs))" unfolding distinct_map by simp
    then have "distinct (map (\<lambda>(i, f). ?ts ! i) xs)" by (simp add: o_def split_def)
    moreover have "set (map (\<lambda>(i, f). ?ts ! i) xs) \<subseteq> set ?ts" using lt by force
    ultimately show ?thesis using mapE_named [OF nm sub r] by blast
  qed
qed

text \<open>Different prefixes give different paths, whatever the output directory.\<close>

lemma slashes_append: "slashes (xs @ ys) = slashes xs @ slashes ys"
  by (simp add: slashes_def)

lemma path_in_prefix: "\<exists>q. \<forall>t s. t \<in> set (prefixes tab) \<longrightarrow> path_in dir (t @ s) = q @ slashes (t @ s)"
proof -
  have "pjoin dir (t @ s) = (if dir = [] then [] else if ends_with ''/'' dir then dir else dir @ ''/'') @ t @ s"
    if "t \<in> set (prefixes tab)" for t s
    using prefixes_plain [OF that] by (cases t) (simp_all add: pjoin_def starts_with_def plain_char_def)
  then have "path_in dir (t @ s) = slashes (if dir = [] then [] else if ends_with ''/'' dir then dir else dir @ ''/'') @ slashes (t @ s)"
    if "t \<in> set (prefixes tab)" for t s using that unfolding path_in_def by (simp only: slashes_append)
  then show ?thesis by blast
qed

lemma path_in_inj:
  assumes "t \<in> set (prefixes tab)" "u \<in> set (prefixes tab)" "path_in dir (t @ ''_'' @ s) = path_in dir (u @ ''_'' @ r)"
  shows "t = u"
proof -
  have e: "slashes (t @ ''_'' @ s) = slashes (u @ ''_'' @ r)" using path_in_prefix [of tab dir] assms by (metis same_append_eq)
  have p: "takeWhile (\<lambda>c. c \<noteq> CHR ''_'') (slashes (x @ ''_'' @ y)) = x" if "x \<in> set (prefixes tab)" for x y
  proof -
    have x: "\<forall>c \<in> set x. plain_char c" using prefixes_plain [OF that] by (simp add: list_all_iff)
    then have "slashes x = x" unfolding slashes_def by (intro map_idI) (simp add: plain_char_def)
    then have "slashes (x @ ''_'' @ y) = x @ CHR ''_'' # slashes y" by (simp add: slashes_def)
    then show ?thesis using x by (simp add: takeWhile_append2 plain_char_def)
  qed
  show ?thesis using p [OF assms(1), of s] p [OF assms(2), of r] e by simp
qed

lemma path_mem_gold:
  assumes "has_prefix t c" "t \<in> set (prefixes tab)"
  shows "path_in dir (c_name c @ ''.mem'') \<noteq> path_in dir (c_name c @ ''.gold'')"
proof -
  obtain s where s: "c_name c = t @ ''_'' @ s" using assms(1) by (auto simp: has_prefix_def)
  have "last (path_in dir (t @ ''_'' @ s @ ''.mem'')) \<noteq> last (path_in dir (t @ ''_'' @ s @ ''.gold''))"
    using path_in_prefix [of tab dir] assms(2) by (force simp: slashes_def)
  then show ?thesis using s by auto
qed

section \<open>The files of a run\<close>

text \<open>The files of the cases, in the order they are written.\<close>

definition case_files :: "(string \<Rightarrow> string) \<Rightarrow> nat \<Rightarrow> app_case \<Rightarrow> (string \<times> string list) list" where
  "case_files path words c =
     [(path (c_name c @ ''.mem''), write_image words (c_img c)), (path (c_name c @ ''.gold''), gold_lines words c)]"

lemma case_files_distinct:
  assumes "distinct ts" "set ts \<subseteq> set (prefixes tab)" "list_all2 has_prefix ts cs"
  shows "distinct (map fst (concat (map (case_files (path_in dir) words) cs)))"
  using assms(3,1,2)
proof (induction rule: list_all2_induct)
  case (Cons t ts c cs)
  obtain s where s: "c_name c = t @ ''_'' @ s" using Cons.hyps(1) by (auto simp: has_prefix_def)
  have "path_in dir (c_name c @ e) \<noteq> path_in dir (c_name d @ e')" if d: "d \<in> set cs" for d e e'
  proof -
    obtain i where i: "i < length cs" "cs ! i = d" using d by (auto simp: in_set_conv_nth)
    obtain u where u: "u \<in> set ts" "has_prefix u d" using list_all2_nthD2 [OF Cons.hyps(2) i(1)] i list_all2_lengthD [OF Cons.hyps(2)] nth_mem by metis
    then obtain r where "c_name d = u @ ''_'' @ r" by (auto simp: has_prefix_def)
    moreover have "t \<noteq> u" "t \<in> set (prefixes tab)" "u \<in> set (prefixes tab)" using Cons.prems u(1) by auto
    ultimately show ?thesis using path_in_inj [of t tab u dir "s @ e" "r @ e'"] s by fastforce
  qed
  moreover have "path_in dir (c_name c @ ''.mem'') \<noteq> path_in dir (c_name c @ ''.gold'')"
    using path_mem_gold [OF Cons.hyps(1)] Cons.prems(2) by auto
  ultimately show ?case using Cons.IH Cons.prems by (auto simp: case_files_def)
qed simp

lemma map_of_fold_update: "map_of (fold (\<lambda>(k, v). AList.update k v) es d) = map_of d ++ map_of (rev es)"
  by (induction es arbitrary: d) (auto simp: update_conv')

lemma write_cases:
  "foldE (write_case path cfg) cs out =
     (if \<forall>c \<in> set cs. img_top (c_img c) - DDR_BASE \<le> 4 * WORDS cfg
      then Inr \<lparr>o_manifest = o_manifest out @ concat (map (case_lines path) cs),
        o_files = fold (\<lambda>(k, v). AList.update k v) (concat (map (case_files path (WORDS cfg)) cs)) (o_files out),
        o_stdout = o_stdout out @ map summary_line cs\<rparr>
      else Inl AssertionError)"
  by (induction cs arbitrary: out) (auto simp: write_case_def assertE_def case_files_def)

lemma place_kernels_all:
  assumes "place_kernels files d = Inr slots" "k \<in> set KERNELS"
  shows "map_of slots k \<noteq> None"
proof -
  obtain i where i: "i < length KERNELS" "KERNELS ! i = k" using assms(2) by (auto simp: in_set_conv_nth)
  have "slots = slots_loop files KERNELS 0 d" using assms(1) by (simp add: place_kernels_eq split: if_splits)
  then show ?thesis using slots_loop_slot [OF KERNELS_distinct i(1), of files 0 d] i(2) by simp
qed

lemma check_args_Inr:
  "check_args args = Inr () \<longleftrightarrow> a_size args \<in> set [''small'', ''large'', ''board'', ''dram''] \<and>
     a_lanes args \<in> {4, 8, 16} \<and> 0 \<le> a_words_lg args \<and> \<not> (a_lanes args \<noteq> 8 \<and> a_default_kdir args)"
  by (auto simp: check_args_def)

text \<open>The run as a whole: whether the last assertion stops it, and what it leaves behind.\<close>

lemma gen_main_run:
  assumes "check_args args = Inr ()" "place_kernels (kernel_files disk kdir) [] = Inr slots"
  defines "words \<equiv> 2 ^ nat (a_words_lg args)"
  defines "cfg \<equiv> \<lparr>LANES = a_lanes args, WORDS = words, SLOTS = slots\<rparr>"
  shows "\<exists>cs. gen_cases stream cfg args = Inr cs \<and> (\<forall>c \<in> set cs. case_ok cfg c) \<and>
     (if \<forall>c \<in> set cs. img_top (c_img c) - DDR_BASE \<le> 4 * words
      then \<exists>out. gen_main stream disk kdir out_dir args = Inr out \<and>
        (\<forall>c \<in> set cs. map_of (o_files out) (path_in out_dir (c_name c @ ''.mem'')) = Some (write_image words (c_img c)) \<and>
           map_of (o_files out) (path_in out_dir (c_name c @ ''.gold'')) = Some (gold_lines words c) \<and>
           set (case_lines (path_in out_dir) c) \<subseteq> set (o_manifest out))
      else gen_main stream disk kdir out_dir args = Inl AssertionError)"
proof -
  have "\<forall>k \<in> set KERNELS. map_of (SLOTS cfg) k \<noteq> None" using place_kernels_all [OF assms(2)] by (simp add: cfg_def)
  moreover have sz: "LANES cfg \<in> {4, 8, 16}" "a_size args \<in> set [''small'', ''large'', ''board'', ''dram'']"
    using assms(1) by (simp_all only: cfg_def check_args_Inr config.simps simp_thms)
  ultimately obtain cs where cs: "gen_cases stream cfg args = Inr cs" "\<forall>c \<in> set cs. case_ok cfg c"
    using gen_cases_good [where cfg = cfg and args = args and stream = stream] by blast
  let ?es = "concat (map (case_files (path_in out_dir) words) cs)"
  have run: "gen_main stream disk kdir out_dir args =
      (if \<forall>c \<in> set cs. img_top (c_img c) - DDR_BASE \<le> 4 * words
       then Inr \<lparr>o_manifest = map (\<lambda>(name, slot). ''KERNEL '' @ str_nat slot @ '' '' @ path_in kdir (name @ ''.hex'')) slots
                   @ concat (map (case_lines (path_in out_dir)) cs),
                 o_files = fold (\<lambda>(k, v). AList.update k v) ?es [],
                 o_stdout = map summary_line cs @ [''wrote '' @ path_in out_dir ''apps.manifest'']\<rparr>
       else Inl AssertionError)"
    using cs(1) assms(1,2) unfolding cfg_def words_def by (simp add: gen_main_def write_cases Let_def)
  obtain ts where "distinct ts" "set ts \<subseteq> set (prefixes (a_size args))" "list_all2 has_prefix ts cs"
    using gen_cases_names [OF cs(1) sz(2)] by blast
  then have "distinct (map fst ?es)" by (rule case_files_distinct)
  then have d: "distinct (map fst (rev ?es))" by (simp add: rev_map [symmetric])
  have "map_of (fold (\<lambda>(k, v). AList.update k v) ?es []) k = Some v" if "(k, v) \<in> set ?es" for k v
    unfolding map_of_fold_update using map_of_is_SomeI [OF d] that by simp
  then have "map_of (fold (\<lambda>(k, v). AList.update k v) ?es []) (path_in out_dir (c_name c @ ''.mem'')) = Some (write_image words (c_img c)) \<and>
      map_of (fold (\<lambda>(k, v). AList.update k v) ?es []) (path_in out_dir (c_name c @ ''.gold'')) = Some (gold_lines words c)"
    if "c \<in> set cs" for c using that by (simp add: case_files_def) blast
  then show ?thesis using cs run by (intro exI [of _ cs]) auto
qed

section \<open>Reading the golden file back\<close>

text \<open>The reader of the testbench: \<^verbatim>\<open>$fscanf(fd, "%h %h\n", idx, exp)\<close>.\<close>

definition read_pair :: "string \<Rightarrow> (nat \<times> nat) option" where
  "read_pair l =
     (case split_on (CHR '' '') l of
        [i, v] \<Rightarrow> (case (read_hex i, read_hex v) of (Some a, Some b) \<Rightarrow> Some (a, b) | _ \<Rightarrow> None)
      | _ \<Rightarrow> None)"

fun read_gold :: "string list \<Rightarrow> (nat \<times> nat) list option" where
  "read_gold [] = Some []"
| "read_gold (l # ls) =
     (case (read_pair l, read_gold ls) of (Some x, Some xs) \<Rightarrow> Some (x # xs) | _ \<Rightarrow> None)"

lemma hex_no_space: "CHR '' '' \<notin> set (hex n)" "CHR '' '' \<notin> set (hex8 n)"
proof -
  have "CHR '' '' \<noteq> digit_char d" if "d < 16" for d
  proof
    assume "CHR '' '' = digit_char d"
    then have "digit_val (CHR '' '') = Some d" using digit_val_char [OF that] by simp
    then show False by (simp add: digit_val_def)
  qed
  then show "CHR '' '' \<notin> set (hex n)" using digits_in_alphabet [of 16 "CHR '' ''" n] by (auto simp: hex_def)
  then show "CHR '' '' \<notin> set (hex8 n)" by (auto simp: hex8_def zfill_def)
qed

lemma read_pair_line: "read_pair (hex i @ '' '' @ hex8 v) = Some (i, v)"
  using split_on_append_sep [OF hex_no_space(1), of i "hex8 v"]
  by (simp add: read_pair_def split_on_no_sep hex_no_space)

lemma read_gold_lines:
  "read_gold (gold_lines words c) =
     Some (map (\<lambda>a. (word_index words a, nat (the (map_of (c_gold c) a)))) (sort (map fst (c_gold c))))"
proof -
  have "read_gold (map (\<lambda>a. hex (f a) @ '' '' @ hex8 (g a)) as) = Some (map (\<lambda>a. (f a, g a)) as)" for f g and as :: "nat list"
    by (induction as) (simp_all only: list.map read_gold.simps read_pair_line option.case prod.case)
  then show ?thesis by (simp add: gold_lines_def)
qed

lemma gold_file_meaning:
  assumes ok: "case_ok cfg c" and size: "img_top (c_img c) - DDR_BASE \<le> 4 * 2 ^ lg" and lg: "lg \<le> 26"
  shows "\<exists>ps. read_gold (gold_lines (2 ^ lg) c) = Some ps \<and> distinct (map fst ps) \<and>
     length ps = length (c_gold c) \<and>
     (\<forall>(i, v) \<in> set ps. ddr_words (c_img c) i \<noteq> None \<and> map_of (c_gold c) (DDR_BASE + 4 * i) = Some (int v))"
proof -
  let ?as = "sort (map fst (c_gold c))"
  let ?ps = "map (\<lambda>a. (word_index (2 ^ lg) a, nat (the (map_of (c_gold c) a)))) ?as"
  have key: "\<exists>q v. a = DDR_BASE + 4 * q \<and> word_index (2 ^ lg) a = q \<and> map_of (c_gold c) a = Some v \<and>
     0 \<le> v \<and> img_look (c_img c) a \<noteq> None" if "a \<in> set ?as" for a
  proof -
    obtain v where v: "map_of (c_gold c) a = Some v" using \<open>a \<in> set ?as\<close>
      by (metis map_of_eq_None_iff option.exhaust set_map set_sort)
    then have w: "img_look (c_img c) a \<noteq> None" "0 \<le> v" using ok unfolding case_ok_def by blast+
    then obtain u where "map_of (img_words (c_img c)) a = Some u" by (auto simp: img_look_def)
    then have a: "DDR_BASE \<le> a" "a < img_top (c_img c)" "4 dvd a"
      using ok unfolding case_ok_def image_ok_def by blast+
    then have "word_index (2 ^ lg) a = (a - DDR_BASE) div 4" using size lg by (intro word_index_eq) auto
    moreover have "4 dvd a - DDR_BASE" using a by (intro dvd_diff_nat) (auto simp: DDR_BASE_def dvd_eq_mod_eq_0)
    ultimately show ?thesis using v w a by (intro exI [of _ "(a - DDR_BASE) div 4"] exI [of _ v]) auto
  qed
  have "inj_on (word_index (2 ^ lg)) (set ?as)"
  proof (rule inj_onI)
    fix a b assume "a \<in> set ?as" "b \<in> set ?as" and eq: "word_index (2 ^ lg) a = word_index (2 ^ lg) b"
    moreover have "x = DDR_BASE + 4 * word_index (2 ^ lg) x" if "x \<in> set ?as" for x using key [OF that] by auto
    ultimately show "a = b" using eq by metis
  qed
  moreover have "distinct ?as" using ok by (simp add: case_ok_def)
  moreover have "map fst ?ps = map (word_index (2 ^ lg)) ?as" by (simp only: list.map_comp o_def fst_conv)
  ultimately have d: "distinct (map fst ?ps)" using distinct_map by metis
  have w: "ddr_words (c_img c) (word_index (2 ^ lg) a) \<noteq> None \<and>
    map_of (c_gold c) (DDR_BASE + 4 * word_index (2 ^ lg) a) = Some (int (nat (the (map_of (c_gold c) a))))"
    if "a \<in> set ?as" for a
  proof -
    obtain q v where "a = DDR_BASE + 4 * q" "word_index (2 ^ lg) a = q" "map_of (c_gold c) a = Some v" "0 \<le> v"
      "img_look (c_img c) a \<noteq> None" using key [OF \<open>a \<in> set ?as\<close>] by blast
    then show ?thesis by (simp add: ddr_words_def)
  qed
  have "\<forall>(i, v) \<in> set ?ps. ddr_words (c_img c) i \<noteq> None \<and> map_of (c_gold c) (DDR_BASE + 4 * i) = Some (int v)"
    unfolding list.set_map ball_simps prod.case using w by blast
  moreover have "length ?ps = length (c_gold c)" by simp
  ultimately show ?thesis using d read_gold_lines by blast
qed

section \<open>Two variants of one application\<close>

text \<open>Two runs agree when they end in related results, if both end.\<close>

definition agree :: "('a \<Rightarrow> 'b \<Rightarrow> bool) \<Rightarrow> 'a result \<Rightarrow> 'b result \<Rightarrow> bool" where
  "agree R m m' \<longleftrightarrow> (\<forall>x y. m = Inr x \<longrightarrow> m' = Inr y \<longrightarrow> R x y)"

definition alike :: "app_case \<Rightarrow> app_case \<Rightarrow> bool" where
  "alike c d \<longleftrightarrow> c_gold c = c_gold d \<and> img_top (c_img c) = img_top (c_img d)"

definition alike_at :: "'a \<times> app_case \<Rightarrow> 'a \<times> app_case \<Rightarrow> bool" where
  "alike_at x y \<longleftrightarrow> fst x = fst y \<and> alike (snd x) (snd y)"

lemma agree_bind:
  assumes "agree R m m'" "\<And>x y. R x y \<Longrightarrow> agree S (f x) (f' y)"
  shows "agree S (bindE m f) (bindE m' f')"
  using assms by (auto simp: agree_def bindE_Inr_iff)

lemma agree_same: "(\<And>x. agree S (f x) (f' x)) \<Longrightarrow> agree S (bindE m f) (bindE m f')"
  by (auto simp: agree_def bindE_Inr_iff)

lemma agree_Inr: "R x y \<Longrightarrow> agree R (Inr x) (Inr y)"
  by (simp add: agree_def)

lemma agree_pair: "(\<And>a c d. alike c d \<Longrightarrow> agree S (f a c) (f' a d)) \<Longrightarrow> alike_at x y \<Longrightarrow>
    agree S (case x of (a, c) \<Rightarrow> f a c) (case y of (a, c) \<Rightarrow> f' a c)"
  by (cases x; cases y) (auto simp: alike_at_def)

lemma agree_assert: "(\<And>u. agree S m (f u)) \<Longrightarrow> agree S m (bindE (assertE b) f)"
  "(\<And>u. agree S (g u) m') \<Longrightarrow> agree S (bindE (assertE b) g) m'"
  by (auto simp: agree_def bindE_Inr_iff)

lemma alike_expect: "alike c d \<Longrightarrow> alike (expect a vs c) (expect a vs d)"
  by (simp add: alike_def expect_def)

lemma agree_alloc: "alike c d \<Longrightarrow> length (init_vals n i) = length (init_vals n j) \<Longrightarrow> agree alike_at (c_alloc n i c) (c_alloc n j d)"
  by (auto simp: agree_def alike_at_def alike_def c_alloc_Inr alloc_Inr)

lemma agree_launch:
  "alike c d \<Longrightarrow> line_up (length ps) = line_up (length qs) \<Longrightarrow>
     agree alike (launch_case cfg t1 k1 ps n1 b1 c) (launch_case cfg t2 k2 qs n2 b2 d)"
  by (auto simp: agree_def alike_def launch_case_Inr c_alloc_Inr alloc_Inr)

lemma alike_new: "alike (new_case s) (new_case t)"
  by (simp add: alike_def new_case_def)

lemma agree_guard: "(\<And>u v. agree S (f u) (f' v)) \<Longrightarrow> agree S (bindE m f) (bindE m' f')" for m m' :: "unit result"
  by (auto simp: agree_def bindE_Inr_iff)

lemma agree_if:
  "(z \<Longrightarrow> agree S a m) \<Longrightarrow> (\<not> z \<Longrightarrow> agree S b m) \<Longrightarrow> agree S (if z then a else b) m"
  "(z \<Longrightarrow> agree S m a) \<Longrightarrow> (\<not> z \<Longrightarrow> agree S m b) \<Longrightarrow> agree S m (if z then a else b)"
  by simp_all

lemma agree_skip:
  "(\<And>u. agree S (f u) m) \<Longrightarrow> agree S (bindE e f) m" "(\<And>u. agree S m (f u)) \<Longrightarrow> agree S m (bindE e f)"
  by (auto simp: agree_def bindE_Inr_iff)

lemma agree_fold:
  assumes "\<And>x s t. R s t \<Longrightarrow> agree R (f x s) (f' x t)" "R s t"
  shows "agree R (foldE f xs s) (foldE f' xs t)"
  using assms(2)
proof (induction xs arbitrary: s t)
  case (Cons x xs)
  then show ?case by (auto intro: agree_bind [OF assms(1)])
qed (simp add: agree_Inr)

lemma spmv_case_alike:
  assumes "alike c d"
  shows "agree alike (spmv_case cfg m n z rp col val x c) (spmv_case cfg m n z' rp col val x d)"
  unfolding spmv_case_def Let_def
  by (rule assms refl agree_bind [OF agree_alloc] agree_bind [OF agree_launch] agree_same agree_Inr alike_expect |
     erule agree_pair [rotated] | assumption | simp)+

lemma kmeans_case_alike:
  assumes "alike c d"
  shows "agree alike (kmeans_case cfg n k z px py cx cy c) (kmeans_case cfg n k z' px py cx cy d)"
  unfolding kmeans_case_def Let_def
  by (rule assms refl agree_bind [OF agree_alloc] agree_bind [OF agree_launch] agree_guard agree_same agree_Inr alike_expect |
     erule agree_pair [rotated] | assumption | simp)+

lemma gemm_case_alike:
  assumes "alike c d"
  shows "agree alike (gemm_case cfg m n k z a b c) (gemm_case cfg m n k z' a b d)"
proof -
  have l: "agree alike
     (if z then bindE (if m mod 4 = 0 then bindE (py_mod n (4 * LANES cfg)) (\<lambda>r. Inr (r = 0)) else Inr False) (\<lambda>ok.
         bindE (assertE ok) (\<lambda>_. launch_case cfg ''gemm'' ''gemm_rb'' ps (m * n div 16) 0 c))
       else launch_case cfg ''gemm'' ''gemm'' ps (m * n) 0 c)
     (if z' then bindE (if m mod 4 = 0 then bindE (py_mod n (4 * LANES cfg)) (\<lambda>r. Inr (r = 0)) else Inr False) (\<lambda>ok.
         bindE (assertE ok) (\<lambda>_. launch_case cfg ''gemm'' ''gemm_rb'' ps (m * n div 16) 0 d))
       else launch_case cfg ''gemm'' ''gemm'' ps (m * n) 0 d)" if "alike c d" for c d ps
    using that by (intro agree_if agree_skip agree_launch refl)
  show ?thesis unfolding gemm_case_def
    by (rule assms refl agree_bind [OF agree_alloc] agree_bind [OF l] agree_same agree_Inr alike_expect |
       erule agree_pair [rotated] | assumption | simp)+
qed

lemma stencil_case_alike:
  assumes "alike c d"
  shows "agree alike (stencil_case cfg h w n r grid c) (stencil_case cfg h w n r' grid d)"
proof -
  have step: "agree alike_at (stencil_step cfg h w r bufs t s) (stencil_step cfg h w r' bufs t s')" if "alike_at s s'" for bufs t s s'
  proof -
    obtain cur c cur' d where s: "s = (cur, c)" "s' = (cur', d)" by (cases s; cases s')
    have cur: "cur' = cur" and cd: "alike c d" using that by (simp_all add: s alike_at_def)
    show ?thesis unfolding s stencil_step_def Let_def prod.case cur
      by (rule agree_bind [where R = alike], (intro agree_if agree_skip agree_launch cd; simp add: line_up)[1])
        (auto intro!: agree_same agree_Inr simp: alike_at_def)
  qed
  show ?thesis unfolding stencil_case_def
    by (rule assms refl agree_bind [OF agree_alloc] agree_bind [OF agree_fold [where R = alike_at, OF step]] agree_same agree_Inr alike_expect |
       erule agree_pair [rotated] | assumption | simp add: alike_at_def)+
qed

text \<open>The same for whole applications on the same stream.\<close>

definition same_results :: "app_case gen \<Rightarrow> app_case gen \<Rightarrow> bool" where
  "same_results f f' \<longleftrightarrow> (\<forall>g. agree (\<lambda>x y. alike (fst x) (fst y)) (f g) (f' g))"

lemma same_draw: "(\<And>x. same_results (f x) (f' x)) \<Longrightarrow> same_results (bindG m f) (bindG m f')"
  by (auto simp: same_results_def bindG_def split_beta intro!: agree_same)

lemma same_lift: "agree alike m m' \<Longrightarrow> same_results (liftG m) (liftG m')"
  by (auto simp: same_results_def liftG_def agree_def bindE_Inr_iff)

lemma same_pair: "(\<And>x y. same_results (f x y) (f' x y)) \<Longrightarrow> same_results (case p of (x, y) \<Rightarrow> f x y) (case p of (x, y) \<Rightarrow> f' x y)"
  by (cases p) simp

lemma variants_alike:
  "same_results (gemm cfg m n k False) (gemm cfg m n k True)"
  "same_results (spmv cfg m n k False) (spmv cfg m n k True)"
  "same_results (kmeans cfg n k False) (kmeans cfg n k True)"
  "same_results (stencil cfg m n k 0) (stencil cfg m n k r)"
  unfolding gemm_def spmv_def kmeans_def stencil_def Let_def
  by (intro same_draw same_pair same_lift gemm_case_alike spmv_case_alike kmeans_case_alike stencil_case_alike alike_new)+

lemma tables_alike:
  assumes "(name, fs) \<in> set (SIZES cfg)" "name \<in> {''board'', ''dram''}" "(i, j) \<in> {(0, 7), (1, 11), (2, 9), (3, 10)}"
  shows "same_results (fs ! i) (fs ! j)" "seed_of i = seed_of j"
proof -
  have "distinct (map fst (SIZES cfg))" by (simp add: SIZES_names)
  then have fs: "map_of (SIZES cfg) name = Some fs" using assms(1) by simp
  have t: "list_all (\<lambda>(i, j). same_results (the (map_of (SIZES cfg) name) ! i) (the (map_of (SIZES cfg) name) ! j))
      [(0, 7), (1, 11), (2, 9), (3, 10)]"
    if "name = ''board'' \<or> name = ''dram''" for name
    using that by (elim disjE) (simp_all add: SIZES_def variants_alike)
  have "(i, j) \<in> set [(0, 7), (1, 11), (2, 9), (3, 10)]" using assms(3) by simp
  then show "same_results (fs ! i) (fs ! j)" using t [of name] assms(2) fs by (fastforce simp: list_all_iff)
  have "list_all (\<lambda>(i, j). seed_of i = seed_of j) [(0, 7), (1, 11), (2, 9), (3, 10)]"
    by (simp add: seed_of_def APPS_def SEED_def)
  then show "seed_of i = seed_of j" using \<open>(i, j) \<in> set _\<close> by (simp only: list_all_iff) blast
qed

section \<open>Properties\<close>

text \<open>C2: How \<^verbatim>\<open>main\<close> of \<^verbatim>\<open>gen_apps.py\<close> ends, for every command line, seed and disk: invalid arguments are reported
  (a negative \<^verbatim>\<open>--words-lg\<close> raises \<^verbatim>\<open>ValueError\<close>); else a missing kernel file raises \<^verbatim>\<open>FileNotFoundError\<close>; else
  kernels that exceed the instruction RAM fail an assertion; else no application of any table fails for any of the three lane
  counts, and an assertion fails exactly when a case exceeds the DDR model; else every case has its image and its golden
  file under its own name.\<close>

theorem gen_main_outcome:
  "let files = (\<lambda>k. disk (pjoin kdir (k @ ''.hex''))); run = gen_main stream disk kdir out_dir args; words = 2 ^ nat (a_words_lg args)
   in if a_size args \<notin> {''small'', ''large'', ''board'', ''dram''} \<or> a_lanes args \<notin> {4, 8, 16} then \<exists>msg. run = Inl (SystemExit msg)
      else if a_words_lg args < 0 then run = Inl ValueError
      else if a_lanes args \<noteq> 8 \<and> a_default_kdir args then \<exists>msg. run = Inl (SystemExit msg)
      else if \<exists>k \<in> set KERNELS. files k = None then run = Inl FileNotFoundError
      else if IRAM_WORDS < 16 * (\<Sum>k\<leftarrow>KERNELS. ceil_div (length (split_ws (the (files k)))) 16) then run = Inl AssertionError
      else \<exists>slots cs. place_kernels files [] = Inr slots \<and>
        gen_cases stream \<lparr>LANES = a_lanes args, WORDS = words, SLOTS = slots\<rparr> args = Inr cs \<and>
        (if \<exists>c \<in> set cs. 4 * words < img_top (c_img c) - DDR_BASE then run = Inl AssertionError
         else \<exists>out. run = Inr out \<and>
           (\<forall>c \<in> set cs. map_of (o_files out) (path_in out_dir (c_name c @ ''.mem'')) = Some (write_image words (c_img c)) \<and>
              map_of (o_files out) (path_in out_dir (c_name c @ ''.gold'')) = Some (gold_lines words c)))"
proof -
  let ?words = "2 ^ nat (a_words_lg args) :: nat" and ?files = "\<lambda>k. disk (pjoin kdir (k @ ''.hex''))" and ?run = "gen_main stream disk kdir out_dir args"
  have kf: "kernel_files disk kdir = ?files" by (simp add: fun_eq_iff kernel_files_def)
  have err: "?run = Inl e" if "check_args args = Inl e" for e using that by (simp add: gen_main_def)
  have good: "\<exists>slots cs. place_kernels ?files [] = Inr slots \<and>
      gen_cases stream \<lparr>LANES = a_lanes args, WORDS = ?words, SLOTS = slots\<rparr> args = Inr cs \<and>
      (if \<exists>c \<in> set cs. 4 * ?words < img_top (c_img c) - DDR_BASE then ?run = Inl AssertionError
       else \<exists>out. ?run = Inr out \<and>
         (\<forall>c \<in> set cs. map_of (o_files out) (path_in out_dir (c_name c @ ''.mem'')) = Some (write_image ?words (c_img c)) \<and>
            map_of (o_files out) (path_in out_dir (c_name c @ ''.gold'')) = Some (gold_lines ?words c)))"
    if ca: "check_args args = Inr ()" and pl: "place_kernels ?files [] = Inr slots" for slots
  proof -
    obtain cs where cs: "gen_cases stream \<lparr>LANES = a_lanes args, WORDS = ?words, SLOTS = slots\<rparr> args = Inr cs"
      and r: "if \<forall>c \<in> set cs. img_top (c_img c) - DDR_BASE \<le> 4 * ?words
        then \<exists>out. ?run = Inr out \<and>
          (\<forall>c \<in> set cs. map_of (o_files out) (path_in out_dir (c_name c @ ''.mem'')) = Some (write_image ?words (c_img c)) \<and>
             map_of (o_files out) (path_in out_dir (c_name c @ ''.gold'')) = Some (gold_lines ?words c) \<and>
             set (case_lines (path_in out_dir) c) \<subseteq> set (o_manifest out))
        else ?run = Inl AssertionError"
      using gen_main_run [OF ca pl [folded kf], of stream out_dir] by blast
    have "(\<exists>c \<in> set cs. 4 * ?words < img_top (c_img c) - DDR_BASE) \<longleftrightarrow> \<not> (\<forall>c \<in> set cs. img_top (c_img c) - DDR_BASE \<le> 4 * ?words)"
      by (meson not_le)
    moreover have "if \<not> (\<forall>c \<in> set cs. img_top (c_img c) - DDR_BASE \<le> 4 * ?words) then ?run = Inl AssertionError
      else \<exists>out. ?run = Inr out \<and>
         (\<forall>c \<in> set cs. map_of (o_files out) (path_in out_dir (c_name c @ ''.mem'')) = Some (write_image ?words (c_img c)) \<and>
            map_of (o_files out) (path_in out_dir (c_name c @ ''.gold'')) = Some (gold_lines ?words c))"
    proof (cases "\<forall>c \<in> set cs. img_top (c_img c) - DDR_BASE \<le> 4 * ?words")
      case True
      show ?thesis using r unfolding if_P [OF True] using True by auto
    next
      case False
      show ?thesis using r unfolding if_not_P [OF False] using False by auto
    qed
    ultimately show ?thesis using cs pl by (intro exI [of _ slots] exI [of _ cs]) (simp only: simp_thms)
  qed
  have sum: "sum_list (map (kernel_slots ?files) KERNELS) = (\<Sum>k\<leftarrow>KERNELS. ceil_div (length (split_ws (the (?files k)))) 16)"
    if "\<not> (\<exists>k \<in> set KERNELS. ?files k = None)"
    using that by (intro arg_cong [where f = sum_list] map_cong) (auto simp: kernel_slots_def kernel_len_def)
  consider (bad) e where "check_args args = Inl e" | (ok) "check_args args = Inr ()" by (cases "check_args args") auto
  then show ?thesis
  proof cases
    case bad
    then show ?thesis using err [OF bad] unfolding Let_def by (auto simp: check_args_def split: if_splits)
  next
    case ok
    then have a: "\<not> (a_size args \<notin> {''small'', ''large'', ''board'', ''dram''} \<or> a_lanes args \<notin> {4, 8, 16})" "\<not> a_words_lg args < 0"
      "\<not> (a_lanes args \<noteq> 8 \<and> a_default_kdir args)" unfolding check_args_Inr by (simp_all only: set_simps not_less) simp_all
    show ?thesis
    proof (cases "place_kernels ?files []")
      case (Inl e)
      then have "?run = Inl e" using ok by (simp add: gen_main_def kf)
      show ?thesis
      proof (cases "\<exists>k \<in> set KERNELS. ?files k = None")
        case True
        then have "e = FileNotFoundError" using Inl unfolding place_kernels_eq by (simp only: if_True sum.inject)
        then show ?thesis unfolding Let_def using a True \<open>?run = Inl e\<close> by (simp only: if_True if_False)
      next
        case False
        then have "e = AssertionError" "IRAM_WORDS < 16 * (\<Sum>k\<leftarrow>KERNELS. ceil_div (length (split_ws (the (?files k)))) 16)"
          using Inl sum [OF False] unfolding place_kernels_eq by (simp_all only: if_False not_le split: if_splits) simp_all
        then show ?thesis unfolding Let_def using a False \<open>?run = Inl e\<close> by (simp only: if_True if_False)
      qed
    next
      case (Inr slots)
      have all: "\<not> (\<exists>k \<in> set KERNELS. ?files k = None)" using Inr unfolding place_kernels_eq by (auto simp only: sum.distinct split: if_splits)
      then have "16 * sum_list (map (kernel_slots ?files) KERNELS) \<le> IRAM_WORDS"
        using Inr unfolding place_kernels_eq by (auto simp only: if_False sum.distinct split: if_splits)
      with all have "\<not> (\<exists>k \<in> set KERNELS. ?files k = None)" "\<not> IRAM_WORDS < 16 * (\<Sum>k\<leftarrow>KERNELS. ceil_div (length (split_ws (the (?files k)))) 16)"
        unfolding sum [OF all] by (simp_all only: not_less simp_thms)
      then show ?thesis unfolding Let_def using good [OF ok Inr] a by (simp only: if_False)
    qed
  qed
qed

text \<open>C1: What \<^verbatim>\<open>main\<close> leaves behind is what the testbench needs: for every case of the run, the manifest names an image file and a
  golden file of its own; when all is written, the image file read back gives exactly the words of the case's image, and the golden
  file read back gives every expected word once, under the index of an initialised word of that image. The memory model has at
  most \<open>2 ^ 26\<close> words.\<close>

theorem gen_main_files:
  assumes "gen_main stream disk kdir out_dir args = Inr out" "a_words_lg args \<le> 26"
  shows "\<exists>slots cs. place_kernels (kernel_files disk kdir) [] = Inr slots \<and>
    gen_cases stream \<lparr>LANES = a_lanes args, WORDS = 2 ^ nat (a_words_lg args), SLOTS = slots\<rparr> args = Inr cs \<and>
    (\<forall>c \<in> set cs. \<exists>mem gold. map_of (o_files out) (path_in out_dir (c_name c @ ''.mem'')) = Some mem \<and>
       map_of (o_files out) (path_in out_dir (c_name c @ ''.gold'')) = Some gold \<and>
       ''MEM '' @ path_in out_dir (c_name c @ ''.mem'') \<in> set (o_manifest out) \<and> ''GOLD '' @ path_in out_dir (c_name c @ ''.gold'') \<in> set (o_manifest out) \<and>
       read_mem mem 0 Map.empty = Some (ddr_words (c_img c)) \<and>
       (\<exists>ps. read_gold gold = Some ps \<and> distinct (map fst ps) \<and> length ps = length (c_gold c) \<and>
         (\<forall>(i, v) \<in> set ps. ddr_words (c_img c) i \<noteq> None \<and> map_of (c_gold c) (DDR_BASE + 4 * i) = Some (int v))))"
proof -
  let ?lg = "nat (a_words_lg args)"
  obtain slots where ca: "check_args args = Inr ()" and pl: "place_kernels (kernel_files disk kdir) [] = Inr slots"
    using assms(1) by (auto simp: gen_main_def result_simps)
  have lg: "?lg \<le> 26" using assms(2) by simp
  obtain cs where cs: "gen_cases stream \<lparr>LANES = a_lanes args, WORDS = 2 ^ ?lg, SLOTS = slots\<rparr> args = Inr cs"
    and ok: "\<forall>c \<in> set cs. case_ok \<lparr>LANES = a_lanes args, WORDS = 2 ^ ?lg, SLOTS = slots\<rparr> c"
    and sz: "\<forall>c \<in> set cs. img_top (c_img c) - DDR_BASE \<le> 4 * 2 ^ ?lg"
    and f: "\<forall>c \<in> set cs. map_of (o_files out) (path_in out_dir (c_name c @ ''.mem'')) = Some (write_image (2 ^ ?lg) (c_img c)) \<and>
       map_of (o_files out) (path_in out_dir (c_name c @ ''.gold'')) = Some (gold_lines (2 ^ ?lg) c) \<and>
       set (case_lines (path_in out_dir) c) \<subseteq> set (o_manifest out)"
    using gen_main_run [OF ca pl, of stream out_dir] assms(1) by (auto split: if_splits)
  have "\<exists>mem gold. map_of (o_files out) (path_in out_dir (c_name c @ ''.mem'')) = Some mem \<and>
       map_of (o_files out) (path_in out_dir (c_name c @ ''.gold'')) = Some gold \<and>
       ''MEM '' @ path_in out_dir (c_name c @ ''.mem'') \<in> set (o_manifest out) \<and> ''GOLD '' @ path_in out_dir (c_name c @ ''.gold'') \<in> set (o_manifest out) \<and>
       read_mem mem 0 Map.empty = Some (ddr_words (c_img c)) \<and>
       (\<exists>ps. read_gold gold = Some ps \<and> distinct (map fst ps) \<and> length ps = length (c_gold c) \<and>
         (\<forall>(i, v) \<in> set ps. ddr_words (c_img c) i \<noteq> None \<and> map_of (c_gold c) (DDR_BASE + 4 * i) = Some (int v)))"
    if c: "c \<in> set cs" for c
  proof -
    have co: "case_ok \<lparr>LANES = a_lanes args, WORDS = 2 ^ ?lg, SLOTS = slots\<rparr> c" and cz: "img_top (c_img c) - DDR_BASE \<le> 4 * 2 ^ ?lg"
      using ok sz c by blast+
    have "image_ok (c_img c)" using co by (simp add: case_ok_def)
    then have "read_mem (write_image (2 ^ ?lg) (c_img c)) 0 Map.empty = Some (ddr_words (c_img c))" using write_read_image cz lg by blast
    moreover have "set (case_lines (path_in out_dir) c) \<subseteq> set (o_manifest out)" using f c by blast
    ultimately show ?thesis using gold_file_meaning [OF co cz lg] f c by (auto simp: case_lines_def)
  qed
  then show ?thesis using pl cs by blast
qed

text \<open>C3: The variants of an application in the \<^verbatim>\<open>board\<close> and \<^verbatim>\<open>dram\<close> tables compare like for like: \<^verbatim>\<open>gemmrb\<close>,
  \<^verbatim>\<open>spmvz\<close>, \<^verbatim>\<open>stencilrb\<close> and \<^verbatim>\<open>kmeansu\<close> run on the seed of the plain kernel and expect the same words
  at the same addresses, in a memory of the same size.\<close>

theorem variants_like_for_like:
  assumes "(name, fs) \<in> set (SIZES cfg)" "name \<in> {''board'', ''dram''}" "(i, j) \<in> {(0, 7), (1, 11), (2, 9), (3, 10)}"
    and "(fs ! i) (stream (seed_of i)) = Inr (c, g)" "(fs ! j) (stream (seed_of j)) = Inr (d, h)"
  shows "c_gold c = c_gold d \<and> img_top (c_img c) = img_top (c_img d)"
  using tables_alike [OF assms(1-3)] assms(4,5) by (auto simp: same_results_def agree_def alike_def)

text \<open>A run of the \<^verbatim>\<open>board\<close> table for \<^verbatim>\<open>gemm\<close> alone.\<close>

lemma gemm_top:
  assumes "gemm cfg m n k False g = Inr (c, g')"
  shows "img_top (c_img c) = DDR_BASE + line_up (m * k) + line_up (k * n) + line_up (m * n) + 32"
proof -
  have "line_up (Suc (Suc (Suc (Suc (Suc 0))))) = 32" by (simp add: line_up)
  then show ?thesis using assms
    by (auto simp: gemm_def gemm_case_def new_case_def new_image_def Let_def result_simps c_alloc_Inr alloc_Inr launch_case_Inr)
qed

lemma demo_kernels: "\<exists>slots. place_kernels (kernel_files (\<lambda>p. Some ''00000013'') kdir) [] = Inr slots"
  by (simp add: place_kernels_eq kernel_files_def kernel_slots_def kernel_len_def split_ws_def is_space_def ceil_div_def KERNELS_def IRAM_WORDS_def)

lemma demo_gemm_run:
  "\<exists>out. gen_main (\<lambda>s. [s]) (\<lambda>p. Some ''00000013'') ''/k'' ''/o''
      \<lparr>a_size = ''board'', a_lanes = 16, a_default_kdir = False, a_words_lg = 20, a_only = [''gemm'']\<rparr> = Inr out"
proof -
  let ?args = "\<lparr>a_size = ''board'', a_lanes = 16, a_default_kdir = False, a_words_lg = 20, a_only = [''gemm'']\<rparr>"
  have ca: "check_args ?args = Inr ()" by (simp add: check_args_def)
  obtain slots where pl: "place_kernels (kernel_files (\<lambda>p. Some ''00000013'') ''/k'') [] = Inr slots" using demo_kernels by blast
  let ?cfg = "\<lparr>LANES = 16, WORDS = 2 ^ 20, SLOTS = slots\<rparr>"
  have "map_of slots ''gemm'' \<noteq> None" using place_kernels_all [OF pl, of "''gemm''"] by (simp add: KERNELS_def)
  then obtain c g' where c: "gemm ?cfg 64 64 64 False [2027] = Inr (c, g')"
    using gemm_runs [of ?cfg False 64 64 64 "[2027]"] by auto
  have cs: "gen_cases (\<lambda>s. [s]) ?cfg ?args = Inr [c]"
    using c by (simp add: gen_cases_def SIZES_def APPS_def seed_of_def SEED_def)
  have "img_top (c_img c) - DDR_BASE \<le> 4 * 2 ^ 20" using gemm_top [OF c] by (simp add: line_up)
  then show ?thesis using gen_main_run [OF ca pl, of "\<lambda>s. [s]" "''/o''"] cs by auto
qed

lemma gen_main_files_witness:
  "\<exists>out slots cs. gen_main (\<lambda>s. [s]) (\<lambda>p. Some ''00000013'') ''/k'' ''/o''
      \<lparr>a_size = ''board'', a_lanes = 16, a_default_kdir = False, a_words_lg = 20, a_only = [''gemm'']\<rparr> = Inr out \<and>
     gen_cases (\<lambda>s. [s]) \<lparr>LANES = 16, WORDS = 2 ^ 20, SLOTS = slots\<rparr>
       \<lparr>a_size = ''board'', a_lanes = 16, a_default_kdir = False, a_words_lg = 20, a_only = [''gemm'']\<rparr> = Inr cs \<and>
     (\<forall>c \<in> set cs. \<exists>mem. map_of (o_files out) (path_in ''/o'' (c_name c @ ''.mem'')) = Some mem \<and> read_mem mem 0 Map.empty = Some (ddr_words (c_img c)))"
proof -
  obtain out where out: "gen_main (\<lambda>s. [s]) (\<lambda>p. Some ''00000013'') ''/k'' ''/o''
      \<lparr>a_size = ''board'', a_lanes = 16, a_default_kdir = False, a_words_lg = 20, a_only = [''gemm'']\<rparr> = Inr out" using demo_gemm_run by blast
  from gen_main_files [OF out] out show ?thesis by simp blast
qed

lemma gen_main_outcome_witness:
  "gen_main (\<lambda>s. [s]) (\<lambda>p. if p = ''/k/bfs.hex'' then None else Some ''00000013'') ''/k'' ''/o''
      \<lparr>a_size = ''board'', a_lanes = 16, a_default_kdir = False, a_words_lg = 20, a_only = [''scan'']\<rparr> = Inl FileNotFoundError \<and>
   gen_main (\<lambda>s. [s]) (\<lambda>p. Some ''00000013'') ''/k'' ''/o''
      \<lparr>a_size = ''board'', a_lanes = 16, a_default_kdir = False, a_words_lg = -1, a_only = [''scan'']\<rparr> = Inl ValueError"
proof -
  have k: "''bfs'' \<in> set KERNELS" "pjoin ''/k'' (''bfs'' @ ''.hex'') = ''/k/bfs.hex''" by code_simp+
  then have "\<exists>k \<in> set KERNELS. (if pjoin ''/k'' (k @ ''.hex'') = ''/k/bfs.hex'' then None else Some ''00000013'') = None" by (intro bexI [of _ "''bfs''"]) simp_all
  then show ?thesis
    using gen_main_outcome [of "\<lambda>p. if p = ''/k/bfs.hex'' then None else Some ''00000013''" "''/k''" "\<lambda>s. [s]" "''/o''"
        "\<lparr>a_size = ''board'', a_lanes = 16, a_default_kdir = False, a_words_lg = 20, a_only = [''scan'']\<rparr>"]
      gen_main_outcome [of "\<lambda>p. Some ''00000013''" "''/k''" "\<lambda>s. [s]" "''/o''"
        "\<lparr>a_size = ''board'', a_lanes = 16, a_default_kdir = False, a_words_lg = -1, a_only = [''scan'']\<rparr>"]
    by (simp add: Let_def)
qed

lemma variants_like_for_like_witness:
  "\<exists>c g d h. kmeans \<lparr>LANES = 8, WORDS = 2 ^ 20, SLOTS = [(''kmeans'', 3), (''kmeans_u'', 7)]\<rparr> 16384 16 False [2030] = Inr (c, g) \<and>
     kmeans \<lparr>LANES = 8, WORDS = 2 ^ 20, SLOTS = [(''kmeans'', 3), (''kmeans_u'', 7)]\<rparr> 16384 16 True [2030] = Inr (d, h) \<and>
     c_gold c = c_gold d"
proof -
  let ?cfg = "\<lparr>LANES = 8, WORDS = 2 ^ 20, SLOTS = [(''kmeans'', 3), (''kmeans_u'', 7)]\<rparr>"
  obtain c g d h where k: "kmeans ?cfg 16384 16 False [2030] = Inr (c, g)" "kmeans ?cfg 16384 16 True [2030] = Inr (d, h)"
    using kmeans_runs [of ?cfg False 16 16384 "[2030]"] kmeans_runs [of ?cfg True 16 16384 "[2030]"] by auto
  obtain fs where fs: "(''board'', fs) \<in> set (SIZES ?cfg)" "fs ! 3 = kmeans ?cfg 16384 16 False" "fs ! 10 = kmeans ?cfg 16384 16 True"
    by (simp add: SIZES_def)
  have seeds: "seed_of 3 = 2030" "seed_of 10 = 2030" by (simp_all add: seed_of_def APPS_def SEED_def)
  show ?thesis
    using k variants_like_for_like [of "''board''" fs ?cfg 3 10 "\<lambda>s. [s]" c g d h] fs seeds by auto
qed

end
