(* ===== verification/Xsim.thy ===== *)
theory Xsim
  imports PyFile
begin

text \<open>
  The regression runner \<^verbatim>\<open>sim/run_xsim.py\<close>: its table of tests, the compile, elaborate and simulate
  steps of one test, the verdict read from the log, and the command line. The external tools are a
  parameter: given the files, the commands run so far, a command and its directory, a tool returns an exit code,
  its output and the files it writes, or it cannot be started at all.
\<close>

section \<open>Source lists\<close>

definition RTL_A :: string where "RTL_A = ''rtl/accel/''"

definition PKG :: "string list" where "PKG = [RTL_A @ ''simtix_pkg.sv'']"

definition POOL :: "string list" where
  "POOL = PKG @ [RTL_A @ ''simt_fpu.sv'', RTL_A @ ''fp_divsqrt.sv'', RTL_A @ ''mem_engine.sv'', RTL_A @ ''warp_pool.sv'']"

definition ACCEL :: "string list" where
  "ACCEL = PKG @ [RTL_A @ ''mmio_regs.sv'', RTL_A @ ''simt_fpu.sv'', RTL_A @ ''fp_divsqrt.sv'', RTL_A @ ''mem_engine.sv'',
     RTL_A @ ''warp_pool.sv'', RTL_A @ ''simt_accel.sv'']"

text \<open>The Verilog files of the CPU, as \<^verbatim>\<open>glob\<close> finds them below the repository root, are a parameter.\<close>

definition CPU_SOC :: "string list \<Rightarrow> string list" where
  "CPU_SOC cpu = filter (\<lambda>p. \<not> ends_with ''top.v'' p) (sort cpu)"

definition CPU_CHIP :: "string list \<Rightarrow> string list" where
  "CPU_CHIP cpu =
     filter (\<lambda>p. \<not> list_ex (\<lambda>e. ends_with e p) [''riscv_soc.v'', ''instr_mem.v'', ''data_mem.v'']) (CPU_SOC cpu)"

definition SOC :: "string list" where "SOC = ACCEL @ [''rtl/soc/soc_top.sv'']"

definition PS :: "string list" where
  "PS = ACCEL @ [RTL_A @ ''l1_dcache.sv'', RTL_A @ ''axi_line_master.sv'', ''rtl/soc/simt_ps_top.sv'',
     ''tests/axi_mem_model.sv'']"

definition CHIP :: "string list" where
  "CHIP = ACCEL @ [''rtl/soc/shared_mem.sv'', ''rtl/soc/weight_rom.sv'', ''rtl/soc/cpu_driver_rom.sv'',
     ''rtl/soc/driver_rom.sv'', ''rtl/soc/chip_top.sv'']"

section \<open>The tests\<close>

record xsim_test =
  t_top :: string
  t_sv :: "string list"
  t_v :: "string list"
  t_dpi :: bool
  t_gen :: "string list option"

definition TESTS :: "string list \<Rightarrow> (string \<times> xsim_test) list" where
  "TESTS cpu =
    [(''accel'', \<lparr>t_top = ''tb_simt_accel'', t_sv = ACCEL @ [''tests/tb_simt_accel.sv''], t_v = [], t_dpi = False, t_gen = None\<rparr>),
     (''lane'', \<lparr>t_top = ''tb_lane'', t_sv = PKG @ [RTL_A @ ''lane.sv'', ''tests/tb_lane.sv''], t_v = [], t_dpi = False, t_gen = None\<rparr>),
     (''warp'', \<lparr>t_top = ''tb_warp'', t_sv = PKG @ [RTL_A @ ''warp.sv'', ''tests/tb_warp.sv''], t_v = [], t_dpi = False, t_gen = None\<rparr>),
     (''pool'', \<lparr>t_top = ''tb_warp_pool'', t_sv = POOL @ [''tests/tb_warp_pool.sv''], t_v = [], t_dpi = False, t_gen = None\<rparr>),
     (''pdot8'', \<lparr>t_top = ''tb_pdot8'', t_sv = POOL @ [''tests/tb_pdot8.sv''], t_v = [], t_dpi = False, t_gen = None\<rparr>),
     (''qgemm'', \<lparr>t_top = ''tb_qgemm'', t_sv = POOL @ [''tests/tb_qgemm.sv''], t_v = [], t_dpi = False, t_gen = None\<rparr>),
     (''requant'', \<lparr>t_top = ''tb_requant'', t_sv = POOL @ [''tests/tb_requant.sv''], t_v = [], t_dpi = False, t_gen = None\<rparr>),
     (''qgemv'', \<lparr>t_top = ''tb_qgemv'', t_sv = POOL @ [''tests/tb_qgemv.sv''], t_v = [], t_dpi = False, t_gen = None\<rparr>),
     (''fp'', \<lparr>t_top = ''tb_fp'', t_sv = POOL @ [''tests/tb_fp.sv''], t_v = [], t_dpi = False, t_gen = None\<rparr>),
     (''fpu'', \<lparr>t_top = ''tb_fpu'', t_sv = PKG @ [RTL_A @ ''simt_fpu.sv'', RTL_A @ ''fp_divsqrt.sv'', ''tests/tb_fpu.sv''], t_v = [], t_dpi = True, t_gen = None\<rparr>),
     (''divsqrt'', \<lparr>t_top = ''tb_divsqrt'', t_sv = PKG @ [RTL_A @ ''fp_divsqrt.sv'', ''tests/tb_divsqrt.sv''], t_v = [], t_dpi = True, t_gen = None\<rparr>),
     (''fparith'', \<lparr>t_top = ''tb_fparith'', t_sv = POOL @ [''tests/tb_fparith.sv''], t_v = [], t_dpi = True, t_gen = None\<rparr>),
     (''fpfma'', \<lparr>t_top = ''tb_fpfma'', t_sv = POOL @ [''tests/tb_fpfma.sv''], t_v = [], t_dpi = True, t_gen = None\<rparr>),
     (''fparith16'', \<lparr>t_top = ''tb_fparith16'', t_sv = POOL @ [''tests/tb_fparith16.sv''], t_v = [], t_dpi = True, t_gen = None\<rparr>),
     (''fpdivsqrt'', \<lparr>t_top = ''tb_fpdivsqrt'', t_sv = POOL @ [''tests/tb_fpdivsqrt.sv''], t_v = [], t_dpi = True, t_gen = None\<rparr>),
     (''fpkernels'', \<lparr>t_top = ''tb_fpkernels'', t_sv = POOL @ [''tests/tb_fpkernels.sv''], t_v = [], t_dpi = True, t_gen = None\<rparr>),
     (''soc'', \<lparr>t_top = ''tb_soc_top'', t_sv = SOC @ [''tests/tb_soc_top.sv''], t_v = CPU_SOC cpu, t_dpi = False, t_gen = None\<rparr>),
     (''chip'', \<lparr>t_top = ''tb_chip_top'', t_sv = CHIP @ [''tests/tb_chip_top.sv''], t_v = CPU_CHIP cpu, t_dpi = False, t_gen = None\<rparr>),
     (''sync'', \<lparr>t_top = ''tb_sync'', t_sv = POOL @ [''tests/tb_sync.sv''], t_v = [], t_dpi = False, t_gen = None\<rparr>),
     (''sync_lat'', \<lparr>t_top = ''tb_sync'', t_sv = POOL @ [''tests/tb_sync.sv''], t_v = [], t_dpi = False, t_gen = Some [''MEM_LAT=7'', ''MEM_STALL=1'']\<rparr>),
     (''sync_ooo'', \<lparr>t_top = ''tb_sync'', t_sv = POOL @ [''tests/tb_sync.sv''], t_v = [], t_dpi = False, t_gen = Some [''MEM_LAT=4'', ''MEM_STALL=1'', ''MEM_OOO=1'']\<rparr>),
     (''sync_noagg'', \<lparr>t_top = ''tb_sync'', t_sv = POOL @ [''tests/tb_sync.sv''], t_v = [], t_dpi = False, t_gen = Some [''MEM_LAT=4'', ''MEM_STALL=1'', ''MEM_OOO=1'', ''AGG=0'']\<rparr>),
     (''sync_apar'', \<lparr>t_top = ''tb_sync'', t_sv = POOL @ [RTL_A @ ''l1_dcache.sv'', ''tests/tb_sync.sv''], t_v = [], t_dpi = False, t_gen = Some [''MEM_LAT=20'', ''MEM_STALL=1'', ''MEM_OOO=1'', ''L1=1'', ''APAR=1'']\<rparr>),
     (''sync_l1'', \<lparr>t_top = ''tb_sync'', t_sv = POOL @ [RTL_A @ ''l1_dcache.sv'', ''tests/tb_sync.sv''], t_v = [], t_dpi = False, t_gen = Some [''MEM_LAT=20'', ''MEM_STALL=1'', ''MEM_OOO=1'', ''L1=1'']\<rparr>),
     (''sync_l1s'', \<lparr>t_top = ''tb_sync'', t_sv = POOL @ [RTL_A @ ''l1_dcache.sv'', ''tests/tb_sync.sv''], t_v = [], t_dpi = False, t_gen = Some [''MEM_LAT=20'', ''MEM_STALL=1'', ''MEM_OOO=1'', ''L1=1'', ''L1_SETS=2'']\<rparr>),
     (''ps'', \<lparr>t_top = ''tb_ps_top'', t_sv = PS @ [''tests/tb_ps_top.sv''], t_v = [], t_dpi = False, t_gen = None\<rparr>),
     (''apps'', \<lparr>t_top = ''tb_apps'', t_sv = PS @ [''tests/tb_apps.sv''], t_v = [], t_dpi = False, t_gen = None\<rparr>),
     (''sync_axi'', \<lparr>t_top = ''tb_sync'', t_sv = POOL @ [RTL_A @ ''l1_dcache.sv'', RTL_A @ ''axi_line_master.sv'', ''tests/tb_sync.sv''], t_v = [], t_dpi = False, t_gen = Some [''MEM_LAT=24'', ''MEM_STALL=1'', ''MEM_OOO=1'', ''L1=1'', ''AXI=1'']\<rparr>),
     (''apps_w8'', \<lparr>t_top = ''tb_apps'', t_sv = PS @ [''tests/tb_apps.sv''], t_v = [], t_dpi = False, t_gen = None\<rparr>),
     (''ps_wrap'', \<lparr>t_top = ''tb_ps_top'', t_sv = PS @ [''tests/tb_ps_top.sv''], t_v = [''rtl/soc/simt_ps_wrap.v''], t_dpi = False, t_gen = None\<rparr>),
     (''ps_b34'', \<lparr>t_top = ''tb_ps_top'', t_sv = PS @ [''tests/tb_ps_top.sv''], t_v = [], t_dpi = False, t_gen = None\<rparr>),
     (''ps_wrap_b34'', \<lparr>t_top = ''tb_ps_top'', t_sv = PS @ [''tests/tb_ps_top.sv''], t_v = [''rtl/soc/simt_ps_wrap.v''], t_dpi = False, t_gen = None\<rparr>),
     (''apps_b34'', \<lparr>t_top = ''tb_apps'', t_sv = PS @ [''tests/tb_apps.sv''], t_v = [], t_dpi = False, t_gen = None\<rparr>),
     (''apps_w8_b34'', \<lparr>t_top = ''tb_apps'', t_sv = PS @ [''tests/tb_apps.sv''], t_v = [], t_dpi = False, t_gen = None\<rparr>),
     (''ps_late'', \<lparr>t_top = ''tb_ps_top'', t_sv = PS @ [''tests/tb_ps_top.sv''], t_v = [], t_dpi = False, t_gen = Some [''N=16384'', ''MEM_LATE=1'']\<rparr>),
     (''ps_b34_late'', \<lparr>t_top = ''tb_ps_top'', t_sv = PS @ [''tests/tb_ps_top.sv''], t_v = [], t_dpi = False, t_gen = Some [''N=16384'', ''MEM_LATE=1'']\<rparr>),
     (''ps_b34_board'', \<lparr>t_top = ''tb_ps_top'', t_sv = PS @ [''tests/tb_ps_top.sv''], t_v = [], t_dpi = False, t_gen = Some [''N=262144'', ''MEM_LATE=1'']\<rparr>),
     (''apps_b34_late'', \<lparr>t_top = ''tb_apps'', t_sv = PS @ [''tests/tb_apps.sv''], t_v = [], t_dpi = False, t_gen = Some [''MEM_LATE=1'']\<rparr>)]"

definition B34 :: "string list" where
  "B34 = [''SIMTIX_NUM_WARPS=8'', ''SIMTIX_L1_KB=64'', ''SIMTIX_L1_MSHR=16'', ''SIMTIX_MEM_TAGS=16'']"

definition DEFINES :: "(string \<times> string list) list" where
  "DEFINES =
    [(''apps_w8'', [''SIMTIX_NUM_WARPS=8'']),
     (''ps_wrap'', [''PS_WRAP=4'']),
     (''ps_b34'', B34),
     (''ps_wrap_b34'', B34 @ [''PS_WRAP=5'']),
     (''apps_b34'', B34),
     (''apps_w8_b34'', B34),
     (''ps_b34_late'', B34),
     (''ps_b34_board'', B34),
     (''apps_b34_late'', B34)]"

text \<open>The environment: repository root, directory of the tools, operating system, Python interpreter, CPU files.\<close>

record xsim_env =
  x_root :: string
  x_vivado :: string
  x_nt :: bool
  x_python :: string
  x_cpu :: "string list"

definition BUILD :: "xsim_env \<Rightarrow> string" where
  "BUILD env = pjoin (x_root env) ''build_xsim''"

definition APPS_W8 :: "xsim_env \<Rightarrow> string" where
  "APPS_W8 env = pjoin (x_root env) ''build_apps_w8''"

definition PLUSARGS :: "xsim_env \<Rightarrow> (string \<times> string list) list" where
  "PLUSARGS env = map (\<lambda>n. (n, [slashes (''MANIFEST='' @ APPS_W8 env @ ''/apps.manifest'')])) [''apps_w8'', ''apps_w8_b34'']"

section \<open>Running tools\<close>

text \<open>What the external tools do is a parameter: from the contents of the files, the commands run so far, the command and its
  working directory, the exit code, the output and the files written. \<open>None\<close> is a program that cannot be started: then
  \<^verbatim>\<open>subprocess.run\<close> raises \<^verbatim>\<open>FileNotFoundError\<close>.\<close>

type_synonym tools =
  "(string \<Rightarrow> string option) \<Rightarrow> string list list \<Rightarrow> string list \<Rightarrow> string \<Rightarrow> (int \<times> string \<times> (string \<times> string) list) option"

record xstate =
  xs_fs :: fs
  xs_cmds :: "string list list"

definition invoke :: "tools \<Rightarrow> string list \<Rightarrow> string \<Rightarrow> xstate \<Rightarrow> ((int \<times> string) \<times> xstate) result" where
  "invoke ex cmd cwd st =
     (case ex (map_of (xs_fs st)) (xs_cmds st) cmd cwd of
        None \<Rightarrow> Inl FileNotFoundError
      | Some (rc, out, ws) \<Rightarrow>
          Inr ((rc, out), \<lparr>xs_fs = fold (\<lambda>(p, s). write_file p s) ws (xs_fs st), xs_cmds = xs_cmds st @ [cmd]\<rparr>))"

text \<open>\<^verbatim>\<open>run\<close>: the output goes to the log file.\<close>

definition run_logged :: "tools \<Rightarrow> string list \<Rightarrow> string \<Rightarrow> string \<Rightarrow> xstate \<Rightarrow> (int \<times> xstate) result" where
  "run_logged ex cmd cwd logf st =
     bindE (invoke ex cmd cwd st) (\<lambda>((rc, out), st). Inr (rc, st\<lparr>xs_fs := write_file logf out (xs_fs st)\<rparr>))"

text \<open>\<^verbatim>\<open>subprocess.run(cmd, check=True)\<close>.\<close>

definition run_checked :: "tools \<Rightarrow> string list \<Rightarrow> xstate \<Rightarrow> xstate result" where
  "run_checked ex cmd st =
     bindE (invoke ex cmd [] st) (\<lambda>((rc, _), st). if rc \<noteq> 0 then Inl CalledProcessError else Inr st)"

text \<open>The two commands, case by case.\<close>

lemma run_logged_Inr:
  "run_logged ex cmd cwd logf st = Inr (rc, st') \<longleftrightarrow>
     (\<exists>out ws. ex (map_of (xs_fs st)) (xs_cmds st) cmd cwd = Some (rc, out, ws) \<and>
        st' = \<lparr>xs_fs = write_file logf out (fold (\<lambda>(p, s). write_file p s) ws (xs_fs st)), xs_cmds = xs_cmds st @ [cmd]\<rparr>)"
  by (auto simp: run_logged_def invoke_def split: option.splits)

lemma run_logged_Inl:
  "run_logged ex cmd cwd logf st = Inl e \<longleftrightarrow> e = FileNotFoundError \<and> ex (map_of (xs_fs st)) (xs_cmds st) cmd cwd = None"
  by (auto simp: run_logged_def invoke_def split: option.splits)

lemma run_checked_Inr:
  "run_checked ex cmd st = Inr st' \<longleftrightarrow>
     (\<exists>out ws. ex (map_of (xs_fs st)) (xs_cmds st) cmd [] = Some (0, out, ws) \<and>
        st' = \<lparr>xs_fs = fold (\<lambda>(p, s). write_file p s) ws (xs_fs st), xs_cmds = xs_cmds st @ [cmd]\<rparr>)"
  by (auto simp: run_checked_def invoke_def split: option.splits if_splits)


definition tool :: "xsim_env \<Rightarrow> string \<Rightarrow> string" where
  "tool env name = pjoin (x_vivado env) (name @ (if x_nt env then ''.bat'' else []))"


definition INCDIRS :: "string list" where "INCDIRS = [''kernels/sync'']"

section \<open>One test\<close>

definition quoted :: "string \<Rightarrow> string" where "quoted s = CHR 0x22 # s @ [CHR 0x22]"

text \<open>The nested function \<^verbatim>\<open>opts\<close>: an options file and the arguments that name it, unless there is nothing to write.\<close>

definition opts :: "string \<Rightarrow> string \<Rightarrow> string list \<Rightarrow> fs \<Rightarrow> string list \<times> fs" where
  "opts wd fname lines fs =
     (if lines = [] then ([], fs) else ([''-f'', fname], write_file (pjoin wd fname) (unlines lines) fs))"

definition abs_paths :: "xsim_env \<Rightarrow> string list \<Rightarrow> string list" where
  "abs_paths env = map (pjoin (x_root env))"

text \<open>The commands of a test, in order, under their tags.\<close>

definition test_steps :: "xsim_env \<Rightarrow> xsim_test \<Rightarrow> string list \<Rightarrow> string list \<Rightarrow> (string \<times> string list) list" where
  "test_steps env t dopt popt =
     (let inc = concat (map (\<lambda>p. [''-i'', p]) (abs_paths env INCDIRS));
          elab = [tool env ''xelab'', ''-debug'', ''off'', t_top t, ''-s'', ''sim'']
                   @ (case t_gen t of None \<Rightarrow> [] | Some _ \<Rightarrow> [''-f'', ''generics.opt''])
                   @ (if t_dpi t then [''-sv_lib'', ''dpi''] else [])
      in (if t_v t \<noteq> [] then [(''xvlog_v'', [tool env ''xvlog''] @ dopt @ abs_paths env (t_v t))] else [])
         @ [(''xvlog_sv'', [tool env ''xvlog'', ''-sv''] @ dopt @ inc @ abs_paths env (t_sv t))]
         @ (if t_dpi t then [(''xsc'', [tool env ''xsc'', pjoin (pjoin (x_root env) ''tests'') ''fpu_ref.c''])] else [])
         @ [(''xelab'', elab), (''xsim'', [tool env ''xsim'', ''sim'', ''-R''] @ popt)])"

text \<open>The loop over the steps; it stops at the first tool that fails.\<close>

fun run_steps :: "tools \<Rightarrow> string \<Rightarrow> (string \<times> string list) list \<Rightarrow> xstate \<Rightarrow> (string option \<times> xstate) result" where
  "run_steps ex wd [] st = Inr (None, st)"
| "run_steps ex wd ((tag, cmd) # ss) st =
     bindE (run_logged ex cmd wd (pjoin wd (tag @ ''.log'')) st) (\<lambda>(rc, st).
       if rc \<noteq> 0 then Inr (Some tag, st) else run_steps ex wd ss st)"

text \<open>The verdict read from the simulation log.\<close>

definition log_passed :: "string \<Rightarrow> bool" where
  "log_passed out \<longleftrightarrow> contains ''PASS'' out \<and> \<not> contains ''FAIL'' out \<and> \<not> contains ''Fatal'' out"

definition log_message :: "string \<Rightarrow> string" where
  "log_message out =
     (let ls = filter (\<lambda>l. contains ''PASS'' l \<or> contains ''FAIL'' l) (splitlines [] out)
      in if ls \<noteq> [] then strip (last ls) else ''no PASS/FAIL line'')"

definition run_test ::
  "tools \<Rightarrow> xsim_env \<Rightarrow> (string \<times> xsim_test) list \<Rightarrow> string \<Rightarrow> string list \<Rightarrow> string list \<Rightarrow> xstate
     \<Rightarrow> ((bool \<times> string) \<times> xstate) result" where
  "run_test ex env tests name defines plusargs st =
     (case map_of tests name of None \<Rightarrow> Inl KeyError
      | Some t \<Rightarrow>
          let wd = pjoin (BUILD env) name;
              fs0 = rmtree wd (xs_fs st);
              (dopt, fs1) = opts wd ''defines.opt'' (map (\<lambda>d. ''-d '' @ quoted d) defines) fs0;
              fs2 = (case t_gen t of None \<Rightarrow> fs1
                     | Some gs \<Rightarrow> write_file (pjoin wd ''generics.opt'') (unlines (map (\<lambda>g. ''-generic_top '' @ quoted g) gs)) fs1);
              (popt, fs3) = opts wd ''plusargs.opt'' (map (\<lambda>p. ''-testplusarg '' @ quoted p) plusargs) fs2
          in bindE (run_steps ex wd (test_steps env t dopt popt) (st\<lparr>xs_fs := fs3\<rparr>)) (\<lambda>(failed, st).
             case failed of
               Some tag \<Rightarrow> Inr ((False, tag @ '' failed (see build_xsim/'' @ name @ ''/'' @ tag @ ''.log)''), st)
             | None \<Rightarrow>
                 bindE (read_file (xs_fs st) (pjoin wd ''xsim.log'')) (\<lambda>raw.
                 let out = univ_nl raw in Inr ((log_passed out, log_message out), st))))"

section \<open>The command line\<close>




section \<open>The steps of a test\<close>

text \<open>The state after the given steps, whatever they return, and what step \<open>i\<close> returns after the steps before it:
  \<open>None\<close> when its program cannot be started.\<close>

definition play :: "tools \<Rightarrow> string \<Rightarrow> (string \<times> string list) list \<Rightarrow> xstate \<Rightarrow> xstate" where
  "play ex wd ss st =
     fold (\<lambda>(tag, cmd) st. case run_logged ex cmd wd (pjoin wd (tag @ ''.log'')) st of Inl _ \<Rightarrow> st | Inr (_, st') \<Rightarrow> st') ss st"

definition step_run ::
  "tools \<Rightarrow> string \<Rightarrow> xstate \<Rightarrow> (string \<times> string list) list \<Rightarrow> nat \<Rightarrow> (int \<times> string \<times> (string \<times> string) list) option" where
  "step_run ex wd st ss i =
     (let st = play ex wd (take i ss) st in ex (map_of (xs_fs st)) (xs_cmds st) (snd (ss ! i)) wd)"

definition step_rc :: "tools \<Rightarrow> string \<Rightarrow> xstate \<Rightarrow> (string \<times> string list) list \<Rightarrow> nat \<Rightarrow> int option" where
  "step_rc ex wd st ss i = map_option fst (step_run ex wd st ss i)"

definition step_out :: "tools \<Rightarrow> string \<Rightarrow> xstate \<Rightarrow> (string \<times> string list) list \<Rightarrow> nat \<Rightarrow> string" where
  "step_out ex wd st ss i = (case step_run ex wd st ss i of None \<Rightarrow> [] | Some (_, out, _) \<Rightarrow> out)"

lemma play_simps [simp]:
  "play ex wd [] st = st"
  "play ex wd ((tag, cmd) # ss) st =
     play ex wd ss (case run_logged ex cmd wd (pjoin wd (tag @ ''.log'')) st of Inl _ \<Rightarrow> st | Inr (_, st') \<Rightarrow> st')"
  "play ex wd (ss @ ss') st = play ex wd ss' (play ex wd ss st)"
  by (simp_all add: play_def)

lemma step_Cons [simp]:
  "step_rc ex wd st ((tag, cmd) # ss) (Suc i) = step_rc ex wd (play ex wd [(tag, cmd)] st) ss i"
  "step_rc ex wd st ((tag, cmd) # ss) 0 = map_option fst (ex (map_of (xs_fs st)) (xs_cmds st) cmd wd)"
  by (simp_all add: step_rc_def step_run_def Let_def)

lemma all_less_Suc: "(\<forall>i < Suc n. P i) \<longleftrightarrow> P 0 \<and> (\<forall>i < n. P (Suc i))"
  by (auto simp: less_Suc_eq_0_disj)

text \<open>The commands of steps that could all be started are recorded in order.\<close>

lemma play_cmds:
  assumes "\<And>i. i < length ss \<Longrightarrow> step_rc ex wd st ss i \<noteq> None"
  shows "xs_cmds (play ex wd ss st) = xs_cmds st @ map snd ss"
  using assms
proof (induction ss arbitrary: st)
  case (Cons s ss)
  obtain tag cmd where s: "s = (tag, cmd)" by (cases s)
  obtain rc st1 where r: "run_logged ex cmd wd (pjoin wd (tag @ ''.log'')) st = Inr (rc, st1)" and c: "xs_cmds st1 = xs_cmds st @ [cmd]"
    using Cons.prems [of 0] unfolding s by (auto simp: run_logged_def invoke_def split: option.splits)
  show ?case using Cons.IH [of st1] Cons.prems [of "Suc i" for i] c unfolding s by (simp add: r)
qed simp

lemma step_rc_take: "i < n \<Longrightarrow> step_rc ex wd st (take n ss) i = step_rc ex wd st ss i"
  by (simp add: step_rc_def step_run_def min_def)

text \<open>How the loop ends: all steps ran, each with exit code 0; or it stopped at the first step that failed, or at the
  first that could not be started.\<close>

lemma run_steps_trace:
  "case run_steps ex wd ss st of
     Inr (None, st') \<Rightarrow> (\<forall>i < length ss. step_rc ex wd st ss i = Some 0) \<and> st' = play ex wd ss st
   | Inr (Some tag, st') \<Rightarrow> \<exists>k < length ss. (\<forall>i < k. step_rc ex wd st ss i = Some 0) \<and>
       (\<exists>c. c \<noteq> 0 \<and> step_rc ex wd st ss k = Some c) \<and> tag = fst (ss ! k) \<and> st' = play ex wd (take (Suc k) ss) st
   | Inl e \<Rightarrow> e = FileNotFoundError \<and>
       (\<exists>k < length ss. (\<forall>i < k. step_rc ex wd st ss i = Some 0) \<and> step_rc ex wd st ss k = None)"
proof (induction ss arbitrary: st)
  case (Cons s ss)
  obtain tag cmd where s: "s = (tag, cmd)" by (cases s)
  let ?run = "run_logged ex cmd wd (pjoin wd (tag @ ''.log'')) st"
  show ?case
  proof (cases ?run)
    case (Inl e)
    then have n: "run_steps ex wd (s # ss) st = Inl FileNotFoundError" "step_rc ex wd st (s # ss) 0 = None"
      unfolding s using Inl run_logged_Inl [of ex cmd wd _ st e] by simp_all
    then show ?thesis by (auto intro!: exI [of _ 0])
  next
    case (Inr r)
    obtain rc st1 where r: "?run = Inr (rc, st1)" using Inr by (cases r) simp
    have rc: "step_rc ex wd st (s # ss) 0 = Some rc" using r unfolding s by (auto simp: run_logged_Inr)
    have tl: "step_rc ex wd st (s # ss) (Suc i) = step_rc ex wd st1 ss i" for i unfolding s by (simp add: r)
    have pl: "play ex wd (take (Suc k) (s # ss)) st = play ex wd (take k ss) st1" for k unfolding s by (simp add: r)
    show ?thesis
    proof (cases "rc = 0")
      case False
      then have "run_steps ex wd (s # ss) st = Inr (Some tag, st1)" unfolding s by (simp add: r)
      moreover have "fst ((s # ss) ! 0) = tag" "st1 = play ex wd (take (Suc 0) (s # ss)) st" unfolding s by (simp_all add: r)
      ultimately show ?thesis using rc False
        by (simp only: sum.case prod.case option.case) (intro exI [of _ 0]; simp)
    next
      case True
      then have run: "run_steps ex wd (s # ss) st = run_steps ex wd ss st1" unfolding s by (simp add: r)
      have up: "\<exists>k < length (s # ss). (\<forall>i < k. step_rc ex wd st (s # ss) i = Some 0) \<and> P (step_rc ex wd st (s # ss) k) ((s # ss) ! k) (play ex wd (take (Suc k) (s # ss)) st)"
        if "\<exists>k < length ss. (\<forall>i < k. step_rc ex wd st1 ss i = Some 0) \<and> P (step_rc ex wd st1 ss k) (ss ! k) (play ex wd (take (Suc k) ss) st1)" for P
      proof -
        from that obtain k where k: "k < length ss" "\<forall>i < k. step_rc ex wd st1 ss i = Some 0" "P (step_rc ex wd st1 ss k) (ss ! k) (play ex wd (take (Suc k) ss) st1)"
          by blast
        have "\<forall>i < Suc k. step_rc ex wd st (s # ss) i = Some 0" unfolding all_less_Suc using k(2) rc True tl by simp
        then show ?thesis using k(1,3) tl pl by (intro exI [of _ "Suc k"]) (simp del: take_Suc_Cons)
      qed
      show ?thesis
      proof (cases "run_steps ex wd ss st1")
        case (Inl e)
        then show ?thesis using Cons.IH [of st1] up [of "\<lambda>c _ _. c = None"] unfolding run by simp
      next
        case (Inr q)
        obtain f st' where q: "q = (f, st')" by (cases q)
        show ?thesis
        proof (cases f)
          case None
          then have "(\<forall>i < length ss. step_rc ex wd st1 ss i = Some 0) \<and> st' = play ex wd ss st1" using Cons.IH [of st1] Inr q by simp
          moreover have "play ex wd (s # ss) st = play ex wd ss st1" unfolding s by (simp add: r)
          ultimately show ?thesis using rc True tl unfolding run Inr q None by (simp only: sum.case prod.case option.case list.size add_0_right plus_1_eq_Suc add_Suc_right all_less_Suc simp_thms) blast
        next
          case (Some t)
          then show ?thesis
            using Cons.IH [of st1] up [of "\<lambda>c x y. (\<exists>n. n \<noteq> 0 \<and> c = Some n) \<and> t = fst x \<and> st' = y"] unfolding run Inr q Some
            by (simp only: sum.case prod.case option.case)
        qed
      qed
    qed
  qed
qed simp

text \<open>The log of the last step is what that step printed, whatever was on disk before.\<close>

lemma play_log:
  assumes "step_rc ex wd st (ss @ [(tag, cmd)]) (length ss) \<noteq> None"
  shows "map_of (xs_fs (play ex wd (ss @ [(tag, cmd)]) st)) (pjoin wd (tag @ ''.log'')) =
     Some (step_out ex wd st (ss @ [(tag, cmd)]) (length ss))"
  using assms by (auto simp: step_out_def step_rc_def step_run_def Let_def run_logged_def invoke_def)

section \<open>The verdict of a test\<close>

definition opts_args :: "string \<Rightarrow> string list \<Rightarrow> string list" where
  "opts_args fname lines = (if lines = [] then [] else [''-f'', fname])"

definition steps_of :: "xsim_env \<Rightarrow> xsim_test \<Rightarrow> string list \<Rightarrow> string list \<Rightarrow> (string \<times> string list) list" where
  "steps_of env t defs plusargs = test_steps env t (opts_args ''defines.opt'' defs) (opts_args ''plusargs.opt'' plusargs)"

text \<open>The files when the first tool starts: the directory of the test holds options files only, all else is untouched.\<close>

definition ready_files :: "xsim_test \<Rightarrow> string \<Rightarrow> string list \<Rightarrow> string list \<Rightarrow> (string \<Rightarrow> string option) \<Rightarrow> string \<Rightarrow> string option" where
  "ready_files t wd defs plusargs m =
     (let add = (\<lambda>fname pre xs m. if xs = [] then m else m(pjoin wd fname \<mapsto> unlines (map (\<lambda>x. pre @ quoted x) xs)));
          m = add ''defines.opt'' ''-d '' defs (\<lambda>p. if starts_with (wd @ ''/'') p then None else m p);
          m = (case t_gen t of None \<Rightarrow> m | Some gs \<Rightarrow> m(pjoin wd ''generics.opt'' \<mapsto> unlines (map (\<lambda>g. ''-generic_top '' @ quoted g) gs)))
      in add ''plusargs.opt'' ''-testplusarg '' plusargs m)"

lemma opts_facts:
  assumes "opts wd fname (map f xs) fs = (a, fs')"
  shows "a = opts_args fname xs" "map_of fs' = (if xs = [] then map_of fs else (map_of fs)(pjoin wd fname \<mapsto> unlines (map f xs)))"
  using assms by (auto simp: opts_def opts_args_def fun_eq_iff split: if_splits)

lemma steps_last: "\<exists>ss cmd. steps_of env t defs plusargs = ss @ [(''xsim'', cmd)]"
  by (auto simp: steps_of_def test_steps_def Let_def)

definition verdict_of :: "string \<Rightarrow> string \<Rightarrow> string option \<times> xstate \<Rightarrow> ((bool \<times> string) \<times> xstate) result" where
  "verdict_of wd name = (\<lambda>(failed, st).
     case failed of
       Some tag \<Rightarrow> Inr ((False, tag @ '' failed (see build_xsim/'' @ name @ ''/'' @ tag @ ''.log)''), st)
     | None \<Rightarrow>
         bindE (read_file (xs_fs st) (pjoin wd ''xsim.log'')) (\<lambda>raw.
         let out = univ_nl raw in Inr ((log_passed out, log_message out), st)))"

lemma run_test_steps:
  fixes env :: xsim_env
  assumes "map_of tests name = Some t"
  defines "wd \<equiv> pjoin (BUILD env) name"
  shows "\<exists>fs0. map_of fs0 = ready_files t wd defs plusargs (map_of (xs_fs st)) \<and> run_test ex env tests name defs plusargs st =
     bindE (run_steps ex wd (steps_of env t defs plusargs) (st\<lparr>xs_fs := fs0\<rparr>)) (verdict_of wd name)"
proof -
  obtain dopt fs1 where d: "opts wd ''defines.opt'' (map (\<lambda>d. ''-d '' @ quoted d) defs) (rmtree wd (xs_fs st)) = (dopt, fs1)"
    by fastforce
  define fs2 where "fs2 = (case t_gen t of None \<Rightarrow> fs1
     | Some gs \<Rightarrow> write_file (pjoin wd ''generics.opt'') (unlines (map (\<lambda>g. ''-generic_top '' @ quoted g) gs)) fs1)"
  obtain popt fs3 where p: "opts wd ''plusargs.opt'' (map (\<lambda>p. ''-testplusarg '' @ quoted p) plusargs) fs2 = (popt, fs3)"
    by fastforce
  have "map_of (rmtree wd (xs_fs st)) = (\<lambda>p. if starts_with (wd @ ''/'') p then None else map_of (xs_fs st) p)"
    by (simp add: fun_eq_iff map_of_rmtree)
  moreover have "map_of fs2 = (case t_gen t of None \<Rightarrow> map_of fs1
     | Some gs \<Rightarrow> (map_of fs1)(pjoin wd ''generics.opt'' \<mapsto> unlines (map (\<lambda>g. ''-generic_top '' @ quoted g) gs)))"
    by (auto simp: fs2_def fun_eq_iff split: option.splits)
  ultimately have "map_of fs3 = ready_files t wd defs plusargs (map_of (xs_fs st))"
    unfolding opts_facts(2) [OF p] ready_files_def Let_def by (simp only: opts_facts(2) [OF d])
  then show ?thesis using assms(1) d p opts_facts(1) [OF d] opts_facts(1) [OF p]
    by (intro exI [of _ fs3]) (simp add: run_test_def Let_def steps_of_def verdict_of_def flip: wd_def fs2_def)
qed

text \<open>The outcome of a test as a function of what its steps return.\<close>

definition test_outcome ::
  "tools \<Rightarrow> string \<Rightarrow> string \<Rightarrow> xstate \<Rightarrow> (string \<times> string list) list \<Rightarrow> ((bool \<times> string) \<times> xstate) result \<Rightarrow> bool" where
  "test_outcome ex wd name st ss r \<longleftrightarrow>
     (if \<forall>i < length ss. step_rc ex wd st ss i = Some 0
      then let out = univ_nl (step_out ex wd st ss (length ss - 1)) in r = Inr ((log_passed out, log_message out), play ex wd ss st)
      else \<exists>k < length ss. (\<forall>i < k. step_rc ex wd st ss i = Some 0) \<and> step_rc ex wd st ss k \<noteq> Some 0 \<and>
        r = (case step_rc ex wd st ss k of
               None \<Rightarrow> Inl FileNotFoundError
             | Some _ \<Rightarrow> Inr ((False, fst (ss ! k) @ '' failed (see build_xsim/'' @ name @ ''/'' @ fst (ss ! k) @ ''.log)''),
                 play ex wd (take (Suc k) ss) st)))"

lemma run_steps_outcome:
  assumes ss: "ss = pre @ [(''xsim'', cmd)]"
  shows "test_outcome ex wd name st ss (bindE (run_steps ex wd ss st) (verdict_of wd name))"
proof (cases "run_steps ex wd ss st")
  case (Inl e)
  then show ?thesis using run_steps_trace [where ex = ex and wd = wd and ss = ss and st = st] unfolding test_outcome_def by (auto intro!: exI)
next
  case (Inr r)
  obtain f st' where r: "r = (f, st')" by (cases r)
  show ?thesis
  proof (cases f)
    case None
    then have tr: "\<forall>i < length ss. step_rc ex wd st ss i = Some 0" "st' = play ex wd ss st"
      using run_steps_trace [where ex = ex and wd = wd and ss = ss and st = st] unfolding Inr r by simp_all
    then have "step_rc ex wd st ss (length pre) = Some 0" unfolding ss by simp
    then have "read_file (xs_fs st') (pjoin wd ''xsim.log'') = Inr (step_out ex wd st ss (length ss - 1))"
      using play_log [of ex wd st pre "''xsim''" cmd] unfolding ss tr(2) [unfolded ss] by (simp add: read_file_def)
    then show ?thesis using tr unfolding test_outcome_def Inr r None by (simp add: verdict_of_def Let_def)
  next
    case (Some tag)
    then obtain k c where k: "k < length ss" "\<forall>i < k. step_rc ex wd st ss i = Some 0" "step_rc ex wd st ss k = Some c" "c \<noteq> 0"
      and s: "tag = fst (ss ! k)" "st' = play ex wd (take (Suc k) ss) st"
      using run_steps_trace [where ex = ex and wd = wd and ss = ss and st = st] unfolding Inr r by auto
    have "\<not> (\<forall>i < length ss. step_rc ex wd st ss i = Some 0)" using k by auto
    then show ?thesis unfolding test_outcome_def Inr r Some s using k by (auto simp: verdict_of_def intro!: exI [of _ k])
  qed
qed

text \<open>A test passes when every tool succeeds and the log says so; otherwise nothing runs after the first failure.\<close>

lemma run_test_correct:
  fixes env :: xsim_env and defs plusargs :: "string list"
  assumes "map_of tests name = Some t"
  defines "wd \<equiv> pjoin (BUILD env) name"
  shows "\<exists>st0. map_of (xs_fs st0) = ready_files t wd defs plusargs (map_of (xs_fs st)) \<and> xs_cmds st0 = xs_cmds st \<and>
     test_outcome ex wd name st0 (steps_of env t defs plusargs) (run_test ex env tests name defs plusargs st)"
proof -
  obtain fs0 where fs0: "map_of fs0 = ready_files t wd defs plusargs (map_of (xs_fs st))"
    and run: "run_test ex env tests name defs plusargs st =
      bindE (run_steps ex wd (steps_of env t defs plusargs) (st\<lparr>xs_fs := fs0\<rparr>)) (verdict_of wd name)"
    unfolding wd_def using run_test_steps [OF assms(1), where env = env] by blast
  obtain pre cmd where "steps_of env t defs plusargs = pre @ [(''xsim'', cmd)]" using steps_last by blast
  from run_steps_outcome [OF this, of ex wd name "st\<lparr>xs_fs := fs0\<rparr>"] show ?thesis
    using fs0 by (intro exI [of _ "st\<lparr>xs_fs := fs0\<rparr>"]) (simp add: run)
qed

text \<open>Two states with the same file contents and the same commands behind them cannot be told apart.\<close>

definition same_state :: "xstate \<Rightarrow> xstate \<Rightarrow> bool" where
  "same_state st st2 \<longleftrightarrow> map_of (xs_fs st) = map_of (xs_fs st2) \<and> xs_cmds st = xs_cmds st2"

abbreviation same_result :: "('a \<times> xstate) result \<Rightarrow> ('a \<times> xstate) result \<Rightarrow> bool" where
  "same_result \<equiv> rel_sum (=) (rel_prod (=) same_state)"

lemma fold_write_same:
  "map_of fs = map_of fs2 \<Longrightarrow> map_of (fold (\<lambda>(p, s). write_file p s) ws fs) = map_of (fold (\<lambda>(p, s). write_file p s) ws fs2)"
  by (induction ws arbitrary: fs fs2) (auto simp: fun_eq_iff split_beta)

lemma run_logged_same:
  assumes "same_state st st2"
  shows "same_result (run_logged ex cmd wd l st) (run_logged ex cmd wd l st2)"
proof (cases "ex (map_of (xs_fs st2)) (xs_cmds st2) cmd wd")
  case None
  then show ?thesis using assms by (simp add: run_logged_def invoke_def same_state_def)
next
  case (Some r)
  obtain rc out ws where "r = (rc, out, ws)" by (cases r)
  moreover have "map_of (write_file l out (fold (\<lambda>(p, s). write_file p s) ws (xs_fs st))) =
      map_of (write_file l out (fold (\<lambda>(p, s). write_file p s) ws (xs_fs st2)))"
    using assms fold_write_same [of "xs_fs st" "xs_fs st2" "ws @ [(l, out)]"] by (simp add: same_state_def)
  ultimately show ?thesis using assms Some by (simp add: run_logged_def invoke_def same_state_def)
qed

lemma run_steps_same:
  assumes "same_state st st2"
  shows "same_result (run_steps ex wd ss st) (run_steps ex wd ss st2)"
  using assms
proof (induction ss arbitrary: st st2)
  case (Cons s ss)
  obtain tag cmd where s: "s = (tag, cmd)" by (cases s)
  from run_logged_same [OF Cons.prems, of ex cmd wd "pjoin wd (tag @ ''.log'')"] show ?case
    unfolding s by (cases rule: rel_sum.cases) (auto simp: Cons.IH)
qed simp

section \<open>A whole regression\<close>







lemma TESTS_names:
  "map fst (TESTS cpu) =
     [''accel'', ''lane'', ''warp'', ''pool'', ''pdot8'', ''qgemm'', ''requant'', ''qgemv'', ''fp'', ''fpu'',
     ''divsqrt'', ''fparith'', ''fpfma'', ''fparith16'', ''fpdivsqrt'', ''fpkernels'', ''soc'', ''chip'', ''sync'',
     ''sync_lat'', ''sync_ooo'', ''sync_noagg'', ''sync_apar'', ''sync_l1'', ''sync_l1s'', ''ps'', ''apps'',
     ''sync_axi'', ''apps_w8'', ''ps_wrap'', ''ps_b34'', ''ps_wrap_b34'', ''apps_b34'', ''apps_w8_b34'',
     ''ps_late'', ''ps_b34_late'', ''ps_b34_board'', ''apps_b34_late'']"
  by (simp only: TESTS_def list.map fst_conv)

lemma TESTS_distinct: "distinct (map fst (TESTS cpu))"
  unfolding TESTS_names by code_simp

lemma TESTS_lane:
  "map_of (TESTS cpu) ''lane'' =
     Some \<lparr>t_top = ''tb_lane'', t_sv = PKG @ [RTL_A @ ''lane.sv'', ''tests/tb_lane.sv''], t_v = [], t_dpi = False, t_gen = None\<rparr>"
  by (rule map_of_is_SomeI [OF TESTS_distinct]) (simp only: TESTS_def set_simps insert_iff simp_thms)

section \<open>Properties\<close>

text \<open>C8: A test of \<^verbatim>\<open>run_xsim.py\<close> starts in a directory that holds its options files and nothing else. Its
  steps (the optional Verilog compile, the SystemVerilog compile, the optional reference library, elaboration,
  simulation) run in this order until one does not exit with 0. It passes exactly when each step exits with 0 and what the
  simulator printed contains \<^verbatim>\<open>PASS\<close> and neither \<^verbatim>\<open>FAIL\<close> nor \<^verbatim>\<open>Fatal\<close> (the docstring of the
  script names the first two only). After a failed step no further tool is started and the message names that
  step; a tool that cannot be started ends the test with \<^verbatim>\<open>FileNotFoundError\<close>.\<close>

theorem xsim_test_verdict:
  assumes "map_of tests name = Some t"
  shows "\<exists>st0. map_of (xs_fs st0) = ready_files t (pjoin (BUILD env) name) defs plusargs (map_of (xs_fs st)) \<and> xs_cmds st0 = xs_cmds st \<and>
     (let wd = pjoin (BUILD env) name; ss = steps_of env t defs plusargs; rc = step_rc ex wd st0 ss;
          out = univ_nl (step_out ex wd st0 ss (length ss - 1)); r = run_test ex env tests name defs plusargs st
      in if \<forall>i < length ss. rc i = Some 0
         then \<exists>st'. r = Inr ((contains ''PASS'' out \<and> \<not> contains ''FAIL'' out \<and> \<not> contains ''Fatal'' out, log_message out), st') \<and>
           xs_cmds st' = xs_cmds st @ map snd ss
         else \<exists>k < length ss. (\<forall>i < k. rc i = Some 0) \<and> rc k \<noteq> Some 0 \<and>
           (case rc k of
              None \<Rightarrow> r = Inl FileNotFoundError
            | Some _ \<Rightarrow> \<exists>st'. r = Inr ((False, fst (ss ! k) @ '' failed (see build_xsim/'' @ name @ ''/'' @ fst (ss ! k) @ ''.log)''), st') \<and>
                xs_cmds st' = xs_cmds st @ map snd (take (Suc k) ss)))"
proof -
  let ?wd = "pjoin (BUILD env) name" and ?ss = "steps_of env t defs plusargs" and ?r = "run_test ex env tests name defs plusargs st"
  obtain st0 where r: "map_of (xs_fs st0) = ready_files t ?wd defs plusargs (map_of (xs_fs st))" "xs_cmds st0 = xs_cmds st"
    and o: "test_outcome ex ?wd name st0 ?ss ?r"
    using run_test_correct [OF assms] by blast
  have "(if \<forall>i < length ?ss. step_rc ex ?wd st0 ?ss i = Some 0 then
      \<exists>st'. ?r = Inr ((log_passed (univ_nl (step_out ex ?wd st0 ?ss (length ?ss - 1))), log_message (univ_nl (step_out ex ?wd st0 ?ss (length ?ss - 1)))), st') \<and>
           xs_cmds st' = xs_cmds st @ map snd ?ss
    else \<exists>k < length ?ss. (\<forall>i < k. step_rc ex ?wd st0 ?ss i = Some 0) \<and> step_rc ex ?wd st0 ?ss k \<noteq> Some 0 \<and>
       (case step_rc ex ?wd st0 ?ss k of
          None \<Rightarrow> ?r = Inl FileNotFoundError
        | Some _ \<Rightarrow> \<exists>st'. ?r = Inr ((False, fst (?ss ! k) @ '' failed (see build_xsim/'' @ name @ ''/'' @ fst (?ss ! k) @ ''.log)''), st') \<and>
            xs_cmds st' = xs_cmds st @ map snd (take (Suc k) ?ss)))"
  proof (cases "\<forall>i < length ?ss. step_rc ex ?wd st0 ?ss i = Some 0")
    case True
    then show ?thesis using o play_cmds [of ?ss ex ?wd st0] r(2) by (simp add: test_outcome_def Let_def)
  next
    case False
    then obtain k where k: "k < length ?ss" "\<forall>i < k. step_rc ex ?wd st0 ?ss i = Some 0" "step_rc ex ?wd st0 ?ss k \<noteq> Some 0"
      and q: "?r = (case step_rc ex ?wd st0 ?ss k of
               None \<Rightarrow> Inl FileNotFoundError
             | Some _ \<Rightarrow> Inr ((False, fst (?ss ! k) @ '' failed (see build_xsim/'' @ name @ ''/'' @ fst (?ss ! k) @ ''.log)''),
                 play ex ?wd (take (Suc k) ?ss) st0))"
      using o unfolding test_outcome_def by (simp only: if_False) blast
    show ?thesis
    proof (cases "step_rc ex ?wd st0 ?ss k")
      case None
      then show ?thesis using False k q by (auto intro!: exI [of _ k])
    next
      case (Some c)
      have "xs_cmds (play ex ?wd (take (Suc k) ?ss) st0) = xs_cmds st0 @ map snd (take (Suc k) ?ss)"
        by (rule play_cmds) (use k(2) Some in \<open>auto simp: step_rc_take less_Suc_eq\<close>)
      then show ?thesis using False k q Some r(2) by (auto intro!: exI [of _ k])
    qed
  qed
  then show ?thesis using r unfolding Let_def log_passed_def by blast
qed

lemma xsim_test_verdict_witness:
  "\<exists>msg st'. run_test (\<lambda>files cmds cmd wd. Some (0, ''PASS'', [])) \<lparr>x_root = ''/r'', x_vivado = ''/v'', x_nt = False, x_python = ''py'', x_cpu = []\<rparr>
       (TESTS []) ''lane'' [] [] \<lparr>xs_fs = [], xs_cmds = []\<rparr> = Inr ((True, msg), st') \<and> length (xs_cmds st') = 3"
proof -
  let ?ex = "\<lambda>files cmds cmd wd. Some (0, ''PASS'', [])"
  let ?env = "\<lparr>x_root = ''/r'', x_vivado = ''/v'', x_nt = False, x_python = ''py'', x_cpu = []\<rparr>"
  let ?t = "\<lparr>t_top = ''tb_lane'', t_sv = PKG @ [RTL_A @ ''lane.sv'', ''tests/tb_lane.sv''], t_v = [], t_dpi = False, t_gen = None\<rparr>"
  have len: "length (steps_of ?env ?t [] []) = 3" by (simp add: steps_of_def test_steps_def Let_def)
  have rc: "step_rc ?ex wd st ss i = Some 0" "step_out ?ex wd st ss i = ''PASS''" for wd st ss i
    by (simp_all add: step_rc_def step_out_def step_run_def Let_def)
  have "contains ''PASS'' (univ_nl ''PASS'')" "\<not> contains ''FAIL'' (univ_nl ''PASS'')" "\<not> contains ''Fatal'' (univ_nl ''PASS'')"
    by code_simp+
  then show ?thesis
    using xsim_test_verdict [OF TESTS_lane [of "[]"], where ex = ?ex and env = ?env and defs = "[]" and plusargs = "[]" and st = "\<lparr>xs_fs = [], xs_cmds = []\<rparr>"] len by (auto simp: Let_def rc)
qed

text \<open>C9: A verdict never rests on files of an earlier run: from two states that differ only in what lies in the build
  directory of the test, a test gets the same verdict, starts the same commands and leaves the same files,
  whatever the tools make of the files they see.\<close>

theorem xsim_no_stale_verdict:
  assumes "run_test ex env tests name defs plusargs st = Inr (v, st')" "xs_cmds st2 = xs_cmds st"
    "\<And>p. \<not> starts_with (pjoin (BUILD env) name @ ''/'') p \<Longrightarrow> map_of (xs_fs st2) p = map_of (xs_fs st) p"
  shows "\<exists>st2'. run_test ex env tests name defs plusargs st2 = Inr (v, st2') \<and> xs_cmds st2' = xs_cmds st' \<and>
    map_of (xs_fs st2') = map_of (xs_fs st')"
proof -
  let ?wd = "pjoin (BUILD env) name"
  obtain t where t: "map_of tests name = Some t" using assms(1) by (auto simp: run_test_def split: option.splits)
  obtain f1 where f1: "map_of f1 = ready_files t ?wd defs plusargs (map_of (xs_fs st))" and r1: "run_test ex env tests name defs plusargs st =
     bindE (run_steps ex ?wd (steps_of env t defs plusargs) (st\<lparr>xs_fs := f1\<rparr>)) (verdict_of ?wd name)"
    using run_test_steps [OF t, where env = env and st = st] by blast
  obtain f2 where f2: "map_of f2 = ready_files t ?wd defs plusargs (map_of (xs_fs st2))" and r2: "run_test ex env tests name defs plusargs st2 =
     bindE (run_steps ex ?wd (steps_of env t defs plusargs) (st2\<lparr>xs_fs := f2\<rparr>)) (verdict_of ?wd name)"
    using run_test_steps [OF t, where env = env and st = st2] by blast
  have "(\<lambda>p. if starts_with (?wd @ ''/'') p then None else map_of (xs_fs st2) p) =
      (\<lambda>p. if starts_with (?wd @ ''/'') p then None else map_of (xs_fs st) p)"
    using assms(3) by (simp add: fun_eq_iff)
  then have "map_of f2 = map_of f1" unfolding f1 f2 ready_files_def by (simp only:)
  then have "same_state (st\<lparr>xs_fs := f1\<rparr>) (st2\<lparr>xs_fs := f2\<rparr>)" using assms(2) by (simp add: same_state_def)
  from run_steps_same [OF this, of ex ?wd "steps_of env t defs plusargs"] assms(1) show ?thesis
    unfolding r1 r2
    by (cases rule: rel_sum.cases) (auto simp: verdict_of_def same_state_def read_file_def Let_def split: option.splits)
qed

lemma xsim_no_stale_verdict_witness:
  "\<exists>v st'. run_test (\<lambda>files cmds cmd wd. Some (0, ''PASS'', [])) \<lparr>x_root = ''/r'', x_vivado = ''/v'', x_nt = False, x_python = ''py'', x_cpu = []\<rparr>
       (TESTS []) ''lane'' [] [] \<lparr>xs_fs = [(''/r/build_xsim/lane/xsim.log'', ''FAIL'')], xs_cmds = []\<rparr> = Inr (v, st')"
proof -
  let ?env = "\<lparr>x_root = ''/r'', x_vivado = ''/v'', x_nt = False, x_python = ''py'', x_cpu = []\<rparr>"
  let ?ex = "\<lambda>files cmds cmd wd. Some (0, ''PASS'', [])"
  have "starts_with (pjoin (BUILD ?env) ''lane'' @ ''/'') ''/r/build_xsim/lane/xsim.log''" by code_simp
  then have same: "map_of [(''/r/build_xsim/lane/xsim.log'', ''FAIL'')] p = map_of [] p"
    if "\<not> starts_with (pjoin (BUILD ?env) ''lane'' @ ''/'') p" for p using that by auto
  have rc: "step_rc ?ex wd st ss i = Some 0" for wd st ss i by (simp add: step_rc_def step_run_def Let_def)
  obtain v st' where "run_test ?ex ?env (TESTS []) ''lane'' [] [] \<lparr>xs_fs = [], xs_cmds = []\<rparr> = Inr (v, st')"
    using run_test_correct [OF TESTS_lane [of "[]"], of ?env "[]" "[]" "\<lparr>xs_fs = [], xs_cmds = []\<rparr>" ?ex]
    by (auto simp: test_outcome_def rc Let_def)
  from xsim_no_stale_verdict [OF this, of "\<lparr>xs_fs = [(''/r/build_xsim/lane/xsim.log'', ''FAIL'')], xs_cmds = []\<rparr>"]
  show ?thesis using same by auto
qed



definition test_wf :: "xsim_test \<Rightarrow> bool" where
  "test_wf t \<longleftrightarrow> hd (t_sv t) = RTL_A @ ''simtix_pkg.sv'' \<and> last (t_sv t) = ''tests/'' @ t_top t @ ''.sv'' \<and> distinct (t_sv t)"

text \<open>The table is sound: names are unique, every test compiles the package first and its own testbench last,
  compiles no file twice, and every entry of the define and plusarg tables belongs to a test.\<close>

theorem xsim_table_sound:
  "distinct (map fst (TESTS cpu)) \<and> list_all test_wf (map snd (TESTS cpu)) \<and>
   set (map fst DEFINES) \<subseteq> set (map fst (TESTS cpu)) \<and> set (map fst (PLUSARGS env)) \<subseteq> set (map fst (TESTS cpu))"
proof (intro conjI)
  show "distinct (map fst (TESTS cpu))" by (rule TESTS_distinct)
  show "list_all test_wf (map snd (TESTS cpu))"
    unfolding TESTS_def list.map snd_conv list.pred_inject
    by (intro conjI; simp add: test_wf_def PKG_def POOL_def ACCEL_def SOC_def PS_def CHIP_def RTL_A_def)
  show "set (map fst DEFINES) \<subseteq> set (map fst (TESTS cpu))" unfolding TESTS_names by (simp add: DEFINES_def)
  show "set (map fst (PLUSARGS env)) \<subseteq> set (map fst (TESTS cpu))" unfolding TESTS_names by (simp add: PLUSARGS_def)
qed

end
