(* ===== verification/Sweep.thy ===== *)
theory Sweep
  imports Xsim "HOL-Library.Multiset"
begin

text \<open>
  The sweeps over the regression runner: \<^verbatim>\<open>sim/amo_sweep.py\<close>, \<^verbatim>\<open>sim/app_sweep.py\<close>,
  \<^verbatim>\<open>sim/lane_sweep.py\<close> and \<^verbatim>\<open>sim/board_sim.py\<close>. Each runs a testbench under several configurations, collects
  the rows it prints keyed by run, merges them into a comma-separated file and prints a table. The
  threads of the first two are run one after the other; \<^verbatim>\<open>Executor.map\<close> returns their results in this order.
\<close>

section \<open>Rows of a log\<close>

text \<open>Fields of a row, which may be missing.\<close>

definition field :: "string list \<Rightarrow> nat \<Rightarrow> string result" where
  "field r i = (if i < length r then Inr (r ! i) else Inl IndexError)"

definition int_field :: "string list \<Rightarrow> nat \<Rightarrow> int result" where
  "int_field r i = bindE (field r i) int_of"

text \<open>The loop over the log: one row per key, where the key is the first \<open>k\<close> fields after the tag.\<close>

definition keyed_row :: "string \<Rightarrow> nat \<Rightarrow> string list \<Rightarrow> string \<Rightarrow> (string list \<times> string list) list \<Rightarrow> (string list \<times> string list) list" where
  "keyed_row tag k pre line rows =
     (if starts_with tag line
      then (let f = tl (split_on (CHR '','') (strip line)) in AList.update (take k f) (pre @ f) rows)
      else rows)"

definition keyed_rows :: "string \<Rightarrow> nat \<Rightarrow> string list \<Rightarrow> string \<Rightarrow> string list list" where
  "keyed_rows tag k pre text = map snd (fold (keyed_row tag k pre) (file_lines (univ_nl text)) [])"

text \<open>\<^verbatim>\<open>if os.path.isfile(log): for line in open(log): ...\<close>.\<close>

definition log_rows :: "xsim_env \<Rightarrow> string \<Rightarrow> string \<Rightarrow> nat \<Rightarrow> string list \<Rightarrow> xstate \<Rightarrow> string list list" where
  "log_rows env name tag k pre st =
     (case map_of (xs_fs st) (pjoin (pjoin (BUILD env) name) ''xsim.log'') of
        None \<Rightarrow> [] | Some text \<Rightarrow> keyed_rows tag k pre text)"

section \<open>Tables\<close>

definition add_total :: "'k \<Rightarrow> int \<Rightarrow> ('k \<times> int) list \<Rightarrow> ('k \<times> int) list" where
  "add_total key n tot = AList.update key ((case map_of tot key of None \<Rightarrow> 0 | Some m \<Rightarrow> m) + n) tot"

definition get0 :: "('k \<times> int) list \<Rightarrow> 'k \<Rightarrow> int" where
  "get0 tot key = (case map_of tot key of None \<Rightarrow> 0 | Some n \<Rightarrow> n)"

definition sorted_keys :: "'k::linorder list \<Rightarrow> 'k list" where
  "sorted_keys ks = sort (remdups ks)"

definition result_line :: "nat \<Rightarrow> string \<Rightarrow> bool \<Rightarrow> string \<Rightarrow> string" where
  "result_line w name ok msg = (if ok then ''PASS'' else ''FAIL'') @ ''  '' @ padr w name @ '' '' @ msg"

definition num :: "nat \<Rightarrow> int \<Rightarrow> string" where "num w n = '' '' @ padl w (str_int n)"

definition ratio :: "nat \<Rightarrow> int \<Rightarrow> int \<Rightarrow> string" where
  "ratio w a b = '' '' @ padl w (fixed 2 (of_int a / of_int (max b 1)))"

section \<open>amo\_sweep.py\<close>

definition AMO_CONFIGS :: "(string \<times> string list) list" where
  "AMO_CONFIGS =
     [(''lat0'', []), (''lat7'', [''MEM_LAT=7'', ''MEM_STALL=1'']),
      (''l1'', [''MEM_LAT=20'', ''MEM_STALL=1'', ''MEM_OOO=1'', ''L1=1'']),
      (''axi'', [''MEM_LAT=24'', ''MEM_STALL=1'', ''MEM_OOO=1'', ''L1=1'', ''AXI=1''])]"

definition AMO_VARIANTS :: "(string \<times> string list) list" where
  "AMO_VARIANTS = [(''base'', [''AGG=0'']), (''ser'', [''AGG=1'', ''APAR=0'']), (''par'', [''AGG=1'', ''APAR=1''])]"

definition AMO_SRC :: "string list" where
  "AMO_SRC = POOL @ [RTL_A @ ''l1_dcache.sv'', RTL_A @ ''axi_line_master.sv'', ''tests/tb_sync.sv'']"

definition AMO_SHOW :: "string list" where
  "AMO_SHOW = [''histogram'', ''hist_shared'', ''amo_contend'', ''amo_test'']"

definition sweep_test :: "string \<Rightarrow> string list \<Rightarrow> string list \<Rightarrow> xsim_test" where
  "sweep_test tb sv gen = \<lparr>t_top = tb, t_sv = sv, t_v = [], t_dpi = False, t_gen = Some gen\<rparr>"

text \<open>What a run of one configuration gives: its name, verdict, message and rows.\<close>

record outcome =
  r_name :: string
  r_ok :: bool
  r_msg :: string
  r_rows :: "string list list"

definition amo_one :: "tools \<Rightarrow> xsim_env \<Rightarrow> string \<times> string \<Rightarrow> xstate \<Rightarrow> (outcome \<times> xstate) result" where
  "amo_one ex env = (\<lambda>(cfg, var) st.
     (case (map_of AMO_CONFIGS cfg, map_of AMO_VARIANTS var) of
        (Some gc, Some gv) \<Rightarrow>
          let name = ''amo_'' @ cfg @ ''_'' @ var;
              tests = AList.update name (sweep_test ''tb_sync'' AMO_SRC (gc @ gv)) (TESTS (x_cpu env))
          in bindE (run_test ex env tests name [] [] st) (\<lambda>((ok, msg), st).
             Inr (\<lparr>r_name = name, r_ok = ok, r_msg = msg, r_rows = log_rows env name ''SYNCCSV,'' 3 [cfg, var] st\<rparr>, st))
      | _ \<Rightarrow> Inl KeyError))"

text \<open>The runs of a sweep in order; a failed test is a result, an exception ends the sweep.\<close>

fun run_jobs :: "('j \<Rightarrow> xstate \<Rightarrow> (outcome \<times> xstate) result) \<Rightarrow> 'j list \<Rightarrow> xstate \<Rightarrow> (outcome list \<times> xstate) result" where
  "run_jobs f [] st = Inr ([], st)"
| "run_jobs f (j # js) st =
     bindE (f j st) (\<lambda>(o1, st). bindE (run_jobs f js st) (\<lambda>(os, st). Inr (o1 # os, st)))"

definition exit_code :: "outcome list \<Rightarrow> int" where
  "exit_code os = (if length (filter (\<lambda>x. \<not> r_ok x) os) \<noteq> 0 then 1 else 0)"

definition amo_key :: "string list \<Rightarrow> ((string \<times> string \<times> string \<times> string \<times> string) \<times> int \<times> int) result" where
  "amo_key r =
     bindE (field r 0) (\<lambda>c. bindE (field r 1) (\<lambda>v. bindE (field r 2) (\<lambda>k. bindE (field r 3) (\<lambda>n. bindE (field r 4) (\<lambda>b.
     bindE (int_field r 5) (\<lambda>t. bindE (int_field r 6) (\<lambda>x. Inr ((c, v, k, n, b), t, x))))))))"

definition amo_line :: "((string \<times> string \<times> string \<times> string \<times> string) \<times> int \<times> int) list \<Rightarrow> string \<Rightarrow> string \<Rightarrow> string list" where
  "amo_line cyc k c =
     (case filter (\<lambda>(c', v', k', _, _). c' = c \<and> v' = ''base'' \<and> k' = k) (map fst cyc) of
        [] \<Rightarrow> []
      | (_, _, _, n, b) # _ \<Rightarrow>
          let get = (\<lambda>v. case map_of cyc (c, v, k, n, b) of None \<Rightarrow> (0, 0) | Some p \<Rightarrow> p);
              (t0, x0) = get ''base''; (t1, x1) = get ''ser''; (t2, _) = get ''par''
          in [padr 12 k @ '' '' @ padr 6 c @ num 7 t0 @ num 7 t1 @ num 7 t2 @ ratio 6 t0 t1 @ ratio 6 t0 t2
               @ num 5 x0 @ num 7 x1])"

definition amo_main :: "tools \<Rightarrow> xsim_env \<Rightarrow> xstate \<Rightarrow> (int \<times> string list \<times> xstate) result" where
  "amo_main ex env st =
     (let out = pjoin (pjoin (x_root env) ''docs'') ''amo_agg.csv'';
          jobs = concat (map (\<lambda>c. map (\<lambda>v. (c, v)) (map fst AMO_VARIANTS)) (map fst AMO_CONFIGS))
      in bindE (run_jobs (amo_one ex env) jobs st) (\<lambda>(os, st).
         let rows = concat (map r_rows os);
             st = st\<lparr>xs_fs := write_file out (csv_write ([''config'', ''variant'', ''kernel'', ''N'', ''block_log2'', ''cycles'',
                    ''gmem_txns'', ''scratch_txns''] # rows)) (xs_fs st)\<rparr>
         in bindE (mapE amo_key rows) (\<lambda>kvs.
            let cyc = fold (\<lambda>(k, v). AList.update k v) kvs []
            in Inr (exit_code os,
                 map (\<lambda>x. result_line 16 (r_name x) (r_ok x) (r_msg x)) os
                   @ [''wrote '' @ out @ '' ('' @ str_nat (length rows) @ '' rows)'' @ [CHR 0x0A],
                      ''kernel       config    base     ser     par  x ser  x par   txn txn agg'']
                   @ concat (map (\<lambda>k. concat (map (amo_line cyc k) (map fst AMO_CONFIGS))) AMO_SHOW), st))))"

section \<open>app\_sweep.py\<close>

definition app_one :: "tools \<Rightarrow> xsim_env \<Rightarrow> string \<Rightarrow> xstate \<Rightarrow> (outcome \<times> xstate) result" where
  "app_one ex env var st =
     (case map_of AMO_VARIANTS var of
        None \<Rightarrow> Inl KeyError
      | Some gv \<Rightarrow>
          let name = ''apps_'' @ var;
              tests = AList.update name (sweep_test ''tb_apps'' (PS @ [''tests/tb_apps.sv'']) gv) (TESTS (x_cpu env))
          in bindE (run_test ex env tests name [] [] st) (\<lambda>((ok, msg), st).
             Inr (\<lparr>r_name = name, r_ok = ok, r_msg = msg, r_rows = log_rows env name ''APPCSV,'' 2 [var] st\<rparr>, st)))"

text \<open>\<^verbatim>\<open>for v, case, _, _, cyc, *_ in rows: tot[(v, case)] = ... + int(cyc)\<close>.\<close>

definition case_total :: "string list \<Rightarrow> ((string \<times> string) \<times> int) list \<Rightarrow> ((string \<times> string) \<times> int) list result" where
  "case_total r tot =
     (if length r < 5 then Inl ValueError else bindE (int_of (r ! 4)) (\<lambda>n. Inr (add_total (r ! 0, r ! 1) n tot)))"

definition app_main :: "tools \<Rightarrow> xsim_env \<Rightarrow> string \<Rightarrow> xstate \<Rightarrow> (int \<times> string list \<times> xstate) result" where
  "app_main ex env sz st =
     (let out = pjoin (pjoin (x_root env) ''docs'') ''apps_agg.csv''
      in bindE (run_checked ex [x_python env, pjoin (pjoin (x_root env) ''sim'') ''gen_apps.py'', ''--size'', sz] st) (\<lambda>st.
         bindE (run_jobs (app_one ex env) (map fst AMO_VARIANTS) st) (\<lambda>(os, st).
         let rows = concat (map r_rows os);
             st = st\<lparr>xs_fs := write_file out (csv_write ([''variant'', ''case'', ''launch'', ''threads'', ''cycles'', ''l1_hits'',
                    ''l1_misses'', ''insns'', ''active''] # rows)) (xs_fs st)\<rparr>
         in bindE (foldE case_total rows []) (\<lambda>tot.
            Inr (exit_code os,
                 map (\<lambda>x. result_line 10 (r_name x) (r_ok x) (r_msg x)) os
                   @ [''wrote '' @ out @ '' ('' @ str_nat (length rows) @ '' rows)'' @ [CHR 0x0A],
                      padr 22 ''case'' @ ''     base      ser      par  x ser  x par'']
                   @ map (\<lambda>c. let b = get0 tot (''base'', c); s = get0 tot (''ser'', c); p = get0 tot (''par'', c)
                         in padr 22 c @ num 8 b @ num 8 s @ num 8 p @ ratio 6 b s @ ratio 6 b p)
                       (sorted_keys (map (snd \<circ> fst) tot)), st)))))"

section \<open>Merging into an existing file\<close>

text \<open>\<^verbatim>\<open>sorted(rows, key=f)\<close> where the key may raise.\<close>

definition sort_by :: "('a \<Rightarrow> 'k::linorder result) \<Rightarrow> 'a list \<Rightarrow> 'a list result" where
  "sort_by f xs = bindE (mapE f xs) (\<lambda>_. Inr (sort_key (\<lambda>x. projr (f x)) xs))"

text \<open>Keep the old rows that are not stale, add the new ones, sort.\<close>

definition merge_rows :: "(string list \<Rightarrow> bool result) \<Rightarrow> (string list \<Rightarrow> 'k::linorder result) \<Rightarrow> string list list \<Rightarrow> string list list
    \<Rightarrow> string list list result" where
  "merge_rows stale key old new =
     bindE (mapE stale old) (\<lambda>_. sort_by key (filter (\<lambda>r. stale r = Inr False) old @ new))"

text \<open>The data rows of a file that may not exist: all but the header.\<close>

definition old_rows :: "fs \<Rightarrow> string \<Rightarrow> string list list" where
  "old_rows fs p = (case map_of fs p of None \<Rightarrow> [] | Some text \<Rightarrow> tl (csv_read text))"

section \<open>lane\_sweep.py\<close>

definition APP_HDR :: "string list" where
  "APP_HDR = [''case'', ''launch'', ''threads'', ''cycles'', ''l1_hits'', ''l1_misses'', ''insns'', ''active'']"

definition lane_one :: "tools \<Rightarrow> xsim_env \<Rightarrow> string \<Rightarrow> int \<Rightarrow> xstate \<Rightarrow> (outcome \<times> xstate) result" where
  "lane_one ex env sz lanes st =
     (let data = pjoin (x_root env) (''build_apps_l'' @ str_int lanes);
          kdir = (if lanes \<noteq> 8 then pjoin data ''kernels'' else pjoin (pjoin (x_root env) ''kernels'') ''apps'');
          name = ''apps_l'' @ str_int lanes;
          tests = AList.update name (sweep_test ''tb_apps'' (PS @ [''tests/tb_apps.sv'']) [''AGG=1'', ''APAR=0'']) (TESTS (x_cpu env))
      in bindE (if lanes \<noteq> 8 then
             run_checked ex [x_python env, pjoin (pjoin (pjoin (x_root env) ''kernels'') ''apps'') ''build.py'', ''--lanes'', str_int lanes,
               ''--out'', kdir] st
           else Inr st) (\<lambda>st.
         bindE (run_checked ex [x_python env, pjoin (pjoin (x_root env) ''sim'') ''gen_apps.py'', ''--size'', sz, ''--lanes'', str_int lanes,
               ''--kdir'', kdir, ''--out'', data] st) (\<lambda>st.
         bindE (run_test ex env tests name [''SIMTIX_NUM_LANES='' @ str_int lanes] [slashes (''MANIFEST='' @ data @ ''/apps.manifest'')] st)
           (\<lambda>((ok, msg), st).
         Inr (\<lparr>r_name = name, r_ok = ok, r_msg = msg, r_rows = log_rows env name ''APPCSV,'' 2 [str_int lanes] st\<rparr>, st)))))"

definition lane_stale :: "int list \<Rightarrow> string list \<Rightarrow> bool result" where
  "lane_stale lanes r = bindE (int_field r 0) (\<lambda>l. Inr (l \<in> set lanes))"

definition lane_total :: "string list \<Rightarrow> ((int \<times> string) \<times> int) list \<Rightarrow> ((int \<times> string) \<times> int) list result" where
  "lane_total r tot =
     (if length r < 5 then Inl ValueError
      else bindE (int_of (r ! 0)) (\<lambda>l. bindE (int_of (r ! 4)) (\<lambda>n. Inr (add_total (l, r ! 1) n tot))))"

definition lane_main :: "tools \<Rightarrow> xsim_env \<Rightarrow> int list \<Rightarrow> string \<Rightarrow> xstate \<Rightarrow> (int \<times> string list \<times> xstate) result" where
  "lane_main ex env lanes sz st =
     (let out = pjoin (pjoin (x_root env) ''docs'') ''lanes_apps.csv''
      in bindE (run_jobs (lane_one ex env sz) lanes st) (\<lambda>(os, st).
         bindE (merge_rows (lane_stale lanes) (\<lambda>r. int_field r 0) (old_rows (xs_fs st) out) (concat (map r_rows os))) (\<lambda>rows.
         let st = st\<lparr>xs_fs := write_file out (csv_write ((''lanes'' # APP_HDR) # rows)) (xs_fs st)\<rparr>
         in bindE (foldE lane_total rows []) (\<lambda>tot.
            let ls = sorted_keys (map (fst \<circ> fst) tot)
            in Inr (exit_code os,
                 map (\<lambda>(l, x). (if r_ok x then ''PASS'' else ''FAIL'') @ ''  '' @ padl 2 (str_int l) @ '' lanes  '' @ r_msg x) (zip lanes os)
                   @ [''wrote '' @ out @ '' ('' @ str_nat (length rows) @ '' rows)'' @ [CHR 0x0A],
                      padr 22 ''case'' @ concat (map (\<lambda>l. '' '' @ padl 10 (str_int l @ '' lanes'')) ls)]
                   @ map (\<lambda>c. padr 22 c @ concat (map (\<lambda>l. num 10 (get0 tot (l, c))) ls))
                       (sorted_keys (map (snd \<circ> fst) tot)), st)))))"

section \<open>board\_sim.py\<close>

definition BOARD_HDR :: "string list" where "BOARD_HDR = [''size'', ''lat''] @ APP_HDR"

record board_args =
  b_size :: string
  b_only :: "string list"
  b_warps :: int
  b_defines :: "string list"

text \<open>\<^verbatim>\<open>s.replace('SIMTIX_', '')\<close> and \<^verbatim>\<open>s.lower()\<close>.\<close>

fun drop_prefix_all :: "string \<Rightarrow> nat \<Rightarrow> string \<Rightarrow> string" where
  "drop_prefix_all p k [] = []"
| "drop_prefix_all p (Suc k) (c # cs) = drop_prefix_all p k cs"
| "drop_prefix_all p 0 (c # cs) =
     (if p \<noteq> [] \<and> starts_with p (c # cs) then drop_prefix_all p (length p - 1) cs else c # drop_prefix_all p 0 cs)"

definition lower :: "string \<Rightarrow> string" where
  "lower = map (\<lambda>c. let n = of_char c :: nat in if 65 \<le> n \<and> n \<le> 90 then char_of (n + 32) else c)"

definition board_tag :: "string list \<Rightarrow> string" where
  "board_tag defines =
     concat (map (\<lambda>d. ''_'' @ lower (drop_prefix_all ''SIMTIX_'' 0 (hd (split_on (CHR ''='') d))) @ last (split_on (CHR ''='') d)) defines)"

definition board_one :: "tools \<Rightarrow> xsim_env \<Rightarrow> board_args \<Rightarrow> int \<Rightarrow> xstate \<Rightarrow> (outcome \<times> xstate) result" where
  "board_one ex env a lat st =
     (let words_lg = (if b_size a = ''dram'' then 24 else 20 :: nat);
          data = pjoin (x_root env) (''build_apps_'' @ b_size a);
          cmd = [x_python env, pjoin (pjoin (x_root env) ''sim'') ''gen_apps.py'', ''--size'', b_size a, ''--words-lg'', str_nat words_lg,
                 ''--out'', data] @ (if b_only a \<noteq> [] then [''--only''] @ b_only a else []);
          name = ''apps_'' @ b_size a @ ''_l'' @ str_int lat @ (if b_warps a \<noteq> 4 then ''_w'' @ str_int (b_warps a) else [])
                   @ board_tag (b_defines a);
          defs = (if b_warps a \<noteq> 4 then [''SIMTIX_NUM_WARPS='' @ str_int (b_warps a)] else []) @ b_defines a;
          tests = AList.update name (sweep_test ''tb_apps'' (PS @ [''tests/tb_apps.sv''])
                    [''AGG=1'', ''APAR=0'', ''MEM_LAT='' @ str_int lat, ''WORDS_LG='' @ str_nat words_lg]) (TESTS (x_cpu env))
      in bindE (run_checked ex cmd st) (\<lambda>st.
         bindE (run_test ex env tests name defs [slashes (''MANIFEST='' @ data @ ''/apps.manifest'')] st) (\<lambda>((ok, msg), st).
         Inr (\<lparr>r_name = name, r_ok = ok, r_msg = msg, r_rows = log_rows env name ''APPCSV,'' 2 [b_size a, str_int lat] st\<rparr>, st))))"

text \<open>The key of a row and the order of the file.\<close>

definition board_key :: "string list \<Rightarrow> (string \<times> string \<times> string) result" where
  "board_key r = bindE (field r 0) (\<lambda>a. bindE (field r 1) (\<lambda>b. bindE (field r 2) (\<lambda>c. Inr (a, b, c))))"

definition board_order :: "string list \<Rightarrow> (string \<times> int \<times> string) result" where
  "board_order r = bindE (field r 0) (\<lambda>a. bindE (int_field r 1) (\<lambda>b. bindE (field r 2) (\<lambda>c. Inr (a, b, c))))"

definition board_stale :: "string list list \<Rightarrow> string list \<Rightarrow> bool result" where
  "board_stale new r = bindE (board_key r) (\<lambda>k. Inr (k \<in> set (map (\<lambda>r. projr (board_key r)) new)))"

definition board_merge :: "string list list \<Rightarrow> string list list \<Rightarrow> string list list result" where
  "board_merge old new = bindE (mapE board_key new) (\<lambda>_. merge_rows (board_stale new) board_order old new)"

definition board_total :: "string list \<Rightarrow> (string \<times> int) list \<Rightarrow> (string \<times> int) list result" where
  "board_total r tot = bindE (field r 2) (\<lambda>c. bindE (int_field r 5) (\<lambda>n. Inr (add_total c n tot)))"

text \<open>One latency: run, merge into the file, print the totals.\<close>

definition board_step :: "tools \<Rightarrow> xsim_env \<Rightarrow> string \<Rightarrow> board_args \<Rightarrow> int \<Rightarrow> outcome list \<times> string list \<times> xstate
    \<Rightarrow> (outcome list \<times> string list \<times> xstate) result" where
  "board_step ex env out a lat = (\<lambda>(os, lines, st).
     bindE (board_one ex env a lat st) (\<lambda>(x, st).
     bindE (board_merge (old_rows (xs_fs st) out) (r_rows x)) (\<lambda>rows.
     let st = st\<lparr>xs_fs := write_file out (csv_write (BOARD_HDR # rows)) (xs_fs st)\<rparr>
     in bindE (foldE board_total (r_rows x) []) (\<lambda>tot.
        Inr (os @ [x],
             lines @ [(if r_ok x then ''PASS'' else ''FAIL'') @ ''  '' @ b_size a @ '' lat '' @ str_int lat @ ''  '' @ r_msg x]
               @ map (\<lambda>(c, n). ''  '' @ padr 26 c @ num 12 n @ '' cycles'') (sort tot), st)))))"

definition board_main :: "tools \<Rightarrow> xsim_env \<Rightarrow> string \<Rightarrow> board_args \<Rightarrow> int list \<Rightarrow> xstate \<Rightarrow> (int \<times> string list \<times> xstate) result" where
  "board_main ex env out a lats st =
     bindE (if b_size a \<in> set [''board'', ''dram''] then Inr () else Inl (SystemExit ''invalid choice: --size'')) (\<lambda>_.
     bindE (foldE (board_step ex env out a) lats ([], [], st)) (\<lambda>(os, lines, st).
     Inr (exit_code os, lines, st)))"

section \<open>One row per run\<close>

text \<open>Two association lists with the same keys in the same order and the same entries are equal.\<close>

lemma alist_eqI:
  assumes "map fst xs = map fst ys" "distinct (map fst xs)" "map_of xs = map_of ys"
  shows "xs = ys"
proof (rule nth_equalityI)
  show len: "length xs = length ys" using assms(1) by (metis length_map)
  fix i assume i: "i < length xs"
  have k: "fst (xs ! i) = fst (ys ! i)" using assms(1) i len by (metis nth_map)
  have "map_of xs (fst (xs ! i)) = Some (snd (xs ! i))"
    by (rule map_of_is_SomeI [OF assms(2)]) (use i in simp)
  moreover have "map_of ys (fst (ys ! i)) = Some (snd (ys ! i))"
    by (rule map_of_is_SomeI) (use assms(1,2) i len in simp_all)
  ultimately show "xs ! i = ys ! i" using k assms(3) by (simp add: prod_eq_iff)
qed

definition put_all :: "('a \<Rightarrow> ('k \<times> 'v) option) \<Rightarrow> 'a list \<Rightarrow> ('k \<times> 'v) list \<Rightarrow> ('k \<times> 'v) list" where
  "put_all f xs d = fold (\<lambda>x d. case f x of None \<Rightarrow> d | Some (k, v) \<Rightarrow> AList.update k v d) xs d"

lemma put_all_distinct: "distinct (map fst d) \<Longrightarrow> distinct (map fst (put_all f xs d))"
  unfolding put_all_def by (induction xs arbitrary: d) (auto simp: distinct_update split: option.splits)

lemma map_of_put_all:
  "map_of (put_all f xs d) k =
     (case map_of (rev (List.map_filter f xs)) k of None \<Rightarrow> map_of d k | Some v \<Rightarrow> Some v)"
  unfolding put_all_def
  by (induction xs arbitrary: d) (auto simp: List.map_filter_def map_add_def update_conv split: option.splits)

lemma put_all_keys: "fst ` set (List.map_filter f xs) \<subseteq> fst ` set d \<Longrightarrow> map fst (put_all f xs d) = map fst d"
  unfolding put_all_def
proof (induction xs arbitrary: d)
  case (Cons x xs)
  show ?case
  proof (cases "f x")
    case (Some kv)
    obtain k v where kv: "kv = (k, v)" by (cases kv)
    have "k \<in> fst ` set d" using Cons.prems Some kv by (simp add: List.map_filter_def)
    then have k: "map fst (AList.update k v d) = map fst d" by (simp add: update_keys)
    have "fst ` set (List.map_filter f xs) \<subseteq> fst ` set (AList.update k v d)"
      using Cons.prems Some kv k by (simp add: List.map_filter_def flip: set_map)
    from Cons.IH [OF this] show ?thesis using Some kv k by simp
  qed (use Cons in \<open>simp add: List.map_filter_def\<close>)
qed simp

lemma put_all_present: "fst ` set (List.map_filter f xs) \<subseteq> fst ` set (put_all f xs d)"
proof
  fix k assume "k \<in> fst ` set (List.map_filter f xs)"
  then have "map_of (rev (List.map_filter f xs)) k \<noteq> None" by (simp add: map_of_eq_None_iff)
  then have "map_of (put_all f xs d) k \<noteq> None" by (auto simp: map_of_put_all)
  then show "k \<in> fst ` set (put_all f xs d)" by (simp add: map_of_eq_None_iff)
qed

lemma put_all_idem:
  assumes "distinct (map fst d)"
  shows "put_all f xs (put_all f xs d) = put_all f xs d"
proof (rule alist_eqI)
  show "map fst (put_all f xs (put_all f xs d)) = map fst (put_all f xs d)"
    by (rule put_all_keys [OF put_all_present])
  show "distinct (map fst (put_all f xs (put_all f xs d)))" by (intro put_all_distinct assms)
  show "map_of (put_all f xs (put_all f xs d)) = map_of (put_all f xs d)"
    by (rule ext) (simp add: map_of_put_all split: option.splits)
qed

definition row_of :: "string \<Rightarrow> nat \<Rightarrow> string list \<Rightarrow> string \<Rightarrow> (string list \<times> string list) option" where
  "row_of tag k pre line =
     (if starts_with tag line then (let f = tl (split_on (CHR '','') (strip line)) in Some (take k f, pre @ f)) else None)"

lemma row_of_keys:
  assumes "\<forall>(a, b) \<in> set d. a = take k (drop (length pre) b)"
  shows "\<forall>(a, b) \<in> set (put_all (row_of tag k pre) xs d). a = take k (drop (length pre) b)"
  using assms unfolding put_all_def
proof (induction xs arbitrary: d)
  case (Cons x xs)
  show ?case
  proof (cases "row_of tag k pre x")
    case (Some kv)
    then obtain f where "kv = (take k f, pre @ f)" by (auto simp: row_of_def Let_def split: if_splits)
    moreover from this have "\<forall>(a, b) \<in> set (AList.update (take k f) (pre @ f) d). a = take k (drop (length pre) b)"
      using Cons.prems set_update [of "take k f" "pre @ f" d] by auto
    ultimately show ?thesis using Cons.IH Some by simp
  qed (use Cons in simp)
qed simp

lemma keyed_rows_put: "fold (keyed_row tag k pre) ls d = put_all (row_of tag k pre) ls d"
  unfolding put_all_def
  by (rule fold_cong) (auto simp: keyed_row_def row_of_def Let_def fun_eq_iff)

section \<open>Merging\<close>

definition keyed_merge :: "('r \<Rightarrow> bool) \<Rightarrow> ('r \<Rightarrow> 'k::linorder) \<Rightarrow> 'r list \<Rightarrow> 'r list \<Rightarrow> 'r list" where
  "keyed_merge stale key old new = sort_key key (filter (\<lambda>r. \<not> stale r) old @ new)"

lemma sort_key_absorb: "sort_key key (sort_key key xs @ ys) = sort_key key (xs @ ys)"
proof (rule properties_for_sort_key)
  show "mset (sort_key key (xs @ ys)) = mset (sort_key key xs @ ys)" by simp
  show "sorted (map key (sort_key key (xs @ ys)))" by simp
  fix k
  show "filter (\<lambda>x. key k = key x) (sort_key key (xs @ ys)) = filter (\<lambda>x. key k = key x) (sort_key key xs @ ys)"
    by (simp add: sort_key_stable eq_commute [of "key k"])
qed

text \<open>
  The contract of a keyed file: every new row makes the old rows of its run stale. Whoever keeps it
  can repeat a run without changing the file again.
\<close>

locale keyed_file =
  fixes stale :: "'n \<Rightarrow> 'r \<Rightarrow> bool" and rows :: "'n \<Rightarrow> 'r list" and key :: "'r \<Rightarrow> 'k::linorder"
  assumes new_stale: "r \<in> set (rows n) \<Longrightarrow> stale n r"
begin

lemma no_new_kept: "filter (\<lambda>r. \<not> stale n r) (rows n) = []" "filter (stale n) (rows n) = rows n"
  using new_stale by (auto simp: filter_empty_conv)

lemma kept: "filter (\<lambda>r. \<not> stale n r) (keyed_merge (stale n) key old (rows n)) = sort_key key (filter (\<lambda>r. \<not> stale n r) old)"
  by (simp add: keyed_merge_def filter_sort no_new_kept)

lemma replaced: "filter (stale n) (keyed_merge (stale n) key old (rows n)) = sort_key key (rows n)"
  by (simp add: keyed_merge_def filter_sort no_new_kept)

lemma rerun:
  "keyed_merge (stale n) key (keyed_merge (stale n) key old (rows n)) (rows n) = keyed_merge (stale n) key old (rows n)"
  unfolding keyed_merge_def [of "stale n" key "keyed_merge (stale n) key old (rows n)"] kept
  by (simp add: sort_key_absorb keyed_merge_def)

end

text \<open>The result-typed merge of the scripts is this one, when no key raises.\<close>

lemma merge_rows_Inr:
  "merge_rows stale key old new = Inr m \<longleftrightarrow>
     (\<exists>bs ks. mapE stale old = Inr bs \<and> mapE key (filter (\<lambda>r. stale r = Inr False) old @ new) = Inr ks) \<and>
     m = keyed_merge (\<lambda>r. stale r \<noteq> Inr False) (\<lambda>r. projr (key r)) old new"
  by (auto simp: merge_rows_def sort_by_def keyed_merge_def result_simps)

lemma mapE_Inr_iff: "(\<exists>ys. mapE f xs = Inr ys) \<longleftrightarrow> (\<forall>x \<in> set xs. \<exists>y. f x = Inr y)"
  by (induction xs) (auto simp: result_simps)

interpretation board: keyed_file "\<lambda>new r. board_stale new r \<noteq> Inr False" "\<lambda>new. new" "\<lambda>r. projr (board_order r)"
proof
  fix r :: "string list" and new :: "string list list" assume "r \<in> set new"
  then show "board_stale new r \<noteq> Inr False" by (cases "board_key r") (force simp: board_stale_def)+
qed

text \<open>The rows of a lane sweep: each begins with the lane count of its run.\<close>

definition lane_rows :: "(int \<times> string list list) list \<Rightarrow> string list list" where
  "lane_rows runs = concat (map (\<lambda>(l, fs). map (\<lambda>f. str_int l # f) fs) runs)"

lemma digit_char_space: "d < 10 \<Longrightarrow> \<not> is_space (digit_char d)"
proof -
  have "\<forall>d \<in> set [0..<10]. \<not> is_space (digit_char d)" by code_simp
  then show "d < 10 \<Longrightarrow> \<not> is_space (digit_char d)" by simp
qed

lemma strip_id:
  assumes "s \<noteq> [] \<Longrightarrow> \<not> is_space (hd s) \<and> \<not> is_space (last s)"
  shows "strip s = s"
proof (cases "s = []")
  case False
  then have "dropWhile is_space s = s" using assms by (cases s) auto
  moreover have "dropWhile is_space (rev s) = rev s" using assms False by (cases "rev s") (auto simp: last_rev [symmetric] hd_rev)
  ultimately show ?thesis by (simp add: strip_def)
qed (simp add: strip_def)

lemma int_of_str_int [simp]: "int_of (str_int n) = Inr n"
proof -
  have all: "list_all (\<lambda>c. \<exists>d \<in> set [0..<10]. c = digit_char d) (str_nat k)" for k
    using str_nat_digits by (fastforce simp: list_all_iff)
  have rd: "read_digits 10 0 (str_nat k) = Some k" for k by (simp add: str_nat_def read_digits_digits)
  have sp: "\<not> is_space (hd (str_nat k))" "\<not> is_space (last (str_nat k))" for k
    using str_nat_digits digit_char_space str_nat_ne by (metis hd_in_set last_in_set)+
  have sign: "hd (str_nat k) \<noteq> CHR ''-''" "hd (str_nat k) \<noteq> CHR ''+''" for k
  proof -
    have "\<forall>d \<in> set [0..<10]. digit_char d \<noteq> CHR ''-'' \<and> digit_char d \<noteq> CHR ''+''" by code_simp
    moreover obtain d where "d < 10" "hd (str_nat k) = digit_char d"
      using str_nat_digits [of "hd (str_nat k)" k] str_nat_ne by auto
    ultimately show "hd (str_nat k) \<noteq> CHR ''-''" "hd (str_nat k) \<noteq> CHR ''+''" by simp_all
  qed
  show ?thesis
  proof (cases "n < 0")
    case True
    have "strip (str_int n) = CHR ''-'' # str_nat (nat (- n))"
      using True sp(2) by (subst strip_id) (auto simp: str_int_def str_nat_ne is_space_def)
    then show ?thesis using True all rd by (simp add: int_of_def str_nat_ne)
  next
    case False
    have st: "strip (str_int n) = str_nat (nat n)"
      using False sp by (subst strip_id) (auto simp: str_int_def)
    obtain c cs where c: "str_nat (nat n) = c # cs" using str_nat_ne by (cases "str_nat (nat n)") auto
    show ?thesis using False all [of "nat n"] rd [of "nat n"] sign [of "nat n"] st c by (simp add: int_of_def)
  qed
qed

interpretation lanes: keyed_file "\<lambda>runs r. lane_stale (map fst runs) r \<noteq> Inr False" lane_rows "\<lambda>r. projr (int_field r 0)"
proof
  fix r and runs :: "(int \<times> string list list) list" assume "r \<in> set (lane_rows runs)"
  then obtain l fs f where "(l, fs) \<in> set runs" "r = str_int l # f" by (auto simp: lane_rows_def)
  moreover from this have "l \<in> set (map fst runs)" by force
  ultimately show "lane_stale (map fst runs) r \<noteq> Inr False" by (simp add: lane_stale_def int_field_def field_def)
qed

section \<open>Totals\<close>

lemma get0_add_total [simp]: "get0 (add_total k n tot) c = get0 tot c + (if c = k then n else 0)"
  by (simp add: get0_def add_total_def update_conv split: option.splits)

lemma board_totals:
  assumes "foldE board_total rows tot = Inr tot'"
  shows "get0 tot' c = get0 tot c + (\<Sum>r\<leftarrow>filter (\<lambda>r. r ! 2 = c) rows. projr (int_of (r ! 5)))"
  using assms
proof (induction rows arbitrary: tot)
  case (Cons r rows)
  then obtain tot1 where r: "board_total r tot = Inr tot1" "foldE board_total rows tot1 = Inr tot'"
    by (auto simp: result_simps)
  then obtain n where "int_of (r ! 5) = Inr n" "tot1 = add_total (r ! 2) n tot"
    by (auto simp: board_total_def int_field_def field_def result_simps split: if_splits)
  with r(2) Cons.IH show ?case by auto
qed simp

section \<open>The board file\<close>

lemma board_order_key: "board_order r = Inr k \<Longrightarrow> \<exists>k'. board_key r = Inr k'"
  by (auto simp: board_order_def board_key_def int_field_def result_simps)

lemma board_stale_total: "board_key r = Inr k \<Longrightarrow> \<exists>b. board_stale new r = Inr b"
  by (simp add: board_stale_def)

lemma board_merge_Inr:
  "board_merge old new = Inr m \<longleftrightarrow>
     (\<forall>r \<in> set old. \<exists>k. board_key r = Inr k) \<and> (\<forall>r \<in> set m. \<exists>k. board_order r = Inr k) \<and>
     m = keyed_merge (\<lambda>r. board_stale new r \<noteq> Inr False) (\<lambda>r. projr (board_order r)) old new"
proof -
  have st: "(\<exists>bs. mapE (board_stale new) old = Inr bs) \<longleftrightarrow> (\<forall>r \<in> set old. \<exists>k. board_key r = Inr k)"
    by (auto simp: mapE_Inr_iff board_stale_def result_simps)
  have nw: "(\<exists>ks. mapE board_key new = Inr ks) \<longleftrightarrow> (\<forall>r \<in> set new. \<exists>k. board_key r = Inr k)"
    by (simp add: mapE_Inr_iff)
  have od: "(\<exists>ks. mapE board_order (filter (\<lambda>r. board_stale new r = Inr False) old @ new) = Inr ks) \<longleftrightarrow>
      (\<forall>r \<in> set (keyed_merge (\<lambda>r. board_stale new r \<noteq> Inr False) (\<lambda>r. projr (board_order r)) old new). \<exists>k. board_order r = Inr k)"
    unfolding mapE_Inr_iff by (simp add: keyed_merge_def)
  have in_m: "set new \<subseteq> set (keyed_merge (\<lambda>r. board_stale new r \<noteq> Inr False) (\<lambda>r. projr (board_order r)) old new)"
    by (auto simp: keyed_merge_def)
  have "board_merge old new = Inr m \<longleftrightarrow> (\<exists>ks. mapE board_key new = Inr ks) \<and> merge_rows (board_stale new) board_order old new = Inr m"
    by (auto simp: board_merge_def result_simps)
  then show ?thesis unfolding merge_rows_Inr using st nw od in_m board_order_key by blast
qed

text \<open>The run of a row is its first three columns.\<close>

lemma board_key_columns: "board_key r = Inr k \<longleftrightarrow> 3 \<le> length r \<and> k = (r ! 0, r ! 1, r ! 2)"
  by (auto simp: board_key_def field_def result_simps)

lemma board_order_columns: "board_order r = Inr k \<Longrightarrow> k = (r ! 0, projr (int_of (r ! 1)), r ! 2)"
  by (auto simp: board_order_def int_field_def field_def result_simps split: if_splits)

lemma take3: "3 \<le> length r \<Longrightarrow> take 3 r = [r ! 0, r ! 1, r ! 2]"
  by (auto simp: numeral_3_eq_3 Suc_le_length_iff)

lemma board_stale_columns:
  assumes "\<forall>r \<in> set new. \<exists>k. board_key r = Inr k" "board_key r = Inr k"
  shows "take 3 r \<in> take 3 ` set new \<longleftrightarrow> board_stale new r \<noteq> Inr False"
proof -
  have n: "3 \<le> length x" "projr (board_key x) = (x ! 0, x ! 1, x ! 2)" if "x \<in> set new" for x
    using assms(1) that board_key_columns by (metis sum.sel(2))+
  have r: "3 \<le> length r" "k = (r ! 0, r ! 1, r ! 2)" using assms(2) by (simp_all add: board_key_columns)
  have "take 3 r = take 3 x \<longleftrightarrow> k = projr (board_key x)" if "x \<in> set new" for x
    using n [OF that] r by (simp add: take3)
  then show ?thesis using assms(2) by (auto simp: board_stale_def image_iff)
qed

section \<open>Properties\<close>

text \<open>A log with repeated last lines gives the same rows as the log itself, and never two rows for one run: the
  rows of \<^verbatim>\<open>amo_sweep\<close>, \<^verbatim>\<open>app_sweep\<close>, \<^verbatim>\<open>lane_sweep\<close> and \<^verbatim>\<open>board_sim\<close> are keyed by run, the last line of a run
  wins, and its place is that of the first.\<close>

theorem sweep_rows_once:
  assumes "\<forall>l \<in> set ls. CHR 0x0A \<notin> set l \<and> CHR 0x0D \<notin> set l"
  shows "keyed_rows tag k pre (unlines (ls @ drop j ls)) = keyed_rows tag k pre (unlines ls) \<and>
    distinct (map (\<lambda>r. take k (drop (length pre) r)) (keyed_rows tag k pre (unlines ls)))"
proof -
  have nl: "univ_nl s = s" if "CHR 0x0D \<notin> set s" for s
    using that by (induction s rule: univ_nl.induct) auto
  have lines: "file_lines (univ_nl (unlines xs)) = xs" if "set xs \<subseteq> set ls" for xs
  proof -
    have "CHR 0x0D \<notin> set (unlines xs)" using assms that by (auto simp: unlines_def)
    then show ?thesis using nl file_lines_unlines [of xs] assms that by auto
  qed
  have rows: "keyed_rows tag k pre (unlines xs) = map snd (put_all (row_of tag k pre) xs [])" if "set xs \<subseteq> set ls" for xs
    by (simp add: keyed_rows_def lines [OF that] keyed_rows_put)
  have split: "put_all f (xs @ ys) d = put_all f ys (put_all f xs d)" for f :: "string \<Rightarrow> (string list \<times> string list) option" and xs ys d
    by (simp add: put_all_def)
  have d: "distinct (map fst (put_all (row_of tag k pre) xs []))" for xs by (rule put_all_distinct) simp
  have "put_all (row_of tag k pre) (ls @ drop j ls) [] = put_all (row_of tag k pre) ls []"
    using put_all_idem [OF d, of "row_of tag k pre" "drop j ls" "take j ls"]
    by (metis append_take_drop_id split)
  moreover have "set (ls @ drop j ls) \<subseteq> set ls" by (auto dest: in_set_dropD)
  ultimately have "keyed_rows tag k pre (unlines (ls @ drop j ls)) = keyed_rows tag k pre (unlines ls)"
    using rows by simp
  moreover have "map (\<lambda>r. take k (drop (length pre) r)) (keyed_rows tag k pre (unlines ls)) = map fst (put_all (row_of tag k pre) ls [])"
    unfolding rows [OF subset_refl] list.map_comp o_def
    by (rule map_cong [OF refl]) (use row_of_keys [of "[]" k pre tag ls] in \<open>fastforce simp: split_beta\<close>)
  ultimately show ?thesis using d [of ls] by simp
qed

text \<open>C11: \<^verbatim>\<open>board_sim\<close> replaces the rows of the runs it repeats and no others: after a merge the file is sorted by size,
  latency as a number, and case; its rows with the size, latency and case of a new row are exactly the new
  ones; all its other rows are the old rows of other sizes, latencies or cases, none lost; and merging the same rows again changes
  nothing.\<close>

theorem board_merge_replaces:
  assumes "board_merge old new = Inr m"
  shows "list_all (\<lambda>r. 3 \<le> length r) m \<and>
    sorted (map (\<lambda>r. (r ! 0, projr (int_of (r ! 1)), r ! 2)) m) \<and>
    mset (filter (\<lambda>r. take 3 r \<in> take 3 ` set new) m) = mset new \<and>
    mset (filter (\<lambda>r. take 3 r \<notin> take 3 ` set new) m) = mset (filter (\<lambda>r. take 3 r \<notin> take 3 ` set new) old) \<and>
    board_merge m new = Inr m"
proof -
  let ?st = "\<lambda>r. board_stale new r \<noteq> Inr False" and ?key = "\<lambda>r. projr (board_order r)" and ?in = "\<lambda>r. take 3 r \<in> take 3 ` set new"
  have m: "m = keyed_merge ?st ?key old new" and mo: "\<forall>r \<in> set m. \<exists>k. board_order r = Inr k" and ok: "\<forall>r \<in> set old. \<exists>k. board_key r = Inr k"
    using assms board_merge_Inr by blast+
  have mk: "\<forall>r \<in> set m. \<exists>k. board_key r = Inr k" using mo board_order_key by blast
  have nk: "\<forall>r \<in> set new. \<exists>k. board_key r = Inr k" using mk unfolding m by (auto simp: keyed_merge_def)
  have same: "?in r \<longleftrightarrow> ?st r" if "r \<in> set old \<union> set m" for r
    using board_stale_columns [OF nk] that ok mk by blast
  have "mset (filter ?in m) = mset new"
    using board.replaced [of new old] filter_cong [OF refl same, of m] m by auto
  moreover have "mset (filter (\<lambda>r. \<not> ?in r) m) = mset (filter (\<lambda>r. \<not> ?in r) old)"
  proof -
    have "filter (\<lambda>r. \<not> ?in r) m = filter (\<lambda>r. \<not> ?st r) m" "filter (\<lambda>r. \<not> ?in r) old = filter (\<lambda>r. \<not> ?st r) old"
      by (rule filter_cong [OF refl]; use same in blast)+
    then show ?thesis using board.kept [of new old] m by simp
  qed
  moreover have "board_merge m new = Inr m"
    unfolding board_merge_Inr using mk mo board.rerun [of new old] m by simp
  moreover have "sorted (map (\<lambda>r. (r ! 0, projr (int_of (r ! 1)), r ! 2)) m)"
  proof -
    have "map (\<lambda>r. (r ! 0, projr (int_of (r ! 1)), r ! 2)) m = map ?key m"
      using mo board_order_columns by (intro map_cong [OF refl]) (metis sum.sel(2))
    moreover have "sorted (map ?key m)" by (simp add: m keyed_merge_def)
    ultimately show ?thesis by (simp only:)
  qed
  moreover have "list_all (\<lambda>r. 3 \<le> length r) m"
    using mk board_key_columns by (auto simp: list_all_iff)
  ultimately show ?thesis by blast
qed

text \<open>One step of \<^verbatim>\<open>board_sim\<close> leaves that merge in the file: read back, the file holds the header and the merged
  rows, whatever characters their fields contain, and the totals printed per case are the sums of the
  cycles of its launches.\<close>

theorem board_step_file:
  assumes "board_step ex env out a lat (os, lines, st) = Inr (os', lines', st')"
  shows "\<exists>x st1 m tot. board_one ex env a lat st = Inr (x, st1) \<and> board_merge (old_rows (xs_fs st1) out) (r_rows x) = Inr m \<and>
    map_of (xs_fs st') out = Some (csv_write (BOARD_HDR # m)) \<and> csv_read (csv_write (BOARD_HDR # m)) = BOARD_HDR # m \<and>
    old_rows (xs_fs st') out = m \<and> (\<forall>p. p \<noteq> out \<longrightarrow> map_of (xs_fs st') p = map_of (xs_fs st1) p) \<and> os' = os @ [x] \<and>
    foldE board_total (r_rows x) [] = Inr tot \<and>
    (\<forall>c. get0 tot c = (\<Sum>r\<leftarrow>filter (\<lambda>r. r ! 2 = c) (r_rows x). projr (int_of (r ! 5))))"
proof -
  obtain x st1 m tot where "board_one ex env a lat st = Inr (x, st1)" "board_merge (old_rows (xs_fs st1) out) (r_rows x) = Inr m"
    "foldE board_total (r_rows x) [] = Inr tot" "os' = os @ [x]"
    "st' = st1\<lparr>xs_fs := write_file out (csv_write (BOARD_HDR # m)) (xs_fs st1)\<rparr>"
    using assms by (auto simp: board_step_def Let_def result_simps)
  then show ?thesis
    using board_totals [of "r_rows x" "[]" tot] by (intro exI conjI) (auto simp: old_rows_def get0_def)
qed

lemma sweep_rows_once_witness:
  "keyed_rows ''APPCSV,'' 2 [''8''] (unlines ([''APPCSV,gemm,0,99'', ''x''] @ drop 0 [''APPCSV,gemm,0,99'', ''x''])) =
     keyed_rows ''APPCSV,'' 2 [''8''] (unlines [''APPCSV,gemm,0,99'', ''x''])"
  using sweep_rows_once [of "[''APPCSV,gemm,0,99'', ''x'']" "''APPCSV,''" 2 "[''8'']" 0] by simp

lemma board_merge_replaces_witness:
  "board_merge [[''board'', ''24'', ''gemm'', ''0'', ''1'', ''100'']] [[''board'', ''24'', ''gemm'', ''0'', ''1'', ''90'']] =
     Inr [[''board'', ''24'', ''gemm'', ''0'', ''1'', ''90'']] \<and>
   board_merge [[''board'', ''24'', ''gemm'', ''0'', ''1'', ''90'']] [[''board'', ''24'', ''gemm'', ''0'', ''1'', ''90'']] =
     Inr [[''board'', ''24'', ''gemm'', ''0'', ''1'', ''90'']]"
proof -
  let ?old = "[[''board'', ''24'', ''gemm'', ''0'', ''1'', ''100'']]" and ?new = "[[''board'', ''24'', ''gemm'', ''0'', ''1'', ''90'']]"
  have "board_merge ?old ?new = Inr ?new" by code_simp
  with board_merge_replaces [OF this] show ?thesis by blast
qed

definition demo_run :: "(outcome list \<times> string list \<times> xstate) result" where
  "demo_run =
     board_step (\<lambda>files cmds cmd wd. Some (0, ''APPCSV,gemm,0,64,99'' @ [CHR 0x0A] @ ''PASS'', []))
       \<lparr>x_root = ''/r'', x_vivado = ''/v'', x_nt = False, x_python = ''py'', x_cpu = []\<rparr> ''/r/o.csv''
       \<lparr>b_size = ''board'', b_only = [], b_warps = 4, b_defines = []\<rparr> 24 ([], [], \<lparr>xs_fs = [], xs_cmds = []\<rparr>)"

lemma demo_run_ok: "case demo_run of Inr (os, lines, st) \<Rightarrow> lines \<noteq> [] | Inl e \<Rightarrow> False"
  by code_simp

lemma board_step_file_witness:
  "\<exists>os lines st m. demo_run = Inr (os, lines, st) \<and> map_of (xs_fs st) ''/r/o.csv'' = Some (csv_write (BOARD_HDR # m)) \<and>
     old_rows (xs_fs st) ''/r/o.csv'' = m"
proof -
  obtain os lines st where r: "demo_run = Inr (os, lines, st)" using demo_run_ok by (auto split: sum.splits)
  from board_step_file [OF r [unfolded demo_run_def]] r show ?thesis by blast
qed

end
