(* ===== verification/Vortex.thy ===== *)
theory Vortex
  imports Sweep
begin

text \<open>
  The comparison with the Vortex GPU: \<^verbatim>\<open>sim/vortex_compare.py\<close> joins the rows of both machines by case and
  launch, checks that the launches agree, and writes per-launch and per-case figures; \<^verbatim>\<open>sim/vortex_syn.py\<close>
  collects synthesis summaries and power reports.
\<close>

section \<open>Reading rows\<close>

text \<open>\<^verbatim>\<open>csv.DictReader\<close>: the first row names the columns, empty rows are skipped, a short row has \<^verbatim>\<open>None\<close> in
  the columns it lacks.\<close>

definition dict_rows :: "string \<Rightarrow> (string \<times> string option) list list" where
  "dict_rows text =
     (case csv_read text of
        [] \<Rightarrow> []
      | hdr # rows \<Rightarrow> map (\<lambda>r. rev (zip hdr (map Some r @ replicate (length hdr - length r) None))) (filter (\<lambda>r. r \<noteq> []) rows))"

text \<open>\<^verbatim>\<open>r[k]\<close>, and \<^verbatim>\<open>int(r[k])\<close>.\<close>

definition cell :: "(string \<times> string option) list \<Rightarrow> string \<Rightarrow> string option result" where
  "cell r k = (case map_of r k of None \<Rightarrow> Inl KeyError | Some v \<Rightarrow> Inr v)"

definition int_cell :: "string option \<Rightarrow> int result" where
  "int_cell v = (case v of None \<Rightarrow> Inl TypeError | Some s \<Rightarrow> int_of s)"

type_synonym launch_rows = "((string \<times> string option) \<times> int \<times> int) list"

text \<open>One row of \<^verbatim>\<open>read_simtix\<close>; \<^verbatim>\<open>int(r.get('insns') or 0)\<close> is 0 for a missing or empty field.\<close>

definition simtix_row :: "string \<Rightarrow> (string \<times> string option) list \<Rightarrow> ((string option \<times> string option) \<times> int \<times> int) list
    \<Rightarrow> ((string option \<times> string option) \<times> int \<times> int) list result" where
  "simtix_row variant r rows =
     bindE (cell r ''variant'') (\<lambda>v.
     if v \<noteq> Some variant then Inr rows
     else bindE (cell r ''case'') (\<lambda>c. bindE (cell r ''launch'') (\<lambda>l.
          bindE (cell r ''cycles'') (\<lambda>t. bindE (int_cell t) (\<lambda>cyc.
          bindE (case map_of r ''insns'' of Some (Some s) \<Rightarrow> if s = [] then Inr 0 else int_of s | _ \<Rightarrow> Inr 0) (\<lambda>ins.
          Inr (AList.update (c, l) (cyc, ins) rows)))))))"

definition read_simtix :: "fs \<Rightarrow> string \<Rightarrow> string \<Rightarrow> ((string option \<times> string option) \<times> int \<times> int) list result" where
  "read_simtix fs path variant =
     bindE (read_file fs path) (\<lambda>text. foldE (simtix_row variant) (dict_rows text) [])"

definition vortex_row :: "string \<Rightarrow> ((string option \<times> string option) \<times> int \<times> int) list
    \<Rightarrow> ((string option \<times> string option) \<times> int \<times> int) list result" where
  "vortex_row line rows =
     (let p = split_on (CHR '','') (strip line)
      in if 6 \<le> length p \<and> p ! 0 = ''APPCSV'' \<and> p ! 1 = ''vortex'' \<and> p ! 3 \<noteq> ''total'' then
           bindE (int_of (p ! 5)) (\<lambda>cyc.
           bindE (if 6 < length p then int_of (p ! 6) else Inr 0) (\<lambda>ins.
           Inr (AList.update (Some (p ! 2), Some (p ! 3)) (cyc, ins) rows)))
         else Inr rows)"

definition read_vortex :: "fs \<Rightarrow> string \<Rightarrow> ((string option \<times> string option) \<times> int \<times> int) list result" where
  "read_vortex fs path = bindE (read_file fs path) (\<lambda>text. foldE vortex_row (file_lines (univ_nl text)) [])"

section \<open>vortex\_compare.py\<close>

text \<open>\<^verbatim>\<open>spec.split('=', 1)\<close>, unpacked into two.\<close>

definition name_path :: "string \<Rightarrow> (string \<times> string) result" where
  "name_path spec =
     (if CHR ''='' \<in> set spec
      then Inr (takeWhile (\<lambda>c. c \<noteq> CHR ''='') spec, tl (dropWhile (\<lambda>c. c \<noteq> CHR ''='') spec))
      else Inl ValueError)"

type_synonym machine_rows = "((string option \<times> string option) \<times> int \<times> int) list"

definition add_machine :: "fs \<Rightarrow> string \<Rightarrow> (string \<times> machine_rows) list \<Rightarrow> (string \<times> machine_rows) list result" where
  "add_machine fs spec ms =
     bindE (name_path spec) (\<lambda>(name, path). bindE (read_vortex fs path) (\<lambda>rows. Inr (AList.update name rows ms)))"

text \<open>The text of a string, of \<^verbatim>\<open>None\<close> and of a list of keys as \<^verbatim>\<open>repr\<close> shows them, for names without quotes.\<close>

definition repr_opt :: "string option \<Rightarrow> string" where
  "repr_opt v = (case v of None \<Rightarrow> ''None'' | Some s \<Rightarrow> CHR 0x27 # s @ [CHR 0x27])"

definition repr_keys :: "(string option \<times> string option) list \<Rightarrow> string" where
  "repr_keys ks = ''['' @ join '', '' (map (\<lambda>(c, l). ''('' @ repr_opt c @ '', '' @ repr_opt l @ '')'') ks) @ '']''"

definition same_launches :: "machine_rows \<Rightarrow> string \<times> machine_rows \<Rightarrow> unit result" where
  "same_launches simtix = (\<lambda>(name, rows).
     (let missing = filter (\<lambda>k. k \<notin> set (map fst rows)) (map fst simtix);
          extra = filter (\<lambda>k. k \<notin> set (map fst simtix)) (map fst rows)
      in if missing \<noteq> [] \<or> extra \<noteq> [] then
           Inl (SystemExit (name @ '': launches differ from SIMTiX (missing '' @ repr_keys (take 3 missing) @ '', extra ''
             @ repr_keys (take 3 extra) @ '')''))
         else Inr ()))"

text \<open>The cases in order of appearance, each with its launches.\<close>

definition add_case :: "string option \<times> string option \<Rightarrow> (string option \<times> string option list) list \<Rightarrow> (string option \<times> string option list) list" where
  "add_case = (\<lambda>(c, l) cs. AList.update c ((case map_of cs c of None \<Rightarrow> [] | Some ls \<Rightarrow> ls) @ [l]) cs)"

definition by_case :: "machine_rows \<Rightarrow> (string option \<times> string option list) list" where
  "by_case simtix = fold add_case (map fst simtix) []"

definition lookup_row :: "machine_rows \<Rightarrow> string option \<times> string option \<Rightarrow> (int \<times> int) result" where
  "lookup_row rows k = (case map_of rows k of None \<Rightarrow> Inl KeyError | Some v \<Rightarrow> Inr v)"

text \<open>The nested function \<^verbatim>\<open>total\<close>.\<close>

definition total_row :: "machine_rows \<Rightarrow> string option \<Rightarrow> string option list \<Rightarrow> (int \<times> int) result" where
  "total_row rows c ls =
     bindE (mapE (\<lambda>l. lookup_row rows (c, l)) ls) (\<lambda>vs. Inr (sum_list (map fst vs), sum_list (map snd vs)))"

text \<open>\<^verbatim>\<open>csv\<close> writes \<^verbatim>\<open>None\<close> as an empty field.\<close>

definition opt_str :: "string option \<Rightarrow> string" where
  "opt_str v = (case v of None \<Rightarrow> [] | Some s \<Rightarrow> s)"

definition case_rows :: "(string \<times> machine_rows) list \<Rightarrow> string option \<times> string option list \<Rightarrow> string list list result" where
  "case_rows ms = (\<lambda>(c, ls).
     bindE (mapE (\<lambda>l. bindE (mapE (\<lambda>(_, rows). lookup_row rows (c, l)) ms) (\<lambda>vs.
         Inr ([opt_str c, opt_str l] @ concat (map (\<lambda>(a, b). [str_int a, str_int b]) vs)))) ls) (\<lambda>rs.
     bindE (mapE (\<lambda>(_, rows). total_row rows c ls) ms) (\<lambda>ts.
     Inr (rs @ [[opt_str c, ''total''] @ concat (map (\<lambda>(a, b). [str_int a, str_int b]) ts)]))))"

definition div_text :: "nat \<Rightarrow> nat \<Rightarrow> int \<Rightarrow> int \<Rightarrow> string" where
  "div_text w d a b = '' '' @ padl w (fixed d (if b = 0 then 0 else of_int a / of_int b))"

text \<open>The line of a case: the first ratio divides by SIMTiX's cycles, which may be zero.\<close>

definition compare_line :: "machine_rows \<Rightarrow> (string \<times> machine_rows) list \<Rightarrow> string option \<times> string option list \<Rightarrow> string result" where
  "compare_line simtix vx = (\<lambda>(c, ls).
     bindE (total_row simtix c ls) (\<lambda>(sc, si).
     bindE (mapE (\<lambda>(_, rows). bindE (total_row rows c ls) (\<lambda>(c', i').
         if sc = 0 then Inl ZeroDivisionError
         else Inr ('' |'' @ num 12 c' @ div_text 6 2 c' sc @ div_text 6 2 i' si))) vx) (\<lambda>parts.
     Inr (padr 20 (opt_str c) @ num 10 sc @ num 8 si @ concat parts))))"

definition ipc_line :: "(string \<times> machine_rows) list \<Rightarrow> string option \<times> string option list \<Rightarrow> string result" where
  "ipc_line ms = (\<lambda>(c, ls).
     bindE (mapE (\<lambda>(_, rows). bindE (total_row rows c ls) (\<lambda>(c', i'). Inr (div_text 12 3 i' c'))) ms) (\<lambda>parts.
     Inr (padr 24 (opt_str c) @ concat parts)))"

definition compare_main :: "fs \<Rightarrow> string \<Rightarrow> string \<Rightarrow> string \<Rightarrow> string list \<Rightarrow> (string list \<times> fs) result" where
  "compare_main fs simtix_path variant out runs =
     bindE (read_simtix fs simtix_path variant) (\<lambda>rows0.
     bindE (foldE (add_machine fs) runs [(''simtix'', rows0)]) (\<lambda>ms.
     let simtix = the (map_of ms ''simtix''); vx = tl ms; cases = by_case simtix
     in bindE (mapE (same_launches simtix) vx) (\<lambda>_.
        bindE (mapE (case_rows ms) cases) (\<lambda>rss.
        let fs = write_file out (csv_write (([''case'', ''launch''] @ concat (map (\<lambda>(m, _). [m @ ''_cycles'', m @ ''_insns'']) ms)) # concat rss)) fs
        in bindE (mapE (compare_line simtix vx) cases) (\<lambda>lines.
           bindE (mapE (ipc_line ms) cases) (\<lambda>ipc.
           Inr ([padr 20 ''case'' @ '' SIMTiX cyc    insns'' @ concat (map (\<lambda>(n, _). '' | '' @ padl 12 (take 12 n) @ ''  x cyc  x ins'') vx)]
                  @ lines
                  @ [[CHR 0x0A] @ padr 24 ''IPC (warp instr / cycle)'' @ concat (map (\<lambda>(m, _). '' '' @ padl 12 (take 12 m)) ms)]
                  @ ipc @ [''x = Vortex / SIMTiX; wrote '' @ out], fs)))))))"

section \<open>vortex\_syn.py\<close>

definition POWER :: "(string \<times> string) list" where
  "POWER = [(''power_w'', ''Total On-Chip Power''), (''dynamic_w'', ''Dynamic''), (''static_w'', ''Device Static'')]"

text \<open>\<^verbatim>\<open>re.search(r'\|\s*' + label + r' \(W\)\s*\|\s*([0-9.]+)', text)\<close>: the match at one position, then the search.\<close>

definition power_at :: "string \<Rightarrow> string \<Rightarrow> string option" where
  "power_at label s =
     (if starts_with ''|'' s then
        (let a = dropWhile is_space (tl s); l = label @ '' (W)''
         in if starts_with l a then
              (let b = dropWhile is_space (drop (length l) a)
               in if starts_with ''|'' b then
                    (let d = takeWhile (\<lambda>c. c = CHR ''.'' \<or> (\<exists>k \<in> set [0..<10]. c = digit_char k)) (dropWhile is_space (tl b))
                     in if d = [] then None else Some d)
                  else None)
            else None)
      else None)"

fun power_search :: "string \<Rightarrow> string \<Rightarrow> string option" where
  "power_search label [] = None"
| "power_search label (c # cs) =
     (case power_at label (c # cs) of Some d \<Rightarrow> Some d | None \<Rightarrow> power_search label cs)"

definition SYN_COLS :: "string list" where
  "SYN_COLS = [''period_ns'', ''wns_ns'', ''fmax_mhz'', ''lut'', ''lutram'', ''ff'', ''bram'', ''uram'', ''dsp'']"

text \<open>\<^verbatim>\<open>next\<close> of an empty file raises; the error stands for \<^verbatim>\<open>StopIteration\<close>.\<close>

definition read_build :: "fs \<Rightarrow> string \<Rightarrow> (string \<times> string option) list result" where
  "read_build fs path =
     bindE (read_file fs (pjoin path ''synth_summary.csv'')) (\<lambda>summary.
     case dict_rows summary of [] \<Rightarrow> Inl IndexError
     | r # _ \<Rightarrow>
         bindE (mapE (\<lambda>k. bindE (cell r k) (\<lambda>v. Inr (k, v))) SYN_COLS) (\<lambda>row.
         bindE (read_file fs (pjoin path ''power_vectorless.rpt'')) (\<lambda>raw.
         let text = univ_nl raw
         in Inr (row @ map (\<lambda>(key, label). (key, Some (case power_search label text of None \<Rightarrow> [] | Some d \<Rightarrow> d))) POWER))))"

text \<open>The loop over the builds; one without a power report is skipped. The second part is what is printed.\<close>

type_synonym builds = "(string \<times> string \<times> (string \<times> string option) list) list"

definition add_build :: "fs \<Rightarrow> string \<Rightarrow> string \<Rightarrow> builds \<times> string list \<Rightarrow> (builds \<times> string list) result" where
  "add_build fs dir spec = (\<lambda>(bs, lines).
     bindE (name_path spec) (\<lambda>(name, d).
     let path = pjoin dir d
     in if \<not> is_file fs (pjoin path ''power_vectorless.rpt'')
        then Inr (bs, lines @ [name @ '': '' @ path @ '' has no results yet, skipped''])
        else bindE (read_build fs path) (\<lambda>row. Inr (AList.update name (d, row) bs, lines))))"

definition syn_table :: "fs \<Rightarrow> string \<Rightarrow> string \<Rightarrow> string list \<Rightarrow> (builds \<times> string list \<times> fs) result" where
  "syn_table fs dir out specs =
     bindE (foldE (add_build fs dir) specs ([], [])) (\<lambda>(bs, lines).
     if ''simtix'' \<notin> set (map fst bs) then Inl (SystemExit ''simtix=<build> is required'')
     else let cols = [''design'', ''build''] @ SYN_COLS @ map fst POWER
          in Inr (bs, lines, write_file out (csv_write (cols #
               map (\<lambda>(name, d, row). [name, d] @ map (\<lambda>c. opt_str (the (map_of row c))) (drop 2 cols)) bs)) fs))"

section \<open>Launches grouped by case\<close>

definition ungroup :: "('a \<times> 'b list) list \<Rightarrow> ('a \<times> 'b) list" where
  "ungroup cs = concat (map (\<lambda>(c, ls). map (Pair c) ls) cs)"

lemma ungroup_simps [simp]: "ungroup [] = []" "ungroup ((c, ls) # cs) = map (Pair c) ls @ ungroup cs"
  by (simp_all add: ungroup_def)

lemma add_case_distinct: "distinct (map fst cs) \<Longrightarrow> distinct (map fst (add_case (c, l) cs))"
  by (simp add: add_case_def distinct_update)

lemma add_case_mset:
  "distinct (map fst cs) \<Longrightarrow> mset (ungroup (add_case (c, l) cs)) = add_mset (c, l) (mset (ungroup cs))"
proof (induction cs)
  case (Cons x cs)
  obtain c' ls where x: "x = (c', ls)" by (cases x)
  then show ?case using Cons by (cases "c' = c") (auto simp: add_case_def)
qed (simp add: add_case_def)

lemma by_case_facts: "distinct (map fst (by_case rows))" "mset (ungroup (by_case rows)) = mset (map fst rows)"
proof -
  have "distinct (map fst cs) \<Longrightarrow> distinct (map fst (fold add_case ks cs)) \<and>
      mset (ungroup (fold add_case ks cs)) = mset (ungroup cs) + mset ks" for ks and cs :: "(string option \<times> string option list) list"
  proof (induction ks arbitrary: cs)
    case (Cons k ks)
    then show ?case using add_case_distinct [of cs "fst k" "snd k"] add_case_mset [of cs "fst k" "snd k"] by simp
  qed simp
  from this [of "[]" "map fst rows"] show "distinct (map fst (by_case rows))"
    "mset (ungroup (by_case rows)) = mset (map fst rows)" by (simp_all add: by_case_def)
qed

section \<open>The table\<close>

text \<open>The launches of a case, and what the file of a run says, line by line: the last line of a launch counts.\<close>

definition launches_of :: "machine_rows \<Rightarrow> string option \<Rightarrow> string option list" where
  "launches_of rows c = map snd (filter (\<lambda>k. fst k = c) (map fst rows))"

definition vortex_lines :: "string \<Rightarrow> string list list" where
  "vortex_lines text =
     filter (\<lambda>p. 6 \<le> length p \<and> p ! 0 = ''APPCSV'' \<and> p ! 1 = ''vortex'' \<and> p ! 3 \<noteq> ''total'')
       (map (\<lambda>l. split_on (CHR '','') (strip l)) (file_lines (univ_nl text)))"

definition vortex_numbers :: "string \<Rightarrow> string option \<times> string option \<Rightarrow> (int \<times> int) option" where
  "vortex_numbers text = map_of (rev (map (\<lambda>p. ((Some (p ! 2), Some (p ! 3)),
     projr (int_of (p ! 5)), if 6 < length p then projr (int_of (p ! 6)) else 0)) (vortex_lines text)))"

definition simtix_numbers :: "string \<Rightarrow> string \<Rightarrow> string option \<times> string option \<Rightarrow> (int \<times> int) option" where
  "simtix_numbers variant text = map_of (rev (map (\<lambda>r. ((the (map_of r ''case''), the (map_of r ''launch'')),
     projr (int_of (the (the (map_of r ''cycles'')))),
     case map_of r ''insns'' of Some (Some s) \<Rightarrow> if s = [] then 0 else projr (int_of s) | _ \<Rightarrow> 0))
     (filter (\<lambda>r. map_of r ''variant'' = Some (Some variant)) (dict_rows text))))"

text \<open>The file of a machine: that of the last run of its name, or else the SIMTiX table.\<close>

definition run_name :: "string \<Rightarrow> string" where "run_name = takeWhile (\<lambda>c. c \<noteq> CHR ''='')"

definition run_path :: "string \<Rightarrow> string" where "run_path spec = drop (Suc (length (run_name spec))) spec"

definition machine_numbers :: "fs \<Rightarrow> string \<Rightarrow> string \<Rightarrow> string list \<Rightarrow> string \<Rightarrow> (string option \<times> string option \<Rightarrow> (int \<times> int) option) option" where
  "machine_numbers fs sp variant runs n =
     (case find (\<lambda>s. run_name s = n) (rev runs) of
        Some s \<Rightarrow> map_option vortex_numbers (map_of fs (run_path s))
      | None \<Rightarrow> if n = ''simtix'' then map_option (simtix_numbers variant) (map_of fs sp) else None)"

text \<open>The block of a case: a row per launch with the two numbers of every machine, then the sums.\<close>

definition launch_row :: "string option \<Rightarrow> string \<Rightarrow> (int \<times> int) list \<Rightarrow> string list" where
  "launch_row c l vs = [opt_str c, l] @ concat (map (\<lambda>(a, b). [str_int a, str_int b]) vs)"

definition table_block :: "(string \<times> machine_rows) list \<Rightarrow> string option \<times> string option list \<Rightarrow> string list list" where
  "table_block ms = (\<lambda>(c, ls).
     map (\<lambda>l. launch_row c (opt_str l) (map (\<lambda>(n, rows). the (map_of rows (c, l))) ms)) ls
       @ [launch_row c ''total'' (map (\<lambda>(n, rows).
            (\<Sum>l\<leftarrow>ls. fst (the (map_of rows (c, l))), \<Sum>l\<leftarrow>ls. snd (the (map_of rows (c, l))))) ms)])"

lemma mapE_map: "mapE f xs = Inr ys \<longleftrightarrow> length ys = length xs \<and> (\<forall>i < length xs. f (xs ! i) = Inr (ys ! i))"
proof (induction xs arbitrary: ys)
  case (Cons x xs)
  then show ?case by (cases ys) (auto simp: result_simps less_Suc_eq_0_disj)
qed auto

lemma mapE_the:
  assumes "mapE f xs = Inr ys" "\<And>x y. x \<in> set xs \<Longrightarrow> f x = Inr y \<Longrightarrow> y = g x"
  shows "ys = map g xs"
  using assms unfolding mapE_map by (intro nth_equalityI) auto

lemma case_rows_block:
  assumes "case_rows ms (c, ls) = Inr rs"
  shows "rs = table_block ms (c, ls)"
proof -
  have look: "v = the (map_of rows (c, l))" if "lookup_row rows (c, l) = Inr v" for v rows l
    using that by (auto simp: lookup_row_def split: option.splits)
  have tot: "v = (\<Sum>l\<leftarrow>ls. fst (the (map_of rows (c, l))), \<Sum>l\<leftarrow>ls. snd (the (map_of rows (c, l))))" if t: "total_row rows c ls = Inr v" for v rows
  proof -
    obtain vs where vs: "mapE (\<lambda>l. lookup_row rows (c, l)) ls = Inr vs" "v = (sum_list (map fst vs), sum_list (map snd vs))"
      using t by (auto simp: total_row_def result_simps)
    have "vs = map (\<lambda>l. the (map_of rows (c, l))) ls" by (rule mapE_the [OF vs(1)]) (rule look)
    then show ?thesis by (simp add: vs(2) o_def)
  qed
  obtain body ts where body: "mapE (\<lambda>l. bindE (mapE (\<lambda>(_, rows). lookup_row rows (c, l)) ms) (\<lambda>vs. Inr (launch_row c (opt_str l) vs))) ls = Inr body"
    and ts: "mapE (\<lambda>(_, rows). total_row rows c ls) ms = Inr ts"
    and rs: "rs = body @ [launch_row c ''total'' ts]"
    using assms by (auto simp: case_rows_def launch_row_def result_simps)
  have "ts = map (\<lambda>(n, rows). (\<Sum>l\<leftarrow>ls. fst (the (map_of rows (c, l))), \<Sum>l\<leftarrow>ls. snd (the (map_of rows (c, l))))) ms"
    by (rule mapE_the [OF ts]) (auto dest: tot)
  moreover have "body = map (\<lambda>l. launch_row c (opt_str l) (map (\<lambda>(n, rows). the (map_of rows (c, l))) ms)) ls"
  proof (rule mapE_the [OF body])
    fix l y assume "bindE (mapE (\<lambda>(_, rows). lookup_row rows (c, l)) ms) (\<lambda>vs. Inr (launch_row c (opt_str l) vs)) = Inr y"
    then obtain vs where vs: "mapE (\<lambda>(_, rows). lookup_row rows (c, l)) ms = Inr vs" "y = launch_row c (opt_str l) vs" by (auto simp: result_simps)
    have "vs = map (\<lambda>(n, rows). the (map_of rows (c, l))) ms" by (rule mapE_the [OF vs(1)]) (auto dest: look)
    then show "y = launch_row c (opt_str l) (map (\<lambda>(n, rows). the (map_of rows (c, l))) ms)" using vs(2) by simp
  qed
  ultimately show ?thesis by (simp add: rs table_block_def)
qed

text \<open>The cases keep the launches in the order of the table.\<close>

lemma by_case_launches: "(c, ls) \<in> set (by_case rows) \<Longrightarrow> ls = launches_of rows c"
  and by_case_cases: "fst ` set (by_case rows) = fst ` set (map fst rows)"
proof -
  have step: "map_of (add_case k cs) c = (if c = fst k then Some ((case map_of cs c of None \<Rightarrow> [] | Some ls \<Rightarrow> ls) @ [snd k]) else map_of cs c)"
    for k and cs :: "(string option \<times> string option list) list" and c
    by (cases k) (simp add: add_case_def update_conv)
  have look: "map_of (fold add_case ks cs) c =
      (if map_of cs c = None \<and> filter (\<lambda>k. fst k = c) ks = [] then None
       else Some ((case map_of cs c of None \<Rightarrow> [] | Some ls \<Rightarrow> ls) @ map snd (filter (\<lambda>k. fst k = c) ks)))"
    for ks and cs :: "(string option \<times> string option list) list" and c
    by (induction ks arbitrary: cs) (auto simp: step split: option.splits)
  have m: "map_of (by_case rows) c = (if filter (\<lambda>k. fst k = c) (map fst rows) = [] then None else Some (launches_of rows c))" for c
    by (simp add: by_case_def look launches_of_def)
  show "ls = launches_of rows c" if "(c, ls) \<in> set (by_case rows)"
    using map_of_is_SomeI [OF by_case_facts(1) that] m [of c] by (auto split: if_splits)
  have "c \<in> fst ` set (by_case rows) \<longleftrightarrow> c \<in> fst ` set (map fst rows)" for c
  proof -
    have "c \<in> fst ` set (by_case rows) \<longleftrightarrow> filter (\<lambda>k. fst k = c) (map fst rows) \<noteq> []"
      using m [of c] map_of_eq_None_iff [of "by_case rows" c] by (cases "filter (\<lambda>k. fst k = c) (map fst rows) = []") simp_all
    also have "\<dots> \<longleftrightarrow> (\<exists>k \<in> set (map fst rows). fst k = c)" unfolding filter_empty_conv by blast
    also have "\<dots> \<longleftrightarrow> c \<in> fst ` set (map fst rows)" by blast
    finally show ?thesis .
  qed
  then show "fst ` set (by_case rows) = fst ` set (map fst rows)" by blast
qed

text \<open>What is read is what the files say.\<close>

lemma step_rev: "map_of (rev (map kv (filter P (x # xs)))) = map_of (map kv (filter P [x])) ++ map_of (rev (map kv (filter P xs)))"
  by simp

lemma read_vortex_numbers:
  assumes "read_vortex fs path = Inr rows"
  shows "map_option vortex_numbers (map_of fs path) = Some (map_of rows)"
proof -
  obtain body where t: "map_of fs path = Some body" and f: "foldE vortex_row (file_lines (univ_nl body)) [] = Inr rows"
    using assms by (auto simp: read_vortex_def read_file_def result_simps split: option.splits)
  let ?sel = "filter (\<lambda>p. 6 \<le> length p \<and> p ! 0 = ''APPCSV'' \<and> p ! 1 = ''vortex'' \<and> p ! 3 \<noteq> ''total'')"
  let ?kv = "\<lambda>p. ((Some (p ! 2), Some (p ! 3)), projr (int_of (p ! 5)), if 6 < length p then projr (int_of (p ! 6)) else 0)"
  have "map_of r' = map_of r ++ map_of (rev (map ?kv (?sel (map (\<lambda>l. split_on (CHR '','') (strip l)) ls))))"
    if "foldE vortex_row ls r = Inr r'" for ls r r'
    using that
  proof (induction ls arbitrary: r)
    case (Cons l ls)
    then obtain r1 where r1: "vortex_row l r = Inr r1" "foldE vortex_row ls r1 = Inr r'" by (auto simp: result_simps)
    let ?p = "split_on (CHR '','') (strip l)"
    have "map_of r1 = map_of r ++ map_of (map ?kv (?sel [?p]))"
    proof (cases "6 \<le> length ?p \<and> ?p ! 0 = ''APPCSV'' \<and> ?p ! 1 = ''vortex'' \<and> ?p ! 3 \<noteq> ''total''")
      case True
      obtain cyc ins where "int_of (?p ! 5) = Inr cyc" "(if 6 < length ?p then int_of (?p ! 6) else Inr 0) = Inr ins"
        "r1 = AList.update (Some (?p ! 2), Some (?p ! 3)) (cyc, ins) r"
        using r1(1) True by (auto simp: vortex_row_def Let_def result_simps)
      then show ?thesis using True by (auto simp: update_conv' split: if_splits)
    qed (use r1(1) in \<open>auto simp: vortex_row_def Let_def\<close>)
    then show ?case unfolding Cons.IH [OF r1(2)] by (simp add: step_rev)
  qed simp
  from this [OF f] show ?thesis by (simp add: t vortex_numbers_def vortex_lines_def)
qed

lemma read_simtix_numbers:
  assumes "read_simtix fs path variant = Inr rows"
  shows "map_option (simtix_numbers variant) (map_of fs path) = Some (map_of rows)"
proof -
  obtain body where t: "map_of fs path = Some body" and f: "foldE (simtix_row variant) (dict_rows body) [] = Inr rows"
    using assms by (auto simp: read_simtix_def read_file_def result_simps split: option.splits)
  let ?kv = "\<lambda>r. ((the (map_of r ''case''), the (map_of r ''launch'')), projr (int_of (the (the (map_of r ''cycles'')))),
     case map_of r ''insns'' of Some (Some s) \<Rightarrow> if s = [] then 0 else projr (int_of s) | _ \<Rightarrow> 0)"
  let ?sel = "filter (\<lambda>r. map_of r ''variant'' = Some (Some variant))"
  have "map_of r' = map_of r ++ map_of (rev (map ?kv (?sel ds)))" if "foldE (simtix_row variant) ds r = Inr r'" for ds r r'
    using that
  proof (induction ds arbitrary: r)
    case (Cons d ds)
    then obtain r1 where r1: "simtix_row variant d r = Inr r1" "foldE (simtix_row variant) ds r1 = Inr r'" by (auto simp: result_simps)
    have "map_of r1 = map_of r ++ map_of (map ?kv (?sel [d]))"
    proof (cases "map_of d ''variant'' = Some (Some variant)")
      case False
      then have "r1 = r" using r1(1) by (auto simp: simtix_row_def cell_def result_simps split: option.splits if_splits)
      then show ?thesis using False by simp
    next
      case True
      then obtain c l t cyc ins where "map_of d ''case'' = Some c" "map_of d ''launch'' = Some l" "map_of d ''cycles'' = Some (Some t)" "int_of t = Inr cyc"
        and i: "(case map_of d ''insns'' of Some (Some s) \<Rightarrow> if s = [] then Inr 0 else int_of s | _ \<Rightarrow> Inr 0) = Inr ins"
        and r: "r1 = AList.update (c, l) (cyc, ins) r"
        using r1(1) by (auto simp: simtix_row_def cell_def int_cell_def result_simps split: option.splits)
      moreover have "(case map_of d ''insns'' of Some (Some s) \<Rightarrow> if s = [] then 0 else projr (int_of s) | _ \<Rightarrow> 0) = ins"
        using i by (auto split: option.splits if_splits)
      ultimately show ?thesis using True by (simp add: update_conv')
    qed
    then show ?case unfolding Cons.IH [OF r1(2)] by (simp add: step_rev)
  qed simp
  from this [OF f] show ?thesis by (simp add: t simtix_numbers_def)
qed

lemma add_machine_run:
  assumes "add_machine fs spec ms = Inr ms'"
  shows "\<exists>rows. ms' = AList.update (run_name spec) rows ms \<and> map_option vortex_numbers (map_of fs (run_path spec)) = Some (map_of rows)"
proof -
  obtain rows where "ms' = AList.update (run_name spec) rows ms" and r: "read_vortex fs (tl (dropWhile (\<lambda>c. c \<noteq> CHR ''='') spec)) = Inr rows"
    using assms by (auto simp: add_machine_def name_path_def run_name_def result_simps split: if_splits)
  moreover have "tl (dropWhile (\<lambda>c. c \<noteq> CHR ''='') spec) = run_path spec"
    by (simp add: run_path_def run_name_def dropWhile_eq_drop drop_Suc tl_drop)
  ultimately show ?thesis using read_vortex_numbers by auto
qed

lemma machines_numbers:
  assumes "read_simtix fs sp variant = Inr rows0" "foldE (add_machine fs) runs [(''simtix'', rows0)] = Inr ms"
  shows "distinct (map fst ms)" "set (map fst ms) = insert ''simtix'' (set (map run_name runs))" "fst (hd ms) = ''simtix''" "ms \<noteq> []"
    "\<And>n rows. (n, rows) \<in> set ms \<Longrightarrow> machine_numbers fs sp variant runs n = Some (map_of rows)"
proof -
  have all: "distinct (map fst ms) \<and> set (map fst ms) = insert ''simtix'' (set (map run_name runs)) \<and> fst (hd ms) = ''simtix'' \<and> ms \<noteq> [] \<and>
      (\<forall>(n, rows) \<in> set ms. machine_numbers fs sp variant runs n = Some (map_of rows))"
    using assms(2)
  proof (induction runs arbitrary: ms rule: rev_induct)
    case Nil
    then have "ms = [(''simtix'', rows0)]" by simp
    then show ?case using read_simtix_numbers [OF assms(1)] by (simp add: machine_numbers_def)
  next
    case (snoc s runs)
    then obtain ms1 where m1: "foldE (add_machine fs) runs [(''simtix'', rows0)] = Inr ms1" and a: "add_machine fs s ms1 = Inr ms"
      by (auto simp: foldE_append result_simps)
    obtain rows where ms: "ms = AList.update (run_name s) rows ms1" and v: "map_option vortex_numbers (map_of fs (run_path s)) = Some (map_of rows)"
      using add_machine_run [OF a] by blast
    note IH = snoc.IH [OF m1]
    have new: "machine_numbers fs sp variant (runs @ [s]) (run_name s) = Some (map_of rows)" using v by (simp add: machine_numbers_def)
    have old: "machine_numbers fs sp variant (runs @ [s]) n = machine_numbers fs sp variant runs n" if "n \<noteq> run_name s" for n
      using that by (simp add: machine_numbers_def)
    have d: "distinct (map fst ms)" using IH by (simp add: ms distinct_update)
    have "machine_numbers fs sp variant (runs @ [s]) n = Some (map_of r)" if m: "(n, r) \<in> set ms" for n r
    proof (cases "n = run_name s")
      case True
      then have "map_of ms n = Some rows" by (simp add: ms update_conv)
      then have "r = rows" using map_of_is_SomeI [OF d m] by simp
      then show ?thesis using new True by simp
    next
      case False
      then have "map_of ms1 n = Some r" using map_of_is_SomeI [OF d m] by (simp add: ms update_conv)
      then have "(n, r) \<in> set ms1" by (rule map_of_SomeD)
      moreover have "\<forall>(n, rows) \<in> set ms1. machine_numbers fs sp variant runs n = Some (map_of rows)" using IH by (elim conjE)
      ultimately have "machine_numbers fs sp variant runs n = Some (map_of r)" by (auto dest: bspec)
      then show ?thesis unfolding old [OF False] .
    qed
    moreover have "set (map fst ms) = insert ''simtix'' (set (map run_name (runs @ [s])))"
    proof -
      have "set (map fst ms1) = insert ''simtix'' (set (map run_name runs))" using IH by (elim conjE)
      then show ?thesis unfolding ms by (simp add: dom_update insert_commute)
    qed
    moreover have "fst (hd ms) = ''simtix'' \<and> ms \<noteq> []"
    proof -
      have "fst (hd ms1) = ''simtix''" "ms1 \<noteq> []" using IH by blast+
      then obtain v0 ms2 where "ms1 = (''simtix'', v0) # ms2" by (metis list.collapse prod.collapse)
      then show ?thesis by (simp add: ms)
    qed
    ultimately show ?case using d by blast
  qed
  show "distinct (map fst ms)" "set (map fst ms) = insert ''simtix'' (set (map run_name runs))" "fst (hd ms) = ''simtix''" "ms \<noteq> []"
    using all by blast+
  show "machine_numbers fs sp variant runs n = Some (map_of rows)" if "(n, rows) \<in> set ms" for n rows using all that by blast
qed

section \<open>Properties\<close>

text \<open>C10: The table of \<^verbatim>\<open>vortex_compare\<close>: it is only written when every machine has exactly the launches of SIMTiX. Read back, its
  header names two columns per machine, SIMTiX first; it has one block per case, with a row per launch of the case and a total row. The
  numbers under a machine are those of its own file: for SIMTiX the rows of the variant asked for, for every other machine the
  lines of the file named with it, of which the last for a launch counts; those of a total row are the sums over the case.\<close>

theorem compare_table:
  assumes "compare_main fs sp variant out runs = Inr (lines, fs')"
  shows "\<exists>ms simtix cs. distinct (map fst ms) \<and> set (map fst ms) = insert ''simtix'' (set (map run_name runs)) \<and>
    ms \<noteq> [] \<and> hd ms = (''simtix'', simtix) \<and>
    (\<forall>(n, rows) \<in> set ms. machine_numbers fs sp variant runs n = Some (map_of rows) \<and> set (map fst rows) = set (map fst simtix)) \<and>
    distinct (map fst cs) \<and> fst ` set cs = fst ` set (map fst simtix) \<and> (\<forall>(c, ls) \<in> set cs. ls = launches_of simtix c) \<and>
    map_option csv_read (map_of fs' out) =
      Some (([''case'', ''launch''] @ concat (map (\<lambda>(m, _). [m @ ''_cycles'', m @ ''_insns'']) ms)) # concat (map (table_block ms) cs))"
proof -
  obtain rows0 ms where r0: "read_simtix fs sp variant = Inr rows0"
    and ms: "foldE (add_machine fs) runs [(''simtix'', rows0)] = Inr ms"
    using assms by (auto simp: compare_main_def Let_def result_simps)
  note m = machines_numbers [OF r0 ms]
  let ?simtix = "the (map_of ms ''simtix'')"
  let ?hdr = "[''case'', ''launch''] @ concat (map (\<lambda>(m, _). [m @ ''_cycles'', m @ ''_insns'']) ms)"
  obtain us rss where us: "mapE (same_launches ?simtix) (tl ms) = Inr us"
    and rss: "mapE (case_rows ms) (by_case ?simtix) = Inr rss"
    and f: "fs' = write_file out (csv_write (?hdr # concat rss)) fs"
    using assms r0 ms by (auto simp: compare_main_def Let_def result_simps)
  have hd: "hd ms = (''simtix'', ?simtix)" using m(3,4) by (cases ms) auto
  have same: "set (map fst rows) = set (map fst ?simtix)" if nr: "(n, rows) \<in> set ms" for n rows
  proof (cases "(n, rows) \<in> set (tl ms)")
    case True
    have "\<forall>x \<in> set (tl ms). \<exists>u. same_launches ?simtix x = Inr u"
      using mapE_Inr_iff [of "same_launches ?simtix" "tl ms"] us by simp
    from bspec [OF this True] have "\<exists>u. same_launches ?simtix (n, rows) = Inr u" .
    then have "filter (\<lambda>k. k \<notin> set (map fst rows)) (map fst ?simtix) = []" "filter (\<lambda>k. k \<notin> set (map fst ?simtix)) (map fst rows) = []"
      by (simp_all add: same_launches_def Let_def split: if_splits)
    then show ?thesis unfolding filter_empty_conv by blast
  next
    case False
    then have "(n, rows) = hd ms" using nr m(4) by (cases ms) auto
    then show ?thesis using hd by simp
  qed
  have "rss = map (table_block ms) (by_case ?simtix)"
    by (rule mapE_the [OF rss]) (use case_rows_block in \<open>auto simp: split_paired_all\<close>)
  then have "map_option csv_read (map_of fs' out) = Some (?hdr # concat (map (table_block ms) (by_case ?simtix)))"
    unfolding f map_of_write_file if_P [OF refl] option.map csv_read_write by simp
  moreover have "\<forall>(n, rows) \<in> set ms. machine_numbers fs sp variant runs n = Some (map_of rows) \<and> set (map fst rows) = set (map fst ?simtix)"
    using m(5) same by blast
  moreover have "\<forall>(c, ls) \<in> set (by_case ?simtix). ls = launches_of ?simtix c" using by_case_launches by blast
  ultimately show ?thesis
    using m(1,2,4) hd by_case_facts(1) [of ?simtix] by_case_cases [of ?simtix]
    by (intro exI [of _ ms] exI [of _ ?simtix] exI [of _ "by_case ?simtix"] conjI)
qed

definition demo_fs :: fs where
  "demo_fs =
     [(''s.csv'', csv_write [[''variant'', ''case'', ''launch'', ''cycles''], [''ser'', ''scan'', ''add1'', ''50'']]),
      (''w4.csv'', unlines [''APPCSV,vortex,scan,add1,64,75''])]"

definition demo_compare :: "(string list \<times> fs) result" where
  "demo_compare = compare_main demo_fs ''s.csv'' ''ser'' ''out.csv'' [''w4=w4.csv'']"

lemma demo_compare_ok: "case demo_compare of Inr (lines, fs) \<Rightarrow> lines \<noteq> [] | Inl e \<Rightarrow> False"
  by code_simp

lemma compare_table_witness:
  "\<exists>lines fs ms cs. demo_compare = Inr (lines, fs) \<and> hd (map fst ms) = ''simtix'' \<and> set (map fst ms) = {''simtix'', ''w4''} \<and>
     map_option csv_read (map_of fs ''out.csv'') =
       Some (([''case'', ''launch''] @ concat (map (\<lambda>(m, _). [m @ ''_cycles'', m @ ''_insns'']) ms)) # concat (map (table_block ms) cs))"
proof -
  obtain lines fs where r: "demo_compare = Inr (lines, fs)" using demo_compare_ok by (auto split: sum.splits)
  from compare_table [OF r [unfolded demo_compare_def]] obtain ms simtix cs where m: "ms \<noteq> []" "hd ms = (''simtix'', simtix)"
    "set (map fst ms) = insert ''simtix'' (set (map run_name [''w4=w4.csv'']))" and t:
    "map_option csv_read (map_of fs ''out.csv'') =
       Some (([''case'', ''launch''] @ concat (map (\<lambda>(m, _). [m @ ''_cycles'', m @ ''_insns'']) ms)) # concat (map (table_block ms) cs))"
    by (elim exE conjE)
  have "hd (map fst ms) = ''simtix''" unfolding hd_map [OF m(1)] m(2) by simp
  moreover have "set (map fst ms) = {''simtix'', ''w4''}" unfolding m(3) by (simp add: run_name_def)
  ultimately show ?thesis using r t by (intro exI [of _ lines] exI [of _ fs] exI [of _ ms] exI [of _ cs] conjI)
qed

end
