(* ===== verification/Plots.thy ===== *)
theory Plots
  imports Vortex
begin

text \<open>
  The numbers of the paper's plots: the scripts \<^verbatim>\<open>docs/plot_*.py\<close> read the comma-separated files the sweeps write and the
  timing reports of the sign-off, reduce them, and hand the result to \<^verbatim>\<open>matplotlib\<close>. Modelled is everything up to the
  drawing calls: what is read, which rows count, the order and the heights of the bars, the texts printed on them. Floats
  are fractions; the \<open>n\<close>-th root of the geometric means is a parameter.
\<close>

section \<open>Reading\<close>

text \<open>\<^verbatim>\<open>csv.DictReader(open(path))\<close>, in text mode.\<close>

definition csv_dicts :: "fs \<Rightarrow> string \<Rightarrow> (string \<times> string option) list list result" where
  "csv_dicts fs path = bindE (read_file fs path) (\<lambda>text. Inr (dict_rows (univ_nl text)))"

definition int_at :: "(string \<times> string option) list \<Rightarrow> string \<Rightarrow> int result" where
  "int_at r k = bindE (cell r k) int_cell"

text \<open>\<^verbatim>\<open>float(s)\<close> of a decimal numeral; \<^verbatim>\<open>inf\<close> and \<^verbatim>\<open>nan\<close> are no numbers here.\<close>

definition all_digits :: "string \<Rightarrow> bool" where
  "all_digits s = list_all (\<lambda>c. \<exists>d \<in> set [0..<10]. c = digit_char d) s"

definition digits_val :: "string \<Rightarrow> rat" where
  "digits_val s = (case read_digits 10 0 s of None \<Rightarrow> 0 | Some n \<Rightarrow> of_nat n)"

definition mantissa :: "string \<Rightarrow> rat result" where
  "mantissa s =
     (case split_on (CHR ''.'') s of
        [a] \<Rightarrow> if a \<noteq> [] \<and> all_digits a then Inr (digits_val a) else Inl ValueError
      | [a, b] \<Rightarrow> if a @ b \<noteq> [] \<and> all_digits (a @ b) then Inr (digits_val (a @ b) / 10 ^ length b) else Inl ValueError
      | _ \<Rightarrow> Inl ValueError)"

definition float_of :: "string \<Rightarrow> rat result" where
  "float_of s =
     (let t = strip s;
          (sg, u) = (case t of c # cs \<Rightarrow> if c = CHR ''-'' then (- 1, cs) else if c = CHR ''+'' then (1, cs) else (1, t) | [] \<Rightarrow> (1, []));
          m = takeWhile (\<lambda>c. c \<noteq> CHR ''e'' \<and> c \<noteq> CHR ''E'') u; ex = drop (length m) u
      in bindE (mantissa m) (\<lambda>v.
         if ex = [] then Inr (sg * v)
         else if tl ex = [] \<or> is_space (hd (tl ex)) then Inl ValueError
         else bindE (int_of (tl ex)) (\<lambda>e. Inr (sg * v * (if 0 \<le> e then 10 ^ nat e else 1 / 10 ^ nat (- e))))))"

definition float_at :: "(string \<times> string option) list \<Rightarrow> string \<Rightarrow> rat result" where
  "float_at r k = bindE (cell r k) (\<lambda>v. case v of None \<Rightarrow> Inl TypeError | Some s \<Rightarrow> float_of s)"

definition divide_ints :: "int \<Rightarrow> int \<Rightarrow> rat result" where
  "divide_ints a b = (if b = 0 then Inl ZeroDivisionError else Inr (of_int a / of_int b))"

definition look :: "('k \<times> 'v) list \<Rightarrow> 'k \<Rightarrow> 'v result" where
  "look d k = (case map_of d k of None \<Rightarrow> Inl KeyError | Some v \<Rightarrow> Inr v)"

section \<open>plot\_lanes.py\<close>

definition APP_NAMES :: "(string \<times> string) list" where
  "APP_NAMES = [(''gemm'', ''GEMM''), (''spmv'', ''SpMV''), (''stencil'', ''Stencil''), (''kmeans'', ''k-means''), (''bfs'', ''BFS''),
     (''scan'', ''Scan''), (''mlp'', ''MLP'')]"

definition app_of :: "string \<Rightarrow> string" where "app_of c = hd (split_on (CHR ''_'') c)"

text \<open>\<^verbatim>\<open>tot[k] = tot.get(k, 0) + int(r["cycles"])\<close> with \<^verbatim>\<open>k = (r["case"].split("_")[0], int(r["lanes"]))\<close>.\<close>

definition lane_add :: "(string \<times> string option) list \<Rightarrow> ((string \<times> int) \<times> int) list \<Rightarrow> ((string \<times> int) \<times> int) list result" where
  "lane_add r tot =
     bindE (cell r ''case'') (\<lambda>c. bindE (case c of None \<Rightarrow> Inl AttributeError | Some s \<Rightarrow> Inr (app_of s)) (\<lambda>a.
     bindE (int_at r ''lanes'') (\<lambda>l. bindE (int_at r ''cycles'') (\<lambda>n. Inr (add_total (a, l) n tot)))))"

definition lane_table :: "fs \<Rightarrow> string \<Rightarrow> ((string \<times> int) \<times> int) list result" where
  "lane_table fs path = bindE (csv_dicts fs path) (\<lambda>rs. foldE lane_add rs [])"

text \<open>The speedups of an application at 8 and 16 lanes over 4.\<close>

definition lane_speedup :: "((string \<times> int) \<times> int) list \<Rightarrow> string \<Rightarrow> int \<Rightarrow> rat result" where
  "lane_speedup tot a l = bindE (look tot (a, 4)) (\<lambda>t4. bindE (look tot (a, l)) (\<lambda>tl. divide_ints t4 tl))"

definition lane_speedups :: "((string \<times> int) \<times> int) list \<Rightarrow> (string \<times> rat \<times> rat) list result" where
  "lane_speedups tot = mapE (\<lambda>(a, _).
     bindE (lane_speedup tot a 8) (\<lambda>s8. bindE (lane_speedup tot a 16) (\<lambda>s16. Inr (a, s8, s16)))) APP_NAMES"

definition lane_order :: "(string \<times> rat \<times> rat) list \<Rightarrow> (string \<times> rat \<times> rat) list" where
  "lane_order sp = sort_key (\<lambda>(_, _, s16). - s16) sp"

text \<open>What is drawn: per series the bars with their positions, and on the second the texts; the names under the bars.\<close>

record lane_chart =
  lc_bars :: "(string \<times> (rat \<times> rat) list) list"
  lc_texts :: "(rat \<times> rat \<times> string) list"
  lc_names :: "string list"

definition lane_bars :: "nat \<Rightarrow> rat list \<Rightarrow> (rat \<times> rat) list" where
  "lane_bars i vals = map (\<lambda>(x, v). (of_nat x + (of_nat i - 5 / 10) * (38 / 100), v)) (enumerate 0 vals)"

definition lanes_chart :: "fs \<Rightarrow> string \<Rightarrow> lane_chart result" where
  "lanes_chart fs here =
     bindE (lane_table fs (pjoin here ''lanes_apps.csv'')) (\<lambda>tot. bindE (lane_speedups tot) (\<lambda>sp.
     let order = lane_order sp; bars8 = lane_bars 0 (map (fst \<circ> snd) order); bars16 = lane_bars 1 (map (snd \<circ> snd) order)
     in Inr \<lparr>lc_bars = [(''8 lanes'', bars8), (''16 lanes'', bars16)],
          lc_texts = map (\<lambda>(x, v). (x, v + 6 / 100, fixed 2 v)) bars16,
          lc_names = map (\<lambda>(a, _, _). the (map_of APP_NAMES a)) order\<rparr>))"

section \<open>The lane plot reads what the lane sweep wrote\<close>

lemma univ_nl_id: "CHR 0x0D \<notin> set s \<Longrightarrow> univ_nl s = s"
  by (induction s rule: univ_nl.induct) auto

definition no_cr :: "string list list \<Rightarrow> bool" where
  "no_cr rows = list_all (list_all (\<lambda>f. CHR 0x0D \<notin> set f)) rows"

lemma set_join: "set (join sep ws) \<subseteq> set sep \<union> \<Union> (set ` set ws)"
  by (induction sep ws rule: join.induct) auto

lemma csv_field_chars: "set (csv_field f) \<subseteq> set f \<union> {CHR 0x22}"
  by (auto simp: csv_field_def csv_quote_def split: if_splits)

lemma csv_write_no_cr:
  assumes "no_cr rows"
  shows "CHR 0x0D \<notin> set (csv_write rows)"
proof -
  have "CHR 0x0D \<notin> set (csv_row r)" if r: "r \<in> set rows" for r
  proof -
    have "CHR 0x0D \<notin> set f" if "f \<in> set r" for f
      using assms r that by (auto simp: no_cr_def list_all_iff)
    then have "CHR 0x0D \<notin> set (join '','' (map csv_field r))"
      using set_join [of "'',''" "map csv_field r"] csv_field_chars by fastforce
    then show ?thesis
      by (auto simp: csv_row_def csv_quote_def)
  qed
  then show ?thesis
    by (auto simp: csv_write_def)
qed

text \<open>The dictionaries of a file that was written with a header.\<close>

definition dict_of :: "string list \<Rightarrow> string list \<Rightarrow> (string \<times> string option) list" where
  "dict_of hdr r = rev (zip hdr (map Some r @ replicate (length hdr - length r) None))"

text \<open>
  The contract of a table that one script writes and another reads: a header of distinct columns. Every row comes back as a
  dictionary, and a column of it is the field at the column's place.
\<close>

locale csv_table =
  fixes hdr :: "string list"
  assumes distinct_hdr: "distinct hdr" and plain_hdr: "list_all (\<lambda>f. CHR 0x0D \<notin> set f) hdr"
begin

lemma read_plain:
  assumes "map_of fs p = Some (csv_write (hdr # rows))" "CHR 0x0D \<notin> set (csv_write (hdr # rows))" "[] \<notin> set rows"
  shows "csv_dicts fs p = Inr (map (dict_of hdr) rows)"
proof -
  have "filter (\<lambda>r. r \<noteq> []) rows = rows"
    using assms(3) by (intro filter_True) auto
  then have "dict_rows (univ_nl (csv_write (hdr # rows))) = map (dict_of hdr) rows"
    using assms(2) by (simp add: univ_nl_id dict_rows_def dict_of_def)
  then show ?thesis
    using assms(1) by (simp add: csv_dicts_def read_file_def)
qed

lemma read_back:
  assumes "map_of fs p = Some (csv_write (hdr # rows))" "no_cr rows" "[] \<notin> set rows"
  shows "csv_dicts fs p = Inr (map (dict_of hdr) rows)"
proof -
  have "no_cr (hdr # rows)"
    using plain_hdr assms(2) by (simp add: no_cr_def)
  then show ?thesis
    by (intro read_plain assms csv_write_no_cr)
qed

lemma cell_at:
  assumes "i < length hdr" "i < length r"
  shows "cell (dict_of hdr r) (hdr ! i) = Inr (Some (r ! i))"
proof -
  let ?vs = "map Some r @ replicate (length hdr - length r) None"
  have len: "length hdr \<le> length ?vs"
    by simp
  have d: "distinct (map fst (zip hdr ?vs))"
    using distinct_hdr len by (simp add: map_fst_zip_take)
  have "(hdr ! i, Some (r ! i)) \<in> set (zip hdr ?vs)"
    using assms len by (auto simp: in_set_zip nth_append intro!: exI [of _ i])
  then have "map_of (zip hdr ?vs) (hdr ! i) = Some (Some (r ! i))"
    using d by (rule map_of_is_SomeI [rotated])
  moreover have "map_of (dict_of hdr r) = map_of (zip hdr ?vs)"
    unfolding dict_of_def using d by (intro map_of_eqI) (auto simp: rev_map [symmetric] map_of_eq_Some_iff)
  ultimately show ?thesis
    by (simp add: cell_def)
qed

end

lemma get0_Nil [simp]: "get0 [] k = 0"
  by (simp add: get0_def)

lemma map_of_add_total: "map_of (add_total k n tot) j = (if j = k then Some (get0 tot k + n) else map_of tot j)"
  by (simp add: add_total_def update_conv get0_def)

lemma add_total_keys: "set (map fst (add_total k n tot)) = insert k (set (map fst tot))"
  by (simp add: add_total_def dom_update [symmetric] dom_map_of_conv_image_fst [symmetric] update_conv')

abbreviation "lane_of r \<equiv> projr (int_of (r ! 0))"
abbreviation "case_of r \<equiv> r ! 1"
abbreviation "cycles_of r \<equiv> projr (int_of (r ! 4))"

lemma lane_total_step:
  "lane_total r tot = Inr tot' \<Longrightarrow> 5 \<le> length r \<and> int_of (r ! 0) = Inr (lane_of r) \<and> int_of (r ! 4) = Inr (cycles_of r)
     \<and> tot' = add_total (lane_of r, case_of r) (cycles_of r) tot"
  by (auto simp: lane_total_def result_simps split: if_splits)

lemma lane_totals_rows:
  assumes "foldE lane_total rows tot = Inr tot'"
  shows "(\<forall>l c. get0 tot' (l, c) = get0 tot (l, c) + (\<Sum>r\<leftarrow>rows. if lane_of r = l \<and> case_of r = c then cycles_of r else 0))
    \<and> set (map (snd \<circ> fst) tot') = set (map (snd \<circ> fst) tot) \<union> case_of ` set rows
    \<and> (\<forall>r \<in> set rows. 5 \<le> length r \<and> int_of (r ! 0) = Inr (lane_of r) \<and> int_of (r ! 4) = Inr (cycles_of r))"
  using assms
proof (induction rows arbitrary: tot)
  case (Cons r rows)
  let ?tot = "add_total (lane_of r, case_of r) (cycles_of r) tot"
  have r: "5 \<le> length r \<and> int_of (r ! 0) = Inr (lane_of r) \<and> int_of (r ! 4) = Inr (cycles_of r)"
    and rest: "foldE lane_total rows ?tot = Inr tot'"
    using Cons.prems lane_total_step [of r tot] by (auto simp: result_simps)
  have "set (map (snd \<circ> fst) ?tot) = insert (case_of r) (set (map (snd \<circ> fst) tot))"
    using arg_cong [OF add_total_keys [of "(lane_of r, case_of r)" "cycles_of r" tot], of "(`) snd"] by (simp add: image_comp)
  with r Cons.IH [OF rest] show ?case
    by auto
qed simp

definition LANE_HDR :: "string list" where "LANE_HDR = ''lanes'' # APP_HDR"

interpretation lane_csv: csv_table LANE_HDR
  by unfold_locales (simp_all add: LANE_HDR_def APP_HDR_def)

lemma lane_add_row:
  assumes "5 \<le> length r" "int_of (r ! 0) = Inr l" "int_of (r ! 4) = Inr n"
  shows "lane_add (dict_of LANE_HDR r) tot = Inr (add_total (app_of (case_of r), l) n tot)"
proof -
  have h: "length LANE_HDR = 9" "LANE_HDR ! 0 = ''lanes''" "LANE_HDR ! 1 = ''case''" "LANE_HDR ! 4 = ''cycles''"
    by (simp_all add: LANE_HDR_def APP_HDR_def)
  have "0 < length r" "1 < length r" "4 < length r"
    using assms(1) by auto
  then have "cell (dict_of LANE_HDR r) ''lanes'' = Inr (Some (r ! 0))" "cell (dict_of LANE_HDR r) ''case'' = Inr (Some (r ! 1))"
    "cell (dict_of LANE_HDR r) ''cycles'' = Inr (Some (r ! 4))"
    using lane_csv.cell_at [of 0 r] lane_csv.cell_at [of 1 r] lane_csv.cell_at [of 4 r] unfolding h by simp_all
  then show ?thesis
    using assms by (simp add: lane_add_def int_at_def int_cell_def)
qed

lemma lane_table_fold:
  assumes "\<forall>r \<in> set rows. 5 \<le> length r \<and> int_of (r ! 0) = Inr (lane_of r) \<and> int_of (r ! 4) = Inr (cycles_of r)"
  shows "foldE lane_add (map (dict_of LANE_HDR) rows) tot
    = Inr (fold (\<lambda>r. add_total (app_of (case_of r), lane_of r) (cycles_of r)) rows tot)"
  using assms
proof (induction rows arbitrary: tot)
  case (Cons r rows)
  have "lane_add (dict_of LANE_HDR r) tot = Inr (add_total (app_of (case_of r), lane_of r) (cycles_of r) tot)"
    by (rule lane_add_row) (use Cons.prems in auto)
  with Cons show ?case
    by simp
qed simp

lemma lane_table_rows:
  assumes "\<forall>r \<in> set rows. 5 \<le> length r \<and> int_of (r ! 0) = Inr (lane_of r) \<and> int_of (r ! 4) = Inr (cycles_of r)"
  shows "\<exists>tot'. foldE lane_add (map (dict_of LANE_HDR) rows) tot = Inr tot' \<and>
    (\<forall>a l. get0 tot' (a, l) = get0 tot (a, l) + (\<Sum>r\<leftarrow>rows. if lane_of r = l \<and> app_of (case_of r) = a then cycles_of r else 0))"
proof -
  have "get0 (fold (\<lambda>r. add_total (app_of (case_of r), lane_of r) (cycles_of r)) rows tot) (a, l)
      = get0 tot (a, l) + (\<Sum>r\<leftarrow>rows. if lane_of r = l \<and> app_of (case_of r) = a then cycles_of r else 0)" for a l
    by (induction rows arbitrary: tot) auto
  then show ?thesis
    using lane_table_fold [OF assms] by blast
qed

lemma sum_over_cases:
  fixes v :: "'r \<Rightarrow> int"
  assumes "finite C"
  shows "(\<Sum>c\<in>C. \<Sum>r\<leftarrow>rows. if P r \<and> k r = c then v r else 0) = (\<Sum>r\<leftarrow>rows. if P r \<and> k r \<in> C then v r else 0)"
proof (induction rows)
  case (Cons r rows)
  have "(\<Sum>c\<in>C. if P r \<and> k r = c then v r else 0) = (if P r \<and> k r \<in> C then v r else 0)"
    using assms by (cases "P r") (simp_all add: sum.delta')
  with Cons show ?case
    by (simp add: sum.distrib)
qed simp

text \<open>C15: The lane plot shows what the lane sweep measured. From the file the sweep writes, the plot's total for an application
  and a lane count is the sum of the totals that the sweep prints for the cases of that application at that lane count.\<close>

theorem lane_plot_totals:
  assumes "foldE lane_total rows [] = Inr tot" "no_cr rows" "map_of fs p = Some (csv_write ((''lanes'' # APP_HDR) # rows))"
  shows "\<exists>tot'. lane_table fs p = Inr tot' \<and>
    (\<forall>a l. get0 tot' (a, l) = (\<Sum>c\<leftarrow>filter (\<lambda>c. app_of c = a) (sorted_keys (map (snd \<circ> fst) tot)). get0 tot (l, c)))"
proof -
  have rows: "\<And>l c. get0 tot (l, c) = (\<Sum>r\<leftarrow>rows. if lane_of r = l \<and> case_of r = c then cycles_of r else 0)"
    "set (map (snd \<circ> fst) tot) = case_of ` set rows"
    "\<forall>r \<in> set rows. 5 \<le> length r \<and> int_of (r ! 0) = Inr (lane_of r) \<and> int_of (r ! 4) = Inr (cycles_of r)"
    using lane_totals_rows [OF assms(1)] by auto
  have "[] \<notin> set rows"
    using rows(3) by auto
  then have read: "csv_dicts fs p = Inr (map (dict_of LANE_HDR) rows)"
    by (intro lane_csv.read_back assms(2)) (simp_all add: assms(3) LANE_HDR_def)
  obtain tot' where tot': "foldE lane_add (map (dict_of LANE_HDR) rows) [] = Inr tot'"
    "\<And>a l. get0 tot' (a, l) = (\<Sum>r\<leftarrow>rows. if lane_of r = l \<and> app_of (case_of r) = a then cycles_of r else 0)"
    using lane_table_rows [OF rows(3), of "[]"] by auto
  have "get0 tot' (a, l) = (\<Sum>c\<leftarrow>filter (\<lambda>c. app_of c = a) (sorted_keys (map (snd \<circ> fst) tot)). get0 tot (l, c))" for a l
  proof -
    let ?cs = "filter (\<lambda>c. app_of c = a) (sorted_keys (map (snd \<circ> fst) tot))"
    have d: "distinct ?cs" and cs: "set ?cs = {c \<in> case_of ` set rows. app_of c = a}"
      using rows(2) by (auto simp: sorted_keys_def)
    have "(\<Sum>c\<leftarrow>?cs. get0 tot (l, c)) = (\<Sum>c\<in>set ?cs. get0 tot (l, c))"
      using d by (simp add: sum_list_distinct_conv_sum_set)
    also have "\<dots> = (\<Sum>c\<in>set ?cs. \<Sum>r\<leftarrow>rows. if lane_of r = l \<and> case_of r = c then cycles_of r else 0)"
      using rows(1) by simp
    also have "\<dots> = (\<Sum>r\<leftarrow>rows. if lane_of r = l \<and> case_of r \<in> set ?cs then cycles_of r else 0)"
      by (rule sum_over_cases) simp
    also have "\<dots> = (\<Sum>r\<leftarrow>rows. if lane_of r = l \<and> app_of (case_of r) = a then cycles_of r else 0)"
      using cs by (intro arg_cong [of _ _ sum_list] map_cong) auto
    finally show ?thesis
      using tot'(2) by simp
  qed
  then show ?thesis
    using read tot'(1) by (auto simp: lane_table_def)
qed

theorem lane_plot_totals_witness:
  "\<exists>tot'. lane_table [(''lanes_apps.csv'', csv_write ((''lanes'' # APP_HDR) #
       [[''4'', ''scan_a'', ''s0'', ''64'', ''120''], [''8'', ''scan_a'', ''s0'', ''64'', ''70''], [''4'', ''scan_b'', ''s0'', ''64'', ''30'']]))]
       ''lanes_apps.csv'' = Inr tot' \<and> get0 tot' (''scan'', 4) = 150"
proof -
  let ?rows = "[[''4'', ''scan_a'', ''s0'', ''64'', ''120''], [''8'', ''scan_a'', ''s0'', ''64'', ''70''], [''4'', ''scan_b'', ''s0'', ''64'', ''30'']]"
  let ?tot = "[((4, ''scan_a''), 120), ((8, ''scan_a''), 70), ((4, ''scan_b''), 30)] :: ((int \<times> string) \<times> int) list"
  have "foldE lane_total ?rows [] = Inr ?tot" "no_cr ?rows"
    by code_simp+
  from lane_plot_totals [OF this, of "[(''lanes_apps.csv'', csv_write ((''lanes'' # APP_HDR) # ?rows))]" "''lanes_apps.csv''"]
  obtain tot' where t: "lane_table [(''lanes_apps.csv'', csv_write ((''lanes'' # APP_HDR) # ?rows))] ''lanes_apps.csv'' = Inr tot'"
    "get0 tot' (''scan'', 4) = (\<Sum>c\<leftarrow>filter (\<lambda>c. app_of c = ''scan'') (sorted_keys (map (snd \<circ> fst) ?tot)). get0 ?tot (4, c))"
    by fastforce
  moreover have "(\<Sum>c\<leftarrow>filter (\<lambda>c. app_of c = ''scan'') (sorted_keys (map (snd \<circ> fst) ?tot)). get0 ?tot (4, c)) = 150"
    by code_simp
  ultimately show ?thesis
    by metis
qed

section \<open>The order of the lane plot\<close>

lemma mapE_at: "mapE f xs = Inr ys \<Longrightarrow> y \<in> set ys \<Longrightarrow> \<exists>x \<in> set xs. f x = Inr y"
  by (metis in_set_conv_nth mapE_Inr_length mapE_Inr_nth nth_mem)

lemma lane_speedup_value:
  "lane_speedup tot a l = Inr s \<Longrightarrow> \<exists>t4 tl. map_of tot (a, 4) = Some t4 \<and> map_of tot (a, l) = Some tl \<and> tl \<noteq> 0 \<and> s = of_int t4 / of_int tl"
  by (auto simp: lane_speedup_def look_def divide_ints_def result_simps split: option.splits if_splits)

text \<open>C19: The bars of the lane plot are the speedups of the applications over four lanes, in descending order of the speedup at
  sixteen lanes: every application is there once, under its name, and its two bars are its own.\<close>

theorem lanes_chart_order:
  assumes "lanes_chart fs here = Inr ch"
  shows "\<exists>tot order. lane_table fs (pjoin here ''lanes_apps.csv'') = Inr tot \<and> mset order = mset (map fst APP_NAMES)
     \<and> lc_names ch = map (\<lambda>a. the (map_of APP_NAMES a)) order
     \<and> map (map snd \<circ> snd) (lc_bars ch) = map (\<lambda>l. map (\<lambda>a. of_int (get0 tot (a, 4)) / of_int (get0 tot (a, l))) order) [8, 16]
     \<and> sorted_wrt (\<ge>) (map snd (snd (lc_bars ch ! 1)))"
proof -
  obtain tot sp where t: "lane_table fs (pjoin here ''lanes_apps.csv'') = Inr tot" "lane_speedups tot = Inr sp"
    and ch: "ch = \<lparr>lc_bars = [(''8 lanes'', lane_bars 0 (map (fst \<circ> snd) (lane_order sp))), (''16 lanes'', lane_bars 1 (map (snd \<circ> snd) (lane_order sp)))],
      lc_texts = map (\<lambda>(x, v). (x, v + 6 / 100, fixed 2 v)) (lane_bars 1 (map (snd \<circ> snd) (lane_order sp))),
      lc_names = map (\<lambda>(a, _, _). the (map_of APP_NAMES a)) (lane_order sp)\<rparr>"
    using assms by (auto simp: lanes_chart_def Let_def result_simps)
  have bars: "map snd (lane_bars i vals) = vals" for i vals
    by (simp add: lane_bars_def o_def case_prod_beta)
  have val: "s8 = of_int (get0 tot (a, 4)) / of_int (get0 tot (a, 8)) \<and> s16 = of_int (get0 tot (a, 4)) / of_int (get0 tot (a, 16))"
    if "(a, s8, s16) \<in> set sp" for a s8 s16
    using mapE_at [OF t(2) [unfolded lane_speedups_def] that] lane_speedup_value [of tot a 8 s8] lane_speedup_value [of tot a 16 s16]
    by (auto simp: result_simps get0_def)
  note len = mapE_Inr_length [OF t(2) [unfolded lane_speedups_def]]
  have "fst (sp ! i) = fst (APP_NAMES ! i)" if "i < length APP_NAMES" for i
    using mapE_Inr_nth [OF t(2) [unfolded lane_speedups_def] that] by (auto simp: result_simps case_prod_beta dest!: sym [of _ "sp ! i"])
  with len have names: "map fst sp = map fst APP_NAMES"
    by (intro nth_equalityI) simp_all
  let ?order = "map fst (lane_order sp)"
  have "mset ?order = mset (map fst APP_NAMES)"
    unfolding names [symmetric] by (simp add: lane_order_def)
  moreover have "lc_names ch = map (\<lambda>a. the (map_of APP_NAMES a)) ?order"
    by (simp add: ch case_prod_beta)
  moreover have "map (map snd \<circ> snd) (lc_bars ch) = map (\<lambda>l. map (\<lambda>a. of_int (get0 tot (a, 4)) / of_int (get0 tot (a, l))) ?order) [8, 16]"
    using val by (auto simp: ch bars lane_order_def case_prod_beta)
  moreover have "sorted_wrt (\<ge>) (map snd (snd (lc_bars ch ! 1)))"
  proof -
    have "sorted (map (\<lambda>x. - snd (snd x)) (lane_order sp))"
      unfolding lane_order_def case_prod_beta by (rule sorted_sort_key)
    then show ?thesis
      by (simp add: ch bars sorted_wrt_map)
  qed
  ultimately show ?thesis
    using t(1) by blast
qed

definition demo_rows :: "string list list" where
  "demo_rows = concat (map (\<lambda>(i, a, _). map (\<lambda>(l, n). [l, a, ''x'', ''64'', str_nat n]) [(''4'', 90), (''8'', 50), (''16'', 30 + i)])
     (enumerate 0 APP_NAMES))"

definition demo_lanes :: fs where "demo_lanes = [(''lanes_apps.csv'', csv_write (LANE_HDR # demo_rows))]"

lemma demo_read: "csv_dicts demo_lanes (pjoin [] ''lanes_apps.csv'') = Inr (map (dict_of LANE_HDR) demo_rows)"
proof -
  have "no_cr demo_rows" "[] \<notin> set demo_rows" "pjoin [] ''lanes_apps.csv'' = ''lanes_apps.csv''"
    by code_simp+
  then show ?thesis
    by (intro lane_csv.read_back) (simp_all add: demo_lanes_def)
qed

definition demo_tot :: "((string \<times> int) \<times> int) list" where
  "demo_tot = concat (map (\<lambda>(i, a, _). [((a, 4), 90), ((a, 8), 50), ((a, 16), 30 + int i)]) (enumerate 0 APP_NAMES))"

lemma demo_table: "foldE lane_add (map (dict_of LANE_HDR) demo_rows) [] = Inr demo_tot"
proof -
  have "list_all (\<lambda>r. length r = 5 \<and> isl (int_of (r ! 0)) = False \<and> isl (int_of (r ! 4)) = False) demo_rows"
    by code_simp
  then have "\<forall>r \<in> set demo_rows. 5 \<le> length r \<and> int_of (r ! 0) = Inr (lane_of r) \<and> int_of (r ! 4) = Inr (cycles_of r)"
    by (auto simp: list_all_iff)
  moreover have "fold (\<lambda>r. add_total (app_of (case_of r), lane_of r) (cycles_of r)) demo_rows [] = demo_tot"
    by code_simp
  ultimately show ?thesis
    by (simp add: lane_table_fold)
qed

lemma demo_speedups: "\<exists>sp. lane_speedups demo_tot = Inr sp"
proof -
  have ok: "list_all (\<lambda>(a, _). isl (lane_speedup demo_tot a 8) = False \<and> isl (lane_speedup demo_tot a 16) = False) APP_NAMES"
    by code_simp
  show ?thesis
    unfolding lane_speedups_def
  proof (intro mapE_exists, clarify)
    fix a b assume "(a, b) \<in> set APP_NAMES"
    then obtain s8 s16 where "lane_speedup demo_tot a 8 = Inr s8" "lane_speedup demo_tot a 16 = Inr s16"
      using ok by (cases "lane_speedup demo_tot a 8"; cases "lane_speedup demo_tot a 16") (auto simp: list_all_iff)
    then show "\<exists>y. bindE (lane_speedup demo_tot a 8) (\<lambda>s8. bindE (lane_speedup demo_tot a 16) (\<lambda>s16. Inr (a, s8, s16))) = Inr y"
      by simp
  qed
qed

lemma demo_lanes_chart: "\<exists>ch. lanes_chart demo_lanes [] = Inr ch"
  using demo_table demo_speedups by (auto simp: lanes_chart_def lane_table_def demo_read Let_def)

theorem lanes_chart_order_witness:
  "\<exists>ch tot order. lanes_chart demo_lanes [] = Inr ch \<and> lane_table demo_lanes ''lanes_apps.csv'' = Inr tot
     \<and> mset order = mset (map fst APP_NAMES) \<and> sorted_wrt (\<ge>) (map snd (snd (lc_bars ch ! 1)))"
proof -
  obtain ch where ch: "lanes_chart demo_lanes [] = Inr ch"
    using demo_lanes_chart by blast
  have "pjoin [] ''lanes_apps.csv'' = ''lanes_apps.csv''"
    by code_simp
  with lanes_chart_order [OF ch] obtain tot order where "lane_table demo_lanes ''lanes_apps.csv'' = Inr tot"
      "mset order = mset (map fst APP_NAMES)" "sorted_wrt (\<ge>) (map snd (snd (lc_bars ch ! 1)))"
    by auto
  with ch show ?thesis
    by blast
qed

end
