(* ===== verification/Ratios.thy ===== *)
theory Ratios
  imports Plots
begin

text \<open>
  Vortex against SIMTiX in run time and energy: the report of \<^verbatim>\<open>sim/vortex_syn.py\<close> after its table, and the two panels of
  \<^verbatim>\<open>docs/plot_vortex.py\<close>, which reads the file that script writes. \<open>gm\<close> is the geometric mean of positive numbers, which the
  scripts compute with \<^verbatim>\<open>math.log\<close> and \<^verbatim>\<open>math.exp\<close>.
\<close>

section \<open>Costs and ratios\<close>

type_synonym row = "(string \<times> string option) list"

definition quot :: "rat \<Rightarrow> rat \<Rightarrow> rat result" where
  "quot a b = (if b = 0 then Inl ZeroDivisionError else Inr (a / b))"

text \<open>\<^verbatim>\<open>math.exp(sum(math.log(x) for x in v) / len(v))\<close>.\<close>

definition gmean :: "(rat list \<Rightarrow> rat) \<Rightarrow> rat list \<Rightarrow> rat result" where
  "gmean gm v = (if \<exists>x \<in> set v. x \<le> 0 then Inl ValueError else if v = [] then Inl ZeroDivisionError else Inr (gm v))"

text \<open>Run time at the design's Fmax and energy at the constrained clock; \<^verbatim>\<open>vortex_syn.py\<close> divides the energy by 1000.\<close>

definition run_cost :: "rat \<Rightarrow> row \<Rightarrow> int \<Rightarrow> (rat \<times> rat) result" where
  "run_cost scale b cyc =
     bindE (float_at b ''fmax_mhz'') (\<lambda>fm. bindE (quot (of_int cyc) fm) (\<lambda>t.
     bindE (float_at b ''power_w'') (\<lambda>p. bindE (float_at b ''period_ns'') (\<lambda>per. Inr (t, p * of_int cyc * per / scale)))))"

section \<open>vortex\_syn.py: the report\<close>

definition text_cell :: "row \<Rightarrow> string \<Rightarrow> string result" where
  "text_cell r k = bindE (cell r k) (\<lambda>v. case v of None \<Rightarrow> Inl TypeError | Some s \<Rightarrow> Inr s)"

definition syn_line :: "string \<times> string \<times> row \<Rightarrow> string result" where
  "syn_line = (\<lambda>(name, _, b).
     bindE (float_at b ''fmax_mhz'') (\<lambda>fm. bindE (mapE (text_cell b) [''lut'', ''ff'', ''bram'', ''dsp'']) (\<lambda>cs.
     bindE (float_at b ''power_w'') (\<lambda>p.
     Inr (padr 16 name @ '' '' @ padl 6 (fixed 1 fm) @ concat (map (\<lambda>(w, c). '' '' @ padl w c) (zip [7, 7, 5, 4] cs))
       @ '' '' @ padl 6 (fixed 3 p))))))"

text \<open>Cycles, run time and energy of a case, as multiples of SIMTiX's.\<close>

definition syn_ratio :: "row \<Rightarrow> string \<times> string \<times> row \<Rightarrow> row \<Rightarrow> (rat \<times> rat \<times> rat) result" where
  "syn_ratio s = (\<lambda>(n, _, b) r.
     bindE (int_at r ''simtix_cycles'') (\<lambda>sc. bindE (int_at r (n @ ''_cycles'')) (\<lambda>vc.
     bindE (run_cost 1000 s sc) (\<lambda>(st, se). bindE (run_cost 1000 b vc) (\<lambda>(vt, ve).
     bindE (quot (of_int vc) (of_int sc)) (\<lambda>q1. bindE (quot vt st) (\<lambda>q2. bindE (quot ve se) (\<lambda>q3. Inr (q1, q2, q3)))))))))"

definition syn_pair :: "(rat list \<Rightarrow> rat) \<Rightarrow> row \<Rightarrow> row list \<Rightarrow> string \<times> string \<times> row \<Rightarrow> string list result" where
  "syn_pair gm s totals = (\<lambda>(n, d, b).
     bindE (mapE (\<lambda>r. bindE (syn_ratio s (n, d, b) r) (\<lambda>(q1, q2, q3).
         if q1 \<le> 0 \<or> q2 \<le> 0 \<or> q3 \<le> 0 then Inl ValueError
         else bindE (text_cell r ''case'') (\<lambda>c.
              Inr ((q1, q2, q3), padr 28 c @ concat (map (\<lambda>v. '' '' @ padl 7 (fixed 2 v)) [q1, q2, q3]))))) totals) (\<lambda>qs.
     bindE (mapE (gmean gm) [map (fst \<circ> fst) qs, map (fst \<circ> snd \<circ> fst) qs, map (snd \<circ> snd \<circ> fst) qs]) (\<lambda>ms.
     Inr ([CHR 0x0A # n @ '' / SIMTiX'' @ replicate 12 (CHR '' '') @ '' '' @ padl 7 ''cycles'' @ '' '' @ padl 7 ''time'' @ '' '' @ padl 7 ''energy'']
       @ map snd qs @ [padr 28 ''geometric mean'' @ concat (map (\<lambda>v. '' '' @ padl 7 (fixed 2 v)) ms)]))))"

definition total_launches :: "row list \<Rightarrow> row list result" where
  "total_launches rs = bindE (mapE (\<lambda>r. cell r ''launch'') rs) (\<lambda>_. Inr (filter (\<lambda>r. cell r ''launch'' = Inr (Some ''total'')) rs))"

definition syn_main :: "(rat list \<Rightarrow> rat) \<Rightarrow> fs \<Rightarrow> string \<Rightarrow> string \<Rightarrow> string \<Rightarrow> string list \<Rightarrow> (string list \<times> fs) result" where
  "syn_main gm fs dir apps out specs =
     bindE (syn_table fs dir out specs) (\<lambda>(bs, lines, fs).
     bindE (mapE syn_line bs) (\<lambda>table.
     bindE (bindE (read_file fs apps) (\<lambda>text. total_launches (dict_rows text))) (\<lambda>totals.
     let s = snd (the (map_of bs ''simtix'')); others = filter (\<lambda>(n, _). n \<noteq> ''simtix'') bs
     in if others \<noteq> [] \<and> totals = [] then Inl IndexError
        else let paired = filter (\<lambda>(n, _). n @ ''_cycles'' \<in> set (map fst (hd totals))) others
          in bindE (mapE (syn_pair gm s totals) paired) (\<lambda>reports.
             Inr (lines @ [padr 16 ''design'' @ ''   Fmax     LUT      FF  BRAM  DSP      W''] @ table @ concat reports @ [''wrote '' @ out], fs)))))"

section \<open>plot\_vortex.py\<close>

definition VX_RUNS :: "(string \<times> string) list" where
  "VX_RUNS = [(''w4_bus128_ip'', ''Vortex, 4 warps''), (''w8_bus128_ip'', ''Vortex, 8 warps''), (''w16_bus128_ip'', ''Vortex, 16 warps'')]"

definition designs :: "row list \<Rightarrow> (string option \<times> row) list result" where
  "designs rs = foldE (\<lambda>r d. bindE (cell r ''design'') (\<lambda>k. Inr (AList.update k r d))) rs []"

definition vx_ratio :: "(string option \<times> row) list \<Rightarrow> row \<Rightarrow> string \<Rightarrow> nat \<Rightarrow> row \<Rightarrow> rat result" where
  "vx_ratio syn s run k r =
     bindE (look syn (Some run)) (\<lambda>b. bindE (int_at r (run @ ''_cycles'')) (\<lambda>vc. bindE (run_cost 1 b vc) (\<lambda>v.
     bindE (int_at r ''simtix_cycles'') (\<lambda>sc. bindE (run_cost 1 s sc) (\<lambda>st.
     if k = 0 then quot (fst v) (fst st) else quot (snd v) (snd st))))))"

definition vx_series :: "(rat list \<Rightarrow> rat) \<Rightarrow> (string option \<times> row) list \<Rightarrow> row \<Rightarrow> row list \<Rightarrow> nat \<Rightarrow> string \<Rightarrow> rat list result" where
  "vx_series gm syn s apps k run =
     bindE (mapE (vx_ratio syn s run k) apps) (\<lambda>vals. bindE (gmean gm vals) (\<lambda>m. Inr (vals @ [m])))"

definition vx_name :: "row \<Rightarrow> string result" where
  "vx_name r = bindE (cell r ''case'') (\<lambda>c. case c of None \<Rightarrow> Inl AttributeError | Some s \<Rightarrow> look APP_NAMES (app_of s))"

text \<open>The panels: the names under the bars, and for time and energy the values of each run with their mean at the end.\<close>

definition vortex_chart :: "(rat list \<Rightarrow> rat) \<Rightarrow> fs \<Rightarrow> string \<Rightarrow> (string list \<times> (string \<times> rat list) list list) result" where
  "vortex_chart gm fs here =
     bindE (bindE (csv_dicts fs (pjoin here ''vortex_syn.csv'')) designs) (\<lambda>syn.
     bindE (bindE (csv_dicts fs (pjoin here ''vortex_apps.csv'')) total_launches) (\<lambda>apps.
     bindE (look syn (Some ''simtix'')) (\<lambda>s.
     bindE (mapE vx_name apps) (\<lambda>names.
     bindE (mapE (\<lambda>k. mapE (\<lambda>(run, lab). bindE (vx_series gm syn s apps k run) (\<lambda>vs. Inr (lab, vs))) VX_RUNS) [0, 1]) (\<lambda>panels.
     Inr (names @ [''Geo. mean''], panels))))))"

section \<open>The plot shows the ratios of the report\<close>

text \<open>The rows collected from the builds: one per name, with the columns of the table.\<close>

definition builds_ok :: "builds \<Rightarrow> bool" where
  "builds_ok bs \<longleftrightarrow> distinct (map fst bs) \<and> list_all (\<lambda>(_, _, row). map fst row = SYN_COLS @ map fst POWER) bs"

lemma read_build_cols: "read_build fs path = Inr row \<Longrightarrow> map fst row = SYN_COLS @ map fst POWER"
proof -
  have cols: "mapE (\<lambda>k. bindE (f k) (\<lambda>v. Inr (k, v))) ks = Inr row0 \<Longrightarrow> map fst row0 = ks"
    for f :: "string \<Rightarrow> string option result" and ks row0
    by (induction ks arbitrary: row0) (auto simp: result_simps)
  assume "read_build fs path = Inr row"
  then obtain x where x: "(case dict_rows x of [] \<Rightarrow> Inl IndexError | r # _ \<Rightarrow>
      bindE (mapE (\<lambda>k. bindE (cell r k) (\<lambda>v. Inr (k, v))) SYN_COLS) (\<lambda>row.
      bindE (read_file fs (pjoin path ''power_vectorless.rpt'')) (\<lambda>raw.
      let text = univ_nl raw
      in Inr (row @ map (\<lambda>(key, label). (key, Some (case power_search label text of None \<Rightarrow> [] | Some d \<Rightarrow> d))) POWER)))) = Inr row"
    unfolding read_build_def bindE_Inr_iff by blast
  then obtain r rs where "dict_rows x = r # rs"
    by (cases "dict_rows x") auto
  with x show ?thesis
    by (auto simp: Let_def result_simps o_def case_prod_beta dest!: cols)
qed

lemma builds_ok_update:
  assumes "builds_ok bs" "map fst row = SYN_COLS @ map fst POWER"
  shows "builds_ok (AList.update name (d, row) bs)"
  using assms set_update [of name "(d, row)" bs] by (auto simp: builds_ok_def distinct_update list_all_iff)

lemma add_build_ok: "add_build fs dir spec (bs, lines) = Inr (bs', lines') \<Longrightarrow> builds_ok bs \<Longrightarrow> builds_ok bs'"
  by (auto simp: add_build_def Let_def result_simps split: if_splits intro: builds_ok_update dest: read_build_cols)

lemma syn_table_ok: "syn_table fs dir out specs = Inr (bs, lines, fs') \<Longrightarrow> builds_ok bs"
proof -
  assume "syn_table fs dir out specs = Inr (bs, lines, fs')"
  then have "foldE (add_build fs dir) specs ([], []) = Inr (bs, lines)"
    by (auto simp: syn_table_def Let_def result_simps split: if_splits)
  then show ?thesis
    using foldE_invariant [of "add_build fs dir" specs "([], [])" "(bs, lines)" "\<lambda>x. builds_ok (fst x)"] add_build_ok
    by (fastforce simp: builds_ok_def)
qed

definition TABLE_COLS :: "string list" where "TABLE_COLS = [''design'', ''build''] @ SYN_COLS @ map fst POWER"

definition table_row :: "string \<times> string \<times> row \<Rightarrow> string list" where
  "table_row = (\<lambda>(name, d, row). [name, d] @ map (\<lambda>c. opt_str (the (map_of row c))) (SYN_COLS @ map fst POWER))"

lemma table_cols: "TABLE_COLS ! 0 = ''design''" "length TABLE_COLS = 14"
  by (simp_all add: TABLE_COLS_def SYN_COLS_def POWER_def)

interpretation syn_csv: csv_table TABLE_COLS
  by unfold_locales (simp_all add: TABLE_COLS_def SYN_COLS_def POWER_def)

lemma table_row_length: "length (table_row x) = 14"
  by (simp add: table_row_def SYN_COLS_def POWER_def case_prod_beta)

lemma table_design: "cell (dict_of TABLE_COLS (table_row x)) ''design'' = Inr (Some (fst x))"
  using syn_csv.cell_at [of 0 "table_row x"]
  by (simp add: table_cols table_row_length) (simp add: table_row_def case_prod_beta)

lemma table_cell:
  assumes "c \<in> set (SYN_COLS @ map fst POWER)"
  shows "cell (dict_of TABLE_COLS (table_row (name, d, row))) c = Inr (Some (opt_str (the (map_of row c))))"
proof -
  let ?ks = "SYN_COLS @ map fst POWER"
  let ?f = "\<lambda>c. opt_str (the (map_of row c))"
  obtain i where i: "i < length ?ks" "?ks ! i = c"
    using assms by (meson in_set_conv_nth)
  have "map ?f ?ks ! i = ?f c"
    using i by (metis nth_map)
  moreover have "table_row (name, d, row) = name # d # map ?f ?ks" "TABLE_COLS = ''design'' # ''build'' # ?ks"
    by (simp_all add: table_row_def TABLE_COLS_def)
  ultimately have "TABLE_COLS ! Suc (Suc i) = c" "table_row (name, d, row) ! Suc (Suc i) = ?f c"
    using i(2) by (metis nth_Cons_Suc)+
  moreover have "length ?ks = 12"
    by (simp add: SYN_COLS_def POWER_def)
  ultimately show ?thesis
    using syn_csv.cell_at [of "Suc (Suc i)" "table_row (name, d, row)"] i(1)
    by (simp add: table_cols table_row_length del: length_append)
qed

lemma designs_table:
  assumes "distinct (map fst bs)"
  shows "\<exists>syn. designs (map (\<lambda>x. dict_of TABLE_COLS (table_row x)) bs) = Inr syn \<and>
    (\<forall>x \<in> set bs. map_of syn (Some (fst x)) = Some (dict_of TABLE_COLS (table_row x)))"
proof -
  let ?f = "\<lambda>r d. bindE (cell r ''design'') (\<lambda>k. Inr (AList.update k r d))" and ?t = "\<lambda>x. dict_of TABLE_COLS (table_row x)"
  have "\<exists>syn. foldE ?f (map ?t bs) d = Inr syn \<and> (\<forall>x \<in> set bs. map_of syn (Some (fst x)) = Some (?t x))
      \<and> (\<forall>k. k \<notin> Some ` set (map fst bs) \<longrightarrow> map_of syn k = map_of d k)" for d
    using assms
  proof (induction bs arbitrary: d)
    case (Cons x bs)
    from Cons.prems have d: "distinct (map fst bs)" "fst x \<notin> set (map fst bs)"
      by auto
    obtain syn where syn: "foldE ?f (map ?t bs) (AList.update (Some (fst x)) (?t x) d) = Inr syn"
      "\<forall>y \<in> set bs. map_of syn (Some (fst y)) = Some (?t y)"
      "\<forall>k. k \<notin> Some ` set (map fst bs) \<longrightarrow> map_of syn k = map_of (AList.update (Some (fst x)) (?t x) d) k"
      using Cons.IH [OF d(1)] by blast
    have "map_of syn (Some (fst x)) = Some (?t x)"
      using spec [OF syn(3), of "Some (fst x)"] d(2) by (auto simp: update_conv)
    moreover have "map_of syn k = map_of d k" if "k \<notin> Some ` set (map fst (x # bs))" for k
      using syn(3) that by (simp add: update_conv)
    ultimately show ?case
      using syn(1,2) by (intro exI [of _ syn]) (simp add: table_design)
  qed simp
  then show ?thesis
    unfolding designs_def by blast
qed

lemma table_float:
  assumes "float_at row c = Inr v" "c \<in> set (SYN_COLS @ map fst POWER)"
  shows "float_at (dict_of TABLE_COLS (table_row (name, d, row))) c = Inr v"
proof -
  obtain t where "map_of row c = Some (Some t)" "float_of t = Inr v"
    using assms(1) by (auto simp: float_at_def cell_def result_simps split: option.splits)
  then show ?thesis
    using table_cell [OF assms(2), of name d row] by (simp add: float_at_def opt_str_def)
qed

lemma table_cost:
  assumes "run_cost 1000 row cyc = Inr (t, e)"
  shows "run_cost 1 (dict_of TABLE_COLS (table_row (name, d, row))) cyc = Inr (t, e * 1000)"
proof -
  have keys: "''fmax_mhz'' \<in> set (SYN_COLS @ map fst POWER)" "''power_w'' \<in> set (SYN_COLS @ map fst POWER)"
    "''period_ns'' \<in> set (SYN_COLS @ map fst POWER)"
    by (simp_all add: SYN_COLS_def POWER_def)
  obtain fm p per where "float_at row ''fmax_mhz'' = Inr fm" "quot (of_int cyc) fm = Inr t" "float_at row ''power_w'' = Inr p"
    "float_at row ''period_ns'' = Inr per" "e = p * of_int cyc * per / 1000"
    using assms by (auto simp: run_cost_def result_simps)
  then show ?thesis
    using keys [THEN table_float [rotated]] by (simp add: run_cost_def)
qed

lemma syn_table_file:
  "syn_table fs dir out specs = Inr (bs, lines, fs') \<Longrightarrow> map_of fs' out = Some (csv_write (TABLE_COLS # map table_row bs))"
  by (auto simp: syn_table_def Let_def result_simps TABLE_COLS_def table_row_def case_prod_beta split: if_splits)

text \<open>C14: The panels of the Vortex plot show the ratios the synthesis script prints: when the script's table is written and its
  report has a time and an energy ratio for a design and a case, the plot, which reads that table again, draws exactly these.\<close>

theorem vortex_plot_agrees:
  assumes table: "syn_table fs dir out specs = Inr (bs, lines, fs')" and plain: "CHR 0x0D \<notin> set (the (map_of fs' out))"
    and designs: "map_of bs ''simtix'' = Some (d0, s)" "map_of bs run = Some (d, b)"
    and ratio: "syn_ratio s (run, d, b) r = Inr (q1, q2, q3)"
  shows "\<exists>syn s'. bindE (csv_dicts fs' out) designs = Inr syn \<and> look syn (Some ''simtix'') = Inr s'
    \<and> vx_ratio syn s' run 0 r = Inr q2 \<and> vx_ratio syn s' run 1 r = Inr q3"
proof -
  let ?t = "\<lambda>x. dict_of TABLE_COLS (table_row x)"
  have written: "map_of fs' out = Some (csv_write (TABLE_COLS # map table_row bs))"
    using syn_table_file [OF table] .
  have "csv_dicts fs' out = Inr (map (dict_of TABLE_COLS) (map table_row bs))"
    by (rule syn_csv.read_plain) (use written plain in \<open>auto simp: table_row_def\<close>)
  then have "csv_dicts fs' out = Inr (map ?t bs)"
    by (simp add: o_def)
  moreover obtain syn where syn: "designs (map ?t bs) = Inr syn" "\<forall>x \<in> set bs. map_of syn (Some (fst x)) = Some (?t x)"
    using designs_table syn_table_ok [OF table] unfolding builds_ok_def by blast
  moreover have at: "map_of syn (Some ''simtix'') = Some (?t (''simtix'', d0, s))" "map_of syn (Some run) = Some (?t (run, d, b))"
    using syn(2) designs [THEN map_of_SomeD] by force+
  obtain sc vc st se vt ve where c: "int_at r ''simtix_cycles'' = Inr sc" "int_at r (run @ ''_cycles'') = Inr vc"
    "run_cost 1000 s sc = Inr (st, se)" "run_cost 1000 b vc = Inr (vt, ve)" "quot vt st = Inr q2" "quot ve se = Inr q3"
    using ratio by (auto simp: syn_ratio_def result_simps)
  have "quot (ve * 1000) (se * 1000) = Inr q3"
    using c(6) by (auto simp: quot_def split: if_splits)
  then have "vx_ratio syn (?t (''simtix'', d0, s)) run 0 r = Inr q2" "vx_ratio syn (?t (''simtix'', d0, s)) run 1 r = Inr q3"
    using c(5) by (simp_all add: vx_ratio_def look_def at c(1,2) table_cost [OF c(3)] table_cost [OF c(4)])
  ultimately show ?thesis
    using at(1) by (auto simp: look_def)
qed

definition demo_builds :: fs where
  "demo_builds =
     [(''a/synth_summary.csv'', csv_write [SYN_COLS, [''10'', ''0'', ''100'', ''1'', ''1'', ''1'', ''1'', ''0'', ''1'']]),
      (''a/power_vectorless.rpt'', ''| Total On-Chip Power (W) | 2 |''),
      (''b/synth_summary.csv'', csv_write [SYN_COLS, [''10'', ''0'', ''50'', ''1'', ''1'', ''1'', ''1'', ''0'', ''1'']]),
      (''b/power_vectorless.rpt'', ''| Total On-Chip Power (W) | 3 |'')]"

definition demo_app :: row where
  "demo_app = [(''simtix_cycles'', Some ''10''), (''w4_cycles'', Some ''20'')]"

definition demo_a :: row where
  "demo_a = zip SYN_COLS (map Some [''10'', ''0'', ''100'', ''1'', ''1'', ''1'', ''1'', ''0'', ''1''])
     @ [(''power_w'', Some ''2''), (''dynamic_w'', Some []), (''static_w'', Some [])]"

definition demo_b :: row where
  "demo_b = zip SYN_COLS (map Some [''10'', ''0'', ''50'', ''1'', ''1'', ''1'', ''1'', ''0'', ''1''])
     @ [(''power_w'', Some ''3''), (''dynamic_w'', Some []), (''static_w'', Some [])]"

lemma demo_read_builds: "read_build demo_builds ''a'' = Inr demo_a" "read_build demo_builds ''b'' = Inr demo_b"
  by code_simp+

lemma demo_ratio: "syn_ratio demo_a (''w4'', ''b'', demo_b) demo_app = Inr (2, 4, 3)"
  by code_simp

definition demo_bs :: builds where "demo_bs = [(''simtix'', ''a'', demo_a), (''w4'', ''b'', demo_b)]"

lemma demo_syn_table:
  "syn_table demo_builds [] ''o.csv'' [''simtix=a'', ''w4=b'']
     = Inr (demo_bs, [], write_file ''o.csv'' (csv_write (TABLE_COLS # map table_row demo_bs)) demo_builds)"
proof -
  have p: "name_path ''simtix=a'' = Inr (''simtix'', ''a'')" "name_path ''w4=b'' = Inr (''w4'', ''b'')" "pjoin [] ''a'' = ''a''" "pjoin [] ''b'' = ''b''"
    "is_file demo_builds (pjoin ''a'' ''power_vectorless.rpt'')" "is_file demo_builds (pjoin ''b'' ''power_vectorless.rpt'')"
    by code_simp+
  show ?thesis
    by (simp add: syn_table_def add_build_def p demo_read_builds demo_bs_def TABLE_COLS_def table_row_def)
qed

theorem vortex_plot_agrees_witness:
  "\<exists>syn s'. bindE (csv_dicts (write_file ''o.csv'' (csv_write (TABLE_COLS # map table_row demo_bs)) demo_builds) ''o.csv'') designs = Inr syn
     \<and> look syn (Some ''simtix'') = Inr s' \<and> vx_ratio syn s' ''w4'' 0 demo_app = Inr 4 \<and> vx_ratio syn s' ''w4'' 1 demo_app = Inr 3"
proof (rule vortex_plot_agrees [OF demo_syn_table])
  have "CHR 0x0D \<notin> set (csv_write (TABLE_COLS # map table_row demo_bs))"
    by code_simp
  then show "CHR 0x0D \<notin> set (the (map_of (write_file ''o.csv'' (csv_write (TABLE_COLS # map table_row demo_bs)) demo_builds) ''o.csv''))"
    by simp
  show "map_of demo_bs ''simtix'' = Some (''a'', demo_a)" "map_of demo_bs ''w4'' = Some (''b'', demo_b)"
    by (simp_all add: demo_bs_def)
  show "syn_ratio demo_a (''w4'', ''b'', demo_b) demo_app = Inr (2, 4, 3)"
    by (rule demo_ratio)
qed

end
