(* ===== verification/Bench.thy ===== *)
theory Bench
  imports Ratios
begin

text \<open>
  The numbers of the benchmark plots: the design-space exploration (\<^verbatim>\<open>plot_dse.py\<close>), the integer and floating-point benchmarks
  (\<^verbatim>\<open>plot_bench.py\<close>, \<^verbatim>\<open>plot_fp.py\<close>), the timing closure (\<^verbatim>\<open>plot_closure.py\<close>), which parses timing reports, and the
  montage of \<^verbatim>\<open>ml/view_mnist.py\<close>. The root of a
  geometric mean is a parameter.
\<close>

section \<open>Rows with integer columns\<close>

definition int_cols :: "string list \<Rightarrow> row \<Rightarrow> (string \<times> int) list result" where
  "int_cols ks r = mapE (\<lambda>k. bindE (int_at r k) (\<lambda>n. Inr (k, n))) ks"

text \<open>A loaded row: the converted columns and the others.\<close>

type_synonym loaded = "(string \<times> int) list \<times> row"

definition load_rows :: "string list \<Rightarrow> fs \<Rightarrow> string \<Rightarrow> loaded list result" where
  "load_rows ks fs path =
     bindE (read_file fs path) (\<lambda>text. mapE (\<lambda>r. bindE (int_cols ks r) (\<lambda>ns. Inr (ns, r))) (dict_rows text))"

definition val :: "loaded \<Rightarrow> string \<Rightarrow> int" where "val x k = the (map_of (fst x) k)"

section \<open>plot\_dse.py\<close>

record dse_row =
  d_lanes :: int
  d_warps :: int
  d_kernel :: "string option"
  d_thr :: rat

definition DSE_COLS :: "string list" where
  "DSE_COLS = [''lanes'', ''warps'', ''N'', ''cycles'', ''active_lanes'', ''gmem_txns'', ''divergences'']"

definition dse_load :: "fs \<Rightarrow> string \<Rightarrow> dse_row list result" where
  "dse_load fs path =
     bindE (read_file fs path) (\<lambda>text. bindE (mapE (\<lambda>r.
       bindE (int_cols DSE_COLS r) (\<lambda>ns.
       bindE (divide_ints (val (ns, r) ''active_lanes'') (val (ns, r) ''cycles'')) (\<lambda>thr. Inr ((ns, r), thr)))) (dict_rows text)) (\<lambda>xs.
     mapE (\<lambda>(x, thr). bindE (cell (snd x) ''kernel'') (\<lambda>k.
       Inr \<lparr>d_lanes = val x ''lanes'', d_warps = val x ''warps'', d_kernel = k, d_thr = thr\<rparr>)) xs))"

definition dse_mean :: "(nat \<Rightarrow> rat \<Rightarrow> rat) \<Rightarrow> rat list \<Rightarrow> rat" where
  "dse_mean rt xs = (if xs = [] then 0 else rt (length xs) (fold (\<lambda>x p. p * x) xs 1))"

definition dse_at :: "dse_row list \<Rightarrow> int \<Rightarrow> int \<Rightarrow> rat list" where
  "dse_at rows l w = map d_thr (filter (\<lambda>r. d_lanes r = l \<and> d_warps r = w) rows)"

definition dse_agg :: "(nat \<Rightarrow> rat \<Rightarrow> rat) \<Rightarrow> dse_row list \<Rightarrow> ((int \<times> int) \<times> rat) list" where
  "dse_agg rt rows =
     concat (map (\<lambda>l. concat (map (\<lambda>w. let xs = dse_at rows l w in if xs \<noteq> [] then [((l, w), dse_mean rt xs)] else [])
       (sorted_keys (map d_warps rows)))) (sorted_keys (map d_lanes rows)))"

definition agg0 :: "((int \<times> int) \<times> rat) list \<Rightarrow> int \<Rightarrow> int \<Rightarrow> rat" where
  "agg0 agg l w = (case map_of agg (l, w) of None \<Rightarrow> 0 | Some v \<Rightarrow> v)"

definition dse_table :: "((int \<times> int) \<times> rat) list \<Rightarrow> int list \<Rightarrow> int list \<Rightarrow> string list" where
  "dse_table agg ls ws =
     [CHR 0x0A # ''  aggregate throughput (geomean work/cycle) by configuration'',
      ''  lanes '' @ tx ''@'' @ '' warps | '' @ join '' '' (map (\<lambda>w. padl 7 (str_int w)) ws),
      ''  '' @ replicate (16 + 8 * length ws) (CHR ''-'')]
     @ map (\<lambda>l. ''  '' @ padl 11 (str_int l) @ ''  | '' @ join '' '' (map (\<lambda>w. padl 7 (fixed 2 (agg0 agg l w))) ws)) ls"

text \<open>The kernels in order; names of different kinds cannot be compared.\<close>

definition dse_kernels :: "dse_row list \<Rightarrow> string option list result" where
  "dse_kernels rows =
     (let ks = remdups (map d_kernel rows)
      in if None \<in> set ks \<and> length ks > 1 then Inl TypeError else Inr (sort_key (\<lambda>k. case k of None \<Rightarrow> [] | Some s \<Rightarrow> s) ks))"

text \<open>The series of the three figures: per warp count over the lanes, per lane count over the warps, per kernel over the lanes.\<close>

record dse_chart =
  dc_table :: "string list"
  dc_by_warps :: "(int \<times> rat list) list"
  dc_by_lanes :: "(int \<times> rat list) list"
  dc_warps :: int
  dc_kernels :: "(string option \<times> rat list) list"

definition dse_chart_of :: "(nat \<Rightarrow> rat \<Rightarrow> rat) \<Rightarrow> dse_row list \<Rightarrow> dse_chart result" where
  "dse_chart_of rt rows =
     (let ls = sorted_keys (map d_lanes rows); ws = sorted_keys (map d_warps rows); agg = dse_agg rt rows
      in bindE (dse_kernels rows) (\<lambda>ks.
         if ws = [] then Inl IndexError
         else let sel = (if 4 \<in> set ws then 4 else ws ! (length ws div 2))
           in Inr \<lparr>dc_table = dse_table agg ls ws, dc_by_warps = map (\<lambda>w. (w, map (\<lambda>l. agg0 agg l w) ls)) ws,
                dc_by_lanes = map (\<lambda>l. (l, map (\<lambda>w. agg0 agg l w) ws)) ls, dc_warps = sel,
                dc_kernels = map (\<lambda>k. (k, map (\<lambda>l.
                   let m = map d_thr (filter (\<lambda>r. d_lanes r = l \<and> d_warps r = sel \<and> d_kernel r = k) rows)
                   in if m \<noteq> [] then hd m else 0) ls)) ks\<rparr>))"

definition dse_main :: "(nat \<Rightarrow> rat \<Rightarrow> rat) \<Rightarrow> fs \<Rightarrow> string \<Rightarrow> dse_chart result" where
  "dse_main rt fs here =
     (let path = pjoin here ''dse_perf.csv''
      in if \<not> is_file fs path then Inl (SystemExit (''missing '' @ path @ '' - run the sweep first (see sim/Makefile `dse`)''))
         else bindE (dse_load fs path) (dse_chart_of rt))"

section \<open>plot\_bench.py\<close>

definition BENCH_COLS :: "string list" where
  "BENCH_COLS = [''N'', ''cycles'', ''gmem_txns'', ''scratch_txns'', ''divergences'', ''issued_insns'', ''active_lanes'',
     ''lane_util_pm'', ''scalar_ipc_x100'']"

text \<open>Rows grouped by a key in order of first appearance, each group sorted by \<^verbatim>\<open>N\<close>.\<close>

definition group_rows :: "('k \<times> loaded) list \<Rightarrow> ('k \<times> loaded list) list" where
  "group_rows xs =
     map (\<lambda>(k, g). (k, sort_key (\<lambda>x. val x ''N'') g))
       (fold (\<lambda>(k, x) d. AList.update k ((case map_of d k of None \<Rightarrow> [] | Some g \<Rightarrow> g) @ [x]) d) xs [])"

definition by_kernel :: "loaded list \<Rightarrow> (string option \<times> loaded list) list result" where
  "by_kernel xs = bindE (mapE (\<lambda>x. bindE (cell (snd x) ''kernel'') (\<lambda>k. Inr (k, x))) xs) (\<lambda>ks. Inr (group_rows ks))"

definition STREAMING :: "string list" where
  "STREAMING = [''vadd'', ''saxpy'', ''fir'', ''relu'', ''collatz'', ''reduce'']"

definition bench_series :: "(string option \<times> loaded list) list \<Rightarrow> string list \<Rightarrow> (loaded \<Rightarrow> rat) \<Rightarrow> (string \<times> (int \<times> rat) list) list" where
  "bench_series groups ks f =
     concat (map (\<lambda>k. case map_of groups (Some k) of None \<Rightarrow> [] | Some g \<Rightarrow> [(k, map (\<lambda>x. (val x ''N'', f x)) g)]) ks)"

definition bench_utils :: "(string option \<times> loaded list) list \<Rightarrow> (string \<times> rat \<times> string) list" where
  "bench_utils groups =
     concat (map (\<lambda>k. case map_of groups (Some k) of None \<Rightarrow> []
       | Some g \<Rightarrow> let u = of_int (val (last g) ''lane_util_pm'') / 10 in [(k, u, fixed 1 u @ ''%'')]) STREAMING)"

definition bench_locality :: "(string option \<times> loaded list) list \<Rightarrow> (int \<times> int) option" where
  "bench_locality groups =
     (case (map_of groups (Some ''mm_naive''), map_of groups (Some ''mm_smem'')) of
        (Some n, Some s) \<Rightarrow> Some (val (hd n) ''gmem_txns'', val (hd s) ''gmem_txns'') | _ \<Rightarrow> None)"

text \<open>The measured speedups over the scalar processor: sizes, cycles of both, quotient.\<close>

type_synonym cycle_dict = "((string option \<times> int) \<times> int) list"

definition cpu_dict :: "fs \<Rightarrow> string \<Rightarrow> cycle_dict result" where
  "cpu_dict fs path =
     bindE (read_file fs path) (\<lambda>text. foldE (\<lambda>r d.
       bindE (int_at r ''cpu_cycles'') (\<lambda>c. bindE (cell r ''kernel'') (\<lambda>k. bindE (int_at r ''N'') (\<lambda>n.
       Inr (AList.update (k, n) c d))))) (dict_rows text) [])"

definition accel_dict :: "loaded list \<Rightarrow> cycle_dict result" where
  "accel_dict xs = foldE (\<lambda>x d. bindE (cell (snd x) ''kernel'') (\<lambda>k. Inr (AList.update (k, val x ''N'') (val x ''cycles'') d))) xs []"

definition bench_sizes :: "cycle_dict \<Rightarrow> string \<Rightarrow> int list" where
  "bench_sizes cpu k = sorted_keys (map (snd \<circ> fst) (filter (\<lambda>((k', _), _). k' = Some k) cpu))"

definition bench_speedups :: "cycle_dict \<Rightarrow> cycle_dict \<Rightarrow> string \<Rightarrow> (int \<times> int \<times> int \<times> rat) list result" where
  "bench_speedups cpu accel k =
     bindE (mapE (\<lambda>n. case map_of accel (Some k, n) of None \<Rightarrow> Inr []
       | Some a \<Rightarrow> let c = the (map_of cpu (Some k, n)) in bindE (divide_ints c a) (\<lambda>sp. Inr [(n, c, a, sp)]))
       (bench_sizes cpu k)) (\<lambda>rs. Inr (concat rs))"

definition speedup_line :: "string \<Rightarrow> int \<times> int \<times> int \<times> rat \<Rightarrow> string" where
  "speedup_line k = (\<lambda>(n, c, a, sp).
     ''  '' @ padr 9 k @ '' '' @ padl 4 (str_int n) @ '' | '' @ padl 6 (str_int c) @ '' '' @ padl 6 (str_int a) @ ''  ''
     @ padl 6 (fixed 2 sp) @ ''x'')"

record bench_chart =
  bc_throughput :: "(string \<times> (int \<times> rat) list) list"
  bc_utils :: "(string \<times> rat \<times> string) list"
  bc_traffic :: "(string \<times> (int \<times> rat) list) list"
  bc_locality :: "(int \<times> int) option"
  bc_speedups :: "(string \<times> (int \<times> rat) list) list"
  bc_lines :: "string list"

definition bench_main :: "fs \<Rightarrow> string \<Rightarrow> bench_chart result" where
  "bench_main fs here =
     (let csv = pjoin here ''bench.csv''; cpu_csv = pjoin here ''bench_cpu.csv''; out = pjoin here ''figs''
      in if \<not> is_file fs csv then Inl (SystemExit (''missing '' @ csv @ '' - run `make bench | grep '' @ [CHR 0x27] @ ''^CSV,'' @ [CHR 0x27]
             @ '' > docs/bench.csv` first''))
         else bindE (load_rows BENCH_COLS fs csv) (\<lambda>rows. bindE (by_kernel rows) (\<lambda>groups.
              bindE (if is_file fs cpu_csv then
                  bindE (cpu_dict fs cpu_csv) (\<lambda>cpu. bindE (accel_dict rows) (\<lambda>accel.
                    mapE (\<lambda>k. bindE (bench_speedups cpu accel k) (\<lambda>sps. Inr (k, sps))) STREAMING))
                else Inr []) (\<lambda>sps.
              Inr \<lparr>bc_throughput = bench_series groups STREAMING (\<lambda>x. of_int (val x ''scalar_ipc_x100'') / 100),
                bc_utils = bench_utils groups,
                bc_traffic = bench_series groups [''vadd'', ''saxpy'', ''fir'', ''relu'', ''reduce''] (\<lambda>x. of_int (val x ''gmem_txns'')),
                bc_locality = bench_locality groups,
                bc_speedups = map (\<lambda>(k, s). (k, map (\<lambda>(n, _, _, sp). (n, sp)) s)) (filter (\<lambda>(_, s). s \<noteq> []) sps),
                bc_lines = (if is_file fs cpu_csv then
                    [CHR 0x0A # ''  measured speedup (scalar host-CPU cycles / SIMTiX accelerator cycles)'',
                     ''  kernel      N |   cpu   accel  speedup'', ''  ------------------------------------------'']
                    @ concat (map (\<lambda>(k, s). map (speedup_line k) s) sps) @ [''  ------------------------------------------'']
                  else [])
                  @ [CHR 0x0A # ''wrote figures to '' @ out @ ''/  (throughput, laneutil, memtraffic, locality''
                     @ (if is_file fs cpu_csv then '', speedup'' else []) @ '')'']\<rparr>))))"

section \<open>plot\_fp.py\<close>

definition FP_COLS :: "string list" where
  "FP_COLS = [''N'', ''cycles'', ''gmem'', ''issued'', ''active'', ''util_permil'', ''ipc_x100'']"

definition FPK_COLS :: "string list" where
  "FPK_COLS = [''N'', ''cycles'', ''gmem'', ''scratch'', ''issued'', ''active'', ''util_permil'']"

type_synonym fp_series = "((string option \<times> string option) \<times> loaded list) list"

definition fp_groups :: "loaded list \<Rightarrow> fp_series result" where
  "fp_groups xs = bindE (mapE (\<lambda>x. bindE (cell (snd x) ''fmt'') (\<lambda>f. bindE (cell (snd x) ''kernel'') (\<lambda>k. Inr ((f, k), x)))) xs)
     (\<lambda>ks. Inr (group_rows ks))"

text \<open>The largest size, and the cycles of a series at a size: \<^verbatim>\<open>next(... if r["N"] == Nmax)\<close>.\<close>

definition top_size :: "loaded list \<Rightarrow> int result" where
  "top_size xs = (if xs = [] then Inl ValueError else Inr (Max (set (map (\<lambda>x. val x ''N'') xs))))"

definition cycles_at :: "fp_series \<Rightarrow> int \<Rightarrow> string \<Rightarrow> string \<Rightarrow> int result" where
  "cycles_at groups n fm k =
     (case filter (\<lambda>x. val x ''N'' = n) (case map_of groups (Some fm, Some k) of None \<Rightarrow> [] | Some g \<Rightarrow> g) of
        [] \<Rightarrow> Inl StopIteration | x # _ \<Rightarrow> Inr (val x ''cycles''))"

definition FP_ORDER :: "string list" where "FP_ORDER = [''fsaxpy'', ''fsaxpy16'', ''fnorm'', ''fdot'']"

text \<open>Per kernel at its largest size: cycles, the multiple of \<^verbatim>\<open>fsaxpy\<close> printed in the other bars, utilization and the text
  of the share a gated design saves.\<close>

record fpk_bar =
  fk_name :: string
  fk_cycles :: int
  fk_ratio :: "string option"
  fk_util :: rat
  fk_save :: "string option"

definition at_top :: "loaded list \<Rightarrow> int \<Rightarrow> (string option \<times> loaded) list result" where
  "at_top xs n = foldE (\<lambda>x d. if val x ''N'' \<noteq> n then Inr d else bindE (cell (snd x) ''kernel'') (\<lambda>k. Inr (AList.update k x d))) xs []"

definition fpk_bar_of :: "(string option \<times> loaded) list \<Rightarrow> int \<Rightarrow> string \<Rightarrow> fpk_bar result" where
  "fpk_bar_of tops base k =
     bindE (look tops (Some k)) (\<lambda>x.
     bindE (if k = ''fsaxpy'' then Inr None else bindE (divide_ints (val x ''cycles'') base) (\<lambda>q. Inr (Some (fixed 1 q @ ''x'')))) (\<lambda>ratio.
     let u = of_int (val x ''util_permil'') / 10
     in Inr \<lparr>fk_name = k, fk_cycles = val x ''cycles'', fk_ratio = ratio, fk_util = u,
          fk_save = (if u < 99 then Some (''save'' @ [CHR 0x0A] @ fixed 0 (100 - u) @ ''%'') else None)\<rparr>))"

definition kernel_figures :: "fs \<Rightarrow> string \<Rightarrow> fpk_bar list result" where
  "kernel_figures fs path =
     bindE (load_rows FPK_COLS fs path) (\<lambda>xs. bindE (top_size xs) (\<lambda>n. bindE (at_top xs n) (\<lambda>tops.
     bindE (mapE (\<lambda>k. look tops (Some k)) FP_ORDER) (\<lambda>_. bindE (look tops (Some ''fsaxpy'')) (\<lambda>base.
     mapE (fpk_bar_of tops (val base ''cycles'')) FP_ORDER)))))"

record fp_chart =
  fc_throughput :: "((string \<times> string) \<times> (int \<times> rat) list) list"
  fc_size :: int
  fc_f32 :: "int list"
  fc_f16 :: "int list"
  fc_kernels :: "fpk_bar list"

definition fp_main :: "fs \<Rightarrow> string \<Rightarrow> fp_chart result" where
  "fp_main fs here =
     (let csv = pjoin here ''fp_bench.csv''; kcsv = pjoin here ''fp_kernels.csv''
      in if \<not> is_file fs csv then Inl (SystemExit (''missing '' @ csv @ '' - run `make fp-bench | grep '' @ [CHR 0x27] @ ''^FPCSV,'' @ [CHR 0x27]
             @ '' > docs/fp_bench.csv`''))
         else bindE (load_rows FP_COLS fs csv) (\<lambda>rows. bindE (fp_groups rows) (\<lambda>groups. bindE (top_size rows) (\<lambda>n.
              bindE (mapE (cycles_at groups n ''f32'') [''vadd'', ''mac'']) (\<lambda>f32.
              bindE (mapE (cycles_at groups n ''f16'') [''vadd'', ''mac'']) (\<lambda>f16.
              bindE (if is_file fs kcsv then kernel_figures fs kcsv else Inr []) (\<lambda>kernels.
              Inr \<lparr>fc_throughput = concat (map (\<lambda>(f, k). case map_of groups (Some f, Some k) of None \<Rightarrow> []
                      | Some g \<Rightarrow> [((f, k), map (\<lambda>x. (val x ''N'', of_int (val x ''ipc_x100'') / 100)) g)])
                    [(''f32'', ''vadd''), (''f32'', ''mac''), (''f16'', ''vadd''), (''f16'', ''mac'')]),
                fc_size = n, fc_f32 = f32, fc_f16 = f16, fc_kernels = kernels\<rparr>)))))))"

section \<open>plot\_closure.py\<close>

text \<open>The regular expressions, from left to right: each part has one way to match, but for the last, whose \<^verbatim>\<open>.*\<close> takes the last
  \<^verbatim>\<open>route\<close> of the line.\<close>

definition num_char :: "char \<Rightarrow> bool" where
  "num_char c \<longleftrightarrow> c = CHR ''.'' \<or> (\<exists>k \<in> set [0..<10]. c = digit_char k)"

definition re_word :: "char \<Rightarrow> bool" where
  "re_word c \<longleftrightarrow> (let n = of_char c :: nat in n = 95 \<or> 48 \<le> n \<and> n \<le> 57 \<or> 65 \<le> n \<and> n \<le> 90 \<or> 97 \<le> n \<and> n \<le> 122)"

definition after_text :: "string \<Rightarrow> string \<Rightarrow> string option" where
  "after_text p s = (if starts_with p s then Some (drop (length p) s) else None)"

definition skip :: "string \<Rightarrow> string" where "skip = dropWhile is_space"

definition chain :: "'a option \<Rightarrow> ('a \<Rightarrow> 'b option) \<Rightarrow> 'b option" where
  "chain m f = (case m of None \<Rightarrow> None | Some x \<Rightarrow> f x)"

text \<open>A number with its unit: what is matched by \<^verbatim>\<open>[\d.]+ns\<close>, the number and what follows.\<close>

definition ns_at :: "string \<Rightarrow> (string \<times> string) option" where
  "ns_at s = (let d = takeWhile num_char s
     in if d = [] then None else chain (after_text ''ns'' (drop (length d) s)) (\<lambda>u. Some (d, u)))"

definition slack_at :: "string \<Rightarrow> string option" where
  "slack_at s =
     chain (after_text ''Slack'' s) (\<lambda>a. chain (after_text ''('' (skip a)) (\<lambda>b.
     if takeWhile re_word b = [] then None
     else chain (after_text '')'' (dropWhile re_word b)) (\<lambda>c. chain (after_text '':'' (skip c)) (\<lambda>d.
       let e = skip d; (sg, f) = (case after_text ''-'' e of None \<Rightarrow> ([], e) | Some f \<Rightarrow> (''-'', f))
       in chain (ns_at f) (\<lambda>(v, _). Some (sg @ v))))))"

definition route_at :: "string \<Rightarrow> string option" where
  "route_at s = chain (after_text ''route'' s) (\<lambda>a. chain (ns_at (skip a)) (\<lambda>(v, _). Some v))"

fun first_match :: "(string \<Rightarrow> 'a option) \<Rightarrow> string \<Rightarrow> 'a option" where
  "first_match f [] = None"
| "first_match f (c # cs) = (case f (c # cs) of Some v \<Rightarrow> Some v | None \<Rightarrow> first_match f cs)"

fun last_match :: "(string \<Rightarrow> 'a option) \<Rightarrow> string \<Rightarrow> 'a option" where
  "last_match f [] = None"
| "last_match f (c # cs) = (case last_match f cs of Some v \<Rightarrow> Some v | None \<Rightarrow> f (c # cs))"

definition delay_at :: "string \<Rightarrow> (string \<times> string) option" where
  "delay_at s =
     chain (after_text ''Data Path Delay:'' s) (\<lambda>a. chain (ns_at (skip a)) (\<lambda>(_, b).
     chain (after_text ''(logic'' (skip b)) (\<lambda>c. chain (ns_at (skip c)) (\<lambda>(l, d).
     chain (last_match route_at d) (\<lambda>r. Some (l, r))))))"

text \<open>The loop over the lines: the first slack, and the first delay, which ends it.\<close>

fun scan_report :: "rat option \<Rightarrow> string list \<Rightarrow> (rat option \<times> (rat \<times> rat) option) result" where
  "scan_report slack [] = Inr (slack, None)"
| "scan_report slack (l # ls) =
     bindE (case slack of Some v \<Rightarrow> Inr (Some v)
       | None \<Rightarrow> (case first_match slack_at l of None \<Rightarrow> Inr None | Some t \<Rightarrow> bindE (float_of t) (\<lambda>v. Inr (Some v)))) (\<lambda>slack.
     case first_match delay_at l of
       None \<Rightarrow> scan_report slack ls
     | Some (a, b) \<Rightarrow> bindE (float_of a) (\<lambda>logic. bindE (float_of b) (\<lambda>route. Inr (slack, Some (logic, route)))))"

definition worst_path :: "fs \<Rightarrow> string \<Rightarrow> (rat \<times> rat \<times> rat) result" where
  "worst_path fs rpt =
     bindE (read_file fs rpt) (\<lambda>text. bindE (scan_report None (file_lines (univ_nl text))) (\<lambda>(slack, split).
     case (slack, split) of
       (Some s, Some (l, r)) \<Rightarrow> Inr (s, l, r)
     | _ \<Rightarrow> Inl (SystemExit (''could not parse worst path from '' @ rpt))))"

definition CLOSURE_STEPS :: "(string \<times> string) list" where
  "CLOSURE_STEPS =
     [(''1: two-stage'' @ [CHR 0x0A] @ ''FMA'', ''reports_fp_impl''),
      (''2: + shared'' @ [CHR 0x0A] @ ''serial SFU'', ''reports_fp_sharedsfu''),
      (''3: three-stage'' @ [CHR 0x0A] @ ''FMA'', ''reports_fp_3stage''),
      (''SoC: in-context'' @ [CHR 0x0A] @ ''+ pins'', ''reports_fp_chip'')]"

text \<open>A bar: its label, the logic and routing parts, and the texts on it, of which the share divides by the height.\<close>

definition closure_step :: "fs \<Rightarrow> string \<Rightarrow> string \<times> string \<Rightarrow> (string \<times> rat \<times> rat \<times> rat) result" where
  "closure_step fs fpga = (\<lambda>(label0, d).
     bindE (worst_path fs (pjoin (pjoin fpga d) ''post_route_timing.rpt'')) (\<lambda>(slack, logic, route).
     bindE (quot 1000 (10 - slack)) (\<lambda>fmax. Inr (label0, logic, route, fmax))))"

definition closure_texts :: "string \<times> rat \<times> rat \<times> rat \<Rightarrow> (string \<times> string) result" where
  "closure_texts = (\<lambda>(_, logic, route, fmax).
     bindE (quot (100 * route) (logic + route)) (\<lambda>share. Inr (fixed 1 fmax @ '' MHz'', fixed 0 share @ ''%'' @ [CHR 0x0A] @ ''route'')))"

definition closure_main :: "fs \<Rightarrow> string \<Rightarrow> ((string \<times> rat \<times> rat \<times> rat) list \<times> (string \<times> string) list) result" where
  "closure_main fs fpga =
     bindE (mapE (closure_step fs fpga) CLOSURE_STEPS) (\<lambda>bars. bindE (mapE closure_texts bars) (\<lambda>texts. Inr (bars, texts)))"

section \<open>view\_mnist.py\<close>

text \<open>The tiles of the montage: place, title and its colour; then the lines printed. The image shown in a tile is the one of its
  number. The arrays of the file have one entry per image.\<close>

definition mnist_tile :: "int list \<Rightarrow> int list \<Rightarrow> nat \<Rightarrow> ((nat \<times> nat) \<times> string \<times> string) result" where
  "mnist_tile pred lbl i =
     (if i < length pred \<and> i < length lbl
      then Inr ((i div 8, i mod 8), ''p='' @ str_int (pred ! i) @ '' t='' @ str_int (lbl ! i), if pred ! i = lbl ! i then ''black'' else ''red'')
      else Inl IndexError)"

definition matches :: "int list \<Rightarrow> int list \<Rightarrow> nat" where
  "matches pred lbl = length (filter (\<lambda>(p, l). p = l) (zip pred lbl))"

definition mnist_montage :: "string \<Rightarrow> int list \<Rightarrow> int list \<Rightarrow> (((nat \<times> nat) \<times> string \<times> string) list \<times> string list) result" where
  "mnist_montage d pred lbl =
     bindE (mapE (mnist_tile pred lbl) [0..<64]) (\<lambda>tiles.
     Inr (tiles, [''wrote '' @ pjoin d ''mnist_montage.png'',
       ''chip matched the true label on '' @ str_nat (matches pred lbl)
         @ ''/64 images (the 1 red tile is the genuine misclassification, digit 5 read as 6)'']))"

section \<open>Properties of the plotted numbers\<close>

lemma map_of_concat_unique:
  assumes "\<And>x. x \<in> set xs \<Longrightarrow> \<forall>p \<in> set (f x). g (fst p) = x" "distinct xs"
  shows "map_of (concat (map f xs)) k = (if g k \<in> set xs then map_of (f (g k)) k else None)"
  using assms
proof (induction xs)
  case (Cons x xs)
  show ?case
  proof (cases "g k = x")
    case True
    with Cons.prems(2) Cons show ?thesis
      by (auto simp: map_add_def split: option.splits)
  next
    case False
    then have "map_of (f x) k = None"
      using Cons.prems(1) [of x] by (force simp: map_of_eq_None_iff)
    with False Cons show ?thesis
      by (simp add: map_add_def)
  qed
qed simp

lemma montage_red:
  assumes "mnist_montage d pred lbl = Inr (tiles, out)" "length pred = 64" "length lbl = 64"
  shows "length (filter (\<lambda>(_, _, col). col = ''red'') tiles) + matches pred lbl = 64"
proof -
  have t: "mapE (mnist_tile pred lbl) [0..<64] = Inr tiles"
    using assms(1) by (auto simp: mnist_montage_def result_simps)
  have len: "length tiles = 64"
    using mapE_Inr_length [OF t] by simp
  have "snd (snd (tiles ! i)) = (if pred ! i = lbl ! i then ''black'' else ''red'')" if "i < 64" for i
  proof -
    have "mnist_tile pred lbl i = Inr (tiles ! i)"
      using mapE_Inr_nth [OF t, of i] that by simp
    moreover obtain q title col where "tiles ! i = (q, title, col)"
      by (cases "tiles ! i")
    ultimately show ?thesis
      using that assms(2,3) by (simp add: mnist_tile_def split: if_splits)
  qed
  then have "map (\<lambda>(_, _, col). col = ''red'') tiles = map (\<lambda>(p, l). p \<noteq> l) (zip pred lbl)"
    using len assms(2,3) by (intro nth_equalityI) (simp_all add: case_prod_beta)
  moreover have count: "length (filter P xs) = length (filter id (map P xs))" for P :: "'z \<Rightarrow> bool" and xs
    by (simp add: filter_map o_def)
  ultimately have "length (filter (\<lambda>(_, _, col). col = ''red'') tiles) = length (filter (\<lambda>(p, l). p \<noteq> l) (zip pred lbl))"
    by (simp only: count [of "\<lambda>(_, _, col). col = ''red''"] count [of "\<lambda>(p, l). p \<noteq> l"])
  moreover have "length (filter (\<lambda>(p, l). p \<noteq> l) (zip pred lbl)) + matches pred lbl = length (zip pred lbl)"
    using sum_length_filter_compl [of "\<lambda>x. fst x \<noteq> snd x" "zip pred lbl"] by (simp only: matches_def case_prod_unfold not_not)
  ultimately show ?thesis
    using assms(2,3) by simp
qed

text \<open>The table of the design-space plot has an entry for exactly the configurations that were swept, and it is the mean of all
  throughputs measured there.\<close>

theorem dse_agg_entries:
  "map_of (dse_agg rt rows) (l, w) = (if dse_at rows l w = [] then None else Some (dse_mean rt (dse_at rows l w)))"
proof -
  let ?ls = "sorted_keys (map d_lanes rows)" and ?ws = "sorted_keys (map d_warps rows)"
  let ?cell = "\<lambda>l w. let xs = dse_at rows l w in if xs \<noteq> [] then [((l, w), dse_mean rt xs)] else []"
  have d: "distinct ?ls" "distinct ?ws"
    by (simp_all add: sorted_keys_def)
  have row: "map_of (concat (map (?cell l') ?ws)) (l, w) = (if w \<in> set ?ws then map_of (?cell l' w) (l, w) else None)" for l'
    using map_of_concat_unique [of ?ws "?cell l'" snd "(l, w)"] d(2) by (simp add: Let_def)
  have "map_of (dse_agg rt rows) (l, w) = (if l \<in> set ?ls then map_of (concat (map (?cell l) ?ws)) (l, w) else None)"
    unfolding dse_agg_def using map_of_concat_unique [of ?ls "\<lambda>l. concat (map (?cell l) ?ws)" fst "(l, w)", unfolded fst_conv] d(1)
    by (fastforce simp: Let_def split: if_splits)
  also have "\<dots> = (if l \<in> set ?ls \<and> w \<in> set ?ws then map_of (?cell l w) (l, w) else None)"
    by (simp add: row)
  also have "\<dots> = (if dse_at rows l w = [] then None else Some (dse_mean rt (dse_at rows l w)))"
    by (auto simp: Let_def dse_at_def sorted_keys_def filter_empty_conv)
  finally show ?thesis .
qed

lemma bench_sizes_mem: "n \<in> set (bench_sizes cpu k) \<longleftrightarrow> map_of cpu (Some k, n) \<noteq> None"
  by (force simp: bench_sizes_def sorted_keys_def map_of_eq_None_iff)

text \<open>C20: The speedups of a kernel over the scalar processor are those of the sizes measured on both machines, each once and in
  ascending order, with the cycles of each machine and their quotient.\<close>

theorem bench_speedups_joined:
  assumes "bench_speedups cpu accel k = Inr sps"
  shows "sorted_wrt (<) (map fst sps) \<and> set sps = {(n, c, a, sp). map_of cpu (Some k, n) = Some c
     \<and> map_of accel (Some k, n) = Some a \<and> a \<noteq> 0 \<and> sp = of_int c / of_int a}"
proof -
  let ?f = "\<lambda>n. case map_of accel (Some k, n) of None \<Rightarrow> Inr []
       | Some a \<Rightarrow> let c = the (map_of cpu (Some k, n)) in bindE (divide_ints c a) (\<lambda>sp. Inr [(n, c, a, sp)])"
  have strict: "sorted_wrt (<) (bench_sizes cpu k)"
    by (simp add: bench_sizes_def sorted_keys_def strict_sorted_iff)
  have joined: "sorted_wrt (<) (map fst (concat rs)) \<and> set (map fst (concat rs)) \<subseteq> set ns \<and>
      set (concat rs) = {(n, c, a, sp). n \<in> set ns \<and> c = the (map_of cpu (Some k, n)) \<and> map_of accel (Some k, n) = Some a \<and> a \<noteq> 0
        \<and> sp = of_int c / of_int a}"
    if "mapE ?f ns = Inr rs" "sorted_wrt (<) ns" for ns rs
    using that
  proof (induction ns arbitrary: rs)
    case (Cons n ns)
    obtain r rs' where r: "?f n = Inr r" "mapE ?f ns = Inr rs'" "rs = r # rs'"
      using Cons.prems(1) by (auto simp: result_simps)
    show ?case
    proof (cases "map_of accel (Some k, n)")
      case None
      then show ?thesis
        using r Cons.IH [OF r(2)] Cons.prems(2) by auto
    next
      case (Some a)
      then have "a \<noteq> 0" "r = [(n, the (map_of cpu (Some k, n)), a, of_int (the (map_of cpu (Some k, n))) / of_int a)]"
        using r(1) by (auto simp: divide_ints_def Let_def split: if_splits)
      then show ?thesis
        using r Some Cons.IH [OF r(2)] Cons.prems(2) by auto
    qed
  qed simp
  obtain rs where rs: "mapE ?f (bench_sizes cpu k) = Inr rs" "sps = concat rs"
    using assms by (auto simp: bench_speedups_def result_simps)
  show ?thesis
    using joined [OF rs(1) strict] rs(2) by (auto simp: bench_sizes_mem)
qed

theorem bench_speedups_joined_witness:
  "\<exists>sps. bench_speedups [((Some ''vadd'', 64), 842), ((Some ''vadd'', 8), 114)] [((Some ''vadd'', 8), 15), ((Some ''fir'', 8), 9)] ''vadd'' = Inr sps
     \<and> set sps = {(8, 114, 15, 114 / 15)}"
proof -
  have "bench_speedups [((Some ''vadd'', 64), 842), ((Some ''vadd'', 8), 114)] [((Some ''vadd'', 8), 15), ((Some ''fir'', 8), 9)] ''vadd''
      = Inr [(8, 114, 15, 114 / 15)]"
    by code_simp
  from bench_speedups_joined [OF this] this show ?thesis
    by simp
qed

lemma scan_skip:
  assumes "\<forall>l \<in> set pre. first_match delay_at l = None \<and> (slack = None \<longrightarrow> first_match slack_at l = None)"
  shows "scan_report slack (pre @ ls) = scan_report slack ls"
  using assms by (induction pre) (auto split: option.splits)

lemma scan_report_first:
  assumes pre: "\<forall>l \<in> set pre. first_match slack_at l = None \<and> first_match delay_at l = None"
    and slack: "first_match slack_at l1 = Some t" "float_of t = Inr s" "first_match delay_at l1 = None"
    and mid: "\<forall>l \<in> set mid. first_match delay_at l = None"
    and delay: "first_match delay_at l2 = Some (a, b)" "float_of a = Inr logic" "float_of b = Inr route"
  shows "scan_report None (pre @ l1 # mid @ l2 # post) = Inr (Some s, Some (logic, route))"
proof -
  have "scan_report None (pre @ l1 # mid @ l2 # post) = scan_report None (l1 # mid @ l2 # post)"
    by (rule scan_skip) (use pre in blast)
  also have "\<dots> = scan_report (Some s) (mid @ l2 # post)"
    by (simp add: slack)
  also have "\<dots> = scan_report (Some s) (l2 # post)"
    by (rule scan_skip) (use mid in blast)
  finally show ?thesis
    by (simp add: delay)
qed

text \<open>A timing report is read at its worst path. The slack is the one of the first line that has one, the logic and routing
  delays are those of the first data path after it, and nothing that follows matters.\<close>

theorem worst_path_first:
  assumes written: "map_of fs rpt = Some (unlines (pre @ l1 # mid @ l2 # post))"
    and plain: "\<forall>l \<in> set (pre @ l1 # mid @ l2 # post). CHR 0x0A \<notin> set l \<and> CHR 0x0D \<notin> set l"
    and pre: "\<forall>l \<in> set pre. first_match slack_at l = None \<and> first_match delay_at l = None"
    and slack: "first_match slack_at l1 = Some t" "float_of t = Inr s" "first_match delay_at l1 = None"
    and mid: "\<forall>l \<in> set mid. first_match delay_at l = None"
    and delay: "first_match delay_at l2 = Some (a, b)" "float_of a = Inr logic" "float_of b = Inr route"
  shows "worst_path fs rpt = Inr (s, logic, route)"
proof -
  let ?ls = "pre @ l1 # mid @ l2 # post"
  have "CHR 0x0D \<notin> set (unlines ?ls)"
    using plain by (auto simp: unlines_def)
  then have u: "univ_nl (unlines ?ls) = unlines ?ls"
    by (rule univ_nl_id)
  have "file_lines (univ_nl (unlines ?ls)) = ?ls"
    unfolding u by (rule file_lines_unlines) (use plain in blast)
  then show ?thesis
    using written scan_report_first [OF pre slack mid delay, of post] by (simp add: worst_path_def read_file_def)
qed

theorem worst_path_first_witness:
  "worst_path [(''r.rpt'', unlines ([''Setup : 2 Failing Endpoints,  Worst Slack  -2.5ns''] @ ''Slack (VIOLATED) :  -2.5ns'' # [''Path Group: clk'']
       @ ''Data Path Delay:  12.0ns  (logic 4.5ns (37%)  route 7.5ns (63%))'' # [''Slack (MET) :  1.0ns'']))] ''r.rpt''
     = Inr (- 5 / 2, 9 / 2, 15 / 2)"
proof (rule worst_path_first [where t = "''-2.5''" and a = "''4.5''" and b = "''7.5''"])
  show "\<forall>l \<in> set [''Setup : 2 Failing Endpoints,  Worst Slack  -2.5ns'']. first_match slack_at l = None \<and> first_match delay_at l = None"
    by code_simp
  show "first_match slack_at ''Slack (VIOLATED) :  -2.5ns'' = Some ''-2.5''"
    by code_simp
  show "float_of ''-2.5'' = Inr (- 5 / 2)" "float_of ''4.5'' = Inr (9 / 2)" "float_of ''7.5'' = Inr (15 / 2)"
    by code_simp+
  show "first_match delay_at ''Slack (VIOLATED) :  -2.5ns'' = None" "\<forall>l \<in> set [''Path Group: clk'']. first_match delay_at l = None"
    by code_simp+
  show "first_match delay_at ''Data Path Delay:  12.0ns  (logic 4.5ns (37%)  route 7.5ns (63%))'' = Some (''4.5'', ''7.5'')"
    by code_simp
qed (simp, code_simp)

end
