(* ===== verification/Kernels.thy ===== *)
theory Kernels
  imports Sweep Image
begin

text \<open>
  The path of a kernel from the assembler to its users: \<^verbatim>\<open>kernels/apps/build.py\<close> and
  \<^verbatim>\<open>kernels/sync/build.py\<close> write the words of the binary as text, \<^verbatim>\<open>sw/ps_host/gen_kernels.py\<close> reads the text
  back into C arrays, and \<^verbatim>\<open>gen_apps.py\<close> counts its words. The assembler and the object copier are the tools of
  \<open>Xsim\<close>; a binary file is the string of its bytes.
\<close>

section \<open>Words of a binary\<close>

text \<open>\<^verbatim>\<open>struct.unpack('<I', b)[0]\<close>; the error stands for \<^verbatim>\<open>struct.error\<close>.\<close>

definition unpack_le :: "string \<Rightarrow> nat result" where
  "unpack_le b =
     (if length b = 4
      then Inr (of_char (b ! 0) + 256 * (of_char (b ! 1) + 256 * (of_char (b ! 2) + 256 * of_char (b ! 3))))
      else Inl ValueError)"

text \<open>\<^verbatim>\<open>data[i:i + n] for i in range(0, len(data), n)\<close>.\<close>

function chunks :: "nat \<Rightarrow> 'a list \<Rightarrow> 'a list list" where
  "chunks n xs = (if n = 0 \<or> xs = [] then [] else take n xs # chunks n (drop n xs))"
  by pat_completeness auto
termination by (relation "measure (length \<circ> snd)") auto

declare chunks.simps [simp del]

definition words_le :: "string \<Rightarrow> nat list result" where
  "words_le data = mapE unpack_le (chunks 4 data)"

definition hex_lines :: "nat list \<Rightarrow> string" where
  "hex_lines ws = unlines (map hex8 ws)"

definition remove_file :: "string \<Rightarrow> fs \<Rightarrow> fs result" where
  "remove_file p fs = (if is_file fs p then Inr (AList.delete p fs) else Inl FileNotFoundError)"

section \<open>kernels/apps/build.py\<close>

record build_env =
  k_python :: string
  k_gcc :: string
  k_objcopy :: string
  k_here :: string

definition APP_KERNELS :: "string list" where
  "APP_KERNELS = [''gemm'', ''spmv'', ''stencil'', ''kmeans'', ''bfs'', ''scan'', ''scan_add'', ''mlp'', ''gemm_rb'',
     ''scan_seg'', ''scan_segadd'', ''stencil_rb'', ''kmeans_u'', ''zbtest'', ''spmv_z'']"

text \<open>What \<^verbatim>\<open>build\<close> does once the tools have run: read the binary, write the words, remove both files.\<close>

definition finish_build :: "string \<Rightarrow> string \<Rightarrow> xstate \<Rightarrow> (string \<times> xstate) result" where
  "finish_build name out st =
     (let elf = pjoin out (name @ ''.elf''); binf = pjoin out (name @ ''.bin'')
      in bindE (read_file (xs_fs st) binf) (\<lambda>data.
         bindE (words_le data) (\<lambda>words.
         bindE (remove_file binf (write_file (pjoin out (name @ ''.hex'')) (hex_lines words) (xs_fs st))) (\<lambda>fs.
         bindE (remove_file elf fs) (\<lambda>fs.
         Inr (name @ '': '' @ str_nat (length words) @ '' words'', st\<lparr>xs_fs := fs\<rparr>))))))"

definition app_build :: "tools \<Rightarrow> build_env \<Rightarrow> string \<Rightarrow> nat \<Rightarrow> string \<Rightarrow> xstate \<Rightarrow> (string \<times> xstate) result" where
  "app_build ex env name lanes out st =
     (let src = pjoin (k_here env) (name @ ''.S''); elf = pjoin out (name @ ''.elf''); binf = pjoin out (name @ ''.bin'')
      in bindE (run_checked ex [k_gcc env, ''-march=rv32imaf_zba_zbb_zicond'', ''-mabi=ilp32'', ''-nostdlib'', ''-nostartfiles'',
             ''-DLANES='' @ str_nat lanes, ''-Wl,-Ttext=0'', ''-I'', pjoin (pjoin (k_here env) ''..'') ''sync'', ''-o'', elf, src] st) (\<lambda>st.
         bindE (run_checked ex [k_objcopy env, ''-O'', ''binary'', elf, binf] st) (finish_build name out)))"

definition app_build_main :: "tools \<Rightarrow> build_env \<Rightarrow> nat \<Rightarrow> string \<Rightarrow> string list \<Rightarrow> xstate \<Rightarrow> (string list \<times> xstate) result" where
  "app_build_main ex env lanes out names st =
     foldE (\<lambda>k (lines, st). bindE (app_build ex env k lanes out st) (\<lambda>(l, st). Inr (lines @ [l], st)))
       (if names \<noteq> [] then names else APP_KERNELS) ([], st)"

section \<open>kernels/sync/build.py\<close>

definition SYNC_KERNELS :: "string list" where
  "SYNC_KERNELS = [''shfl_test'', ''reduce_shfl'', ''reduce_all'', ''reduce_block'', ''histogram'', ''hist_shared'',
     ''scan_warp'', ''amo_test'', ''amo_contend'', ''../reduce/reduce'']"

text \<open>\<^verbatim>\<open>os.path.basename\<close>.\<close>

definition basename :: "string \<Rightarrow> string" where
  "basename p = last (split_on (CHR ''/'') p)"

definition svh_line :: "nat \<times> nat \<Rightarrow> string" where
  "svh_line = (\<lambda>(k, w). ''        mem[at+'' @ str_nat k @ ''] = '' @ (''32'' @ [CHR 0x27] @ ''h'') @ hex8 w @ '';'')"

definition svh_lines :: "nat list \<Rightarrow> string" where
  "svh_lines ws = unlines (map svh_line (enumerate 0 ws))"

definition sync_build :: "tools \<Rightarrow> build_env \<Rightarrow> string \<Rightarrow> xstate \<Rightarrow> (string \<times> xstate) result" where
  "sync_build ex env name0 st =
     (let here = k_here env; src = pjoin here (name0 @ ''.S''); name = basename name0;
          elf = pjoin here (name @ ''.elf''); binf = pjoin here (name @ ''.bin'')
      in bindE (run_checked ex [k_gcc env, ''-march=rv32ima'', ''-mabi=ilp32'', ''-nostdlib'', ''-nostartfiles'', ''-Wl,-Ttext=0'',
             ''-I'', here, ''-o'', elf, src] st) (\<lambda>st.
         bindE (run_checked ex [k_objcopy env, ''-O'', ''binary'', elf, binf] st) (\<lambda>st.
         bindE (read_file (xs_fs st) binf) (\<lambda>data.
         bindE (words_le data) (\<lambda>words.
         bindE (remove_file binf (write_file (pjoin here (name @ ''.svh'')) (svh_lines words)
                  (write_file (pjoin here (name @ ''.hex'')) (hex_lines words) (xs_fs st)))) (\<lambda>fs.
         Inr (name @ '': '' @ str_nat (length words) @ '' words'', st\<lparr>xs_fs := fs\<rparr>)))))))"

definition sync_build_main :: "tools \<Rightarrow> build_env \<Rightarrow> string list \<Rightarrow> xstate \<Rightarrow> (string list \<times> xstate) result" where
  "sync_build_main ex env names st =
     foldE (\<lambda>k (lines, st). bindE (sync_build ex env k st) (\<lambda>(l, st). Inr (lines @ [l], st)))
       (if names \<noteq> [] then names else SYNC_KERNELS) ([], st)"

section \<open>sw/ps\_host/gen\_kernels.py\<close>

definition HOST_SYNC :: "string list" where "HOST_SYNC = [''reduce_shfl'', ''histogram'', ''reduce_all'', ''hist_shared'']"

definition HOST_APPS :: "string list" where
  "HOST_APPS = [''gemm'', ''spmv'', ''stencil'', ''kmeans'', ''bfs'', ''scan'', ''scan_add'', ''mlp'',
     ''gemm_rb'', ''scan_seg'', ''scan_segadd'', ''stencil_rb'', ''kmeans_u'', ''spmv_z'']"

text \<open>\<^verbatim>\<open>re.findall(tag + '([0-9a-fA-F]{8})', s)\<close>: a match consumes its text.\<close>

definition hex_digit :: "char \<Rightarrow> bool" where
  "hex_digit c \<longleftrightarrow> c \<in> set ''0123456789abcdefABCDEF''"

definition match_hex :: "string \<Rightarrow> string \<Rightarrow> bool" where
  "match_hex tag s \<longleftrightarrow>
     starts_with tag s \<and> (let d = take 8 (drop (length tag) s) in length d = 8 \<and> list_all hex_digit d)"

function find_hex :: "string \<Rightarrow> string \<Rightarrow> string list" where
  "find_hex tag s =
     (if s = [] then []
      else if match_hex tag s then take 8 (drop (length tag) s) # find_hex tag (drop (length tag + 8) s)
      else find_hex tag (tl s))"
  by pat_completeness auto
termination by (relation "measure (length \<circ> snd)") auto

declare find_hex.simps [simp del]

definition words_of :: "fs \<Rightarrow> string \<Rightarrow> string \<Rightarrow> string list result" where
  "words_of fs kdir name =
     (if name \<in> set HOST_SYNC
      then bindE (read_file fs (pjoin (pjoin kdir ''sync'') (name @ ''.svh''))) (\<lambda>s. Inr (find_hex (''32'' @ [CHR 0x27] @ ''h'') s))
      else bindE (read_file fs (pjoin (pjoin kdir ''apps'') (name @ ''.hex''))) (\<lambda>s. Inr (split_ws s)))"

text \<open>The C array of a kernel, and the header.\<close>

definition array_text :: "string \<Rightarrow> string list \<Rightarrow> string" where
  "array_text k ws =
     unlines ([''static const uint32_t k_'' @ k @ ''['' @ str_nat (length ws) @ ''] = {'']
       @ map (\<lambda>row. ''    '' @ join '', '' (map (\<lambda>w. ''0x'' @ w) row) @ '','') (chunks 6 ws) @ [''};'', []])"

definition gen_kernels :: "fs \<Rightarrow> string \<Rightarrow> string \<Rightarrow> (string list \<times> fs) result" where
  "gen_kernels fs kdir out =
     bindE (mapE (\<lambda>k. bindE (words_of fs kdir k) (\<lambda>ws. Inr (array_text k ws))) (HOST_SYNC @ HOST_APPS)) (\<lambda>arrays.
     Inr ([''wrote kernels.h: '' @ join '', '' (HOST_SYNC @ HOST_APPS)],
          write_file out
            (unlines [''/* Generated by gen_kernels.py from the kernels/sync .svh and kernels/apps .hex files -- do not edit. */'',
                ''#ifndef KERNELS_H'', ''#define KERNELS_H'', ''#include <stdint.h>'', []]
             @ concat arrays @ unlines [''#endif'']) fs))"

section \<open>Eight hexadecimal digits\<close>

lemma digits_length: "n < 16 ^ Suc k \<Longrightarrow> length (digits 16 n) \<le> Suc k"
proof (induction k arbitrary: n)
  case (Suc k)
  show ?case
  proof (cases "n < 16")
    case False
    have "n div 16 < 16 ^ Suc k" using Suc.prems by (simp add: div_less_iff_less_mult)
    from Suc.IH [OF this] False show ?thesis by (simp add: digits.simps [of 16 n])
  qed (simp add: digits.simps [of 16 n])
next
  case 0
  then show ?case by (subst digits.simps) simp
qed

lemma hex8_length: "w < 2 ^ 32 \<Longrightarrow> length (hex8 w) = 8"
  using digits_length [of w 7] by (simp add: hex8_def zfill_def hex_def)

lemma hex8_digits: "c \<in> set (hex8 w) \<Longrightarrow> \<exists>d < 16. c = digit_char d"
proof -
  have "CHR ''0'' = digit_char 0" by (simp add: digit_char_def)
  then show "c \<in> set (hex8 w) \<Longrightarrow> \<exists>d < 16. c = digit_char d"
    using digits_in_alphabet [of 16 c w] by (force simp: hex8_def zfill_def hex_def)
qed

lemma digit_facts: "d < 16 \<Longrightarrow> hex_digit (digit_char d) \<and> \<not> is_space (digit_char d) \<and> digit_char d \<noteq> CHR 0x27 \<and> digit_char d \<noteq> CHR ''x''"
proof -
  have "\<forall>d \<in> set [0..<16]. hex_digit (digit_char d) \<and> \<not> is_space (digit_char d) \<and> digit_char d \<noteq> CHR 0x27 \<and> digit_char d \<noteq> CHR ''x''"
    by code_simp
  then show "d < 16 \<Longrightarrow> hex_digit (digit_char d) \<and> \<not> is_space (digit_char d) \<and> digit_char d \<noteq> CHR 0x27 \<and> digit_char d \<noteq> CHR ''x''"
    by simp
qed

lemma hex8_facts: "c \<in> set (hex8 w) \<Longrightarrow> hex_digit c \<and> \<not> is_space c \<and> c \<noteq> CHR 0x27 \<and> c \<noteq> CHR ''x''"
  using hex8_digits [of c w] digit_facts by auto

lemma unpack_le_bound: "unpack_le b = Inr w \<Longrightarrow> w < 2 ^ 32"
proof -
  have c: "(of_char c :: nat) < 256" for c by simp
  have step: "a + 256 * b < 256 * n" if "a < 256" "b < n" for a b n :: nat
  proof -
    have "256 * b + 256 \<le> 256 * n" using that(2) by (metis Suc_leI mult_Suc_right add.commute mult_le_mono2)
    then show ?thesis using that(1) by linarith
  qed
  assume "unpack_le b = Inr w"
  then have "w = of_char (b ! 0) + 256 * (of_char (b ! 1) + 256 * (of_char (b ! 2) + 256 * of_char (b ! 3)))"
    by (simp add: unpack_le_def split: if_splits)
  moreover have "\<dots> < 256 * (256 * (256 * 256))" by (intro step c)
  ultimately show ?thesis by simp
qed

lemma chunks_step: "xs \<noteq> [] \<Longrightarrow> n \<noteq> 0 \<Longrightarrow> chunks n xs = take n xs # chunks n (drop n xs)" and chunks_Nil [simp]: "chunks n [] = []"
  by (subst chunks.simps, simp)+

lemma unpack_le_sum: "unpack_le b = Inr w \<Longrightarrow> length b = 4 \<and> w = (\<Sum>k\<leftarrow>[0..<4]. 256 ^ k * of_char (b ! k))"
  by (auto simp: unpack_le_def upt_conv_Cons numeral_2_eq_2 numeral_3_eq_3 split: if_splits)

lemma words_le_bytes:
  "words_le data = Inr ws \<Longrightarrow> length data = 4 * length ws \<and>
     (\<forall>i < length ws. ws ! i = (\<Sum>k\<leftarrow>[0..<4]. 256 ^ k * of_char (data ! (4 * i + k))))"
proof (induction ws arbitrary: data)
  case Nil
  then have "data = []" using chunks_step [of data 4] by (cases "data = []") (auto simp: words_le_def result_simps)
  then show ?case by simp
next
  case (Cons w ws)
  then have ne: "data \<noteq> []" by (auto simp: words_le_def)
  have d: "unpack_le (take 4 data) = Inr w" "words_le (drop 4 data) = Inr ws"
    using Cons.prems unfolding words_le_def chunks_step [OF ne zero_neq_numeral [symmetric]] by (auto simp: result_simps)
  have l: "4 \<le> length data" using conjunct1 [OF unpack_le_sum [OF d(1)]] by simp
  have w: "w = (\<Sum>k\<leftarrow>[0..<4]. 256 ^ k * of_char (data ! k))" using conjunct2 [OF unpack_le_sum [OF d(1)]] by (simp add: upt_conv_Cons)
  note IH = Cons.IH [OF d(2)]
  have "(w # ws) ! i = (\<Sum>k\<leftarrow>[0..<4]. 256 ^ k * of_char (data ! (4 * i + k)))" if "i < length (w # ws)" for i
  proof (cases i)
    case (Suc j)
    then have "ws ! j = (\<Sum>k\<leftarrow>[0..<4]. 256 ^ k * of_char (drop 4 data ! (4 * j + k)))" using IH that by simp
    moreover have "drop 4 data ! (4 * j + k) = data ! (4 * i + k)" for k using l Suc by (simp add: ac_simps)
    ultimately show ?thesis using Suc by simp
  qed (simp add: w)
  then show ?case using IH l by auto
qed

lemma words_le_bound: "words_le data = Inr ws \<Longrightarrow> w \<in> set ws \<Longrightarrow> w < 2 ^ 32"
  using unpack_le_bound by (auto simp: words_le_def in_set_conv_nth dest: mapE_Inr_nth mapE_Inr_length) (metis mapE_Inr_length mapE_Inr_nth)

section \<open>Reading the images back\<close>

lemma split_words_run:
  "\<forall>c \<in> set w. \<not> is_space c \<Longrightarrow> split_words acc (w @ s) = split_words (rev w @ acc) s"
  by (induction w arbitrary: acc) auto

lemma split_ws_lines:
  assumes "\<forall>w \<in> set ws. w \<noteq> [] \<and> (\<forall>c \<in> set w. \<not> is_space c)"
  shows "split_ws (unlines ws) = ws"
  using assms unfolding split_ws_def
proof (induction ws)
  case (Cons w ws)
  have "is_space (CHR 0x0A)" by (simp add: is_space_def)
  then show ?case using Cons split_words_run [of w "[]" "CHR 0x0A # unlines ws"] by (simp add: unlines_def)
qed (simp add: unlines_def)

text \<open>Text without the mark of the tag holds no match, whatever follows.\<close>

lemma find_hex_skip:
  assumes tag: "tag = t @ m # t'" "m \<notin> set t" and pre: "m \<notin> set pre"
  shows "find_hex tag (pre @ tag @ s) = find_hex tag (tag @ s)"
  using pre
proof (induction pre)
  case (Cons c pre)
  have "\<not> match_hex tag ((c # pre) @ tag @ s)"
  proof
    assume "match_hex tag ((c # pre) @ tag @ s)"
    then obtain u where u: "(c # pre) @ tag @ s = tag @ u" by (auto simp: match_hex_def starts_with_iff)
    have "(c # pre) @ tag @ s = ((c # pre) @ t) @ m # t' @ s" by (simp add: tag(1))
    then have "((c # pre) @ tag @ s) ! length t = ((c # pre) @ t) ! length t"
      by (simp only: nth_append) simp
    moreover have "((c # pre) @ t) ! length t \<in> set ((c # pre) @ t)" by (rule nth_mem) simp
    moreover have "(tag @ u) ! length t = m" by (simp add: tag(1))
    ultimately show False using u Cons.prems tag(2) by (metis Un_iff set_append)
  qed
  then show ?case using Cons by (subst find_hex.simps) simp
qed simp

lemma find_hex_none:
  assumes "tag = t @ m # t'" "m \<notin> set s"
  shows "find_hex tag s = []"
  using assms(2)
proof (induction s)
  case (Cons c s)
  have "\<not> match_hex tag (c # s)"
  proof
    assume "match_hex tag (c # s)"
    then obtain u where "c # s = tag @ u" by (auto simp: match_hex_def starts_with_iff)
    then have "m \<in> set (c # s)" using assms(1) by (metis in_set_conv_decomp append_assoc append_Cons)
    with Cons.prems show False by blast
  qed
  then show ?case using Cons by (subst find_hex.simps) simp
qed (simp add: find_hex.simps)

lemma find_hex_hit:
  assumes "length w = 8" "list_all hex_digit w"
  shows "find_hex tag (tag @ w @ s) = w # find_hex tag s"
proof -
  have "match_hex tag (tag @ w @ s)" using assms by (simp add: match_hex_def starts_with_iff)
  moreover have "tag @ w @ s \<noteq> []" using assms(1) by auto
  ultimately show ?thesis using assms(1) by (subst find_hex.simps) simp
qed

text \<open>A text of marked words, each between unmarked texts.\<close>

lemma find_hex_lines:
  assumes tag: "tag = t @ m # t'" "m \<notin> set t"
    and xs: "\<forall>(pre, w, post) \<in> set xs. m \<notin> set pre \<and> m \<notin> set post \<and> length w = 8 \<and> list_all hex_digit w" and p: "m \<notin> set p"
  shows "find_hex tag (p @ concat (map (\<lambda>(pre, w, post). pre @ tag @ w @ post) xs)) = map (fst \<circ> snd) xs"
  using xs p
proof (induction xs arbitrary: p)
  case Nil
  then show ?case using find_hex_none [OF tag(1)] by simp
next
  case (Cons x xs)
  obtain pre w post where x: "x = (pre, w, post)" by (cases x)
  let ?rest = "post @ concat (map (\<lambda>(pre, w, post). pre @ tag @ w @ post) xs)"
  have "find_hex tag ((p @ pre) @ tag @ w @ ?rest) = find_hex tag (tag @ w @ ?rest)"
    by (rule find_hex_skip [OF tag]) (use Cons.prems x in auto)
  also have "\<dots> = w # find_hex tag ?rest" by (rule find_hex_hit) (use Cons.prems x in auto)
  also have "find_hex tag ?rest = map (fst \<circ> snd) xs" by (rule Cons.IH) (use Cons.prems x in auto)
  finally show ?case by (simp add: x)
qed

lemma find_hex_joined:
  assumes tag: "tag = t @ m # t'" "m \<notin> set t" and sep: "m \<notin> set sep"
    and ws: "\<forall>w \<in> set ws. length w = 8 \<and> list_all hex_digit w" "ws \<noteq> []" and p: "m \<notin> set p"
  shows "find_hex tag (p @ join sep (map (\<lambda>w. tag @ w) ws) @ s) = ws @ find_hex tag s"
  using ws p
proof (induction ws arbitrary: p rule: induct_list012)
  case (2 w)
  then show ?case using find_hex_skip [OF tag, of p "w @ s"] find_hex_hit [of w tag s] by simp
next
  case (3 w v ws)
  let ?rest = "join sep (map (\<lambda>w. tag @ w) (v # ws)) @ s"
  have "find_hex tag (p @ tag @ w @ sep @ ?rest) = w # find_hex tag (sep @ ?rest)"
    using find_hex_skip [OF tag, of p "w @ sep @ ?rest"] find_hex_hit [of w tag "sep @ ?rest"] "3.prems" by simp
  also have "find_hex tag (sep @ ?rest) = (v # ws) @ find_hex tag s" by (rule "3.IH"(2)) (use "3.prems" sep in auto)
  finally show ?case by simp
qed simp

lemma find_hex_rows:
  assumes tag: "tag = t @ m # t'" "m \<notin> set t" and sep: "m \<notin> set sep" "m \<notin> set a" "m \<notin> set b" "m \<notin> set e"
    and rows: "\<forall>ws \<in> set rows. ws \<noteq> [] \<and> (\<forall>w \<in> set ws. length w = 8 \<and> list_all hex_digit w)" and p: "m \<notin> set p"
  shows "find_hex tag (p @ concat (map (\<lambda>ws. a @ join sep (map (\<lambda>w. tag @ w) ws) @ b) rows) @ e) = concat rows"
  using rows p
proof (induction rows arbitrary: p)
  case Nil
  then show ?case using find_hex_none [OF tag(1), of "p @ e"] sep by simp
next
  case (Cons ws rows)
  let ?rest = "concat (map (\<lambda>ws. a @ join sep (map (\<lambda>w. tag @ w) ws) @ b) rows) @ e"
  have "find_hex tag ((p @ a) @ join sep (map (\<lambda>w. tag @ w) ws) @ b @ ?rest) = ws @ find_hex tag (b @ ?rest)"
    by (rule find_hex_joined [OF tag sep(1)]) (use Cons.prems sep in auto)
  also have "find_hex tag (b @ ?rest) = concat rows" by (rule Cons.IH) (use Cons.prems sep in auto)
  finally show ?case by simp
qed

lemma concat_chunks: "0 < n \<Longrightarrow> concat (chunks n xs) = xs"
proof (induction n xs rule: chunks.induct)
  case (1 n xs)
  then show ?case by (cases "xs = []") (simp_all add: chunks.simps [of n xs] chunks.simps [of n "[]"])
qed

lemma chunks_rows: "0 < n \<Longrightarrow> r \<in> set (chunks n xs) \<Longrightarrow> r \<noteq> [] \<and> length r \<le> n"
proof (induction n xs rule: chunks.induct)
  case (1 n xs)
  then show ?case by (cases "xs = []") (auto simp: chunks.simps [of n xs] chunks.simps [of n "[]"])
qed

lemma str_nat_free: "CHR 0x27 \<notin> set (str_nat n)" "CHR ''x'' \<notin> set (str_nat n)"
proof -
  have "c \<noteq> CHR 0x27 \<and> c \<noteq> CHR ''x''" if "c \<in> set (str_nat n)" for c
    using str_nat_digits [OF that] digit_facts by auto
  then show "CHR 0x27 \<notin> set (str_nat n)" "CHR ''x'' \<notin> set (str_nat n)" by blast+
qed

lemma hex8_word: "w < 2 ^ 32 \<Longrightarrow> length (hex8 w) = 8 \<and> list_all hex_digit (hex8 w)"
  using hex8_length hex8_facts by (simp add: list_all_iff)

lemma svh_read: "\<forall>w \<in> set ws. w < 2 ^ 32 \<Longrightarrow> find_hex (''32'' @ [CHR 0x27] @ ''h'') (svh_lines ws) = map hex8 ws"
proof -
  assume ws: "\<forall>w \<in> set ws. w < 2 ^ 32"
  let ?tag = "''32'' @ [CHR 0x27] @ ''h''"
  let ?f = "\<lambda>(k, w). (''        mem[at+'' @ str_nat k @ ''] = '', hex8 w, '';'' @ [CHR 0x0A])"
  have t: "svh_lines ws = [] @ concat (map (\<lambda>(pre, w, post). pre @ ?tag @ w @ post) (map ?f (enumerate 0 ws)))"
    by (simp add: svh_lines_def unlines_def svh_line_def o_def split_beta)
  have "map (hex8 \<circ> snd) (enumerate 0 ws) = map hex8 ws" by (simp only: map_map [symmetric] map_snd_enumerate)
  then have r: "map (fst \<circ> snd) (map ?f (enumerate 0 ws)) = map hex8 ws" by (simp add: o_def split_beta)
  have ok: "\<forall>(pre, w, post) \<in> set (map ?f (enumerate 0 ws)). CHR 0x27 \<notin> set pre \<and> CHR 0x27 \<notin> set post \<and> length w = 8 \<and> list_all hex_digit w"
    using ws hex8_word str_nat_free by (auto simp: in_set_enumerate_eq)
  show ?thesis unfolding t r [symmetric]
    by (rule find_hex_lines [OF _ _ ok, of _ "''32''" "''h''"]) simp_all
qed

lemma hex_read: "split_ws (hex_lines ws) = map hex8 ws"
  unfolding hex_lines_def using hex8_facts hex8_nonempty by (intro split_ws_lines) auto

lemma array_read:
  assumes "CHR ''x'' \<notin> set k" "\<forall>w \<in> set ws. length w = 8 \<and> list_all hex_digit w"
  shows "find_hex ''0x'' (array_text k ws) = ws"
proof -
  let ?p = "''static const uint32_t k_'' @ k @ ''['' @ str_nat (length ws) @ ''] = {'' @ [CHR 0x0A]"
  have t: "array_text k ws = ?p @ concat (map (\<lambda>ws. ''    '' @ join '', '' (map (\<lambda>w. ''0x'' @ w) ws) @ ('','' @ [CHR 0x0A])) (chunks 6 ws))
      @ (''};'' @ [CHR 0x0A, CHR 0x0A])"
    by (simp add: array_text_def unlines_def o_def)
  have rows: "\<forall>r \<in> set (chunks 6 ws). r \<noteq> [] \<and> (\<forall>w \<in> set r. length w = 8 \<and> list_all hex_digit w)"
  proof
    fix r assume r: "r \<in> set (chunks 6 ws)"
    then have "set r \<subseteq> set (concat (chunks 6 ws))" by auto
    then have "set r \<subseteq> set ws" using concat_chunks [of 6 ws] by simp
    then show "r \<noteq> [] \<and> (\<forall>w \<in> set r. length w = 8 \<and> list_all hex_digit w)"
      using chunks_rows [of 6 r ws] r assms(2) by auto
  qed
  have "find_hex ''0x'' (array_text k ws) = concat (chunks 6 ws)"
    unfolding t
    by (rule find_hex_rows [where t = "''0''" and m = "CHR ''x''" and t' = "[]", OF _ _ _ _ _ _ rows])
      (use assms(1) str_nat_free in auto)
  then show ?thesis by (simp add: concat_chunks)
qed

section \<open>Properties\<close>

text \<open>The words of a kernel survive every text they pass through: the \<^verbatim>\<open>.hex\<close> and the \<^verbatim>\<open>.svh\<close> file of a binary give
  \<^verbatim>\<open>gen_kernels.py\<close> the same eight-digit words, they read back as the words of the binary, the C array
  it writes from them holds these words in order, and \<^verbatim>\<open>place_kernels\<close> counts exactly them.\<close>

theorem kernel_words_roundtrip:
  assumes "words_le data = Inr ws" "k \<in> set (HOST_SYNC @ HOST_APPS)"
  shows "split_ws (hex_lines ws) = map hex8 ws \<and> find_hex (''32'' @ [CHR 0x27] @ ''h'') (svh_lines ws) = map hex8 ws \<and>
    map read_hex (map hex8 ws) = map Some ws \<and> find_hex ''0x'' (array_text k (map hex8 ws)) = map hex8 ws \<and>
    kernel_len (\<lambda>_. Some (hex_lines ws)) k = length ws"
proof -
  have b: "\<forall>w \<in> set ws. w < 2 ^ 32" using words_le_bound [OF assms(1)] by blast
  have "list_all (\<lambda>k. CHR ''x'' \<notin> set k) (HOST_SYNC @ HOST_APPS)" by code_simp
  then have "CHR ''x'' \<notin> set k" using assms(2) by (auto simp: list_all_iff)
  then have "find_hex ''0x'' (array_text k (map hex8 ws)) = map hex8 ws"
    by (rule array_read) (use b hex8_word in auto)
  then show ?thesis using svh_read [OF b] hex_read [of ws] by (simp add: kernel_len_def o_def)
qed

lemma kernel_words_roundtrip_witness:
  "find_hex ''0x'' (array_text ''gemm'' (map hex8 [19])) = map hex8 [19]"
proof -
  have "words_le [CHR 0x13, CHR 0x00, CHR 0x00, CHR 0x00] = Inr [19]" by code_simp
  from kernel_words_roundtrip [OF this, of "''gemm''"] show ?thesis by (simp add: HOST_APPS_def)
qed

lemma run_checked_cmds: "run_checked ex cmd st = Inr st' \<Longrightarrow> xs_cmds st' = xs_cmds st @ [cmd]"
  by (auto simp: run_checked_Inr)

lemma pjoin_ext: "name \<noteq> [] \<Longrightarrow> \<exists>q. \<forall>e. pjoin a (name @ e) = q @ e"
  by (cases name) (auto simp: pjoin_def starts_with_def)

lemma finish_build_files:
  assumes "finish_build name out st = Inr (msg, st')" "name \<noteq> []"
  shows "\<exists>data ws. map_of (xs_fs st) (pjoin out (name @ ''.bin'')) = Some data \<and> words_le data = Inr ws \<and>
    map_of (xs_fs st') = (map_of (xs_fs st))(pjoin out (name @ ''.hex'') \<mapsto> hex_lines ws,
      pjoin out (name @ ''.bin'') := None, pjoin out (name @ ''.elf'') := None) \<and>
    xs_cmds st' = xs_cmds st \<and> msg = name @ '': '' @ str_nat (length ws) @ '' words''"
proof -
  have rm: "remove_file p fs = Inr fs' \<Longrightarrow> map_of fs' = (map_of fs)(p := None)" for p fs fs'
    by (auto simp: remove_file_def delete_conv' split: if_splits)
  have wr: "map_of (write_file p s fs) = (map_of fs)(p \<mapsto> s)" for p s fs by auto
  obtain data where d: "map_of (xs_fs st) (pjoin out (name @ ''.bin'')) = Some data"
    using assms(1) by (auto simp: finish_build_def Let_def result_simps read_file_def split: option.splits)
  then obtain ws where ws: "words_le data = Inr ws"
    using assms(1) by (auto simp: finish_build_def Let_def result_simps read_file_def)
  obtain fs1 where f1: "remove_file (pjoin out (name @ ''.bin'')) (write_file (pjoin out (name @ ''.hex'')) (hex_lines ws) (xs_fs st)) = Inr fs1"
    using assms(1) d ws by (auto simp: finish_build_def Let_def result_simps read_file_def)
  obtain fs2 where f2: "remove_file (pjoin out (name @ ''.elf'')) fs1 = Inr fs2"
    using assms(1) d ws f1 by (auto simp: finish_build_def Let_def result_simps read_file_def)
  have "Inr (msg, st') = Inr (name @ '': '' @ str_nat (length ws) @ '' words'', st\<lparr>xs_fs := fs2\<rparr>)"
    using assms(1) d ws f1 f2 by (simp add: finish_build_def Let_def read_file_def)
  then show ?thesis using d ws rm [OF f1] rm [OF f2] by (simp add: wr)
qed

text \<open>C39: A build of an application kernel calls the assembler on its source, for the given number of lanes, and the object copier on
  the ELF file named in that call. It then leaves in the output directory the words of the binary these tools made, as many lines of eight digits,
  and neither the binary nor the ELF file; it changes no other file after the tools have run. Whoever reads the text as
  \<^verbatim>\<open>gen_apps.py\<close> and \<^verbatim>\<open>gen_kernels.py\<close> do finds these words in order: word \<open>i\<close> is the little-endian value of
  the bytes \<open>4 i\<close> to \<open>4 i + 3\<close>.\<close>

theorem app_build_result:
  assumes "app_build ex env name lanes out st = Inr (msg, st')" "name \<noteq> []"
  shows "\<exists>cc oc st1 st2 data ws. run_checked ex cc st = Inr st1 \<and> run_checked ex oc st1 = Inr st2 \<and>
    cc = [k_gcc env, ''-march=rv32imaf_zba_zbb_zicond'', ''-mabi=ilp32'', ''-nostdlib'', ''-nostartfiles'',
      ''-DLANES='' @ str_nat lanes, ''-Wl,-Ttext=0'', ''-I'', pjoin (pjoin (k_here env) ''..'') ''sync'',
      ''-o'', pjoin out (name @ ''.elf''), pjoin (k_here env) (name @ ''.S'')] \<and>
    oc = [k_objcopy env, ''-O'', ''binary'', pjoin out (name @ ''.elf''), pjoin out (name @ ''.bin'')] \<and>
    map_of (xs_fs st2) (pjoin out (name @ ''.bin'')) = Some data \<and> length data = 4 * length ws \<and>
    (\<forall>i < length ws. ws ! i = (\<Sum>b\<leftarrow>[0..<4]. 256 ^ b * of_char (data ! (4 * i + b)))) \<and>
    (\<exists>hex. map_of (xs_fs st') (pjoin out (name @ ''.hex'')) = Some hex \<and> map read_hex (split_ws hex) = map Some ws \<and>
       (\<forall>w \<in> set (split_ws hex). length w = 8)) \<and>
    \<not> is_file (xs_fs st') (pjoin out (name @ ''.bin'')) \<and> \<not> is_file (xs_fs st') (pjoin out (name @ ''.elf'')) \<and>
    (\<forall>p. p \<notin> (\<lambda>e. pjoin out (name @ e)) ` {''.hex'', ''.bin'', ''.elf''} \<longrightarrow> map_of (xs_fs st') p = map_of (xs_fs st2) p) \<and>
    xs_cmds st' = xs_cmds st @ [cc, oc] \<and> msg = name @ '': '' @ str_nat (length ws) @ '' words''"
proof -
  obtain q where q: "\<And>e. pjoin out (name @ e) = q @ e" using pjoin_ext [OF assms(2)] by blast
  obtain cc st1 st2 where c: "run_checked ex cc st = Inr st1" "cc = [k_gcc env, ''-march=rv32imaf_zba_zbb_zicond'', ''-mabi=ilp32'', ''-nostdlib'', ''-nostartfiles'',
      ''-DLANES='' @ str_nat lanes, ''-Wl,-Ttext=0'', ''-I'', pjoin (pjoin (k_here env) ''..'') ''sync'',
      ''-o'', pjoin out (name @ ''.elf''), pjoin (k_here env) (name @ ''.S'')]"
    and o: "run_checked ex [k_objcopy env, ''-O'', ''binary'', pjoin out (name @ ''.elf''), pjoin out (name @ ''.bin'')] st1 = Inr st2"
    and f: "finish_build name out st2 = Inr (msg, st')"
    using assms(1) by (auto simp: app_build_def Let_def result_simps)
  obtain data ws where d: "map_of (xs_fs st2) (q @ ''.bin'') = Some data" and w: "words_le data = Inr ws"
    and f': "map_of (xs_fs st') = (map_of (xs_fs st2))(q @ ''.hex'' \<mapsto> hex_lines ws, q @ ''.bin'' := None, q @ ''.elf'' := None)"
    and m: "xs_cmds st' = xs_cmds st2" "msg = name @ '': '' @ str_nat (length ws) @ '' words''"
    using finish_build_files [OF f assms(2)] unfolding q by blast
  have h: "map_of (xs_fs st') (q @ ''.hex'') = Some (hex_lines ws) \<and> map read_hex (split_ws (hex_lines ws)) = map Some ws \<and>
      (\<forall>w \<in> set (split_ws (hex_lines ws)). length w = 8)"
    using words_le_bound [OF w] hex8_length by (simp add: f' hex_read o_def)
  have n: "\<not> is_file (xs_fs st') (q @ ''.bin'')" "\<not> is_file (xs_fs st') (q @ ''.elf'')"
    "\<forall>p. p \<notin> (\<lambda>e. q @ e) ` {''.hex'', ''.bin'', ''.elf''} \<longrightarrow> map_of (xs_fs st') p = map_of (xs_fs st2) p"
    by (simp_all add: is_file_def f')
  have k: "xs_cmds st' = xs_cmds st @ [cc, [k_objcopy env, ''-O'', ''binary'', q @ ''.elf'', q @ ''.bin'']]"
    using m(1) run_checked_cmds [OF c(1)] run_checked_cmds [OF o] unfolding q by simp
  show ?thesis unfolding q using c o d words_le_bytes [OF w] h n k m(2) unfolding q by blast
qed

definition demo_build :: "(string \<times> xstate) result" where
  "demo_build = app_build (\<lambda>files cmds cmd wd. Some (0, [], [(''/o/gemm.elf'', []), (''/o/gemm.bin'', [CHR 0x13, CHR 0x00, CHR 0x00, CHR 0x00])]))
     \<lparr>k_python = ''py'', k_gcc = ''gcc'', k_objcopy = ''objcopy'', k_here = ''/k''\<rparr> ''gemm'' 8 ''/o'' \<lparr>xs_fs = [], xs_cmds = []\<rparr>"

lemma app_build_result_witness:
  "\<exists>msg st hex. demo_build = Inr (msg, st) \<and> map_of (xs_fs st) (pjoin ''/o'' (''gemm'' @ ''.hex'')) = Some hex \<and>
     (\<forall>w \<in> set (split_ws hex). length w = 8) \<and> \<not> is_file (xs_fs st) (pjoin ''/o'' (''gemm'' @ ''.bin''))"
proof -
  have "case demo_build of Inr (m, st) \<Rightarrow> m \<noteq> [] | Inl e \<Rightarrow> False" by code_simp
  then obtain msg st where r: "demo_build = Inr (msg, st)" by (auto split: sum.splits)
  from app_build_result [OF r [unfolded demo_build_def]] r show ?thesis by blast
qed

text \<open>The kernel lists of the three scripts agree: \<^verbatim>\<open>build.py\<close> builds the kernels \<^verbatim>\<open>gen_apps.py\<close> places, and every
  kernel the host header needs is built by one of the two build scripts.\<close>

theorem kernel_lists_agree:
  "APP_KERNELS = KERNELS \<and> distinct APP_KERNELS \<and> set HOST_APPS \<subseteq> set APP_KERNELS \<and>
   set HOST_SYNC \<subseteq> set (map basename SYNC_KERNELS) \<and> distinct (HOST_SYNC @ HOST_APPS)"
proof (intro conjI)
  show "APP_KERNELS = KERNELS" by (simp add: APP_KERNELS_def KERNELS_def)
qed code_simp+

end
