(* ===== verification/Mnist.thy ===== *)
theory Mnist
  imports Mlp Kernels
begin

unbundle bit_operations_syntax

text \<open>
  The MNIST export \<^verbatim>\<open>ml/mnist_quant.py\<close>: reading the data set, the INT8 quantization, the integer reference
  inference, the packing of weights and images, and the store image of the block RAM. The training
  (numpy's random numbers and float32 matrix products) and the decompression are not modelled: the decompressed
  bytes, the trained weights and the observed activations are arguments. Scales are fractions instead of floats; the
  multiplier of the requantization is its FP32 pattern.
\<close>

section \<open>The data set\<close>

text \<open>\<^verbatim>\<open>struct.unpack('>IIII', f.read(16))\<close> and the reshape of the rest; both raise on a wrong size.\<close>

definition be32 :: "nat list \<Rightarrow> nat" where
  "be32 b = ((b ! 0 * 256 + b ! 1) * 256 + b ! 2) * 256 + b ! 3"

definition load_images :: "nat list \<Rightarrow> nat list list result" where
  "load_images f =
     (if length f < 16 then Inl ValueError
      else let n = be32 (take 4 (drop 8 f)) * be32 (take 4 (drop 12 f)); body = drop 16 f
           in if n = 0 \<or> length body mod n \<noteq> 0 then Inl ValueError else Inr (chunks n body))"

definition load_labels :: "nat list \<Rightarrow> nat list" where
  "load_labels f = drop 8 f"

section \<open>Quantization\<close>

definition absmax :: "rat list \<Rightarrow> rat" where
  "absmax xs = fold max (map abs xs) 0"

definition qscale :: "rat list \<Rightarrow> rat \<Rightarrow> rat result" where
  "qscale xs qmax = (if xs = [] then Inl ValueError else Inr (if absmax xs > 0 then absmax xs / qmax else 1))"

definition qw :: "rat \<Rightarrow> rat \<Rightarrow> int" where
  "qw w s = min (max (py_round (w / s)) (- 127)) 127"

definition qx :: "rat \<Rightarrow> rat \<Rightarrow> int" where
  "qx x s = min (max (py_round (x / s)) (- 128)) 127"

record qnet =
  q_w1 :: "int list list"
  q_w2 :: "int list list"
  q_sx :: rat
  q_m1 :: int

definition quantize :: "rat list list \<Rightarrow> rat list list \<Rightarrow> rat list list \<Rightarrow> rat list list \<Rightarrow> qnet result" where
  "quantize xtr w1 w2 a1s =
     bindE (qscale (concat xtr) 127) (\<lambda>sx.
     bindE (qscale (concat w1) 127) (\<lambda>sw1.
     bindE (qscale (concat w2) 127) (\<lambda>sw2.
     bindE (qscale (concat a1s) 127) (\<lambda>sh.
     bindE (fr2f (sx * sw1 / sh)) (\<lambda>m1.
     Inr \<lparr>q_w1 = map (map (\<lambda>w. qw w sw1)) w1, q_w2 = map (map (\<lambda>w. qw w sw2)) w2, q_sx = sx, q_m1 = m1\<rparr>)))))"

section \<open>Integer inference\<close>

text \<open>Sums of \<^verbatim>\<open>int32\<close> arrays wrap.\<close>

definition i32 :: "int \<Rightarrow> int" where
  "i32 v = (v + 2 ^ 31) mod 2 ^ 32 - 2 ^ 31"

definition vec_mat :: "int list \<Rightarrow> int list list \<Rightarrow> int list result" where
  "vec_mat x W =
     (if W = [] \<or> length x \<noteq> length W then Inl ValueError
      else Inr (map (\<lambda>n. i32 (\<Sum>k\<leftarrow>[0..<length W]. x ! k * W ! k ! n)) [0..<length (W ! 0)]))"

text \<open>The product in FP32, rounded to an integer and clipped; a product beyond the range is infinite and clipped as well. The
  multiplier must be finite.\<close>

definition rq_f32 :: "int \<Rightarrow> int \<Rightarrow> int result" where
  "rq_f32 m1 acc =
     bindE (f2fr m1) (\<lambda>m.
     bindE (fr2f (of_int acc)) (\<lambda>a.
     case fmul a m1 of
       Inl _ \<Rightarrow> Inr (if of_int acc * m > 0 then 127 else 0)
     | Inr p \<Rightarrow> bindE (f2fr p) (\<lambda>v. Inr (min (max (py_round v) 0) 127))))"

definition hidden_int :: "qnet \<Rightarrow> int list \<Rightarrow> int list result" where
  "hidden_int q xq = bindE (vec_mat xq (q_w1 q)) (mapE (rq_f32 (q_m1 q)))"

definition argmax :: "int list \<Rightarrow> nat result" where
  "argmax xs = (if xs = [] then Inl ValueError else let m = fold max (tl xs) (hd xs) in Inr (length (takeWhile (\<lambda>x. x \<noteq> m) xs)))"

definition infer_int :: "qnet \<Rightarrow> int list \<Rightarrow> nat result" where
  "infer_int q xq = bindE (hidden_int q xq) (\<lambda>h. bindE (vec_mat h (q_w2 q)) argmax)"

definition NIMG :: nat where "NIMG = 64"

definition test_images :: "qnet \<Rightarrow> rat list list \<Rightarrow> int list list" where
  "test_images q xte = map (map (\<lambda>x. qx x (q_sx q))) (take NIMG xte)"

definition gold_digits :: "qnet \<Rightarrow> int list list \<Rightarrow> nat list result" where
  "gold_digits q imgs = mapE (infer_int q) imgs"

section \<open>Packing\<close>

text \<open>Every fourth byte from the \<open>i\<close>-th, moved to byte \<open>i\<close>; numpy's \<^verbatim>\<open>|\<close> of two arrays, one of which may have one element.\<close>

definition lane4 :: "int list \<Rightarrow> nat \<Rightarrow> int list" where
  "lane4 a i = map (\<lambda>q. push_bit (8 * i) (a ! (4 * q + i) AND 0xFF)) [0..<ceil_div (length a - i) 4]"

definition np_or :: "int list \<Rightarrow> int list \<Rightarrow> int list result" where
  "np_or a b =
     (if length a = length b then Inr (map2 (OR) a b)
      else if length a = 1 then Inr (map (\<lambda>y. a ! 0 OR y) b)
      else if length b = 1 then Inr (map (\<lambda>x. x OR b ! 0) a)
      else Inl ValueError)"

definition pack_words :: "int list \<Rightarrow> int list result" where
  "pack_words a = bindE (np_or (lane4 a 0) (lane4 a 1)) (\<lambda>b. bindE (np_or b (lane4 a 2)) (\<lambda>b. np_or b (lane4 a 3)))"

definition pack_images :: "int list list \<Rightarrow> int list result" where
  "pack_images imgs = bindE (mapE pack_words imgs) (\<lambda>ws. Inr (concat ws))"

definition word4 :: "(nat \<Rightarrow> int) \<Rightarrow> int" where
  "word4 b = (b 0 AND 0xFF) OR push_bit 8 (b 1 AND 0xFF) OR push_bit 16 (b 2 AND 0xFF) OR push_bit 24 (b 3 AND 0xFF)"

definition pack_weights :: "int list list \<Rightarrow> int list result" where
  "pack_weights W =
     (if W = [] then Inl IndexError
      else let K = length W; N = length (W ! 0); Kp = K div 4
           in if N * K \<noteq> N * Kp * 4 then Inl ValueError
              else Inr (concat (map (\<lambda>kk. map (\<lambda>n. word4 (\<lambda>i. W ! (4 * kk + i) ! n)) [0..<N]) [0..<Kp])))"

definition write_hex :: "string \<Rightarrow> string \<Rightarrow> int list \<Rightarrow> fs \<Rightarrow> fs" where
  "write_hex D name ws = write_file (pjoin D name) (unlines (map (\<lambda>w. hex8 (nat (w AND 0xFFFFFFFF))) ws))"

section \<open>The store\<close>

definition QGEMV_ROM :: "int list" where
  "QGEMV_ROM = [0x10000293,0x0002a303,0x00251393,0x007603b3,0x00271e13,0x00058e93,
     0x00000f13,0x00000f93,0x000ea403,0x0003a483,0x0094090b,0x012f0f33,
     0x004e8e93,0x01c383b3,0x001f8f93,0xfe6fc2e3,0x00251993,0x013689b3,
     0x01e9a023,0x00000073]"

definition RQR_ROM :: "int list" where
  "RQR_ROM = [0x00251293,0x00558333,0x00032383,0x00062087,0x00462107,0xd003f1d3,
     0x1011f1c3,0x42fe0e37,0xf00e0253,0xf00002d3,0x284181d3,0x285191d3,
     0xc0018ed3,0x00a68f33,0x01df0023,0x00000073]"

definition STORE_WORDS :: nat where "STORE_WORDS = push_bit 16 1"

text \<open>\<^verbatim>\<open>store[a:a+n] = vs\<close>: the lengths must agree, or \<open>vs\<close> have one element.\<close>

type_synonym region = "nat \<times> nat \<times> int list"

definition put :: "region \<Rightarrow> int list \<Rightarrow> int list result" where
  "put = (\<lambda>(a, n, vs) st.
     let n' = length (take n (drop a st))
     in if length vs = n' then Inr (take a st @ vs @ drop (a + n) st)
        else if length vs = 1 then Inr (take a st @ replicate n' (vs ! 0) @ drop (a + n) st)
        else Inl ValueError)"

definition store_regions :: "int \<Rightarrow> int list \<Rightarrow> int list \<Rightarrow> int list \<Rightarrow> int list \<Rightarrow> region list" where
  "store_regions m1bits gold p1 p2 px =
     [(0, 20, QGEMV_ROM), (24, 16, RQR_ROM), (40, 1, [m1bits]), (41, 1, [0]), (42, NIMG, gold),
      (1024, 25088, p1), (26624, 320, p2), (27648, 12544, px)]"

definition mnist_store :: "qnet \<Rightarrow> int list list \<Rightarrow> nat list \<Rightarrow> int list result" where
  "mnist_store q imgs gold =
     bindE (pack_weights (q_w1 q)) (\<lambda>p1.
     bindE (pack_weights (q_w2 q)) (\<lambda>p2.
     bindE (pack_images imgs) (\<lambda>px.
     foldE put (store_regions (q_m1 q) (map int gold) p1 p2 px) (replicate STORE_WORDS 0))))"

definition mnist_export :: "string \<Rightarrow> qnet \<Rightarrow> rat list list \<Rightarrow> nat list \<Rightarrow> fs \<Rightarrow> fs result" where
  "mnist_export D q xte yte fs =
     (let imgs = test_images q xte
      in bindE (gold_digits q imgs) (\<lambda>gold.
         bindE (pack_weights (q_w1 q)) (\<lambda>p1. let fs = write_hex D ''w1packed.hex'' p1 fs in
         bindE (pack_weights (q_w2 q)) (\<lambda>p2. let fs = write_hex D ''w2packed.hex'' p2 fs in
         bindE (pack_images imgs) (\<lambda>px. let fs = write_hex D ''images.hex'' px fs;
           fs = write_hex D ''params.hex'' [q_m1 q, 0] fs;
           fs = write_hex D ''gold.hex'' (map int gold) fs;
           fs = write_hex D ''labels.hex'' (map int (take NIMG yte)) fs;
           fs = write_hex D ''weights_rom.hex'' (p1 @ p2) fs
         in bindE (mnist_store q imgs gold) (\<lambda>st. Inr (write_hex D ''mnist_store.hex'' st fs)))))))"

section \<open>Facts\<close>

lemma word4_eq: "word4 b = pack_word (map b [0..<4])"
proof -
  have r: "0 \<le> b i mod 256" "b i mod 256 < 256" for i by simp_all
  have "word4 b = push_bit 24 (b 3 mod 256) OR (push_bit 16 (b 2 mod 256) OR (push_bit 8 (b 1 mod 256) OR b 0 mod 256))"
    unfolding word4_def and_255_mod by (simp add: ac_simps)
  also have "push_bit 8 (b 1 mod 256) OR b 0 mod 256 = b 1 mod 256 * 2 ^ 8 + b 0 mod 256"
    using r [of 0] by (intro or_disjoint_add) simp_all
  also have "push_bit 16 (b 2 mod 256) OR (b 1 mod 256 * 2 ^ 8 + b 0 mod 256) = b 2 mod 256 * 2 ^ 16 + (b 1 mod 256 * 2 ^ 8 + b 0 mod 256)"
    using r [of 0] r [of 1] by (intro or_disjoint_add) simp_all
  also have "push_bit 24 (b 3 mod 256) OR (b 2 mod 256 * 2 ^ 16 + (b 1 mod 256 * 2 ^ 8 + b 0 mod 256))
      = b 3 mod 256 * 2 ^ 24 + (b 2 mod 256 * 2 ^ 16 + (b 1 mod 256 * 2 ^ 8 + b 0 mod 256))"
    using r [of 0] r [of 1] r [of 2] by (intro or_disjoint_add) simp_all
  finally show ?thesis by (simp add: pack_word_Cons upt_conv_Cons numeral_2_eq_2 [symmetric] numeral_3_eq_3 [symmetric])
qed

lemma lane4_length: "i < 4 \<Longrightarrow> length (lane4 a i) = ceil_div (length a - i) 4"
  by (simp add: lane4_def)

lemma ceil_div_less4: "i < 4 \<Longrightarrow> ceil_div (4 * q - i) 4 = q"
proof -
  assume i: "i < 4"
  show ?thesis
  proof (cases q)
    case (Suc p)
    have "- int (4 * q - i) = - int q * 4 + int i" using i Suc by simp
    then have "(- int (4 * q - i)) div 4 = - int q" using i by (simp add: div_pos_pos_trivial)
    then show ?thesis by (simp add: ceil_div_def)
  qed (simp add: ceil_div_def)
qed

lemma pack_words_eq:
  assumes "length a = 4 * q"
  shows "pack_words a = Inr (pack8 a)"
proof -
  let ?l = "\<lambda>i. map (\<lambda>k. push_bit (8 * i) (a ! (4 * k + i) AND 0xFF)) [0..<q]"
  have l: "lane4 a i = ?l i" if "i < 4" for i using that assms by (simp add: lane4_def ceil_div_less4)
  have m: "map2 (OR) (map f [0..<q]) (map g [0..<q]) = map (\<lambda>k. f k OR g k) [0..<q]" for f g :: "nat \<Rightarrow> int"
    by (simp add: zip_map_map zip_same_conv_map o_def)
  have "pack_words a = Inr (map (\<lambda>k. word4 (\<lambda>i. a ! (4 * k + i))) [0..<q])"
    by (simp add: pack_words_def l np_or_def m word4_def ac_simps)
  also have "map (\<lambda>k. word4 (\<lambda>i. a ! (4 * k + i))) [0..<q] = pack8 a"
  proof (rule nth_equalityI)
    show "length (map (\<lambda>k. word4 (\<lambda>i. a ! (4 * k + i))) [0..<q]) = length (pack8 a)" using assms by (simp add: pack8_length)
    fix k assume "k < length (map (\<lambda>k. word4 (\<lambda>i. a ! (4 * k + i))) [0..<q])"
    then have k: "k < q" by simp
    have "map (\<lambda>i. a ! (4 * k + i)) [0..<4] = take 4 (drop (4 * k) a)"
      using k assms by (intro nth_equalityI) simp_all
    then show "map (\<lambda>k. word4 (\<lambda>i. a ! (4 * k + i))) [0..<q] ! k = pack8 a ! k"
      using k assms by (simp add: pack8_nth word4_eq)
  qed
  finally show ?thesis .
qed

lemma pack_weights_eq:
  assumes "length W = 4 * q" "0 < q"
  shows "pack_weights W = Inr (mlp_wp (length (W ! 0)) (4 * q) W)"
proof -
  have "W \<noteq> []" using assms by auto
  have "pack8 (map b [0..<4]) ! 0 = word4 b" for b
    by (simp add: pack8_nth ceil_div_def word4_eq)
  then show ?thesis using assms \<open>W \<noteq> []\<close> by (simp add: pack_weights_def mlp_wp_def Let_def)
qed

text \<open>Regions that follow each other without overlap keep what was put into them.\<close>

definition region_of :: "region \<Rightarrow> int list \<Rightarrow> bool" where
  "region_of = (\<lambda>(a, n, vs) st. \<forall>j < n. st ! (a + j) = vs ! j)"

definition fits :: "nat \<Rightarrow> region \<Rightarrow> bool" where
  "fits m = (\<lambda>(a, n, vs). a + n \<le> m \<and> length vs = n)"

lemma put_fits:
  assumes "fits (length st) r"
  obtains st' where "put r st = Inr st'" "length st' = length st" "region_of r st'"
    "\<forall>j. (j < fst r \<or> fst r + fst (snd r) \<le> j) \<and> j < length st \<longrightarrow> st' ! j = st ! j"
proof (cases r)
  case (fields a n vs)
  with assms have f: "a + n \<le> length st" "length vs = n" by (simp_all add: fits_def)
  show ?thesis
  proof
    show "put r st = Inr (take a st @ vs @ drop (a + n) st)" using f fields by (simp add: put_def)
    show "length (take a st @ vs @ drop (a + n) st) = length st" using f by simp
    show "region_of r (take a st @ vs @ drop (a + n) st)" using f fields by (simp add: region_of_def nth_append)
    show "\<forall>j. (j < fst r \<or> fst r + fst (snd r) \<le> j) \<and> j < length st \<longrightarrow> (take a st @ vs @ drop (a + n) st) ! j = st ! j"
      using f fields by (auto simp: nth_append)
  qed
qed

definition apart :: "region \<Rightarrow> region \<Rightarrow> bool" where
  "apart r r' \<longleftrightarrow> fst r + fst (snd r) \<le> fst r'"

lemma put_regions:
  assumes "\<forall>r \<in> set rs. fits (length st) r" "sorted_wrt apart rs"
  shows "\<exists>st'. foldE put rs st = Inr st' \<and> length st' = length st \<and> (\<forall>r \<in> set rs. region_of r st') \<and>
    (\<forall>j < length st. (\<forall>r \<in> set rs. j < fst r \<or> fst r + fst (snd r) \<le> j) \<longrightarrow> st' ! j = st ! j)"
  using assms
proof (induction rs arbitrary: st)
  case (Cons r rs)
  from Cons.prems(1) have "fits (length st) r" by simp
  then obtain s1 where s1: "put r st = Inr s1" "length s1 = length st" "region_of r s1"
    "\<forall>j. (j < fst r \<or> fst r + fst (snd r) \<le> j) \<and> j < length st \<longrightarrow> s1 ! j = st ! j" by (rule put_fits)
  have f: "\<forall>r \<in> set rs. fits (length s1) r" "sorted_wrt apart rs" and ap: "\<forall>r' \<in> set rs. apart r r'"
    using Cons.prems s1(2) by simp_all
  from Cons.IH [OF f] obtain st' where st': "foldE put rs s1 = Inr st'" "length st' = length s1" "\<forall>r \<in> set rs. region_of r st'"
    and out: "\<And>j. j < length s1 \<Longrightarrow> \<forall>r \<in> set rs. j < fst r \<or> fst r + fst (snd r) \<le> j \<Longrightarrow> st' ! j = s1 ! j" by blast
  have keep: "st' ! j = s1 ! j" if "j < fst r + fst (snd r)" "j < length st" for j
    by (rule out) (use that ap s1(2) in \<open>fastforce simp: apart_def\<close>)+
  have "fst r + fst (snd r) \<le> length st" using Cons.prems(1) by (simp add: fits_def split: prod.splits)
  then have "region_of r st'" using s1(3) keep by (simp add: region_of_def split: prod.splits)
  moreover have "st' ! j = st ! j" if "j < length st" "\<forall>r' \<in> set (r # rs). j < fst r' \<or> fst r' + fst (snd r') \<le> j" for j
  proof -
    have "st' ! j = s1 ! j" using out [of j] that s1(2) by simp
    then show ?thesis using s1(4) that by simp
  qed
  ultimately show ?case using s1(1,2) st' by simp
qed simp

section \<open>Requantization\<close>

lemma py_round_mono: "v \<le> w \<Longrightarrow> py_round v \<le> py_round w"
proof (rule ccontr)
  assume vw: "v \<le> w" and "\<not> py_round v \<le> py_round w"
  then have "py_round w + 1 \<le> py_round v" by simp
  then have l: "(of_int (py_round w) :: rat) + 1 \<le> of_int (py_round v)" by (metis of_int_1 of_int_add of_int_le_iff)
  note n = py_round_near [of v] py_round_near [of w]
  have "v \<le> of_int (py_round w) + 1 / 2" "of_int (py_round v) - 1 / 2 \<le> v" "w \<le> of_int (py_round w) + 1 / 2"
    using n vw unfolding abs_le_iff by linarith+
  then have "v = of_int (py_round w) + 1 / 2" "w = of_int (py_round w) + 1 / 2" using vw l by linarith+
  then have "v = w" by simp
  then show False using \<open>\<not> py_round v \<le> py_round w\<close> by simp
qed

lemma py_round_int [simp]: "py_round (of_int k) = k"
  by (simp add: py_round_def)

lemma py_round_clamp: "py_round (min (max v 0) 127) = min (max (py_round v) 0) 127"
proof -
  have "py_round 0 = 0" "py_round 127 = 127" by (simp_all add: py_round_def)
  then show ?thesis using py_round_mono [of v 0] py_round_mono [of 0 v] py_round_mono [of v 127] py_round_mono [of 127 v]
    by (auto simp: min_def max_def)
qed

lemma fmul_decodes: "fmul a m = Inr p \<Longrightarrow> \<exists>v. f2fr p = Inr v"
  using fr2f_result by (fastforce simp: fmul_def result_simps)

lemma int32_decodes:
  assumes "\<bar>acc\<bar> \<le> 2 ^ 31"
  shows "\<exists>a x. fr2f (of_int acc) = Inr a \<and> f2fr a = Inr x"
proof -
  have "\<bar>of_int acc :: rat\<bar> \<le> of_int (2 ^ 31)" using assms unfolding of_int_abs [symmetric] by (simp only: of_int_le_iff)
  also have "(of_int (2 ^ 31) :: rat) < fp_threshold" by (simp add: fp_threshold_def)
  finally obtain a where a: "fr2f (of_int acc) = Inr a" using fr2f_defined by blast
  then show ?thesis using fr2f_result [OF a] by blast
qed

lemma rq_f32_total:
  assumes "f2fr m1 = Inr m" "\<bar>acc\<bar> \<le> 2 ^ 31"
  obtains v where "rq_f32 m1 acc = Inr v" "0 \<le> v" "v \<le> 127"
proof -
  obtain a x where a: "fr2f (of_int acc) = Inr a" using int32_decodes [OF assms(2)] by blast
  show thesis
  proof (cases "fmul a m1")
    case (Inl e)
    then show ?thesis using that a assms(1) by (simp add: rq_f32_def split: if_splits)
  next
    case (Inr p)
    then obtain v where "f2fr p = Inr v" using fmul_decodes by blast
    then show ?thesis using that [of "min (max (py_round v) 0) 127"] a assms(1) Inr by (simp add: rq_f32_def)
  qed
qed

lemma rq_f32_requant:
  assumes "requant acc m1 0 = Inr v"
  shows "rq_f32 m1 acc = Inr v"
proof -
  from assms obtain a r x where a: "fr2f (of_int acc) = Inr a" "fma a m1 0 = Inr r" "f2fr r = Inr x"
    and v: "v = py_round (min (max x 0) 127)" by (auto simp: requant_def result_simps F127_value)
  then obtain y m where m: "f2fr a = Inr y" "f2fr m1 = Inr m" "fr2f (y * m) = Inr r" by (auto simp: fma_def result_simps)
  then have "fmul a m1 = Inr r" by (simp add: fmul_def)
  then show ?thesis using a m v by (simp add: rq_f32_def py_round_clamp)
qed

section \<open>Inference\<close>

lemma i32_id: "- (2 ^ 31) \<le> v \<Longrightarrow> v < 2 ^ 31 \<Longrightarrow> i32 v = v"
  by (simp add: i32_def mod_pos_pos_trivial)

lemma dot_bound:
  fixes x w :: "nat \<Rightarrow> int"
  assumes "\<And>k. k < K \<Longrightarrow> \<bar>x k\<bar> \<le> 128 \<and> \<bar>w k\<bar> \<le> 127"
  shows "\<bar>\<Sum>k<K. x k * w k\<bar> \<le> 16256 * int K"
proof -
  have "\<bar>x k * w k\<bar> \<le> 16256" if "k < K" for k
    using mult_mono [of "\<bar>x k\<bar>" 128 "\<bar>w k\<bar>" 127] assms [OF that] by (simp add: abs_mult)
  then have "(\<Sum>k<K. \<bar>x k * w k\<bar>) \<le> of_nat (card {..<K}) * 16256" by (intro sum_bounded_above) simp
  then have "(\<Sum>k<K. \<bar>x k * w k\<bar>) \<le> 16256 * int K" by simp
  then show ?thesis using sum_abs [of "\<lambda>k. x k * w k" "{..<K}"] by linarith
qed

definition small_row :: "nat \<Rightarrow> int list \<Rightarrow> bool" where
  "small_row K x \<longleftrightarrow> length x = K \<and> (\<forall>v \<in> set x. small8 v)"

lemma vec_mat_exact:
  assumes "small_row K x" "grid_ok K N (- 127) 127 W" "0 < K" "K \<le> 100000"
  shows "vec_mat x W = Inr (map (\<lambda>n. \<Sum>k<K. x ! k * W ! k ! n) [0..<N])"
    and "n < N \<Longrightarrow> \<bar>\<Sum>k<K. x ! k * W ! k ! n\<bar> \<le> 16256 * int K"
proof -
  have W: "W \<noteq> []" "length W = K" "length (W ! 0) = N" using assms(2,3) grid_okD [OF assms(2), of 0] by (auto simp: grid_ok_def)
  have b: "\<bar>\<Sum>k<K. x ! k * W ! k ! n\<bar> \<le> 16256 * int K" if "n < N" for n
  proof (rule dot_bound)
    fix k assume k: "k < K"
    have "small8 (x ! k)" using assms(1) k by (simp add: small_row_def)
    moreover have "\<bar>W ! k ! n\<bar> \<le> 127" using grid_okD [OF assms(2) k] that by (simp add: abs_le_iff) (meson minus_le_iff)
    ultimately show "\<bar>x ! k\<bar> \<le> 128 \<and> \<bar>W ! k ! n\<bar> \<le> 127" by (simp add: small8_def abs_le_iff)
  qed
  then show "n < N \<Longrightarrow> \<bar>\<Sum>k<K. x ! k * W ! k ! n\<bar> \<le> 16256 * int K" .
  have lt: "\<bar>\<Sum>k<K. x ! k * W ! k ! n\<bar> < 2 ^ 31" if "n < N" for n using b [OF that] assms(4) by simp
  have "i32 (\<Sum>k<K. x ! k * W ! k ! n) = (\<Sum>k<K. x ! k * W ! k ! n)" if "n < N" for n
    using lt [OF that] by (intro i32_id) (simp_all add: abs_less_iff)
  then show "vec_mat x W = Inr (map (\<lambda>n. \<Sum>k<K. x ! k * W ! k ! n) [0..<N])"
    using W assms(1) by (simp add: vec_mat_def sum_list_upt small_row_def)
qed

lemma takeWhile_less: "m \<in> set xs \<Longrightarrow> length (takeWhile (\<lambda>x. x \<noteq> m) xs) < length xs"
  by (induction xs) auto

lemma argmax_less:
  assumes "xs \<noteq> []"
  obtains d where "argmax xs = Inr d" "d < length xs"
proof -
  have mx: "fold max ys y \<in> set (y # ys)" for y :: int and ys by (induction ys arbitrary: y) (auto simp: max_def)
  have "fold max (tl xs) (hd xs) \<in> set xs" using mx [of "tl xs" "hd xs"] assms by (cases xs) simp_all
  from takeWhile_less [OF this] show thesis by (rule that [rotated]) (use assms in \<open>simp add: argmax_def Let_def\<close>)
qed

definition net_ok :: "qnet \<Rightarrow> bool" where
  "net_ok q \<longleftrightarrow> grid_ok 784 128 (- 127) 127 (q_w1 q) \<and> grid_ok 128 10 (- 127) 127 (q_w2 q) \<and>
     (\<exists>m. f2fr (q_m1 q) = Inr m \<and> \<bar>m\<bar> \<le> 2 ^ 96) \<and> 0 \<le> q_m1 q \<and> q_m1 q < 2 ^ 32"

lemma hidden_int_total:
  assumes "net_ok q" "small_row 784 x"
  obtains h where "hidden_int q x = Inr h" "small_row 128 h" "\<forall>v \<in> set h. 0 \<le> v"
proof -
  have W: "grid_ok 784 128 (- 127) 127 (q_w1 q)" using assms(1) by (simp add: net_ok_def)
  note vm = vec_mat_exact [OF assms(2) W]
  obtain m where m: "f2fr (q_m1 q) = Inr m" using assms(1) by (auto simp: net_ok_def)
  let ?accs = "map (\<lambda>n. \<Sum>k<784. x ! k * q_w1 q ! k ! n) [0..<128]"
  have small: "\<bar>a\<bar> \<le> 2 ^ 31" if "a \<in> set ?accs" for a
  proof -
    from that obtain n where "n < 128" "a = (\<Sum>k<784. x ! k * q_w1 q ! k ! n)" by auto
    then show ?thesis using vm(2) [of n] by simp
  qed
  have one: "\<exists>v. rq_f32 (q_m1 q) a = Inr v \<and> 0 \<le> v \<and> v \<le> 127" if "a \<in> set ?accs" for a
    using rq_f32_total [OF m small [OF that]] by blast
  then have "\<exists>h. mapE (rq_f32 (q_m1 q)) ?accs = Inr h" by (intro mapE_exists) blast
  then obtain h where h: "mapE (rq_f32 (q_m1 q)) ?accs = Inr h" by blast
  have len: "length h = 128" using mapE_Inr_length [OF h] by simp
  have r: "0 \<le> h ! i \<and> h ! i \<le> 127" if "i < 128" for i
  proof -
    have i: "i < length ?accs" using that by simp
    obtain v where v: "rq_f32 (q_m1 q) (?accs ! i) = Inr v" "0 \<le> v \<and> v \<le> 127" using one [OF nth_mem [OF i]] by blast
    then show ?thesis using mapE_Inr_nth [OF h i] by simp
  qed
  have all: "\<forall>v \<in> set h. 0 \<le> v \<and> v \<le> 127" using len r by (simp add: all_set_conv_all_nth)
  show thesis
  proof (rule that)
    show "hidden_int q x = Inr h" using h vm(1) by (simp add: hidden_int_def)
    show "small_row 128 h" using all len by (auto simp: small_row_def small8_def)
    show "\<forall>v \<in> set h. 0 \<le> v" using all by blast
  qed
qed

lemma infer_int_total:
  assumes "net_ok q" "small_row 784 x"
  obtains d where "infer_int q x = Inr d" "d < 10"
proof -
  from hidden_int_total [OF assms] obtain h where h: "hidden_int q x = Inr h" "small_row 128 h" by blast
  have W: "grid_ok 128 10 (- 127) 127 (q_w2 q)" using assms(1) by (simp add: net_ok_def)
  have "map (\<lambda>n. \<Sum>k<128. h ! k * q_w2 q ! k ! n) [0..<10] \<noteq> []" by simp
  then obtain d where "argmax (map (\<lambda>n. \<Sum>k<128. h ! k * q_w2 q ! k ! n) [0..<10]) = Inr d" "d < 10"
    by (rule argmax_less) simp
  then show thesis using that vec_mat_exact(1) [OF h(2) W] h(1) by (simp add: infer_int_def)
qed


section \<open>The contents of the store\<close>

lemma pack_images_eq:
  assumes "\<forall>r \<in> set imgs. length r = 4 * q"
  shows "pack_images imgs = Inr (concat (map pack8 imgs))"
proof -
  have "mapE pack_words imgs = Inr (map pack8 imgs)" using assms pack_words_eq by (intro mapE_total) blast
  then show ?thesis by (simp add: pack_images_def)
qed

lemma concat_rows:
  assumes "\<forall>r \<in> set rs. length (f r) = q"
  shows "length (concat (map f rs)) = length rs * q"
    and "i < length rs \<Longrightarrow> k < q \<Longrightarrow> concat (map f rs) ! (q * i + k) = f (rs ! i) ! k"
proof -
  show "length (concat (map f rs)) = length rs * q" using assms by (induction rs) simp_all
  show "i < length rs \<Longrightarrow> k < q \<Longrightarrow> concat (map f rs) ! (q * i + k) = f (rs ! i) ! k"
    using assms
  proof (induction rs arbitrary: i)
    case (Cons r rs)
    then show ?case by (cases i) (simp_all add: nth_append add.assoc)
  qed simp
qed

text \<open>What the host driver and the accelerator compute from the words of the store: the accumulators of both layers are
  sums of packed byte products, and the hidden row is packed between the layers.\<close>

definition store_row :: "int list \<Rightarrow> nat \<Rightarrow> int list" where
  "store_row st i = map (\<lambda>n. \<Sum>kk<196. pdot8 (st ! (27648 + 196 * i + kk)) (st ! (1024 + (kk * 128 + n)))) [0..<128]"

definition store_out :: "int list \<Rightarrow> int list \<Rightarrow> int list" where
  "store_out st h = map (\<lambda>n. \<Sum>kk<32. pdot8 (pack8 h ! kk) (st ! (26624 + (kk * 10 + n)))) [0..<10]"

definition store_infer :: "int list \<Rightarrow> nat \<Rightarrow> nat result" where
  "store_infer st i = bindE (mapE (\<lambda>a. requant a (st ! 40) (st ! 41)) (store_row st i)) (\<lambda>h. argmax (store_out st h))"

definition images_ok :: "int list list \<Rightarrow> bool" where
  "images_ok imgs \<longleftrightarrow> length imgs = 64 \<and> (\<forall>x \<in> set imgs. small_row 784 x)"

lemma mnist_store_regions:
  assumes "net_ok q" "images_ok imgs" "length gold = 64"
  obtains st where "mnist_store q imgs gold = Inr st" "length st = 65536"
    "\<forall>r \<in> set (store_regions (q_m1 q) (map int gold) (mlp_wp 128 784 (q_w1 q)) (mlp_wp 10 128 (q_w2 q)) (concat (map pack8 imgs))).
       region_of r st"
proof -
  let ?rs = "store_regions (q_m1 q) (map int gold) (mlp_wp 128 784 (q_w1 q)) (mlp_wp 10 128 (q_w2 q)) (concat (map pack8 imgs))"
  have W: "length (q_w1 q) = 4 * 196" "length (q_w1 q ! 0) = 128" "length (q_w2 q) = 4 * 32" "length (q_w2 q ! 0) = 10"
    using assms(1) grid_okD [of 784 128 "- 127" 127 "q_w1 q" 0] grid_okD [of 128 10 "- 127" 127 "q_w2 q" 0]
    by (simp_all add: net_ok_def grid_ok_def)
  have im: "\<forall>r \<in> set imgs. length r = 4 * 196" using assms(2) by (simp add: images_ok_def small_row_def)
  have "ceil_div 784 4 = 196" by (simp add: ceil_div_def)
  then have "\<forall>r \<in> set imgs. length (pack8 r) = 196" using im by (simp add: pack8_length)
  from concat_rows(1) [OF this] have px: "length (concat (map pack8 imgs)) = 12544" using assms(2) by (simp add: images_ok_def)
  have p: "length (mlp_wp 128 784 (q_w1 q)) = 25088" "length (mlp_wp 10 128 (q_w2 q)) = 320"
    by (simp_all add: mlp_wp_length)
  have fits: "\<forall>r \<in> set ?rs. fits (length (replicate STORE_WORDS (0 :: int))) r"
    using assms(3) p px by (simp add: store_regions_def fits_def QGEMV_ROM_def RQR_ROM_def STORE_WORDS_def NIMG_def)
  have sep: "sorted_wrt apart ?rs" by (simp add: store_regions_def apart_def NIMG_def)
  obtain st where st: "foldE put ?rs (replicate STORE_WORDS 0) = Inr st" "length st = STORE_WORDS" "\<forall>r \<in> set ?rs. region_of r st"
    using put_regions [OF fits sep] by auto
  have "pack_weights (q_w1 q) = Inr (mlp_wp 128 784 (q_w1 q))" "pack_weights (q_w2 q) = Inr (mlp_wp 10 128 (q_w2 q))"
    using pack_weights_eq [OF W(1)] pack_weights_eq [OF W(3)] W by simp_all
  then have "mnist_store q imgs gold = Inr st" using pack_images_eq [OF im] st(1) by (simp add: mnist_store_def)
  then show thesis using st that by (simp add: STORE_WORDS_def)
qed


lemma requant_defined:
  assumes "f2fr m1 = Inr m" "\<bar>m\<bar> \<le> 2 ^ 96" "\<bar>acc\<bar> \<le> 2 ^ 24"
  obtains v where "requant acc m1 0 = Inr v"
proof -
  obtain a where a: "fr2f (of_int acc) = Inr a" "f2fr a = Inr (of_int acc)" using fr2f_of_int [OF assms(3)] by blast
  have "\<bar>of_int acc :: rat\<bar> \<le> of_int (2 ^ 24)" using assms(3) unfolding of_int_abs [symmetric] by (simp only: of_int_le_iff)
  then have "\<bar>of_int acc * m\<bar> \<le> 2 ^ 24 * 2 ^ 96" using assms(2) by (simp only: abs_mult, intro mult_mono) simp_all
  also have "\<dots> < fp_threshold" by (simp add: fp_threshold_def)
  finally obtain r where r: "fr2f (of_int acc * m) = Inr r" using fr2f_defined by blast
  then obtain x where "f2fr r = Inr x" using fr2f_result by blast
  then show thesis using that a r assms(1) by (simp add: requant_def fma_def F127_value)
qed

lemma mapE_cong: "(\<And>x. x \<in> set xs \<Longrightarrow> f x = g x) \<Longrightarrow> mapE f xs = mapE g xs"
  by (induction xs) auto

lemma store_infer_eq:
  assumes "net_ok q" "images_ok imgs" "length gold = 64" "mnist_store q imgs gold = Inr st" "i < 64"
  shows "store_infer st i = infer_int q (imgs ! i)" "st ! (42 + i) = int (gold ! i)"
proof -
  obtain st' where s: "mnist_store q imgs gold = Inr st'"
    "\<forall>r \<in> set (store_regions (q_m1 q) (map int gold) (mlp_wp 128 784 (q_w1 q)) (mlp_wp 10 128 (q_w2 q)) (concat (map pack8 imgs))).
       region_of r st'" using mnist_store_regions [OF assms(1-3)] by blast
  then have reg: "st ! 40 = q_m1 q" "st ! 41 = 0" "\<And>j. j < 64 \<Longrightarrow> st ! (42 + j) = map int gold ! j"
    "\<And>j. j < 25088 \<Longrightarrow> st ! (1024 + j) = mlp_wp 128 784 (q_w1 q) ! j" "\<And>j. j < 320 \<Longrightarrow> st ! (26624 + j) = mlp_wp 10 128 (q_w2 q) ! j"
    "\<And>j. j < 12544 \<Longrightarrow> st ! (27648 + j) = concat (map pack8 imgs) ! j"
    using assms(4) by (simp_all add: store_regions_def region_of_def NIMG_def)
  show "st ! (42 + i) = int (gold ! i)" using reg(3) [OF assms(5)] assms(3,5) by simp
  have W: "grid_ok 784 128 (- 127) 127 (q_w1 q)" "grid_ok 128 10 (- 127) 127 (q_w2 q)" using assms(1) by (simp_all add: net_ok_def)
  have im: "length imgs = 64" "small_row 784 (imgs ! i)" using assms(2,5) by (simp_all add: images_ok_def)
  have len: "\<forall>r \<in> set imgs. length (pack8 r) = 196" using assms(2) by (simp add: images_ok_def small_row_def pack8_length ceil_div_def)
  have px: "st ! (27648 + 196 * i + kk) = pack8 (imgs ! i) ! kk" if "kk < 196" for kk
    using reg(6) [of "196 * i + kk"] concat_rows(2) [OF len, of i kk] im(1) assms(5) that by (simp add: add.assoc)
  have w1: "st ! (1024 + (kk * 128 + n)) = mlp_wp 128 784 (q_w1 q) ! (kk * 128 + n)" if "kk < 196" "n < 128" for kk n
    using reg(4) [of "kk * 128 + n"] that by simp
  have w2: "st ! (26624 + (kk * 10 + n)) = mlp_wp 10 128 (q_w2 q) ! (kk * 10 + n)" if "kk < 32" "n < 10" for kk n
    using reg(5) [of "kk * 10 + n"] that by simp
  have g: "small8 (W ! j ! n)" if "grid_ok K N (- 127) 127 W" "j < K" "n < N" for K N W j n
    using grid_okD [OF that(1,2)] that(3) by (fastforce simp: small8_def)
  have row: "store_row st i = map (\<lambda>n. \<Sum>k<784. imgs ! i ! k * q_w1 q ! k ! n) [0..<128]"
  proof -
    have "(\<Sum>kk<196. pdot8 (st ! (27648 + 196 * i + kk)) (st ! (1024 + (kk * 128 + n)))) = (\<Sum>k<784. imgs ! i ! k * q_w1 q ! k ! n)"
      if "n < 128" for n
      using packed_dot [of "imgs ! i" 196 "q_w1 q" n 128] im(2) g [OF W(1) _ that] that px w1 by (simp add: small_row_def)
    then show ?thesis by (simp add: store_row_def)
  qed
  have out: "vec_mat h (q_w2 q) = Inr (store_out st h)" if "small_row 128 h" for h
  proof -
    have "(\<Sum>kk<32. pdot8 (pack8 h ! kk) (st ! (26624 + (kk * 10 + n)))) = (\<Sum>k<128. h ! k * q_w2 q ! k ! n)" if "n < 10" for n
      using packed_dot [of h 32 "q_w2 q" n 10] \<open>small_row 128 h\<close> g [OF W(2) _ that] that w2 by (simp add: small_row_def)
    then show ?thesis using vec_mat_exact(1) [OF that W(2)] by (simp add: store_out_def)
  qed
  obtain m where m: "f2fr (q_m1 q) = Inr m" "\<bar>m\<bar> \<le> 2 ^ 96" using assms(1) by (auto simp: net_ok_def)
  have "requant a (st ! 40) (st ! 41) = rq_f32 (q_m1 q) a" if a: "a \<in> set (store_row st i)" for a
  proof -
    obtain n where "n < 128" "a = (\<Sum>k<784. imgs ! i ! k * q_w1 q ! k ! n)" using a unfolding row by auto
    then have "\<bar>a\<bar> \<le> 2 ^ 24" using vec_mat_exact(2) [OF im(2) W(1), of n] by simp
    then obtain v where "requant a (q_m1 q) 0 = Inr v" by (rule requant_defined [OF m])
    then show ?thesis using rq_f32_requant reg(1,2) by simp
  qed
  then have "mapE (\<lambda>a. requant a (st ! 40) (st ! 41)) (store_row st i) = mapE (rq_f32 (q_m1 q)) (store_row st i)" by (rule mapE_cong)
  then have hid: "mapE (\<lambda>a. requant a (st ! 40) (st ! 41)) (store_row st i) = hidden_int q (imgs ! i)"
    using vec_mat_exact(1) [OF im(2) W(1)] row by (simp add: hidden_int_def)
  obtain h where h: "hidden_int q (imgs ! i) = Inr h" "small_row 128 h" using hidden_int_total [OF assms(1) im(2)] by blast
  show "store_infer st i = infer_int q (imgs ! i)" unfolding store_infer_def hid infer_int_def using h out by simp
qed


section \<open>Words of the store\<close>

definition word_ok :: "int \<Rightarrow> bool" where
  "word_ok w \<longleftrightarrow> 0 \<le> w \<and> w < 2 ^ 32"

lemma word_ok_mask: "word_ok w \<Longrightarrow> w AND 0xFFFFFFFF = w"
  using take_bit_int_eq_self [of w 32] take_bit_eq_mask [of 32 w] by (simp add: word_ok_def mask_eq_exp_minus_1)

lemma put_words_ok:
  assumes "put r st = Inr st'" "\<forall>w \<in> set st. word_ok w" "\<forall>w \<in> set (snd (snd r)). word_ok w"
  shows "\<forall>w \<in> set st'. word_ok w"
  using assms
  by (cases r) (auto simp: put_def Let_def Ball_def dest!: in_set_takeD in_set_dropD split: if_splits)

lemma pack_word_ok: "length vs \<le> 4 \<Longrightarrow> word_ok (pack_word vs)"
proof -
  assume "length vs \<le> 4"
  then have "(256::int) ^ length vs \<le> 256 ^ 4" by (intro power_increasing) simp_all
  then show ?thesis using pack_word_range [of vs] by (simp add: word_ok_def)
qed

lemma packed_words_ok: "w \<in> set (pack8 a) \<Longrightarrow> word_ok w" "w \<in> set (mlp_wp n k W) \<Longrightarrow> word_ok w"
proof -
  show "w \<in> set (pack8 a) \<Longrightarrow> word_ok w" by (auto simp: pack8_def pack_word_ok)
  have "pack8 (map b [0..<4]) ! 0 = pack_word (map b [0..<4])" for b by (simp add: pack8_nth ceil_div_def)
  then show "w \<in> set (mlp_wp n k W) \<Longrightarrow> word_ok w" by (auto simp: mlp_wp_def pack_word_ok)
qed

lemma rom_words_ok: "\<forall>w \<in> set QGEMV_ROM. word_ok w" "\<forall>w \<in> set RQR_ROM. word_ok w"
  by (simp_all add: QGEMV_ROM_def RQR_ROM_def word_ok_def)

lemma mnist_store_words:
  assumes "net_ok q" "images_ok imgs" "\<forall>d \<in> set gold. d < 10" "length gold = 64" "mnist_store q imgs gold = Inr st"
  shows "\<forall>w \<in> set st. word_ok w"
proof -
  have W: "length (q_w1 q) = 4 * 196" "length (q_w2 q) = 4 * 32" using assms(1) by (simp_all add: net_ok_def grid_ok_def)
  have im: "\<forall>r \<in> set imgs. length r = 4 * 196" using assms(2) by (simp add: images_ok_def small_row_def)
  let ?rs = "store_regions (q_m1 q) (map int gold) (mlp_wp (length (q_w1 q ! 0)) 784 (q_w1 q)) (mlp_wp (length (q_w2 q ! 0)) 128 (q_w2 q))
    (concat (map pack8 imgs))"
  have f: "foldE put ?rs (replicate STORE_WORDS 0) = Inr st"
    using assms(5) pack_weights_eq [OF W(1)] pack_weights_eq [OF W(2)] pack_images_eq [OF im] by (simp add: mnist_store_def)
  have rs: "\<forall>r \<in> set ?rs. \<forall>w \<in> set (snd (snd r)). word_ok w"
    using packed_words_ok rom_words_ok assms(1,3) by (auto simp: store_regions_def net_ok_def word_ok_def [of "q_m1 q"] word_ok_def [of 0] word_ok_def [of "int _"])
  show ?thesis
  proof (rule foldE_invariant [OF f])
    show "\<forall>w \<in> set (replicate STORE_WORDS 0). word_ok w" by (simp add: word_ok_def)
    show "\<forall>w \<in> set s'. word_ok w" if "r \<in> set ?rs" "\<forall>w \<in> set s. word_ok w" "put r s = Inr s'" for r s s'
      using put_words_ok [OF that(3,2)] rs that(1) by blast
  qed
qed

section \<open>Quantization\<close>

lemma absmax_facts: "0 \<le> absmax xs" "x \<in> set xs \<Longrightarrow> \<bar>x\<bar> \<le> absmax xs"
proof -
  show "0 \<le> absmax xs" by (simp add: absmax_def fold_max)
  show "x \<in> set xs \<Longrightarrow> \<bar>x\<bar> \<le> absmax xs" by (auto simp: absmax_def intro!: fold_max)
qed

lemma qscale_pos: "qscale xs 127 = Inr s \<Longrightarrow> 0 < s"
  using absmax_facts(1) [of xs] by (auto simp: qscale_def split: if_splits)

lemma quantize_net:
  assumes "quantize xtr w1 w2 a1s = Inr q" "length w1 = 784" "\<forall>r \<in> set w1. length r = 128" "length w2 = 128" "\<forall>r \<in> set w2. length r = 10"
    and "f2fr (q_m1 q) = Inr m" "m \<le> 2 ^ 96"
  shows "net_ok q"
proof -
  obtain sx sw1 sw2 sh where q: "qscale (concat xtr) 127 = Inr sx" "qscale (concat w1) 127 = Inr sw1" "qscale (concat a1s) 127 = Inr sh"
    "qscale (concat w2) 127 = Inr sw2" "fr2f (sx * sw1 / sh) = Inr (q_m1 q)"
    and w: "q = \<lparr>q_w1 = map (map (\<lambda>w. qw w sw1)) w1, q_w2 = map (map (\<lambda>w. qw w sw2)) w2, q_sx = sx, q_m1 = q_m1 q\<rparr>"
    using assms(1) by (auto simp: quantize_def result_simps)
  have "q_w1 q = map (map (\<lambda>w. qw w sw1)) w1" "q_w2 q = map (map (\<lambda>w. qw w sw2)) w2" by (subst w, simp)+
  have "0 \<le> sx * sw1 / sh" using qscale_pos [OF q(1)] qscale_pos [OF q(2)] qscale_pos [OF q(3)] by simp
  then have m: "0 \<le> m" "0 \<le> q_m1 q" "q_m1 q < 2 ^ 32" using fr2f_result [OF q(5)] assms(6) by auto
  with \<open>q_w1 q = _\<close> \<open>q_w2 q = _\<close> show ?thesis using assms(2-7) by (auto simp: net_ok_def grid_ok_def qw_def)
qed

section \<open>Properties\<close>

text \<open>C12: The exported store is enough to repeat the reference. With trained weights of the network's shape and 64 test images
  the export succeeds; the store file holds, one per line, words from which the accelerator's arithmetic (sums of packed byte
  products, the FP32 requantization of \<^verbatim>\<open>gen_apps.py\<close> with the stored scale and zero point, the first largest output) infers
  for every image what the integer reference infers, and the golden word of the image is that digit.\<close>

theorem mnist_export_store:
  assumes "quantize xtr w1 w2 a1s = Inr q" "length w1 = 784" "\<forall>r \<in> set w1. length r = 128" "length w2 = 128" "\<forall>r \<in> set w2. length r = 10"
    and "f2fr (q_m1 q) = Inr m" "m \<le> 2 ^ 96" "64 \<le> length xte" "\<forall>x \<in> set (take 64 xte). length x = 784"
  shows "\<exists>fs' st. mnist_export D q xte yte fs = Inr fs' \<and> map_of fs' (pjoin D ''mnist_store.hex'') = Some (hex_lines (map nat st)) \<and>
    length st = 65536 \<and> (\<forall>i < 64. \<exists>d < 10. infer_int q (map (\<lambda>x. qx x (q_sx q)) (xte ! i)) = Inr d \<and>
      store_infer st i = Inr d \<and> st ! (42 + i) = int d)"
proof -
  have net: "net_ok q" by (rule quantize_net [OF assms(1-7)])
  define imgs where "imgs = test_images q xte"
  have im: "imgs ! i = map (\<lambda>x. qx x (q_sx q)) (xte ! i)" if "i < 64" for i using that assms(8) by (simp add: imgs_def test_images_def NIMG_def)
  have ok: "images_ok imgs"
    using assms(8,9) by (auto simp: imgs_def images_ok_def test_images_def NIMG_def small_row_def small8_def qx_def)
  have inf: "\<exists>d. infer_int q x = Inr d \<and> d < 10" if "x \<in> set imgs" for x
    using infer_int_total [OF net, of x] ok that by (auto simp: images_ok_def)
  then obtain gold where gold: "mapE (infer_int q) imgs = Inr gold" using mapE_exists [of imgs "infer_int q"] by blast
  have lg: "length gold = 64" using mapE_Inr_length [OF gold] ok by (simp add: images_ok_def)
  have gi: "infer_int q (imgs ! i) = Inr (gold ! i)" "gold ! i < 10" if "i < 64" for i
  proof -
    have i: "i < length imgs" using that ok by (simp add: images_ok_def)
    show "infer_int q (imgs ! i) = Inr (gold ! i)" by (rule mapE_Inr_nth [OF gold i])
    then show "gold ! i < 10" using inf [OF nth_mem [OF i]] by simp
  qed
  then have g10: "\<forall>d \<in> set gold. d < 10" using lg by (auto simp: in_set_conv_nth)
  obtain st where st: "mnist_store q imgs gold = Inr st" "length st = 65536" by (rule mnist_store_regions [OF net ok lg])
  have "map (\<lambda>w. hex8 (nat (w AND 0xFFFFFFFF))) st = map hex8 (map nat st)"
    using mnist_store_words [OF net ok g10 lg st(1)] by (simp add: word_ok_mask)
  then have hexs: "unlines (map (\<lambda>w. hex8 (nat (w AND 0xFFFFFFFF))) st) = hex_lines (map nat st)" by (simp only: hex_lines_def)
  have im4: "\<forall>r \<in> set imgs. length r = 4 * 196" using ok by (simp add: images_ok_def small_row_def)
  have W: "length (q_w1 q) = 4 * 196" "length (q_w2 q) = 4 * 32" using net by (simp_all add: net_ok_def grid_ok_def)
  have "\<exists>fs'. mnist_export D q xte yte fs = Inr fs' \<and> map_of fs' (pjoin D ''mnist_store.hex'') = Some (hex_lines (map nat st))"
    using gold st(1) pack_images_eq [OF im4] pack_weights_eq [OF W(1)] pack_weights_eq [OF W(2)] hexs
    by (simp add: mnist_export_def imgs_def [symmetric] gold_digits_def write_hex_def Let_def)
  moreover have "\<exists>d < 10. infer_int q (map (\<lambda>x. qx x (q_sx q)) (xte ! i)) = Inr d \<and> store_infer st i = Inr d \<and> st ! (42 + i) = int d"
    if "i < 64" for i
    using store_infer_eq [OF net ok lg st(1) that] gi [OF that] im [OF that] by auto
  ultimately show ?thesis using st(2) by blast
qed

lemma mnist_export_store_witness:
  "\<exists>q fs' st. quantize [[1]] (replicate 784 (replicate 128 1)) (replicate 128 (replicate 10 1)) [[1]] = Inr q \<and>
    mnist_export ''d'' q (replicate 64 (replicate 784 1)) [] [] = Inr fs' \<and> length st = 65536 \<and> store_infer st 0 = Inr (nat (st ! 42))"
proof -
  have a: "absmax (replicate n 1) = 1" if pos: "0 < n" for n
  proof -
    have "fold max (replicate k 1) 1 = (1 :: rat)" for k by (induction k) simp_all
    moreover obtain k where "n = Suc k" using gr0_implies_Suc [OF pos] by blast
    ultimately show ?thesis by (simp add: absmax_def)
  qed
  have qs: "qscale (concat (replicate k (replicate n 1))) 127 = Inr (1 / 127)" if "0 < k" "0 < n" for k n
  proof -
    have "concat (replicate k (replicate n (1 :: rat))) = replicate (k * n) 1" by (induction k) (simp_all add: replicate_add)
    then show ?thesis using a [of "k * n"] that by (simp add: qscale_def)
  qed
  have f: "fr2f (1 / 127) = Inr 0x3C010204" "f2fr 0x3C010204 = Inr (4227330 / 536870912)" by code_simp+
  have q1: "qscale (concat [[1]]) 127 = Inr (1 / 127)" by code_simp
  have m: "1 / 127 * (1 / 127) / (1 / 127) = (1 / 127 :: rat)" by simp
  obtain q where q: "quantize [[1]] (replicate 784 (replicate 128 1)) (replicate 128 (replicate 10 1)) [[1]] = Inr q"
    "f2fr (q_m1 q) = Inr (4227330 / 536870912)"
    using f(2) unfolding quantize_def q1 qs [OF zero_less_numeral zero_less_numeral] bindE.simps m f(1) by force
  have "(4227330 / 536870912 :: rat) \<le> 2 ^ 96" by simp
  from mnist_export_store [OF q(1) _ _ _ _ q(2) this, of "replicate 64 (replicate 784 1)" "''d''" "[]" "[]"]
  obtain fs' st where e: "mnist_export ''d'' q (replicate 64 (replicate 784 1)) [] [] = Inr fs'" "length st = 65536"
    "\<forall>i < 64. \<exists>d < 10. store_infer st i = Inr d \<and> st ! (42 + i) = int d" by fastforce
  from e(3) [rule_format, of 0] have "store_infer st 0 = Inr (nat (st ! 42))" by auto
  then show ?thesis using q(1) e(1,2) by blast
qed

text \<open>Quantization loses at most half a step: with the scale taken from the values themselves no value is clipped, and the
  quantized value times the scale is within half the scale of the value.\<close>

theorem qw_half_step:
  assumes "qscale ws 127 = Inr s" "w \<in> set ws"
  shows "\<bar>of_int (qw w s) * s - w\<bar> \<le> s / 2 \<and> qw w s = py_round (w / s)"
proof -
  have s: "0 < s" by (rule qscale_pos [OF assms(1)])
  have "\<bar>w\<bar> \<le> 127 * s"
    using absmax_facts(2) [OF assms(2)] absmax_facts(1) [of ws] assms(1) by (auto simp: qscale_def split: if_splits)
  then have "- 127 \<le> w / s" "w / s \<le> 127" using s by (auto simp: le_divide_eq divide_le_eq abs_le_iff)
  then have r: "qw w s = py_round (w / s)"
    using py_round_mono [of "- 127" "w / s"] py_round_mono [of "w / s" 127] py_round_int [of "- 127"] py_round_int [of 127]
    by (simp add: qw_def)
  have "\<bar>of_int (py_round (w / s)) * s - w\<bar> = \<bar>(of_int (py_round (w / s)) - w / s) * s\<bar>" using s by (simp add: algebra_simps)
  also have "\<dots> \<le> 1 / 2 * s" using py_round_near [of "w / s"] s by (simp add: abs_mult)
  finally show ?thesis using r by simp
qed

lemma qw_half_step_witness: "qw (1 / 3) (1 / 127) = 42 \<and> \<bar>42 * (1 / 127) - 1 / 3 :: rat\<bar> \<le> 1 / 254"
proof
  show q: "qw (1 / 3) (1 / 127) = 42" by code_simp
  have "qscale [1 / 3, - 1] 127 = Inr (1 / 127)" by code_simp
  from qw_half_step [OF this, of "1 / 3"] show "\<bar>42 * (1 / 127) - 1 / 3 :: rat\<bar> \<le> 1 / 254" unfolding q by simp
qed

end
