(* ===== verification/Geom.thy ===== *)
theory Geom
  imports PyFile
begin

text \<open>
  The plane geometry and the text measure of \<^verbatim>\<open>docs/figs/datapath_tikz/dp_engine.py\<close>. Coordinates are
  rational numbers: a float of the script stands for the decimal fraction it was written as, and arithmetic
  is exact. Distances, which \<^verbatim>\<open>math.hypot\<close> returns and the script only compares with constants, are kept
  squared. \<^verbatim>\<open>dist_seg\<close> is shown to be the least distance to the points of the segment and \<^verbatim>\<open>seg_hits_box\<close>
  to find exactly the segments that enter a box.
\<close>

section \<open>Constants\<close>

type_synonym pt = "rat \<times> rat"

definition MIN_PAR :: rat where "MIN_PAR = 8 / 5"
definition CLEAR :: rat where "CLEAR = 3 / 5"
definition HOP_R :: rat where "HOP_R = 17 / 20"

definition EPS :: rat where "EPS = 1 / 10 ^ 6"

section \<open>The text of a label\<close>

text \<open>
  \<^verbatim>\<open>re.sub\<close> with a pattern that matches no empty text: the matcher looks at the start of the text and returns
  the replacement and what follows the match.
\<close>

type_synonym matcher = "string \<Rightarrow> (string \<times> string) option"

function sub_all :: "matcher \<Rightarrow> string \<Rightarrow> string" where
  "sub_all m s =
     (case m s of
        Some (r, rest) \<Rightarrow> if length rest < length s then r @ sub_all m rest else []
      | None \<Rightarrow> (case s of [] \<Rightarrow> [] | c # cs \<Rightarrow> c # sub_all m cs))"
  by pat_completeness auto
termination by (relation "measure (length \<circ> snd)") auto

declare sub_all.simps [simp del]

definition word_char :: "char \<Rightarrow> bool" where
  "word_char c \<longleftrightarrow> c \<in> set ''0123456789_ABCDEFGHIJKLMNOPQRSTUVWXYZabcdefghijklmnopqrstuvwxyz''"

definition letter :: "char \<Rightarrow> bool" where
  "letter c \<longleftrightarrow> word_char c \<and> c \<notin> set ''0123456789_''"

definition after :: "string \<Rightarrow> string \<Rightarrow> string option" where
  "after p s = (if starts_with p s then Some (drop (length p) s) else None)"

text \<open>A group in braces; a command from a list, followed by a word boundary; any command; a length in brackets.\<close>

definition after_group :: "string \<Rightarrow> string option" where
  "after_group s =
     (case s of [] \<Rightarrow> None
      | c # t \<Rightarrow> if c = CHR ''{'' then (case dropWhile (\<lambda>c. c \<noteq> CHR ''}'') t of [] \<Rightarrow> None | _ # u \<Rightarrow> Some u) else None)"

definition after_command :: "string list \<Rightarrow> string \<Rightarrow> string option" where
  "after_command ws s =
     (case s of [] \<Rightarrow> None
      | c # t \<Rightarrow> if c = CHR 0x5C
          then map_option (\<lambda>w. drop (length w) t)
                 (List.find (\<lambda>w. starts_with w t \<and> (case drop (length w) t of [] \<Rightarrow> True | d # _ \<Rightarrow> \<not> word_char d)) ws)
          else None)"

definition font_match :: matcher where
  "font_match s =
     (case after (CHR 0x5C # ''fontsize'') s of None \<Rightarrow> None
      | Some t \<Rightarrow> (case after_group t of None \<Rightarrow> None
          | Some t \<Rightarrow> (case after_group t of None \<Rightarrow> None
              | Some t \<Rightarrow> map_option (Pair []) (after (CHR 0x5C # ''selectfont'') t))))"

definition macro_match :: matcher where
  "macro_match s =
     (case s of [] \<Rightarrow> None
      | c # t \<Rightarrow> if c = CHR 0x5C \<and> takeWhile letter t \<noteq> [] then Some ([], dropWhile letter t) else None)"

definition skip_match :: matcher where
  "skip_match s =
     (case s of [] \<Rightarrow> None
      | c # t \<Rightarrow> (let p = (\<lambda>c. c \<in> set ''-0123456789.'') in
          if c = CHR ''['' \<and> takeWhile p t \<noteq> [] then map_option (Pair []) (after ''pt]'' (dropWhile p t)) else None))"

definition STYLE_WORDS :: "string list" where
  "STYLE_WORDS = [''tiny'', ''scriptsize'', ''footnotesize'', ''small'', ''bfseries'', ''itshape'', ''mathrm'', ''textit'',
     ''textbf'', ''texttt'', ''mathit'', ''overline'']"

definition SYMBOL_WORDS :: "string list" where
  "SYMBOL_WORDS = [''times'', ''ne'', ''neq'', ''ge'', ''le'', ''gets'', ''to'', ''sim'', ''cdot'', ''ll'', ''gg'', ''lnot'',
     ''land'', ''lor'', ''oplus'', ''pm'', ''ell'', ''rightarrow'', ''leftarrow'']"

definition plain :: "string \<Rightarrow> string" where
  "plain s =
     (let s = sub_all font_match s;
          s = sub_all (\<lambda>s. map_option (Pair []) (after_command STYLE_WORDS s)) s;
          s = sub_all (\<lambda>s. map_option (Pair ''x'') (after_command SYMBOL_WORDS s)) s;
          s = sub_all macro_match s;
          s = sub_all skip_match s
      in filter (\<lambda>c. c \<notin> set [CHR ''{'', CHR ''}'', CHR ''$'', CHR ''^'', CHR ''_'', CHR 0x5C]) s)"

text \<open>\<^verbatim>\<open>s.split(sep)\<close> with a separator of several characters.\<close>

function split_str :: "string \<Rightarrow> string \<Rightarrow> string \<Rightarrow> string list" where
  "split_str sep cur s =
     (if s = [] then [rev cur]
      else if sep \<noteq> [] \<and> starts_with sep s then rev cur # split_str sep [] (drop (length sep) s)
      else split_str sep (hd s # cur) (tl s))"
  by pat_completeness auto
termination by (relation "measure (\<lambda>(_, _, s). length s)") auto

declare split_str.simps [simp del]

definition BREAK :: string where "BREAK = [CHR 0x5C, CHR 0x5C]"

definition max_of :: "'a::linorder list \<Rightarrow> 'a" where "max_of xs = fold max (tl xs) (hd xs)"
definition min_of :: "'a::linorder list \<Rightarrow> 'a" where "min_of xs = fold min (tl xs) (hd xs)"

definition text_wh :: "string \<Rightarrow> rat \<Rightarrow> rat \<times> rat" where
  "text_wh text fsize =
     (let lines = split_str BREAK [] text; cw = 20 / 100 * fsize; lh = 42 / 100 * fsize
      in (of_nat (max_of (map (length \<circ> plain) lines)) * cw, of_nat (length lines) * lh))"

section \<open>Points and segments\<close>

definition edges :: "'a list \<Rightarrow> ('a \<times> 'a) list" where
  "edges poly = zip poly (tl poly @ take 1 poly)"

definition pip :: "pt \<Rightarrow> pt list \<Rightarrow> bool" where
  "pip p poly =
     (let (x, y) = p
      in fold (\<lambda>((x1, y1), (x2, y2)) inside.
           if (y1 > y) \<noteq> (y2 > y)
           then (let xi = x1 + (y - y1) * (x2 - x1) / (y2 - y1) in if xi > x then \<not> inside else inside)
           else inside) (edges poly) False)"

text \<open>The square of the distance of a point from a segment.\<close>

definition dist2 :: "pt \<Rightarrow> pt \<Rightarrow> rat" where
  "dist2 p q = (fst p - fst q) ^ 2 + (snd p - snd q) ^ 2"

definition along :: "pt \<Rightarrow> pt \<Rightarrow> rat \<Rightarrow> pt" where
  "along a b t = (fst a + t * (fst b - fst a), snd a + t * (snd b - snd a))"

definition dist_seg :: "pt \<Rightarrow> pt \<Rightarrow> pt \<Rightarrow> rat" where
  "dist_seg p a b =
     (let dx = fst b - fst a; dy = snd b - snd a; L = dx * dx + dy * dy;
          t = (if L = 0 then 0 else max 0 (min 1 (((fst p - fst a) * dx + (snd p - snd a) * dy) / L)))
      in dist2 p (along a b t))"

definition dist_poly_edge :: "pt \<Rightarrow> pt list \<Rightarrow> rat" where
  "dist_poly_edge p poly = min_of (map (\<lambda>(a, b). dist_seg p a b) (edges poly))"

definition rect_poly :: "rat \<Rightarrow> rat \<Rightarrow> rat \<Rightarrow> rat \<Rightarrow> pt list" where
  "rect_poly x y w h = [(x, y), (x + w, y), (x + w, y + h), (x, y + h)]"

type_synonym bbox = "rat \<times> rat \<times> rat \<times> rat"

definition seg_hits_box :: "pt \<Rightarrow> pt \<Rightarrow> bbox \<Rightarrow> bool" where
  "seg_hits_box a b bb =
     (let (x0, y0, x1, y1) = bb
      in if \<bar>snd a - snd b\<bar> < EPS
         then (let y = snd a in y0 < y \<and> y < y1 \<and> min (fst a) (fst b) < x1 \<and> max (fst a) (fst b) > x0)
         else (let x = fst a in x0 < x \<and> x < x1 \<and> min (snd a) (snd b) < y1 \<and> max (snd a) (snd b) > y0))"

section \<open>Numbers in TikZ\<close>

definition rstrip_char :: "char \<Rightarrow> string \<Rightarrow> string" where
  "rstrip_char c s = rev (dropWhile (\<lambda>d. d = c) (rev s))"

definition fmt :: "rat \<Rightarrow> string" where
  "fmt v =
     (let s = rstrip_char (CHR ''.'') (rstrip_char (CHR ''0'') (fixed 2 v))
      in if s = ''-0'' \<or> s = [] then ''0'' else s)"

definition fmt_pt :: "pt \<Rightarrow> string" where
  "fmt_pt p = ''('' @ fmt (fst p) @ '','' @ fmt (snd p) @ '')''"

section \<open>Facts\<close>

lemma max_of_ge: "x \<in> set xs \<Longrightarrow> x \<le> max_of xs"
  by (cases xs) (auto simp: max_of_def fold_max)

lemma min_of_le: "x \<in> set xs \<Longrightarrow> min_of xs \<le> x"
  by (cases xs) (auto simp: min_of_def fold_min)

lemma max_of_in: "xs \<noteq> [] \<Longrightarrow> max_of xs \<in> set xs"
  using fold_max(3) [of "tl xs" "hd xs"] by (cases xs) (simp_all add: max_of_def)

lemma min_of_in: "xs \<noteq> [] \<Longrightarrow> min_of xs \<in> set xs"
  using fold_min(3) [of "tl xs" "hd xs"] by (cases xs) (simp_all add: min_of_def)

text \<open>The squared distance along a segment is a parabola; \<^verbatim>\<open>dist_seg\<close> takes it at the clamped foot point.\<close>

lemma dist2_along:
  defines "dx a b \<equiv> fst b - fst (a :: pt)" and "dy a b \<equiv> snd b - snd (a :: pt)"
  shows "dist2 p (along a b t) = dist2 p a - 2 * t * ((fst p - fst a) * dx a b + (snd p - snd a) * dy a b)
    + t ^ 2 * (dx a b * dx a b + dy a b * dy a b)"
  by (simp add: dist2_def along_def dx_def dy_def power2_eq_square algebra_simps)

lemma clamp_least:
  fixes L D t :: rat
  assumes "0 < L" "0 \<le> t" "t \<le> 1"
  defines "u \<equiv> max 0 (min 1 (D / L))"
  shows "u ^ 2 * L - 2 * u * D \<le> t ^ 2 * L - 2 * t * D"
proof -
  have sq: "t ^ 2 * L - 2 * t * D - (u ^ 2 * L - 2 * u * D) = (t - u) * ((t + u) * L - 2 * D)"
    by (simp add: power2_eq_square algebra_simps)
  consider "D / L \<le> 0" | "0 < D / L" "D / L < 1" | "1 \<le> D / L" by linarith
  then have "0 \<le> (t - u) * ((t + u) * L - 2 * D)"
  proof cases
    case 1
    then have u: "u = 0" "D \<le> 0" using assms(1) by (auto simp: u_def divide_le_0_iff)
    have "0 \<le> t * L" using assms by simp
    then have "0 \<le> t * (t * L - 2 * D)" using u(2) assms(2) by (intro mult_nonneg_nonneg) linarith+
    then show ?thesis by (simp add: u(1))
  next
    case 2
    then have u: "u = D / L" by (simp add: u_def)
    then have D: "D = u * L" using assms(1) by simp
    have "(t - u) * ((t + u) * L - 2 * (u * L)) = (t - u) ^ 2 * L" by (simp add: power2_eq_square algebra_simps)
    then have "(t - u) * ((t + u) * L - 2 * D) = (t - u) ^ 2 * L" unfolding D .
    then show ?thesis using assms(1) by simp
  next
    case 3
    then have u: "u = 1" "L \<le> D" using assms(1) by (auto simp: u_def le_divide_eq)
    have "(t + 1) * L \<le> 2 * L" using assms by (intro mult_right_mono) auto
    then have "(t + u) * L - 2 * D \<le> 0" unfolding u(1) using u(2) by linarith
    moreover have "t - u \<le> 0" unfolding u(1) using assms(3) by simp
    ultimately show ?thesis by (rule mult_nonpos_nonpos [rotated])
  qed
  then show ?thesis using sq by linarith
qed

lemma dist_seg_least:
  assumes "0 \<le> t" "t \<le> 1"
  shows "dist_seg p a b \<le> dist2 p (along a b t)"
proof (cases "(fst b - fst a) * (fst b - fst a) + (snd b - snd a) * (snd b - snd a) = 0")
  case True
  then have "fst b = fst a" "snd b = snd a" by (auto simp: sum_squares_eq_zero_iff)
  then show ?thesis by (simp add: dist_seg_def along_def)
next
  case False
  then have "0 < (fst b - fst a) * (fst b - fst a) + (snd b - snd a) * (snd b - snd a)"
    by (metis sum_squares_ge_zero order_le_less)
  from clamp_least [OF this assms, of "(fst p - fst a) * (fst b - fst a) + (snd p - snd a) * (snd b - snd a)"] False
  show ?thesis by (simp add: dist_seg_def dist2_along Let_def)
qed

lemma dist_seg_attained: "\<exists>t. 0 \<le> t \<and> t \<le> 1 \<and> dist_seg p a b = dist2 p (along a b t)"
  unfolding dist_seg_def Let_def by (intro exI conjI, rule_tac [3] refl) auto

lemma dist_seg_nonneg: "0 \<le> dist_seg p a b"
  by (simp add: dist_seg_def dist2_def Let_def)

text \<open>A segment enters a box when one of its points lies strictly inside.\<close>

lemma span_meets:
  fixes u v :: rat
  assumes "l < h"
  shows "(min u v < h \<and> max u v > l) \<longleftrightarrow> (\<exists>t. 0 \<le> t \<and> t \<le> 1 \<and> l < u + t * (v - u) \<and> u + t * (v - u) < h)"
proof
  assume r: "\<exists>t. 0 \<le> t \<and> t \<le> 1 \<and> l < u + t * (v - u) \<and> u + t * (v - u) < h"
  then obtain t where t: "0 \<le> t" "t \<le> 1" "l < u + t * (v - u)" "u + t * (v - u) < h" by blast
  have "u + t * (v - u) = (1 - t) * u + t * v" by (simp add: algebra_simps)
  moreover have "(1 - t) * min u v + t * min u v \<le> (1 - t) * u + t * v" "(1 - t) * u + t * v \<le> (1 - t) * max u v + t * max u v"
    using t by (intro add_mono mult_left_mono; simp)+
  moreover have "(1 - t) * z + t * z = z" for z :: rat by (simp add: algebra_simps)
  ultimately show "min u v < h \<and> max u v > l" using t by (metis le_less_trans less_le_trans)
next
  assume m: "min u v < h \<and> max u v > l"
  define lo where "lo = max l (min u v)"
  define hi where "hi = min h (max u v)"
  have "\<exists>z. l < z \<and> z < h \<and> min u v \<le> z \<and> z \<le> max u v"
  proof (cases "min u v = max u v")
    case True
    then show ?thesis using m by (intro exI [of _ u]) (auto simp: min_def max_def split: if_splits)
  next
    case False
    then have "lo < hi" using m assms by (auto simp: lo_def hi_def)
    then show ?thesis by (intro exI [of _ "(lo + hi) / 2"]) (auto simp: lo_def hi_def)
  qed
  then obtain z where z: "l < z" "z < h" "min u v \<le> z" "z \<le> max u v" by blast
  show "\<exists>t. 0 \<le> t \<and> t \<le> 1 \<and> l < u + t * (v - u) \<and> u + t * (v - u) < h"
  proof (cases "u = v")
    case True
    then show ?thesis using z by (intro exI [of _ 0]) auto
  next
    case False
    define t where "t = (z - u) / (v - u)"
    have "u + t * (v - u) = z" using False by (simp add: t_def)
    moreover have "0 \<le> t" "t \<le> 1"
      using z(3,4) False by (auto simp: t_def divide_simps min_def max_def split: if_splits)
    ultimately show ?thesis using z by (intro exI [of _ t]) auto
  qed
qed

definition in_box :: "pt \<Rightarrow> bbox \<Rightarrow> bool" where
  "in_box p bb = (let (x0, y0, x1, y1) = bb in x0 < fst p \<and> fst p < x1 \<and> y0 < snd p \<and> snd p < y1)"

lemma seg_hits_box_iff:
  assumes "fst a = fst b \<or> snd a = snd b" "x0 < x1" "y0 < y1"
    and "snd a = snd b \<or> EPS \<le> \<bar>snd a - snd b\<bar>"
  shows "seg_hits_box a b (x0, y0, x1, y1) \<longleftrightarrow> (\<exists>t. 0 \<le> t \<and> t \<le> 1 \<and> in_box (along a b t) (x0, y0, x1, y1))"
proof (cases "snd a = snd b")
  case True
  then show ?thesis using span_meets [OF assms(2), of "fst a" "fst b"]
    by (auto simp: seg_hits_box_def in_box_def along_def EPS_def Let_def)
next
  case False
  then have "fst a = fst b" "\<not> \<bar>snd a - snd b\<bar> < EPS" using assms(1,4) by auto
  then show ?thesis using span_meets [OF assms(3), of "snd a" "snd b"]
    by (auto simp: seg_hits_box_def in_box_def along_def Let_def)
qed

end
