(* ===== verification/Figure.thy ===== *)
theory Figure
  imports Geom
begin

text \<open>
  The shapes and the figure of \<^verbatim>\<open>dp_engine.py\<close>: the class \<^verbatim>\<open>Shape\<close> with its deferred TikZ operations, and the
  primitives of \<^verbatim>\<open>Fig\<close> that add blocks, wires and labels. An operation is a text with numbered tokens for
  points; it is shown that printing it late is the same as printing its points where they are then.
\<close>

section \<open>Shapes\<close>

text \<open>A font size is an integer or a decimal fraction, which print differently.\<close>

datatype pynum = PInt int | PDec rat

definition num_val :: "pynum \<Rightarrow> rat" where
  "num_val v = (case v of PInt n \<Rightarrow> of_int n | PDec r \<Rightarrow> r)"

definition num_str :: "pynum \<Rightarrow> string" where
  "num_str v =
     (case v of PInt n \<Rightarrow> str_int n
      | PDec r \<Rightarrow> (case List.find (\<lambda>k. r * 10 ^ k = of_int \<lfloor>r * 10 ^ k\<rfloor>) [1..<17] of Some k \<Rightarrow> fixed k r | None \<Rightarrow> fixed 16 r))"

record shape =
  s_name :: string
  s_kind :: string
  s_poly :: "pt list"
  s_extra :: "pt list list"
  s_pts :: "pt list"
  s_ops :: "string list"
  s_x0 :: rat
  s_x1 :: rat
  s_y0 :: rat
  s_y1 :: rat
  s_inp :: "pt list"
  s_ports :: "(string \<times> pt) list"

definition new_shape :: "string \<Rightarrow> string \<Rightarrow> shape" where
  "new_shape name kind = \<lparr>s_name = name, s_kind = kind, s_poly = [], s_extra = [], s_pts = [], s_ops = [],
     s_x0 = 0, s_x1 = 0, s_y0 = 0, s_y1 = 0, s_inp = [], s_ports = []\<rparr>"

definition shape_bb :: "shape \<Rightarrow> shape" where
  "shape_bb s =
     (let xs = map fst (s_poly s); ys = map snd (s_poly s)
      in s\<lparr>s_x0 := min_of xs, s_x1 := max_of xs, s_y0 := min_of ys, s_y1 := max_of ys\<rparr>)"

definition set_poly :: "pt list \<Rightarrow> shape \<Rightarrow> shape" where
  "set_poly poly s = shape_bb (s\<lparr>s_poly := poly\<rparr>)"

definition port_L :: "shape \<Rightarrow> rat \<Rightarrow> pt" where "port_L s y = (s_x0 s, y)"
definition port_R :: "shape \<Rightarrow> rat \<Rightarrow> pt" where "port_R s y = (s_x1 s, y)"
definition port_T :: "shape \<Rightarrow> rat \<Rightarrow> pt" where "port_T s x = (x, s_y1 s)"
definition port_B :: "shape \<Rightarrow> rat \<Rightarrow> pt" where "port_B s x = (x, s_y0 s)"

text \<open>A token is a point's number between the marks \<^verbatim>\<open>0xAB\<close> and \<^verbatim>\<open>0xBB\<close>.\<close>

definition tok :: "pt \<Rightarrow> shape \<Rightarrow> string \<times> shape" where
  "tok p s = (CHR 0xAB # str_nat (length (s_pts s)) @ [CHR 0xBB], s\<lparr>s_pts := s_pts s @ [p]\<rparr>)"

text \<open>A formatted string of the script: literal text and points, for which tokens are drawn from left to right.\<close>

datatype piece = Lit string | At pt

fun render :: "piece list \<Rightarrow> shape \<Rightarrow> string \<times> shape" where
  "render [] s = ([], s)"
| "render (Lit t # ps) s = (let (r, s) = render ps s in (t @ r, s))"
| "render (At p # ps) s = (let (t, s) = tok p s; (r, s) = render ps s in (t @ r, s))"

definition add_op :: "piece list \<Rightarrow> shape \<Rightarrow> shape" where
  "add_op ps s = (let (t, s) = render ps s in s\<lparr>s_ops := s_ops s @ [t]\<rparr>)"

definition digit :: "char \<Rightarrow> bool" where "digit c \<longleftrightarrow> c \<in> set ''0123456789''"

text \<open>\<^verbatim>\<open>TOK\<close> at the start of a text: the number and what follows.\<close>

definition tok_match :: "string \<Rightarrow> (nat \<times> string) option" where
  "tok_match s =
     (case s of [] \<Rightarrow> None
      | c # t \<Rightarrow> if c = CHR 0xAB \<and> takeWhile digit t \<noteq> [] \<and> take 1 (dropWhile digit t) = [CHR 0xBB]
          then map_option (\<lambda>n. (n, drop 1 (dropWhile digit t))) (read_digits 10 0 (takeWhile digit t)) else None)"

function sub_toks :: "pt list \<Rightarrow> string \<Rightarrow> string result" where
  "sub_toks pts s =
     (case s of [] \<Rightarrow> Inr []
      | c # t \<Rightarrow>
          (case tok_match (c # t) of
             None \<Rightarrow> bindE (sub_toks pts t) (\<lambda>r. Inr (c # r))
           | Some (k, rest) \<Rightarrow>
               if k < length pts \<and> length rest \<le> length t
               then bindE (sub_toks pts rest) (\<lambda>r. Inr (fmt_pt (pts ! k) @ r)) else Inl IndexError))"
  by pat_completeness auto
termination by (relation "measure (length \<circ> snd)") auto

declare sub_toks.simps [simp del]

definition tikz :: "shape \<Rightarrow> string list result" where
  "tikz s = mapE (sub_toks (s_pts s)) (s_ops s)"

definition FILLS :: "(string \<times> string) list" where
  "FILLS = [(''mem'', ''memfill''), (''alu'', ''alufill''), (''ctl'', ''ctlfill''), (''reg'', ''regfill''),
     (''ext'', ''extfill''), (''mux'', ''muxfill''), (''gate'', ''white'')]"

definition tex :: "string \<Rightarrow> string" where "tex s = CHR 0x5C # s"

definition fsz :: "pynum \<Rightarrow> rat \<Rightarrow> string" where
  "fsz v lead = tex ''fontsize{'' @ num_str v @ ''}{'' @ fixed 1 (num_val v * lead) @ ''}'' @ tex ''selectfont''"

section \<open>The figure\<close>

record wire_line =
  w_pts :: "pt list"
  w_arrow :: bool

record net =
  n_lines :: "wire_line list"
  n_style :: string

record label =
  l_text :: string
  l_x :: rat
  l_y :: rat
  l_anchor :: string
  l_size :: pynum
  l_color :: "string option"
  l_italic :: bool
  l_bold :: bool

text \<open>A warning: box name, text width and height, box width and height.\<close>

type_synonym overflow = "string \<times> rat \<times> rat \<times> rat \<times> rat"

record fig =
  f_shapes :: "(string \<times> shape) list"
  f_nets :: "(string \<times> net) list"
  f_labels :: "label list"
  f_bands :: "(bbox \<times> string) list"
  f_frames :: "bbox list"
  f_groups :: "(bbox \<times> string) list"
  f_warn :: "overflow list"

definition new_fig :: fig where
  "new_fig = \<lparr>f_shapes = [], f_nets = [], f_labels = [], f_bands = [], f_frames = [], f_groups = [], f_warn = []\<rparr>"

definition add_shape :: "shape \<Rightarrow> fig \<Rightarrow> (shape \<times> fig) result" where
  "add_shape s f =
     (if s_name s \<in> set (map fst (f_shapes f)) then Inl AssertionError
      else Inr (s, f\<lparr>f_shapes := f_shapes f @ [(s_name s, s)]\<rparr>))"

definition fill_of :: "string \<Rightarrow> string result" where
  "fill_of kind = (case map_of FILLS kind of None \<Rightarrow> Inl KeyError | Some c \<Rightarrow> Inr c)"

section \<open>Blocks\<close>

definition rect_op :: "string \<Rightarrow> rat \<Rightarrow> rat \<Rightarrow> rat \<Rightarrow> rat \<Rightarrow> shape \<Rightarrow> shape" where
  "rect_op fill x y w h =
     add_op [Lit (tex ''draw[blk,fill='' @ fill @ ''] ''), At (x, y), Lit '' rectangle '', At (x + w, y + h), Lit '';'']"

definition node_op :: "string \<Rightarrow> string \<Rightarrow> pt \<Rightarrow> string \<Rightarrow> shape \<Rightarrow> shape" where
  "node_op options font p text = add_op [Lit (tex ''node['' @ options @ '',font='' @ font @ ''] at ''), At p, Lit ('' {'' @ text @ ''};'')]"

definition bold_head :: "string \<Rightarrow> string" where
  "bold_head text =
     (let lines = split_str BREAK [] text in join BREAK ((tex ''textbf{'' @ hd lines @ ''}'') # tl lines))"

definition plain_lines :: "string \<Rightarrow> string" where
  "plain_lines text = join BREAK (split_str BREAK [] text)"

definition box ::
  "string \<Rightarrow> rat \<Rightarrow> rat \<Rightarrow> rat \<Rightarrow> rat \<Rightarrow> string \<Rightarrow> string \<Rightarrow> pynum \<Rightarrow> bool \<Rightarrow> bool \<Rightarrow> bool \<Rightarrow> fig \<Rightarrow> (shape \<times> fig) result" where
  "box name x y w h text kind size0 rep bold_first rot f =
     (let s = set_poly (rect_poly x y w h) (new_shape name kind)
      in bindE (fill_of kind) (\<lambda>fill.
         let s = (if rep then
                    let s = fold (\<lambda>k s. let d = 9 / 10 * k in rect_op fill (x + d) (y + d) w h s) [2, 1] s
                    in s\<lparr>s_extra := s_extra s @ [rect_poly x y (w + 18 / 10) (h + 18 / 10)]\<rparr>
                  else s);
             s = rect_op fill x y w h s;
             s = (if text \<noteq> [] then
                    node_op ((if rot then ''rotate=90,'' else []) @ ''align=center,inner sep=0'') (fsz size0 (118 / 100))
                      (x + w / 2, y + h / 2) (if bold_first then bold_head text else plain_lines text) s
                  else s);
             (tw, th) = (if rot then prod.swap (text_wh text (num_val size0)) else text_wh text (num_val size0));
             f = (if text \<noteq> [] \<and> (tw > w - 8 / 10 \<or> th > h - 6 / 10)
                  then f\<lparr>f_warn := f_warn f @ [(name, tw, th, w, h)]\<rparr> else f)
         in add_shape s f))"

definition reg :: "string \<Rightarrow> rat \<Rightarrow> rat \<Rightarrow> rat \<Rightarrow> rat \<Rightarrow> string \<Rightarrow> pynum \<Rightarrow> bool \<Rightarrow> fig \<Rightarrow> (shape \<times> fig) result" where
  "reg name x y w h text size0 rot f =
     (let s = set_poly (rect_poly x y w h) (new_shape name ''reg'');
          s = rect_op ''regfill'' x y w h s;
          cw = min (22 / 10) (w * (55 / 100));
          s = add_op [Lit (tex ''draw[line width=0.4pt] ''), At (x + w / 2 - cw / 2, y), Lit '' -- '', At (x + w / 2, y + cw * (8 / 10)),
                Lit '' -- '', At (x + w / 2 + cw / 2, y), Lit '';''] s;
          s = (if text \<noteq> [] then
                 node_op ((if rot then ''rotate=90,'' else []) @ ''align=center,inner sep=0'') (fsz size0 (11 / 10))
                   (x + w / 2, y + h / 2 + 6 / 10) text s
               else s)
      in add_shape s f)"

text \<open>\<^verbatim>\<open>' -- '.join(s.tok(p) for p in poly)\<close>.\<close>

definition path_pieces :: "pt list \<Rightarrow> piece list" where
  "path_pieces poly = concat (map (\<lambda>(i, p). (if i = 0 then [] else [Lit '' -- '']) @ [At p]) (enumerate 0 poly))"

definition poly_op :: "string \<Rightarrow> pt list \<Rightarrow> shape \<Rightarrow> shape" where
  "poly_op fill poly = add_op ([Lit (tex ''draw[blk,fill='' @ fill @ ''] '')] @ path_pieces poly @ [Lit '' -- cycle;''])"

definition mux ::
  "string \<Rightarrow> rat \<Rightarrow> rat list \<Rightarrow> rat \<Rightarrow> rat \<Rightarrow> string \<Rightarrow> string list option \<Rightarrow> pynum \<Rightarrow> bool \<Rightarrow> fig \<Rightarrow> (shape \<times> fig) result" where
  "mux name x ys w pad sel ins size0 flip f =
     (if ys = [] then Inl ValueError
      else let y1 = max_of ys + pad; y0 = min_of ys - pad; d = min 2 ((y1 - y0) * (2 / 10));
          poly = (if flip then [(x, y0 + d), (x + w, y0), (x + w, y1), (x, y1 - d)]
                  else [(x, y0), (x + w, y0 + d), (x + w, y1 - d), (x, y1)]);
          s = poly_op ''muxfill'' poly (set_poly poly (new_shape name ''mux''));
          (xin, xout) = (if flip then (x + w, x) else (x, x + w));
          s = s\<lparr>s_inp := map (Pair xin) ys,
                 s_ports := [(''out'', (xout, (y0 + y1) / 2)),
                   (''selpt'', if sel = ''bot'' then (x + w / 2, y0 + d / 2) else (x + w / 2, y1 - d / 2))]\<rparr>;
          ins = (case ins of None \<Rightarrow> map str_nat [0..<length ys] | Some ins \<Rightarrow> ins);
          s = fold (\<lambda>(yy, tx) s.
                if tx = [] then s
                else if flip then node_op ''anchor=east,inner sep=0.4pt'' (fsz size0 1) (x + w - 1 / 10, yy) tx s
                else node_op ''anchor=west,inner sep=0.4pt'' (fsz size0 1) (x + 1 / 10, yy) tx s) (zip ys ins) s
      in add_shape s f)"

definition alu ::
  "string \<Rightarrow> rat \<Rightarrow> rat \<Rightarrow> rat \<Rightarrow> rat \<Rightarrow> string \<Rightarrow> pynum \<Rightarrow> string \<Rightarrow> bool \<Rightarrow> rat \<Rightarrow> fig \<Rightarrow> (shape \<times> fig) result" where
  "alu name x ya yb w text size0 kind rep fa f =
     (let fb = 1 - fa
      in if fa - fb = 0 then Inl ZeroDivisionError
         else let h = (ya - yb) / (fa - fb); y = yb - fb * h; k = h * (24 / 100); n = h * (9 / 100); ym = y + h / 2;
             poly = [(x, y), (x + w, y + k), (x + w, y + h - k), (x, y + h), (x, ym + n), (x + n * (11 / 10), ym), (x, ym - n)];
             s = set_poly poly (new_shape name kind)
         in bindE (fill_of kind) (\<lambda>fill.
            let s = (if rep then
                       let s = fold (\<lambda>kk s. let dd = 9 / 10 * kk in poly_op fill (map (\<lambda>(px, py). (px + dd, py + dd)) poly) s) [2, 1] s
                       in s\<lparr>s_extra := s_extra s @ [map (\<lambda>(px, py). (px + 18 / 10, py + 18 / 10)) poly]\<rparr>
                     else s);
                s = poly_op fill poly s;
                s = node_op ''align=center,inner sep=0'' (fsz size0 (118 / 100)) (x + w * (56 / 100), ym) text s;
                s = s\<lparr>s_ports := [(''a'', (x, y + h * fa)), (''b'', (x, y + h * fb)), (''out'', (x + w, ym))]\<rparr>
            in add_shape s f))"

text \<open>Cosine and sine of \<open>q\<close> times \<^verbatim>\<open>math.pi\<close>, as floats.\<close>

record trig =
  t_cos :: "rat \<Rightarrow> rat"
  t_sin :: "rat \<Rightarrow> rat"

definition circ :: "trig \<Rightarrow> string \<Rightarrow> rat \<Rightarrow> rat \<Rightarrow> rat \<Rightarrow> string \<Rightarrow> pynum \<Rightarrow> string \<Rightarrow> fig \<Rightarrow> (shape \<times> fig) result" where
  "circ tr name cx cy r text size0 kind f =
     (let s = set_poly (map (\<lambda>k. (cx + r * t_cos tr (of_nat k / 8), cy + r * t_sin tr (of_nat k / 8))) [0..<16]) (new_shape name kind)
      in bindE (fill_of kind) (\<lambda>fill.
         let s = add_op [Lit (tex ''draw[blk,fill='' @ fill @ ''] ''), At (cx, cy), Lit ('' circle ('' @ fmt r @ '');'')] s;
             s = node_op ''inner sep=0'' (fsz size0 1) (cx, cy) text s;
             s = s\<lparr>s_ports := [(''Lp'', (cx - r, cy)), (''Rp'', (cx + r, cy)), (''Tp'', (cx, cy + r)), (''Bp'', (cx, cy - r))]\<rparr>
         in add_shape s f))"

text \<open>The outline and the drawn path of a gate, by type.\<close>

definition gate_shape ::
  "trig \<Rightarrow> string \<Rightarrow> rat \<Rightarrow> rat \<Rightarrow> rat \<Rightarrow> rat \<Rightarrow> (pt list \<times> piece list) result" where
  "gate_shape tr typ x w y0 y1 =
     (let h = y1 - y0; yc = (y0 + y1) / 2
      in if typ = ''and'' then
           (let xa = x + w - h / 2
            in Inr ([(x, y0), (xa, y0)]
                 @ map (\<lambda>i. let a = - 1 / 2 + of_nat i / 16 in (xa + h / 2 * t_cos tr a, yc + h / 2 * t_sin tr a)) [1..<16]
                 @ [(xa, y1), (x, y1)],
               [At (x, y0), Lit '' -- '', At (xa, y0), Lit ('' arc (-90:90:'' @ fmt (h / 2) @ '') -- ''), At (x, y1), Lit '' -- cycle'']))
         else if typ = ''or'' then
           (let bk = h * (2 / 10)
            in Inr ([(x, y0)]
                 @ map (\<lambda>i. let a = of_nat i / 16 in
                     (x + w * (45 / 100) + w * (55 / 100) * t_sin tr a, y0 + h / 2 * (1 - t_cos tr a))) [0..<9]
                 @ map (\<lambda>i. let a = of_nat (8 - i) / 16 in
                     (x + w * (45 / 100) + w * (55 / 100) * t_sin tr a, y1 - h / 2 * (1 - t_cos tr a))) [0..<9]
                 @ [(x, y1), (x + bk, yc)],
               [At (x, y1), Lit '' .. controls '', At (x + w * (75 / 100), y1), Lit '' and '', At (x + w * (95 / 100), yc + h * (15 / 100)),
                Lit '' .. '', At (x + w, yc),
                Lit '' .. controls '', At (x + w * (95 / 100), yc - h * (15 / 100)), Lit '' and '', At (x + w * (75 / 100), y0),
                Lit '' .. '', At (x, y0),
                Lit '' .. controls '', At (x + bk * (13 / 10), yc - h * (2 / 10)), Lit '' and '', At (x + bk * (13 / 10), yc + h * (2 / 10)),
                Lit '' .. '', At (x, y1), Lit '' -- cycle'']))
         else if typ = ''not'' then
           (let tw = w - 2 * (7 / 10)
            in Inr ([(x, y0), (x + tw, yc), (x, y1)],
               [At (x, y0), Lit '' -- '', At (x + tw, yc), Lit '' -- '', At (x, y1), Lit '' -- cycle'']))
         else Inl ValueError)"

definition bubble_op :: "pt \<Rightarrow> shape \<Rightarrow> shape" where
  "bubble_op p = add_op [Lit (tex ''draw[blk,fill=white] ''), At p, Lit ('' circle ('' @ fmt (7 / 10) @ '');'')]"

definition gate ::
  "trig \<Rightarrow> string \<Rightarrow> string \<Rightarrow> rat \<Rightarrow> rat list \<Rightarrow> rat \<Rightarrow> rat \<Rightarrow> nat list \<Rightarrow> string \<Rightarrow> pynum \<Rightarrow> fig \<Rightarrow> (shape \<times> fig) result" where
  "gate tr name typ x ys w pad neg_in lbl size0 f =
     (if ys = [] then Inl ValueError
      else let y1 = max_of ys + pad; y0 = min_of ys - pad; h = y1 - y0; yc = (y0 + y1) / 2; bub = 7 / 10
         in bindE (gate_shape tr typ x w y0 y1) (\<lambda>(pts, path).
            let s = set_poly pts (new_shape name ''gate'');
                s = add_op ([Lit (tex ''draw[blk,fill=white] '')] @ path @ [Lit '';'']) s;
                s = (if typ = ''not'' then bubble_op (x + w - bub, yc) s else s);
                s = fold (\<lambda>(i, yy) s.
                      if i \<in> set neg_in then (bubble_op (x - bub, yy) s)\<lparr>s_inp := s_inp s @ [(x - 2 * bub, yy)]\<rparr>
                      else if typ = ''or'' then s\<lparr>s_inp := s_inp s @ [(x + h * (2 / 10) * (75 / 100), yy)]\<rparr>
                      else s\<lparr>s_inp := s_inp s @ [(x, yy)]\<rparr>) (enumerate 0 ys) s;
                s = s\<lparr>s_ports := [(''out'', (x + w, yc))]\<rparr>;
                s = (if lbl \<noteq> [] then node_op ''inner sep=0'' (fsz size0 1) (x + w * (42 / 100), yc) lbl s else s)
            in add_shape s f))"

definition bar :: "string \<Rightarrow> rat \<Rightarrow> rat \<Rightarrow> rat \<Rightarrow> rat \<Rightarrow> string \<Rightarrow> pynum \<Rightarrow> bool \<Rightarrow> fig \<Rightarrow> (shape \<times> fig) result" where
  "bar name x y w h text size0 lbl_below f =
     (let s = set_poly (rect_poly x y w h) (new_shape name ''reg'');
          s = rect_op ''regfill'' x y w h s;
          s = add_op [Lit (tex ''draw[line width=0.4pt] ''), At (x + 3 / 10, y), Lit '' -- '', At (x + w / 2, y + 18 / 10),
                Lit '' -- '', At (x + w - 3 / 10, y), Lit '';''] s;
          title = (\<lambda>anchor p. add_op [Lit (tex ''node[font='' @ fsz size0 1 @ tex ''bfseries,anchor='' @ anchor @ ''] at ''),
                At p, Lit ('' {'' @ text @ ''};'')]);
          s = (if text = [] then s
               else if lbl_below then
                 (let s = title ''north'' (x + w / 2, y - 6 / 10) s
                  in s\<lparr>s_extra := s_extra s @ [rect_poly (x + w / 2 - 3) (y - 36 / 10) 6 3]\<rparr>)
               else
                 (let s = title ''south'' (x + w / 2, y + h + 6 / 10) s
                  in s\<lparr>s_extra := s_extra s @ [rect_poly (x + w / 2 - 3) (y + h + 6 / 10) 6 3]\<rparr>))
      in add_shape s f)"

section \<open>Wires and labels\<close>

definition orthogonal :: "pt \<times> pt \<Rightarrow> bool" where
  "orthogonal = (\<lambda>(a, b). \<bar>fst a - fst b\<bar> \<le> EPS \<or> \<bar>snd a - snd b\<bar> \<le> EPS)"

text \<open>Repeated points are dropped; then coordinates that differ by less than 0.05 are made equal.\<close>

definition wire_points :: "pt list \<Rightarrow> pt list" where
  "wire_points pts =
     fold (\<lambda>p q. if \<bar>fst p - fst (last q)\<bar> > EPS \<or> \<bar>snd p - snd (last q)\<bar> > EPS then q @ [p] else q) (tl pts) [hd pts]"

definition snap_step :: "nat \<Rightarrow> pt list \<Rightarrow> pt list" where
  "snap_step k q =
     (let a = q ! (k - 1); b = q ! k
      in if \<bar>fst a - fst b\<bar> < 5 / 100 \<and> fst a \<noteq> fst b
         then (if k = length q - 1 then q[k - 1 := (fst b, snd a)] else q[k := (fst a, snd b)])
         else if \<bar>snd a - snd b\<bar> < 5 / 100 \<and> snd a \<noteq> snd b
         then (if k = length q - 1 then q[k - 1 := (fst a, snd b)] else q[k := (fst b, snd a)])
         else q)"

definition snap :: "pt list \<Rightarrow> pt list" where
  "snap q = fold snap_step [1..<length q] q"

definition wire :: "string \<Rightarrow> pt list \<Rightarrow> string \<Rightarrow> bool \<Rightarrow> fig \<Rightarrow> (pt list \<times> fig) result" where
  "wire net0 pts style arrow f =
     (if pts = [] then Inl IndexError
      else let q = snap (wire_points pts)
         in if list_all orthogonal (zip q (tl q))
            then (let n = (case map_of (f_nets f) net0 of None \<Rightarrow> \<lparr>n_lines = [], n_style = style\<rparr> | Some n \<Rightarrow> n)
                  in Inr (q, f\<lparr>f_nets := AList.update net0 (n\<lparr>n_lines := n_lines n @ [\<lparr>w_pts = q, w_arrow = arrow\<rparr>]\<rparr>) (f_nets f)\<rparr>))
            else Inl ValueError)"

definition add_label :: "string \<Rightarrow> rat \<Rightarrow> rat \<Rightarrow> string \<Rightarrow> pynum \<Rightarrow> string option \<Rightarrow> bool \<Rightarrow> bool \<Rightarrow> fig \<Rightarrow> fig" where
  "add_label text x y anchor size0 color italic bold f =
     f\<lparr>f_labels := f_labels f @ [\<lparr>l_text = text, l_x = x, l_y = y, l_anchor = anchor, l_size = size0, l_color = color,
        l_italic = italic, l_bold = bold\<rparr>]\<rparr>"

definition group :: "bbox \<Rightarrow> string \<Rightarrow> string \<Rightarrow> pynum \<Rightarrow> string \<Rightarrow> fig \<Rightarrow> fig" where
  "group bb title title_at size0 fill f =
     (let (x0, y0, x1, y1) = bb;
          f = f\<lparr>f_groups := f_groups f @ [(bb, fill)]\<rparr>;
          tx = (if CHR ''w'' \<in> set title_at then x0 + 16 / 10 else x1 - 16 / 10);
          ty = (if CHR ''n'' \<in> set title_at then y1 - 12 / 10 else y0 + 12 / 10);
          anchor = (if CHR ''n'' \<in> set title_at then ''north'' else ''south'') @ (if CHR ''w'' \<in> set title_at then '' west'' else '' east'')
      in add_label title tx ty anchor size0 (Some ''black!75'') False True f)"

definition DIRECTIONS :: "(string \<times> (rat \<times> rat) \<times> string) list" where
  "DIRECTIONS = [(''down'', (0, - 1), ''north''), (''up'', (0, 1), ''south''), (''left'', (- 1, 0), ''east''), (''right'', (1, 0), ''west'')]"

definition stub ::
  "string \<Rightarrow> pt \<Rightarrow> string \<Rightarrow> rat \<Rightarrow> string \<Rightarrow> pynum \<Rightarrow> string \<Rightarrow> bool \<Rightarrow> fig \<Rightarrow> fig result" where
  "stub net0 p direction len text size0 style arrow f =
     (case map_of DIRECTIONS direction of None \<Rightarrow> Inl KeyError
      | Some ((dx, dy), anchor) \<Rightarrow>
          let far = (fst p + dx * len, snd p + dy * len)
          in bindE (wire net0 [far, p] style arrow f) (\<lambda>(_, f).
             Inr (add_label text (fst far + dx * (3 / 10)) (snd far + dy * (3 / 10)) anchor size0 None False False f)))"

section \<open>Printing late\<close>

definition piece_pts :: "piece list \<Rightarrow> pt list" where
  "piece_pts ps = concat (map (\<lambda>p. case p of Lit _ \<Rightarrow> [] | At p \<Rightarrow> [p]) ps)"

fun token_text :: "nat \<Rightarrow> piece list \<Rightarrow> string" where
  "token_text k [] = []"
| "token_text k (Lit t # ps) = t @ token_text k ps"
| "token_text k (At p # ps) = CHR 0xAB # str_nat k @ [CHR 0xBB] @ token_text (Suc k) ps"

definition show_pieces :: "(pt \<Rightarrow> pt) \<Rightarrow> piece list \<Rightarrow> string" where
  "show_pieces m ps = concat (map (\<lambda>p. case p of Lit t \<Rightarrow> t | At p \<Rightarrow> fmt_pt (m p)) ps)"

definition clean :: "piece list \<Rightarrow> bool" where
  "clean ps \<longleftrightarrow> list_all (\<lambda>p. case p of Lit t \<Rightarrow> CHR 0xAB \<notin> set t | At p \<Rightarrow> True) ps"

lemma piece_pts_simps [simp]:
  "piece_pts [] = []" "piece_pts (Lit t # ps) = piece_pts ps" "piece_pts (At p # ps) = p # piece_pts ps"
  by (simp_all add: piece_pts_def)

lemma show_pieces_simps [simp]:
  "show_pieces m [] = []" "show_pieces m (Lit t # ps) = t @ show_pieces m ps" "show_pieces m (At p # ps) = fmt_pt (m p) @ show_pieces m ps"
  by (simp_all add: show_pieces_def)

lemma render_eq: "render ps s = (token_text (length (s_pts s)) ps, s\<lparr>s_pts := s_pts s @ piece_pts ps\<rparr>)"
  by (induction ps s rule: render.induct) (simp_all add: tok_def split_beta Let_def)

lemma add_op_eq: "add_op ps s = s\<lparr>s_pts := s_pts s @ piece_pts ps, s_ops := s_ops s @ [token_text (length (s_pts s)) ps]\<rparr>"
  by (simp add: add_op_def render_eq)

lemma str_nat_digits_run: "takeWhile digit (str_nat k @ CHR 0xBB # t) = str_nat k" "dropWhile digit (str_nat k @ CHR 0xBB # t) = CHR 0xBB # t"
proof -
  have "\<forall>d \<in> set [0..<10]. digit (digit_char d)" by code_simp
  then have "\<forall>c \<in> set (str_nat k). digit c" using str_nat_digits by fastforce
  moreover have "\<not> digit (CHR 0xBB)" by code_simp
  ultimately show "takeWhile digit (str_nat k @ CHR 0xBB # t) = str_nat k" "dropWhile digit (str_nat k @ CHR 0xBB # t) = CHR 0xBB # t"
    by (simp_all add: takeWhile_append2 dropWhile_append2)
qed

lemma tok_match_token: "tok_match (CHR 0xAB # str_nat k @ CHR 0xBB # t) = Some (k, t)"
  by (simp add: tok_match_def str_nat_digits_run str_nat_ne) (simp add: str_nat_def read_digits_digits)

lemma sub_toks_other:
  assumes "CHR 0xAB \<notin> set t"
  shows "sub_toks pts (t @ u) = bindE (sub_toks pts u) (\<lambda>r. Inr (t @ r))"
  using assms
proof (induction t)
  case Nil
  then show ?case by (cases "sub_toks pts u") simp_all
next
  case (Cons c t)
  then have "tok_match (c # t @ u) = None" by (auto simp: tok_match_def)
  then show ?case using Cons by (subst append_Cons, subst sub_toks.simps) (simp add: bindE_assoc)
qed

lemma sub_toks_token:
  "k < length pts \<Longrightarrow> sub_toks pts (CHR 0xAB # str_nat k @ CHR 0xBB # t) = bindE (sub_toks pts t) (\<lambda>r. Inr (fmt_pt (pts ! k) @ r))"
  by (subst sub_toks.simps) (simp add: tok_match_token)

lemma sub_toks_text:
  assumes "clean ps"
  shows "sub_toks (pre @ map m (piece_pts ps) @ post) (token_text (length pre) ps) = Inr (show_pieces m ps)"
  using assms
proof (induction ps arbitrary: pre)
  case Nil
  then show ?case by (simp add: sub_toks.simps)
next
  case (Cons p ps)
  show ?case
  proof (cases p)
    case (Lit t)
    then show ?thesis using Cons by (simp add: clean_def sub_toks_other)
  next
    case (At q)
    then show ?thesis using Cons.IH [of "pre @ [m q]"] Cons.prems by (simp add: clean_def sub_toks_token)
  qed
qed

text \<open>A shape is drawn by operations \<open>pss\<close> when its texts and points are theirs.\<close>

definition drawn :: "shape \<Rightarrow> piece list list \<Rightarrow> bool" where
  "drawn s pss \<longleftrightarrow> list_all clean pss \<and> s_pts s = concat (map piece_pts pss) \<and>
     s_ops s = map (\<lambda>i. token_text (length (concat (map piece_pts (take i pss)))) (pss ! i)) [0..<length pss]"

lemma drawn_new [simp]: "drawn (new_shape name kind) []"
  by (simp add: drawn_def new_shape_def)

lemma drawn_add_op: "drawn s pss \<Longrightarrow> clean ps \<Longrightarrow> drawn (add_op ps s) (pss @ [ps])"
  by (simp add: drawn_def add_op_eq nth_append)

lemma drawn_tikz:
  assumes "drawn s pss"
  shows "tikz (s\<lparr>s_pts := map m (s_pts s)\<rparr>) = Inr (map (show_pieces m) pss)"
proof -
  have each: "sub_toks (map m (s_pts s)) (s_ops s ! i) = Inr (show_pieces m (pss ! i))" if i: "i < length pss" for i
  proof -
    have split: "pss = take i pss @ pss ! i # drop (Suc i) pss" by (rule id_take_nth_drop [OF i])
    have "clean (pss ! i)" using assms i by (simp add: drawn_def list_all_length)
    moreover have "map m (s_pts s) = map m (concat (map piece_pts (take i pss))) @ map m (piece_pts (pss ! i))
        @ map m (concat (map piece_pts (drop (Suc i) pss)))"
    proof -
      have "concat (map piece_pts (take i pss @ pss ! i # drop (Suc i) pss)) =
          concat (map piece_pts (take i pss)) @ piece_pts (pss ! i) @ concat (map piece_pts (drop (Suc i) pss))" by simp
      then show ?thesis using assms unfolding split [symmetric] by (simp add: drawn_def)
    qed
    ultimately show ?thesis using assms i sub_toks_text [of "pss ! i" "map m (concat (map piece_pts (take i pss)))" m]
      by (simp add: drawn_def)
  qed
  moreover have len: "length (s_ops s) = length pss" using assms by (simp add: drawn_def)
  ultimately have "mapE (sub_toks (map m (s_pts s))) (s_ops s) = Inr (map (\<lambda>x. projr (sub_toks (map m (s_pts s)) x)) (s_ops s))"
    by (intro mapE_total) (metis in_set_conv_nth sum.sel(2))
  also have "map (\<lambda>x. projr (sub_toks (map m (s_pts s)) x)) (s_ops s) = map (show_pieces m) pss"
    using len each by (intro nth_equalityI) simp_all
  finally show ?thesis by (simp add: tikz_def)
qed

section \<open>The invariant of a figure\<close>

definition shape_ok :: "shape \<Rightarrow> bool" where
  "shape_ok s \<longleftrightarrow> s_poly s \<noteq> [] \<and> s_x0 s = min_of (map fst (s_poly s)) \<and> s_x1 s = max_of (map fst (s_poly s)) \<and>
     s_y0 s = min_of (map snd (s_poly s)) \<and> s_y1 s = max_of (map snd (s_poly s))"

lemma shape_ok_set_poly [simp]: "shape_ok (set_poly poly s) \<longleftrightarrow> poly \<noteq> []"
  by (simp add: shape_ok_def set_poly_def shape_bb_def Let_def)

lemma shape_ok_simps [simp]:
  "shape_ok (add_op ps s) = shape_ok s" "shape_ok (s\<lparr>s_extra := e\<rparr>) = shape_ok s" "shape_ok (s\<lparr>s_inp := i\<rparr>) = shape_ok s"
  "shape_ok (s\<lparr>s_ports := p\<rparr>) = shape_ok s"
  "s_name (add_op ps s) = s_name s" "s_name (set_poly poly s) = s_name s" "s_name (new_shape name kind) = name"
  by (simp_all add: shape_ok_def add_op_eq set_poly_def shape_bb_def new_shape_def Let_def)

lemma op_simps [simp]:
  "shape_ok (rect_op fill x y w h s) = shape_ok s" "shape_ok (node_op o' fo p t s) = shape_ok s"
  "shape_ok (poly_op fill poly s) = shape_ok s" "shape_ok (bubble_op p s) = shape_ok s"
  "s_name (rect_op fill x y w h s) = s_name s" "s_name (node_op o' fo p t s) = s_name s"
  "s_name (poly_op fill poly s) = s_name s" "s_name (bubble_op p s) = s_name s"
  by (simp_all add: rect_op_def node_op_def poly_op_def bubble_op_def)

lemma fold_keeps:
  assumes "\<And>x s. shape_ok (g x s) = shape_ok s" "\<And>x s. s_name (g x s) = s_name s"
  shows "shape_ok (fold g xs s) = shape_ok s" "s_name (fold g xs s) = s_name s"
  using assms by (induction xs arbitrary: s) simp_all

definition line_ok :: "wire_line \<Rightarrow> bool" where
  "line_ok l \<longleftrightarrow> w_pts l \<noteq> [] \<and> list_all orthogonal (zip (w_pts l) (tl (w_pts l)))"

definition fig_ok :: "fig \<Rightarrow> bool" where
  "fig_ok f \<longleftrightarrow> distinct (map fst (f_shapes f)) \<and> (\<forall>(n, s) \<in> set (f_shapes f). s_name s = n \<and> shape_ok s) \<and>
     distinct (map fst (f_nets f)) \<and> (\<forall>(n, t) \<in> set (f_nets f). list_all line_ok (n_lines t))"

lemma add_shape_ok:
  assumes "fig_ok f" "shape_ok s" "add_shape s f = Inr (s', f')"
  shows "fig_ok f' \<and> s' = s \<and> f_shapes f' = f_shapes f @ [(s_name s, s)] \<and> f_nets f' = f_nets f \<and> s_name s \<notin> set (map fst (f_shapes f))"
  using assms by (auto simp: add_shape_def fig_ok_def split: if_splits)

lemma fig_ok_other [simp]:
  "fig_ok (f\<lparr>f_warn := w\<rparr>) = fig_ok f" "fig_ok (f\<lparr>f_labels := l\<rparr>) = fig_ok f" "fig_ok (f\<lparr>f_groups := g\<rparr>) = fig_ok f"
  by (simp_all add: fig_ok_def)

text \<open>What a primitive that adds a shape does to a figure.\<close>

definition adds :: "string \<Rightarrow> fig \<Rightarrow> (shape \<times> fig) result \<Rightarrow> bool" where
  "adds name f r \<longleftrightarrow> (\<forall>s f'. r = Inr (s, f') \<longrightarrow> fig_ok f \<longrightarrow> fig_ok f' \<and> shape_ok s \<and> s_name s = name \<and>
     f_shapes f' = f_shapes f @ [(name, s)] \<and> f_nets f' = f_nets f \<and> name \<notin> set (map fst (f_shapes f)))"

lemma adds_Inl [simp]: "adds name f (Inl e)"
  by (simp add: adds_def)

lemma adds_shape:
  assumes "shape_ok s" "s_name s = name"
  shows "adds name f (add_shape s f)" "adds name f (add_shape s (f\<lparr>f_warn := w\<rparr>))"
proof -
  have a: "fig_ok f' \<and> shape_ok s' \<and> s_name s' = name \<and> f_shapes f' = f_shapes g @ [(name, s')] \<and> f_nets f' = f_nets g \<and>
      name \<notin> set (map fst (f_shapes g))" if "fig_ok g" "add_shape s g = Inr (s', f')" for g s' f'
    using add_shape_ok [OF that(1) assms(1) that(2)] assms by simp
  show "adds name f (add_shape s f)" unfolding adds_def using a [of f] by blast
  have "f_shapes (f\<lparr>f_warn := w\<rparr>) = f_shapes f" "f_nets (f\<lparr>f_warn := w\<rparr>) = f_nets f" by simp_all
  then show "adds name f (add_shape s (f\<lparr>f_warn := w\<rparr>))" unfolding adds_def using a [of "f\<lparr>f_warn := w\<rparr>"] fig_ok_other(1) [of w f] by metis
qed

lemma adds_bind: "(\<And>x. r = Inr x \<Longrightarrow> adds name f (g x)) \<Longrightarrow> adds name f (bindE r g)"
  by (cases r) simp_all

lemma box_adds: "adds name f (box name x y w h text kind size0 rep bold_first rot f)"
  unfolding box_def Let_def split_beta
  by (intro adds_bind) (simp add: adds_shape fold_keeps rect_poly_def)

lemma reg_adds: "adds name f (reg name x y w h text size0 rot f)"
  unfolding reg_def Let_def by (auto intro!: adds_shape simp: rect_poly_def)

lemma mux_adds: "adds name f (mux name x ys w pad sel ins size0 flip f)"
  unfolding mux_def Let_def by (auto intro!: adds_shape simp: fold_keeps split_beta)

lemma alu_adds: "adds name f (alu name x ya yb w text size0 kind rep fa f)"
  unfolding alu_def Let_def by (auto intro!: adds_bind adds_shape simp: fold_keeps)

lemma circ_adds: "adds name f (circ tr name cx cy r text size0 kind f)"
  unfolding circ_def Let_def by (auto intro!: adds_bind adds_shape)

lemma gate_shape_ne: "gate_shape tr typ x w y0 y1 = Inr (pts, path) \<Longrightarrow> pts \<noteq> []"
  by (auto simp: gate_shape_def Let_def split: if_splits)

lemma gate_adds: "adds name f (gate tr name typ x ys w pad neg_in lbl size0 f)"
  unfolding gate_def Let_def by (auto intro!: adds_bind adds_shape dest: gate_shape_ne simp: fold_keeps split_beta)

lemma bar_adds: "adds name f (bar name x y w h text size0 lbl_below f)"
  unfolding bar_def Let_def by (auto intro!: adds_shape simp: rect_poly_def)

text \<open>A wire: the stored points, or the exception.\<close>

lemma wire_points_ne: "wire_points pts \<noteq> []"
proof -
  have "fold g ps q \<noteq> []" if "q \<noteq> []" "\<And>p q. q \<noteq> [] \<Longrightarrow> g p q \<noteq> []" for g :: "pt \<Rightarrow> pt list \<Rightarrow> pt list" and ps q
    using that by (induction ps arbitrary: q) simp_all
  then show ?thesis unfolding wire_points_def by simp
qed

lemma snap_length [simp]: "length (snap q) = length q"
proof -
  have "length (snap_step k r) = length r" for k r by (simp add: snap_step_def Let_def)
  then have "length (fold snap_step ks r) = length r" for ks r by (induction ks arbitrary: r) simp_all
  then show ?thesis by (simp add: snap_def)
qed

lemma wire_ok:
  assumes "wire net0 pts style arrow f = Inr (q, f')" "fig_ok f"
  shows "fig_ok f' \<and> f_shapes f' = f_shapes f \<and> line_ok \<lparr>w_pts = q, w_arrow = arrow\<rparr> \<and>
    (\<exists>n. map_of (f_nets f') net0 = Some n \<and> last (n_lines n) = \<lparr>w_pts = q, w_arrow = arrow\<rparr>)"
proof -
  define n where "n = (case map_of (f_nets f) net0 of None \<Rightarrow> \<lparr>n_lines = [], n_style = style\<rparr> | Some n \<Rightarrow> n)"
  have q: "q = snap (wire_points pts)" "list_all orthogonal (zip q (tl q))" "pts \<noteq> []"
    and f': "f' = f\<lparr>f_nets := AList.update net0 (n\<lparr>n_lines := n_lines n @ [\<lparr>w_pts = q, w_arrow = arrow\<rparr>]\<rparr>) (f_nets f)\<rparr>"
    using assms(1) by (auto simp: wire_def Let_def n_def split: if_splits)
  have "q \<noteq> []" using wire_points_ne [of pts] unfolding q(1) by (metis length_0_conv snap_length)
  then have l: "line_ok \<lparr>w_pts = q, w_arrow = arrow\<rparr>" using q by (simp add: line_ok_def)
  moreover have "list_all line_ok (n_lines n)"
    using assms(2) by (auto simp: n_def fig_ok_def split: option.splits dest!: map_of_SomeD)
  ultimately have nets: "\<forall>(k, t) \<in> set (f_nets f'). list_all line_ok (n_lines t)"
    using assms(2) by (auto simp: f' fig_ok_def dest!: set_update [THEN subsetD])
  then have "fig_ok f'" using assms(2) by (auto simp: f' fig_ok_def distinct_update)
  then show ?thesis using l by (simp add: f' update_conv)
qed

lemma stub_ok: "stub net0 p d len text size0 style arrow f = Inr f' \<Longrightarrow> fig_ok f \<Longrightarrow> fig_ok f'"
  by (auto simp: stub_def add_label_def result_simps split: option.splits dest!: wire_ok)

lemma group_ok [simp]: "fig_ok (group bb title title_at size0 fill f) = fig_ok f"
  by (simp add: group_def add_label_def split_beta Let_def)

lemma label_ok [simp]: "fig_ok (add_label text x y anchor size0 color italic bold f) = fig_ok f"
  by (simp add: add_label_def)

text \<open>The figures a script can build.\<close>

inductive built :: "trig \<Rightarrow> fig \<Rightarrow> bool" for tr where
  "built tr new_fig"
| "built tr f \<Longrightarrow> box name x y w h text kind size0 rep bold_first rot f = Inr (s, f') \<Longrightarrow> built tr f'"
| "built tr f \<Longrightarrow> reg name x y w h text size0 rot f = Inr (s, f') \<Longrightarrow> built tr f'"
| "built tr f \<Longrightarrow> mux name x ys w pad sel ins size0 flip f = Inr (s, f') \<Longrightarrow> built tr f'"
| "built tr f \<Longrightarrow> alu name x ya yb w text size0 kind rep fa f = Inr (s, f') \<Longrightarrow> built tr f'"
| "built tr f \<Longrightarrow> circ tr name x y r text size0 kind f = Inr (s, f') \<Longrightarrow> built tr f'"
| "built tr f \<Longrightarrow> gate tr name typ x ys w pad neg_in lbl size0 f = Inr (s, f') \<Longrightarrow> built tr f'"
| "built tr f \<Longrightarrow> bar name x y w h text size0 lbl_below f = Inr (s, f') \<Longrightarrow> built tr f'"
| "built tr f \<Longrightarrow> wire net0 pts style arrow f = Inr (q, f') \<Longrightarrow> built tr f'"
| "built tr f \<Longrightarrow> stub net0 p d len text size0 style arrow f = Inr f' \<Longrightarrow> built tr f'"
| "built tr f \<Longrightarrow> built tr (add_label text x y anchor size0 color italic bold f)"
| "built tr f \<Longrightarrow> built tr (group bb title title_at size0 fill f)"

lemma adds_fig_ok: "adds name f r \<Longrightarrow> r = Inr (s, f') \<Longrightarrow> fig_ok f \<Longrightarrow> fig_ok f'"
  by (simp add: adds_def)

lemmas shapes_kept = box_adds [THEN adds_fig_ok] reg_adds [THEN adds_fig_ok] mux_adds [THEN adds_fig_ok]
  alu_adds [THEN adds_fig_ok] circ_adds [THEN adds_fig_ok] gate_adds [THEN adds_fig_ok] bar_adds [THEN adds_fig_ok]

section \<open>Wires that need no repair\<close>

definition square_step :: "pt \<times> pt \<Rightarrow> bool" where
  "square_step = (\<lambda>(a, b). fst a = fst b \<and> 5 / 100 \<le> \<bar>snd a - snd b\<bar> \<or> snd a = snd b \<and> 5 / 100 \<le> \<bar>fst a - fst b\<bar>)"

lemma square_step_facts:
  assumes "square_step (a, b)"
  shows "\<bar>fst b - fst a\<bar> > EPS \<or> \<bar>snd b - snd a\<bar> > EPS" "orthogonal (a, b)"
    "\<not> (\<bar>fst a - fst b\<bar> < 5 / 100 \<and> fst a \<noteq> fst b)" "\<not> (\<bar>snd a - snd b\<bar> < 5 / 100 \<and> snd a \<noteq> snd b)"
  using assms unfolding abs_minus_commute [of "fst b"] abs_minus_commute [of "snd b"]
  by (auto simp: square_step_def orthogonal_def EPS_def)

lemma wire_points_square:
  assumes "list_all square_step (zip (a # ps) ps)"
  shows "fold (\<lambda>p q. if \<bar>fst p - fst (last q)\<bar> > EPS \<or> \<bar>snd p - snd (last q)\<bar> > EPS then q @ [p] else q) ps (q @ [a]) = q @ a # ps"
  using assms
proof (induction ps arbitrary: a q)
  case (Cons p ps)
  then have "square_step (a, p)" and r: "list_all square_step (zip (p # ps) ps)" by simp_all
  then show ?case using square_step_facts(1) [of a p] Cons.IH [OF r, of "q @ [a]"] by simp
qed simp

lemma snap_square:
  assumes "list_all square_step (zip q (tl q))"
  shows "snap q = q"
proof -
  have "snap_step k q = q" if k: "k \<in> set [1..<length q]" for k
  proof -
    have "square_step (q ! (k - 1), q ! k)"
      using assms k nth_tl [of "k - 1" q] by (auto simp: list_all_length dest!: spec [of _ "k - 1"])
    from square_step_facts(3,4) [OF this] show ?thesis by (auto simp: snap_step_def Let_def)
  qed
  then have "fold snap_step ks q = q" if "set ks \<subseteq> set [1..<length q]" for ks
    using that by (induction ks) auto
  then show ?thesis by (simp add: snap_def)
qed

section \<open>Properties\<close>

text \<open>C24: Every figure that the primitives can build, in any order and with any arguments, is well formed: its shapes are
  stored under their own, pairwise different names, each bounding box is that of the polygon, and each wire
  has at least one point and only horizontal and vertical steps.\<close>

theorem built_fig_ok:
  assumes "built tr f"
  shows "distinct (map fst (f_shapes f)) \<and> (\<forall>(n, s) \<in> set (f_shapes f). s_name s = n \<and> shape_ok s) \<and>
    (\<forall>(n, t) \<in> set (f_nets f). \<forall>l \<in> set (n_lines t). w_pts l \<noteq> [] \<and> list_all orthogonal (zip (w_pts l) (tl (w_pts l))))"
proof -
  have "fig_ok f" using assms
  proof (induction rule: built.induct)
    case 1
    show ?case by (simp add: fig_ok_def new_fig_def)
  qed (simp | erule (1) shapes_kept stub_ok | drule (1) wire_ok)+
  then show ?thesis by (auto simp: fig_ok_def line_ok_def list_all_iff)
qed

text \<open>A polyline of horizontal and vertical steps of at least 0.05 is stored as it is, at the end of its net, and nothing
  else in the figure changes.\<close>

theorem wire_keeps_square:
  assumes "pts \<noteq> []" "list_all square_step (zip pts (tl pts))"
  shows "\<exists>f'. wire net0 pts style arrow f = Inr (pts, f') \<and>
    map_of (f_nets f') net0 = Some (case map_of (f_nets f) net0 of
        None \<Rightarrow> \<lparr>n_lines = [\<lparr>w_pts = pts, w_arrow = arrow\<rparr>], n_style = style\<rparr>
      | Some n \<Rightarrow> n\<lparr>n_lines := n_lines n @ [\<lparr>w_pts = pts, w_arrow = arrow\<rparr>]\<rparr>) \<and>
    (\<forall>n. n \<noteq> net0 \<longrightarrow> map_of (f_nets f') n = map_of (f_nets f) n) \<and> f'\<lparr>f_nets := f_nets f\<rparr> = f"
proof -
  obtain a ps where pts: "pts = a # ps" using assms(1) by (cases pts) auto
  have "wire_points pts = pts" using wire_points_square [of a ps "[]"] assms(2) by (simp add: wire_points_def pts)
  then have q: "snap (wire_points pts) = pts" using snap_square [OF assms(2)] by simp
  have "list_all orthogonal (zip pts (tl pts))"
    using assms(2) square_step_facts(2) by (fastforce simp: list_all_iff)
  then show ?thesis using assms(1) q by (auto simp: wire_def Let_def update_conv split: option.splits)
qed

lemma built_fig_ok_witness:
  "\<exists>s f. reg ''r'' 0 0 4 6 [] (PInt 6) False new_fig = Inr (s, f) \<and> distinct (map fst (f_shapes f)) \<and> length (f_shapes f) = 1"
proof -
  obtain s f where r: "reg ''r'' 0 0 4 6 [] (PInt 6) False new_fig = Inr (s, f)"
    by (auto simp: reg_def Let_def add_shape_def new_fig_def)
  have "built \<lparr>t_cos = \<lambda>_. 0, t_sin = \<lambda>_. 0\<rparr> f" by (rule built.intros(3) [OF built.intros(1) r])
  moreover have "length (f_shapes f) = 1" using r by (auto simp: reg_def Let_def add_shape_def new_fig_def)
  ultimately show ?thesis using built_fig_ok [of "\<lparr>t_cos = \<lambda>_. 0, t_sin = \<lambda>_. 0\<rparr>" f] r by blast
qed

lemma wire_keeps_square_witness: "\<exists>f. wire ''n'' [(0, 0), (3, 0), (3, 2)] ''sig'' True new_fig = Inr ([(0, 0), (3, 0), (3, 2)], f)"
  using wire_keeps_square [of "[(0, 0), (3, 0), (3, 2)]" "''n''" "''sig''" True new_fig] by (auto simp: square_step_def)

end
