(* ===== verification/Layout.thy ===== *)
theory Layout
  imports Figure
begin

text \<open>
  The analysis of a figure in \<^verbatim>\<open>dp_engine.py\<close>: \<^verbatim>\<open>segments\<close>, \<^verbatim>\<open>label_bbox\<close>, \<^verbatim>\<open>verify\<close>, \<^verbatim>\<open>crossings\<close>, the
  compaction of empty corridors and \<^verbatim>\<open>extent\<close>. Messages are values of a datatype instead of texts. The properties
  say what an empty list of messages means for the drawing, and what compaction keeps.
\<close>

section \<open>Segments, label boxes, crossings\<close>

type_synonym seg = "string \<times> nat \<times> nat \<times> pt \<times> pt"

definition segments :: "fig \<Rightarrow> seg list" where
  "segments f =
     concat (map (\<lambda>(name, n). concat (map (\<lambda>(li, line).
       map (\<lambda>(i, (a, b)). (name, li, i, a, b)) (enumerate 0 (zip (w_pts line) (tl (w_pts line)))))
         (enumerate 0 (n_lines n)))) (f_nets f))"

definition label_bbox :: "label \<Rightarrow> bbox" where
  "label_bbox L =
     (let (w, h) = text_wh (l_text L) (num_val (l_size L)); w = w + 5 / 10; h = h + 3 / 10;
          x = l_x L; y = l_y L; a = l_anchor L; cx = x; cy = y;
          cy = (if contains ''south'' a then y + h / 2 else cy);
          cy = (if contains ''north'' a then y - h / 2 else cy);
          cx = (if ends_with ''west'' a then x + w / 2 else cx);
          cx = (if ends_with ''east'' a then x - w / 2 else cx)
      in (cx - w / 2, cy - h / 2, cx + w / 2, cy + h / 2))"

definition horiz :: "pt \<Rightarrow> pt \<Rightarrow> bool" where "horiz a b \<longleftrightarrow> \<bar>snd a - snd b\<bar> < EPS"
definition vert :: "pt \<Rightarrow> pt \<Rightarrow> bool" where "vert a b \<longleftrightarrow> \<bar>fst a - fst b\<bar> < EPS"

definition crossings :: "fig \<Rightarrow> (rat \<times> rat \<times> string \<times> string) list" where
  "crossings f =
     (let segs = segments f;
          H = filter (\<lambda>(_, _, _, a, b). horiz a b) segs; V = filter (\<lambda>(_, _, _, a, b). vert a b) segs
      in concat (map (\<lambda>(nh, _, _, a, b).
           let y = snd a; xl = min (fst a) (fst b); xr = max (fst a) (fst b)
           in concat (map (\<lambda>(nv, _, _, c, d).
                let x = fst c; yl = min (snd c) (snd d); yh = max (snd c) (snd d)
                in if nv \<noteq> nh \<and> xl + 3 / 10 < x \<and> x < xr - 3 / 10 \<and> yl + 3 / 10 < y \<and> y < yh - 3 / 10
                   then [(x, y, nh, nv)] else []) V)) H))"

section \<open>Verification\<close>

datatype layout_error =
    ShapeOverlap string string
  | WireHits string string pt pt string
  | ParallelH string string rat rat rat rat
  | ParallelV string string rat rat rat rat
  | Touch string pt string
  | LabelShape string string
  | LabelWire string string
  | LabelOverlap string string
  | HopCorner string string rat rat

fun pairs_of :: "'a list \<Rightarrow> ('a \<times> 'a) list" where
  "pairs_of [] = []"
| "pairs_of (x # xs) = map (Pair x) xs @ pairs_of xs"

definition shape_errors :: "shape list \<Rightarrow> layout_error list" where
  "shape_errors shapes =
     concat (map (\<lambda>(s, t).
       if s_x0 s < s_x1 t - 5 / 100 \<and> s_x0 t < s_x1 s - 5 / 100 \<and> s_y0 s < s_y1 t - 5 / 100 \<and> s_y0 t < s_y1 s - 5 / 100
       then [ShapeOverlap (s_name s) (s_name t)] else []) (pairs_of shapes))"

text \<open>\<^verbatim>\<open>int(L / 0.2)\<close> for the length \<^verbatim>\<open>L\<close> of a segment, from its square.\<close>

fun nat_sqrt :: "nat \<Rightarrow> nat" where
  "nat_sqrt n = (if n = 0 then 0 else let s = 2 * nat_sqrt (n div 4) in if (s + 1) ^ 2 \<le> n then s + 1 else s)"

declare nat_sqrt.simps [simp del]

definition wire_steps :: "pt \<Rightarrow> pt \<Rightarrow> nat" where
  "wire_steps a b = max 2 (nat_sqrt (nat \<lfloor>25 * dist2 a b\<rfloor>))"

text \<open>The points sampled on a segment: deep inside the shape, or too close to it away from the ends.\<close>

fun sample :: "pt \<Rightarrow> pt \<Rightarrow> pt list \<Rightarrow> nat \<Rightarrow> nat list \<Rightarrow> string option \<Rightarrow> string option" where
  "sample a b poly n [] bad = bad"
| "sample a b poly n (k # ks) bad =
     (let tt = of_nat k / of_nat n; p = along a b tt; de = min tt (1 - tt) ^ 2 * dist2 a b;
          inside = pip p poly; d = dist_poly_edge p poly
      in if inside \<and> d > (15 / 100) ^ 2 then Some ''through''
         else sample a b poly n ks (if de > 1 \<and> d < CLEAR ^ 2 \<and> \<not> inside \<and> bad = None then Some ''grazes'' else bad))"

definition near_box :: "pt \<Rightarrow> pt \<Rightarrow> shape \<Rightarrow> bool" where
  "near_box a b s \<longleftrightarrow>
     \<not> (max (fst a) (fst b) < s_x0 s - 3 / 2 \<or> min (fst a) (fst b) > s_x1 s + 3 / 2 \<or>
        max (snd a) (snd b) < s_y0 s - 3 / 2 \<or> min (snd a) (snd b) > s_y1 s + 3 / 2)"

definition wire_shape_errors :: "shape list \<Rightarrow> seg list \<Rightarrow> layout_error list" where
  "wire_shape_errors shapes segs =
     concat (map (\<lambda>(net0, li, i, a, b). concat (map (\<lambda>s.
       if near_box a b s
       then (case sample a b (s_poly s) (wire_steps a b) [0..<Suc (wire_steps a b)] None of
               None \<Rightarrow> [] | Some bad \<Rightarrow> [WireHits bad net0 a b (s_name s)])
       else []) shapes)) segs)"

definition touch_errors :: "seg \<Rightarrow> seg \<Rightarrow> layout_error list" where
  "touch_errors = (\<lambda>(n1, _, _, a1, b1) (n2, _, _, a2, b2).
     concat (map (\<lambda>p. if dist_seg p a2 b2 < (6 / 10) ^ 2 then [Touch n1 p n2] else []) [a1, b1])
     @ concat (map (\<lambda>p. if dist_seg p a1 b1 < (6 / 10) ^ 2 then [Touch n2 p n1] else []) [a2, b2]))"

definition parallel_errors :: "seg \<Rightarrow> seg \<Rightarrow> layout_error list" where
  "parallel_errors = (\<lambda>(n1, _, _, a1, b1) (n2, _, _, a2, b2).
     let h1 = horiz a1 b1; h2 = horiz a2 b2
     in if h1 \<and> h2 then
          (let lo = max (min (fst a1) (fst b1)) (min (fst a2) (fst b2)); hi = min (max (fst a1) (fst b1)) (max (fst a2) (fst b2))
           in if hi - lo > 5 / 100 \<and> \<bar>snd a1 - snd a2\<bar> < MIN_PAR then [ParallelH n1 n2 (snd a1) (snd a2) lo hi] else [])
        else if \<not> h1 \<and> \<not> h2 then
          (let lo = max (min (snd a1) (snd b1)) (min (snd a2) (snd b2)); hi = min (max (snd a1) (snd b1)) (max (snd a2) (snd b2))
           in if hi - lo > 5 / 100 \<and> \<bar>fst a1 - fst a2\<bar> < MIN_PAR then [ParallelV n1 n2 (fst a1) (fst a2) lo hi] else [])
        else [])"

definition wire_pair_errors :: "seg list \<Rightarrow> layout_error list" where
  "wire_pair_errors segs =
     concat (map (\<lambda>(s1, s2). if fst s1 = fst s2 then [] else parallel_errors s1 s2 @ touch_errors s1 s2) (pairs_of segs))"

definition poly_bbox :: "pt list \<Rightarrow> bbox" where
  "poly_bbox pol = (min_of (map fst pol), min_of (map snd pol), max_of (map fst pol), max_of (map snd pol))"

definition boxes_meet :: "bbox \<Rightarrow> bbox \<Rightarrow> bool" where
  "boxes_meet = (\<lambda>(a0, a1, a2, a3) (b0, b1, b2, b3). a0 < b2 \<and> b0 < a2 \<and> a1 < b3 \<and> b1 < a3)"

text \<open>Some point of a grid of nine by five points of the box lies in the polygon.\<close>

definition label_hits :: "bbox \<Rightarrow> pt list \<Rightarrow> bool" where
  "label_hits bb pol =
     (let (x0, y0, x1, y1) = bb
      in boxes_meet bb (poly_bbox pol) \<and>
         list_ex (\<lambda>u. list_ex (\<lambda>v. pip (x0 + (x1 - x0) * of_nat u / 8, y0 + (y1 - y0) * of_nat v / 4) pol) [0..<5]) [0..<9])"

definition label_errors :: "shape list \<Rightarrow> seg list \<Rightarrow> label list \<Rightarrow> layout_error list" where
  "label_errors shapes segs ls =
     concat (map (\<lambda>L. let bb = label_bbox L in
       concat (map (\<lambda>s. if list_ex (label_hits bb) (s_poly s # s_extra s) then [LabelShape (l_text L) (s_name s)] else []) shapes)
       @ concat (map (\<lambda>(net0, li, i, a, b). if seg_hits_box a b bb then [LabelWire (l_text L) net0] else []) segs)) ls)"

definition label_pair_errors :: "label list \<Rightarrow> layout_error list" where
  "label_pair_errors ls =
     concat (map (\<lambda>(L, M). if boxes_meet (label_bbox L) (label_bbox M) then [LabelOverlap (l_text L) (l_text M)] else []) (pairs_of ls))"

definition hop_errors :: "seg list \<Rightarrow> (rat \<times> rat \<times> string \<times> string) list \<Rightarrow> layout_error list" where
  "hop_errors segs xs =
     concat (map (\<lambda>(x, y, nh, nv). concat (map (\<lambda>(n, li, i, a, b).
       if n = nh \<and> horiz a b \<and> \<bar>snd a - y\<bar> < EPS \<and> min (fst a) (fst b) \<le> x \<and> x \<le> max (fst a) (fst b) \<and>
          min \<bar>x - fst a\<bar> \<bar>x - fst b\<bar> < HOP_R + 4 / 10
       then [HopCorner nh nv x y] else []) segs)) xs)"

definition verify :: "fig \<Rightarrow> layout_error list" where
  "verify f =
     (let segs = segments f; shapes = map snd (f_shapes f)
      in shape_errors shapes @ wire_shape_errors shapes segs @ wire_pair_errors segs
         @ label_errors shapes segs (f_labels f) @ label_pair_errors (f_labels f) @ hop_errors segs (crossings f))"

section \<open>Moving coordinates\<close>

definition map_pt :: "(rat \<Rightarrow> rat) \<Rightarrow> (rat \<Rightarrow> rat) \<Rightarrow> pt \<Rightarrow> pt" where
  "map_pt fx fy p = (fx (fst p), fy (snd p))"

definition map_bbox :: "(rat \<Rightarrow> rat) \<Rightarrow> (rat \<Rightarrow> rat) \<Rightarrow> bbox \<Rightarrow> bbox" where
  "map_bbox fx fy bb = (let (a, b, c, d) = bb in (fx a, fy b, fx c, fy d))"

definition map_shape :: "(rat \<Rightarrow> rat) \<Rightarrow> (rat \<Rightarrow> rat) \<Rightarrow> shape \<Rightarrow> shape" where
  "map_shape fx fy s =
     shape_bb (s\<lparr>s_pts := map (map_pt fx fy) (s_pts s), s_poly := map (map_pt fx fy) (s_poly s),
        s_extra := map (map (map_pt fx fy)) (s_extra s)\<rparr>)"

definition map_all :: "(rat \<Rightarrow> rat) \<Rightarrow> (rat \<Rightarrow> rat) \<Rightarrow> fig \<Rightarrow> fig" where
  "map_all fx fy f =
     f\<lparr>f_shapes := map (apsnd (map_shape fx fy)) (f_shapes f),
       f_nets := map (apsnd (\<lambda>n. n\<lparr>n_lines := map (\<lambda>l. l\<lparr>w_pts := map (map_pt fx fy) (w_pts l)\<rparr>) (n_lines n)\<rparr>)) (f_nets f),
       f_labels := map (\<lambda>L. L\<lparr>l_x := fx (l_x L), l_y := fy (l_y L)\<rparr>) (f_labels f),
       f_bands := map (apfst (map_bbox fx fy)) (f_bands f),
       f_groups := map (apfst (map_bbox fx fy)) (f_groups f),
       f_frames := map (map_bbox fx fy) (f_frames f)\<rparr>"

definition on_axis :: "string \<Rightarrow> (rat \<Rightarrow> rat) \<Rightarrow> fig \<Rightarrow> fig" where
  "on_axis axis m = (if axis = ''x'' then map_all m id else map_all id m)"

definition shift :: "rat \<Rightarrow> rat \<Rightarrow> string \<Rightarrow> fig \<Rightarrow> fig" where
  "shift v_from dv axis = on_axis axis (\<lambda>v. if v \<ge> v_from - 1 / 10 ^ 9 then v + dv else v)"

section \<open>Compaction\<close>

definition intervals :: "string \<Rightarrow> fig \<Rightarrow> (rat \<times> rat) list" where
  "intervals axis f =
     (let co = (\<lambda>p. if axis = ''x'' then fst p else snd p)
      in concat (map (\<lambda>s. map (\<lambda>pol. (min_of (map co pol), max_of (map co pol))) (s_poly s # s_extra s)) (map snd (f_shapes f)))
         @ map (\<lambda>L. let (x0, y0, x1, y1) = label_bbox L in if axis = ''x'' then (x0, x1) else (y0, y1)) (f_labels f)
         @ concat (map (\<lambda>(_, _, _, a, b). if (if axis = ''x'' then vert a b else horiz a b)
              then [(co a - 1 / 100, co a + 1 / 100)] else []) (segments f))
         @ concat (map (\<lambda>((x0, y0, x1, y1), _). map (\<lambda>v. (v - 1 / 100, v + 1 / 100)) (if axis = ''x'' then [x0, x1] else [y0, y1]))
              (f_groups f)))"

text \<open>The loop over the sorted intervals; the last merged interval is the head of the accumulator.\<close>

definition merge_step :: "rat \<times> rat \<Rightarrow> (rat \<times> rat) list \<Rightarrow> (rat \<times> rat) list" where
  "merge_step = (\<lambda>(lo, hi) acc.
     case acc of [] \<Rightarrow> [(lo, hi)]
     | (a, b) # r \<Rightarrow> if lo \<le> b + EPS then (a, max b hi) # r else (lo, hi) # acc)"

definition merged :: "(rat \<times> rat) list \<Rightarrow> (rat \<times> rat) list" where
  "merged iv = rev (fold merge_step (sort iv) [])"

definition cuts :: "rat \<Rightarrow> (rat \<times> rat) list \<Rightarrow> (rat \<times> rat) list \<Rightarrow> (rat \<times> rat) list" where
  "cuts gap keep ms =
     concat (map (\<lambda>((a, b), (c, d)).
       if c - b > gap \<and> \<not> list_ex (\<lambda>(lo, hi). lo \<le> b \<and> c \<le> hi) keep then [(b + gap, c - b - gap)] else []) (zip ms (tl ms)))"

definition squeeze :: "(rat \<times> rat) list \<Rightarrow> rat \<Rightarrow> rat" where
  "squeeze cs v = v - sum_list (map snd (filter (\<lambda>(p, _). v \<ge> p + 1 / 10 ^ 9) cs))"

definition compact :: "string \<Rightarrow> rat \<Rightarrow> (rat \<times> rat) list \<Rightarrow> fig \<Rightarrow> rat \<times> fig" where
  "compact axis gap keep f =
     (let cs = cuts gap keep (merged (intervals axis f))
      in (sum_list (map snd cs), on_axis axis (squeeze cs) f))"

definition extent :: "fig \<Rightarrow> bbox result" where
  "extent f =
     (let ps = concat (map (\<lambda>s. concat (s_poly s # s_extra s)) (map snd (f_shapes f)))
            @ concat (map (\<lambda>L. let (x0, y0, x1, y1) = label_bbox L in [(x0, y0), (x1, y1)]) (f_labels f))
            @ concat (map (\<lambda>(_, _, _, a, b). [a, b]) (segments f))
      in if ps = [] then Inl ValueError
         else Inr (min_of (map fst ps), min_of (map snd ps), max_of (map fst ps), max_of (map snd ps)))"

section \<open>Facts about segments\<close>

lemma nat_sqrt_bounds: "(nat_sqrt n) ^ 2 \<le> n \<and> n < (nat_sqrt n + 1) ^ 2"
proof (induction n rule: nat_sqrt.induct)
  case (1 n)
  show ?case
  proof (cases "n = 0")
    case False
    define s where "s = nat_sqrt (n div 4)"
    have s: "s ^ 2 \<le> n div 4" "n div 4 < (s + 1) ^ 2" using 1 False by (simp_all add: s_def)
    have "4 * s ^ 2 \<le> n" "n < 4 * (s + 1) ^ 2" using s by linarith+
    then have "(2 * s) ^ 2 \<le> n" "n < (2 * s + 2) ^ 2" by (simp_all add: power2_eq_square algebra_simps)
    then show ?thesis using False by (subst (1 2) nat_sqrt.simps) (auto simp: Let_def s_def [symmetric])
  qed (simp add: nat_sqrt.simps)
qed

lemma pairs_of_either: "x \<in> set xs \<Longrightarrow> y \<in> set xs \<Longrightarrow> x \<noteq> y \<Longrightarrow> (x, y) \<in> set (pairs_of xs) \<or> (y, x) \<in> set (pairs_of xs)"
  by (induction xs) auto

lemma set_pairs_of: "i < j \<Longrightarrow> j < length xs \<Longrightarrow> (xs ! i, xs ! j) \<in> set (pairs_of xs)"
proof (induction xs arbitrary: i j)
  case (Cons x xs)
  then show ?case by (cases i; cases j) auto
qed simp

lemma dist_seg_on: "0 \<le> t \<Longrightarrow> t \<le> 1 \<Longrightarrow> dist_seg (along a b t) a b = 0"
  using dist_seg_least [of t "along a b t" a b] dist_seg_nonneg [of "along a b t" a b] by (simp add: dist2_def)

text \<open>A value between two others is reached.\<close>

lemma between_along:
  fixes u v :: rat
  assumes "min u v \<le> z" "z \<le> max u v"
  shows "\<exists>t. 0 \<le> t \<and> t \<le> 1 \<and> u + t * (v - u) = z"
proof (cases "u = v")
  case True
  then show ?thesis using assms by (intro exI [of _ 0]) auto
next
  case False
  then show ?thesis using assms
    by (intro exI [of _ "(z - u) / (v - u)"]) (auto simp: divide_simps min_def max_def split: if_splits)
qed

lemma along_between:
  fixes u v :: rat
  assumes "0 \<le> t" "t \<le> 1"
  shows "min u v \<le> u + t * (v - u)" "u + t * (v - u) \<le> max u v"
proof -
  have e: "u + t * (v - u) = (1 - t) * u + t * v" by (simp add: algebra_simps)
  have m: "(1 - t) * z + t * z = z" for z :: rat by (simp add: algebra_simps)
  have "(1 - t) * min u v + t * min u v \<le> (1 - t) * u + t * v" using assms by (intro add_mono mult_left_mono) auto
  moreover have "(1 - t) * u + t * v \<le> (1 - t) * max u v + t * max u v" using assms by (intro add_mono mult_left_mono) auto
  ultimately show "min u v \<le> u + t * (v - u)" "u + t * (v - u) \<le> max u v" unfolding m e by blast+
qed

section \<open>What an empty list of messages means\<close>

text \<open>Two wires of different nets keep their ends at least 0.6 away from each other.\<close>

lemma verify_touch:
  assumes "verify f = []" "(n1, l1, i1, a1, b1) \<in> set (segments f)" "(n2, l2, i2, a2, b2) \<in> set (segments f)" "n1 \<noteq> n2"
    and "p \<in> {a1, b1}" "0 \<le> u" "u \<le> 1"
  shows "(6 / 10) ^ 2 \<le> dist2 p (along a2 b2 u)"
proof -
  let ?s1 = "(n1, l1, i1, a1, b1)" and ?s2 = "(n2, l2, i2, a2, b2)"
  have "wire_pair_errors (segments f) = []" using assms(1) by (simp add: verify_def Let_def)
  then have none: "touch_errors x y = []" if "(x, y) \<in> set (pairs_of (segments f))" "fst x \<noteq> fst y" for x y
    using that by (fastforce simp: wire_pair_errors_def)
  have "?s1 \<noteq> ?s2" using assms(4) by simp
  then have "touch_errors ?s1 ?s2 = [] \<or> touch_errors ?s2 ?s1 = []"
    using pairs_of_either [OF assms(2,3)] none assms(4) by fastforce
  then have "(6 / 10) ^ 2 \<le> dist_seg p a2 b2"
    using assms(5) by (auto simp: touch_errors_def not_less split: if_splits)
  also have "\<dots> \<le> dist2 p (along a2 b2 u)" by (rule dist_seg_least [OF assms(6,7)])
  finally show ?thesis .
qed

definition straight :: "pt \<Rightarrow> pt \<Rightarrow> bool" where
  "straight a b \<longleftrightarrow> fst a = fst b \<or> snd a = snd b"

text \<open>No end of one of them lies on the other; in particular they do not overlap along a line.\<close>

lemma verify_no_overlap:
  assumes v: "verify f = []" and s1: "(n1, l1, i1, a1, b1) \<in> set (segments f)" and s2: "(n2, l2, i2, a2, b2) \<in> set (segments f)" and n: "n1 \<noteq> n2"
    and c: "(\<lambda>p. snd p) = co \<and> fst a1 = fst b1 \<and> fst a2 = fst a1 \<and> fst b2 = fst a1 \<or>
            (\<lambda>p. fst p) = co \<and> snd a1 = snd b1 \<and> snd a2 = snd a1 \<and> snd b2 = snd a1"
    and z: "min (co a1) (co b1) \<le> z" "z \<le> max (co a1) (co b1)" "min (co a2) (co b2) \<le> z" "z \<le> max (co a2) (co b2)"
  shows False
proof -
  have on: "\<exists>u. 0 \<le> u \<and> u \<le> 1 \<and> along a2 b2 u = p" if "p \<in> {a1, b1}" "min (co a2) (co b2) \<le> co p" "co p \<le> max (co a2) (co b2)" for p
    using between_along [OF that(2,3)] that(1) c by (auto simp: along_def prod_eq_iff)
  have on': "\<exists>u. 0 \<le> u \<and> u \<le> 1 \<and> along a1 b1 u = p" if "p \<in> {a2, b2}" "min (co a1) (co b1) \<le> co p" "co p \<le> max (co a1) (co b1)" for p
    using between_along [OF that(2,3)] that(1) c by (auto simp: along_def prod_eq_iff)
  have no: "\<not> (min (co a2) (co b2) \<le> co p \<and> co p \<le> max (co a2) (co b2))" if p: "p \<in> {a1, b1}" for p
    using on [OF p] verify_touch [OF v s1 s2 n p] by (fastforce simp: dist2_def)
  have no': "\<not> (min (co a1) (co b1) \<le> co p \<and> co p \<le> max (co a1) (co b1))" if p: "p \<in> {a2, b2}" for p
    using on' [OF p] verify_touch [OF v s2 s1 n [symmetric] p] by (fastforce simp: dist2_def)
  show False using no [of a1] no [of b1] no' [of a2] no' [of b2] z by (auto simp: min_def max_def split: if_splits)
qed

definition hop_room :: "rat \<Rightarrow> pt \<Rightarrow> pt \<Rightarrow> bool" where
  "hop_room x a b \<longleftrightarrow> HOP_R + 4 / 10 \<le> \<bar>x - fst a\<bar> \<and> HOP_R + 4 / 10 \<le> \<bar>x - fst b\<bar>"

lemma in_concat_map: "x \<in> set xs \<Longrightarrow> y \<in> set (f x) \<Longrightarrow> y \<in> set (concat (map f xs))"
  by auto

lemma concat_map_nil: "concat (map f xs) = [] \<Longrightarrow> x \<in> set xs \<Longrightarrow> f x = []"
  by auto

lemma crossings_intro:
  assumes "(n1, l1, i1, a1, b1) \<in> set (segments f)" "(n2, l2, i2, a2, b2) \<in> set (segments f)" "n1 \<noteq> n2" "horiz a1 b1" "vert a2 b2"
    and "min (fst a1) (fst b1) + 3 / 10 < fst a2" "fst a2 < max (fst a1) (fst b1) - 3 / 10"
      "min (snd a2) (snd b2) + 3 / 10 < snd a1" "snd a1 < max (snd a2) (snd b2) - 3 / 10"
  shows "(fst a2, snd a1, n1, n2) \<in> set (crossings f)"
proof -
  have m: "(n1, l1, i1, a1, b1) \<in> set (filter (\<lambda>(_, _, _, a, b). horiz a b) (segments f))"
    "(n2, l2, i2, a2, b2) \<in> set (filter (\<lambda>(_, _, _, a, b). vert a b) (segments f))" using assms by simp_all
  show ?thesis
    unfolding crossings_def Let_def
    by (rule in_concat_map [OF m(1)], simp only: prod.case, rule in_concat_map [OF m(2)]) (use assms in simp)
qed

lemma hop_errors_none:
  assumes "hop_errors segs xs = []" "(x, y, nh, nv) \<in> set xs" "(nh, li, i, a, b) \<in> set segs"
  shows "\<not> (horiz a b \<and> \<bar>snd a - y\<bar> < EPS \<and> min (fst a) (fst b) \<le> x \<and> x \<le> max (fst a) (fst b) \<and>
      min \<bar>x - fst a\<bar> \<bar>x - fst b\<bar> < HOP_R + 4 / 10)"
  using concat_map_nil [OF concat_map_nil [OF assms(1) [unfolded hop_errors_def] assms(2), simplified prod.case] assms(3)]
  by (simp split: if_splits)

lemma verify_perpendicular:
  assumes v: "verify f = []" and s1: "(n1, l1, i1, a1, b1) \<in> set (segments f)" and s2: "(n2, l2, i2, a2, b2) \<in> set (segments f)" and n: "n1 \<noteq> n2"
    and h: "snd a1 = snd b1" "fst a2 = fst b2" and t: "0 \<le> t" "t \<le> 1" "0 \<le> u" "u \<le> 1" "along a1 b1 t = along a2 b2 u"
  shows "along a1 b1 t = (fst a2, snd a1) \<and> (fst a2, snd a1, n1, n2) \<in> set (crossings f) \<and> hop_room (fst a2) a1 b1"
proof -
  let ?p = "along a1 b1 t"
  have p: "?p = (fst a2, snd a1)" using h t(5) by (auto simp: along_def prod_eq_iff)
  have "fst a1 + t * (fst b1 - fst a1) = fst a2" using arg_cong [OF p, of fst] by (simp only: along_def fst_conv)
  then have x: "min (fst a1) (fst b1) \<le> fst a2" "fst a2 \<le> max (fst a1) (fst b1)"
    using along_between [OF t(1,2), of "fst a1" "fst b1"] by simp_all
  have "snd a2 + u * (snd b2 - snd a2) = snd a1" using arg_cong [OF p [unfolded t(5)], of snd] by (simp only: along_def snd_conv)
  then have y: "min (snd a2) (snd b2) \<le> snd a1" "snd a1 \<le> max (snd a2) (snd b2)"
    using along_between [OF t(3,4), of "snd a2" "snd b2"] by simp_all
  have far: "6 / 10 \<le> \<bar>z - w\<bar>" if "(6 / 10) ^ 2 \<le> (z - w :: rat) ^ 2" for z w :: rat
    using that abs_le_square_iff [of "6 / 10" "z - w"] by simp
  have "6 / 10 \<le> \<bar>fst q - fst a2\<bar>" if q: "q \<in> {a1, b1}" for q
    using verify_touch [OF v s1 s2 n q t(3,4)] q h p t(5) by (intro far) (auto simp: dist2_def)
  then have "6 / 10 \<le> \<bar>fst a1 - fst a2\<bar>" "6 / 10 \<le> \<bar>fst b1 - fst a2\<bar>" by blast+
  moreover have "6 / 10 \<le> \<bar>snd q - snd a1\<bar>" if q: "q \<in> {a2, b2}" for q
    using verify_touch [OF v s2 s1 n [symmetric] q t(1,2)] q h p by (intro far) (auto simp: dist2_def)
  then have "6 / 10 \<le> \<bar>snd a2 - snd a1\<bar>" "6 / 10 \<le> \<bar>snd b2 - snd a1\<bar>" by blast+
  ultimately have r: "min (fst a1) (fst b1) + 3 / 10 < fst a2" "fst a2 < max (fst a1) (fst b1) - 3 / 10"
    "min (snd a2) (snd b2) + 3 / 10 < snd a1" "snd a1 < max (snd a2) (snd b2) - 3 / 10"
    using x y by (auto simp: min_def max_def split: if_splits)
  have hv: "horiz a1 b1" "vert a2 b2" using h by (simp_all add: horiz_def vert_def EPS_def)
  have cr: "(fst a2, snd a1, n1, n2) \<in> set (crossings f)"
    by (rule crossings_intro [OF s1 s2 n hv r])
  have "hop_errors (segments f) (crossings f) = []" using v by (simp add: verify_def Let_def)
  from hop_errors_none [OF this cr s1]
  have "\<not> (horiz a1 b1 \<and> \<bar>snd a1 - snd a1\<bar> < EPS \<and> min (fst a1) (fst b1) \<le> fst a2 \<and> fst a2 \<le> max (fst a1) (fst b1) \<and>
      min \<bar>fst a2 - fst a1\<bar> \<bar>fst a2 - fst b1\<bar> < HOP_R + 4 / 10)" .
  then have "hop_room (fst a2) a1 b1" using hv x by (auto simp: hop_room_def EPS_def)
  then show ?thesis using p cr by blast
qed

section \<open>What compaction keeps\<close>

definition separated :: "(rat \<times> rat) list \<Rightarrow> bool" where
  "separated ms \<longleftrightarrow> (\<forall>(a, b) \<in> set ms. a \<le> b) \<and> sorted_wrt (\<lambda>p q. snd p < fst q) ms"

definition covered :: "(rat \<times> rat) list \<Rightarrow> rat \<Rightarrow> bool" where
  "covered ms v \<longleftrightarrow> (\<exists>(a, b) \<in> set ms. a \<le> v \<and> v \<le> b)"

text \<open>The merged intervals are separated and every interval lies in one of them.\<close>

lemma merge_fold:
  assumes "sorted iv" "\<forall>(lo, hi) \<in> set iv. lo \<le> hi" "\<forall>(a, b) \<in> set acc. a \<le> b" "sorted_wrt (\<lambda>p q. snd q < fst p) acc"
    and "acc \<noteq> [] \<Longrightarrow> \<forall>(lo, hi) \<in> set iv. fst (hd acc) \<le> lo"
  shows "(\<forall>(a, b) \<in> set (fold merge_step iv acc). a \<le> b) \<and> sorted_wrt (\<lambda>p q. snd q < fst p) (fold merge_step iv acc) \<and>
    (\<forall>(lo, hi) \<in> set iv \<union> set acc. \<exists>(a, b) \<in> set (fold merge_step iv acc). a \<le> lo \<and> hi \<le> b)"
  using assms
proof (induction iv arbitrary: acc)
  case (Cons i iv)
  obtain lo hi where i: "i = (lo, hi)" by (cases i)
  have lh: "lo \<le> hi" using Cons.prems(2) i by auto
  have later: "\<forall>(l, h) \<in> set iv. lo \<le> l"
  proof clarify
    fix l h assume "(l, h) \<in> set iv"
    then have "(lo, hi) \<le> (l, h)" using Cons.prems(1) i by auto
    then show "lo \<le> l" by (auto simp: less_eq_prod_simp)
  qed
  define acc' where "acc' = merge_step (lo, hi) acc"
  have step: "(\<forall>(a, b) \<in> set acc'. a \<le> b) \<and> sorted_wrt (\<lambda>p q. snd q < fst p) acc' \<and> acc' \<noteq> [] \<and> fst (hd acc') \<le> lo \<and>
      (\<forall>(l, h) \<in> insert (lo, hi) (set acc). \<exists>(a, b) \<in> set acc'. a \<le> l \<and> h \<le> b)"
  proof (cases acc)
    case Nil
    then show ?thesis using lh by (simp add: acc'_def merge_step_def)
  next
    case (Cons m r)
    obtain a b where m: "m = (a, b)" by (cases m)
    have al: "a \<le> lo" using Cons.prems(5) Cons m i by auto
    show ?thesis
    proof (cases "lo \<le> b + EPS")
      case True
      then have acc': "acc' = (a, max b hi) # r" by (simp add: acc'_def merge_step_def Cons m)
      show ?thesis using Cons.prems(3,4) al lh unfolding acc' Cons m by fastforce
    next
      case False
      then have acc': "acc' = (lo, hi) # (a, b) # r" by (simp add: acc'_def merge_step_def Cons m)
      have b: "b < lo" using False by (simp add: EPS_def)
      have "snd q < lo" if "q \<in> set ((a, b) # r)" for q
        using that Cons.prems(3,4) b unfolding Cons m by fastforce
      then show ?thesis using Cons.prems(3,4) lh unfolding acc' Cons m by auto
    qed
  qed
  have pre: "sorted iv" "\<forall>(lo, hi) \<in> set iv. lo \<le> hi" using Cons.prems(1,2) by simp_all
  have hd: "fst (hd acc') \<le> lo" using step by blast
  have pre': "\<forall>(l, h) \<in> set iv. fst (hd acc') \<le> l" using later hd by (auto dest!: bspec)
  have fold: "fold merge_step (i # iv) acc = fold merge_step iv acc'" by (simp add: acc'_def i)
  have IH: "(\<forall>(a, b) \<in> set (fold merge_step iv acc'). a \<le> b) \<and> sorted_wrt (\<lambda>p q. snd q < fst p) (fold merge_step iv acc') \<and>
    (\<forall>(lo, hi) \<in> set iv \<union> set acc'. \<exists>(a, b) \<in> set (fold merge_step iv acc'). a \<le> lo \<and> hi \<le> b)"
    using Cons.IH [of acc'] pre pre' step by blast
  have "\<exists>(a, b) \<in> set (fold merge_step iv acc'). a \<le> l \<and> h \<le> b" if "(l, h) \<in> set (i # iv) \<union> set acc" for l h
  proof (cases "(l, h) \<in> set iv")
    case False
    then have "(l, h) \<in> insert (lo, hi) (set acc)" using that i by auto
    then obtain a b where "(a, b) \<in> set acc'" "a \<le> l" "h \<le> b" using step by fast
    moreover obtain c d where "(c, d) \<in> set (fold merge_step iv acc')" "c \<le> a" "b \<le> d" using IH \<open>(a, b) \<in> set acc'\<close> by fast
    ultimately show ?thesis by (intro bexI [of _ "(c, d)"]) auto
  qed (use IH in fast)
  then show ?case unfolding fold using IH by blast
qed fastforce

lemma merged_facts:
  assumes "\<forall>(lo, hi) \<in> set iv. lo \<le> hi"
  shows "separated (merged iv)" "(lo, hi) \<in> set iv \<Longrightarrow> \<exists>(a, b) \<in> set (merged iv). a \<le> lo \<and> hi \<le> b"
proof -
  have "(\<forall>(a, b) \<in> set (fold merge_step (sort iv) []). a \<le> b) \<and> sorted_wrt (\<lambda>p q. snd q < fst p) (fold merge_step (sort iv) []) \<and>
    (\<forall>(lo, hi) \<in> set (sort iv) \<union> set []. \<exists>(a, b) \<in> set (fold merge_step (sort iv) []). a \<le> lo \<and> hi \<le> b)"
    by (rule merge_fold) (use assms in auto)
  then show "separated (merged iv)" "(lo, hi) \<in> set iv \<Longrightarrow> \<exists>(a, b) \<in> set (merged iv). a \<le> lo \<and> hi \<le> b"
    by (auto simp: separated_def merged_def sorted_wrt_rev)
qed

lemma separated_Cons:
  "separated ((a, b) # ms) \<longleftrightarrow> a \<le> b \<and> (\<forall>(c, d) \<in> set ms. b < c) \<and> separated ms"
  by (auto simp: separated_def)

lemma cuts_Cons2:
  "cuts gap keep ((a, b) # (c, d) # ms) =
     (if c - b > gap \<and> \<not> list_ex (\<lambda>(lo, hi). lo \<le> b \<and> c \<le> hi) keep then [(b + gap, c - b - gap)] else []) @ cuts gap keep ((c, d) # ms)"
  by (simp add: cuts_def)

lemma cuts_short [simp]: "cuts gap keep [] = []" "cuts gap keep [m] = []"
  by (simp_all add: cuts_def)

lemma cuts_after:
  assumes "separated ((a, b) # ms)" "0 \<le> gap" "(p, amt) \<in> set (cuts gap keep ((a, b) # ms))"
  shows "b \<le> p \<and> 0 < amt"
  using assms
proof (induction ms arbitrary: a b)
  case (Cons m ms)
  obtain c d where m: "m = (c, d)" by (cases m)
  show ?case using Cons.IH [of c d] Cons.prems unfolding m cuts_Cons2
    by (auto simp: separated_Cons split: if_splits)
qed simp

lemma squeeze_first:
  assumes "separated ((a, b) # ms)" "0 \<le> gap" "v \<le> b"
  shows "squeeze (cuts gap keep ((a, b) # ms)) v = v"
proof -
  have none: "filter (\<lambda>(p, _). v \<ge> p + 1 / 10 ^ 9) (cuts gap keep ((a, b) # ms)) = []"
    unfolding filter_empty_conv
  proof (intro ballI)
    fix x assume x: "x \<in> set (cuts gap keep ((a, b) # ms))"
    obtain p amt where "x = (p, amt)" by (cases x)
    with cuts_after [OF assms(1,2), of p amt keep] x assms(3) show "\<not> (case x of (p, _) \<Rightarrow> v \<ge> p + 1 / 10 ^ 9)" by simp
  qed
  show ?thesis unfolding squeeze_def none by simp
qed

lemma squeeze_append: "squeeze (cs @ ds) v = squeeze ds v - sum_list (map snd (filter (\<lambda>(p, _). v \<ge> p + 1 / 10 ^ 9) cs))"
  by (simp add: squeeze_def)

text \<open>Beyond the first corridor the map is that of the rest, moved by what is cut out of the corridor.\<close>

lemma squeeze_rest:
  assumes "separated ((a, b) # (c, d) # ms)" "\<forall>(p, amt) \<in> set (cuts gap keep ((a, b) # (c, d) # ms)). 1 / 10 ^ 9 \<le> amt"
  obtains k where "k = 0 \<or> k = c - b - gap \<and> 0 < k"
    and "\<And>v. c \<le> v \<Longrightarrow> squeeze (cuts gap keep ((a, b) # (c, d) # ms)) v = squeeze (cuts gap keep ((c, d) # ms)) v - k"
proof (cases "c - b > gap \<and> \<not> list_ex (\<lambda>(lo, hi). lo \<le> b \<and> c \<le> hi) keep")
  case True
  have "(b + gap, c - b - gap) \<in> set (cuts gap keep ((a, b) # (c, d) # ms))" unfolding cuts_Cons2 if_P [OF True] by simp
  with assms(2) have "1 / 10 ^ 9 \<le> c - b - gap" by fast
  then have "squeeze (cuts gap keep ((a, b) # (c, d) # ms)) v = squeeze (cuts gap keep ((c, d) # ms)) v - (c - b - gap)" if "c \<le> v" for v
    unfolding cuts_Cons2 if_P [OF True] squeeze_append using that by simp
  then show thesis using that [of "c - b - gap"] True by simp
next
  case False
  have "squeeze (cuts gap keep ((a, b) # (c, d) # ms)) v = squeeze (cuts gap keep ((c, d) # ms)) v" for v
    unfolding cuts_Cons2 if_not_P [OF False] by simp
  then show thesis using that [of 0] by simp
qed

lemma squeeze_covered:
  assumes "separated ms" "0 \<le> gap" "\<forall>(p, amt) \<in> set (cuts gap keep ms). 1 / 10 ^ 9 \<le> amt" "covered ms u" "covered ms v" "u \<le> v"
  defines "m \<equiv> squeeze (cuts gap keep ms)"
  shows "min gap (v - u) \<le> m v - m u \<and> m v - m u \<le> v - u \<and> ((\<exists>(a, b) \<in> set ms. a \<le> u \<and> v \<le> b) \<longrightarrow> m v - m u = v - u)"
  using assms(1,3-6) unfolding m_def
proof (induction ms arbitrary: u v)
  case (Cons ab ms)
  obtain a b where ab: "ab = (a, b)" by (cases ab)
  have sep: "separated ((a, b) # ms)" using Cons.prems(1) ab by simp
  show ?case
  proof (cases "v \<le> b")
    case True
    then show ?thesis using squeeze_first [OF sep assms(2), of v keep] squeeze_first [OF sep assms(2), of u keep] Cons.prems(5) unfolding ab by auto
  next
    case vb: False
    then have cv: "covered ms v" using Cons.prems(4) ab by (auto simp: covered_def)
    then obtain c d ms' where ms: "ms = (c, d) # ms'" by (cases ms) (auto simp: covered_def)
    have sep': "separated ((c, d) # ms')" and bc: "b < c" using sep ms by (auto simp: separated_Cons)
    have first: "c \<le> w" if "covered ((c, d) # ms') w" for w
      using that sep' by (fastforce simp: covered_def separated_Cons)
    obtain k where k: "k = 0 \<or> k = c - b - gap \<and> 0 < k"
      and sq: "\<And>w. c \<le> w \<Longrightarrow> squeeze (cuts gap keep (ab # ms)) w = squeeze (cuts gap keep ms) w - k"
      using squeeze_rest [of a b c d ms' gap keep] sep Cons.prems(2) unfolding ab ms by metis
    have small: "\<forall>(p, amt) \<in> set (cuts gap keep ms). 1 / 10 ^ 9 \<le> amt"
      using Cons.prems(2) unfolding ab ms cuts_Cons2 by (auto split: if_splits)
    note IH = Cons.IH [OF sep' [folded ms] small _ cv]
    show ?thesis
    proof (cases "u \<le> b")
      case False
      then have cu: "covered ms u" using Cons.prems(3) ab by (auto simp: covered_def)
      have "squeeze (cuts gap keep (ab # ms)) u = squeeze (cuts gap keep ms) u - k"
        "squeeze (cuts gap keep (ab # ms)) v = squeeze (cuts gap keep ms) v - k" using sq first cu cv ms by auto
      then show ?thesis using IH [OF cu Cons.prems(5)] False vb ab by auto
    next
      case True
      have cc: "covered ms c" using sep' unfolding ms covered_def by (intro bexI [of _ "(c, d)"]) (auto simp: separated_Cons)
      have "c \<le> d" using sep' by (simp add: separated_Cons)
      then have "squeeze (cuts gap keep ms) c = c" unfolding ms by (rule squeeze_first [OF sep' assms(2)])
      moreover have "squeeze (cuts gap keep (ab # ms)) u = u" unfolding ab by (rule squeeze_first [OF sep assms(2) True])
      moreover have "c \<le> v" using first cv ms by simp
      moreover note sq [OF this] IH [OF cc this]
      moreover have "\<not> (\<exists>(a, b) \<in> set (ab # ms). a \<le> u \<and> v \<le> b)"
        using True vb bc sep unfolding ab by (fastforce simp: separated_Cons)
      ultimately show ?thesis using k True bc assms(2) by (auto simp: min_def split: if_splits)
    qed
  qed
qed (simp add: covered_def)

lemma min_of_shift:
  fixes xs :: "rat list"
  assumes "xs \<noteq> []" "\<And>x. x \<in> set xs \<Longrightarrow> m x = x - k"
  shows "min_of (map m xs) = min_of xs - k" "max_of (map m xs) = max_of xs - k"
proof -
  have "min_of (map m xs) \<in> (\<lambda>x. x - k) ` set xs" using min_of_in [of "map m xs"] assms by auto
  moreover have "min_of (map m xs) \<le> min_of xs - k"
    using min_of_le [of "m (min_of xs)" "map m xs"] min_of_in [OF assms(1)] assms(2) by simp
  ultimately show "min_of (map m xs) = min_of xs - k" using min_of_le [of _ xs] by force
  have "max_of (map m xs) \<in> (\<lambda>x. x - k) ` set xs" using max_of_in [of "map m xs"] assms by auto
  moreover have "max_of xs - k \<le> max_of (map m xs)"
    using max_of_ge [of "m (max_of xs)" "map m xs"] max_of_in [OF assms(1)] assms(2) by simp
  ultimately show "max_of (map m xs) = max_of xs - k" using max_of_ge [of _ xs] by force
qed

text \<open>The span of a shape along an axis.\<close>

definition span_of :: "string \<Rightarrow> shape \<Rightarrow> rat \<times> rat" where
  "span_of axis s = (if axis = ''x'' then (s_x0 s, s_x1 s) else (s_y0 s, s_y1 s))"

lemma label_bbox_le:
  assumes "0 \<le> num_val (l_size L)" "label_bbox L = (x0, y0, x1, y1)"
  shows "x0 < x1" "y0 < y1"
proof -
  obtain w h where wh: "text_wh (l_text L) (num_val (l_size L)) = (w, h)" by fastforce
  have "0 \<le> of_nat n * (c * num_val (l_size L))" if "0 \<le> c" for n and c :: rat
    using assms(1) that by (intro mult_nonneg_nonneg) auto
  then have "0 \<le> fst (text_wh (l_text L) (num_val (l_size L)))" "0 \<le> snd (text_wh (l_text L) (num_val (l_size L)))"
    unfolding text_wh_def Let_def fst_conv snd_conv by (meson divide_nonneg_nonneg zero_le_numeral)+
  then have "0 \<le> w" "0 \<le> h" using wh by simp_all
  moreover obtain cx cy where "x0 = cx - (w + 5 / 10) / 2" "y0 = cy - (h + 3 / 10) / 2" "x1 = cx + (w + 5 / 10) / 2" "y1 = cy + (h + 3 / 10) / 2"
    using assms(2) unfolding label_bbox_def wh Let_def prod.case by blast
  moreover have "0 < (w + 5 / 10) / 2" "0 < (h + 3 / 10) / 2" using \<open>0 \<le> w\<close> \<open>0 \<le> h\<close> by simp_all
  moreover have "c - r < c + r" if "0 < r" for c r :: rat using that by simp
  ultimately have "x0 < x1 \<and> y0 < y1" by blast
  then show "x0 < x1" "y0 < y1" by simp_all
qed

lemma intervals_le:
  assumes "fig_ok f" "\<forall>L \<in> set (f_labels f). 0 \<le> num_val (l_size L)"
  shows "\<forall>(lo, hi) \<in> set (intervals axis f). lo \<le> hi"
proof -
  have p: "min_of (map co pol) \<le> max_of (map co pol)" if "pol \<noteq> [] \<or> True" for co :: "pt \<Rightarrow> rat" and pol
  proof (cases pol)
    case (Cons p ps)
    then have "co p \<in> set (map co pol)" by simp
    then show ?thesis using min_of_le max_of_ge order_trans by blast
  qed (simp add: min_of_def max_of_def)
  have l: "case (let (x0, y0, x1, y1) = label_bbox L in if axis = ''x'' then (x0, x1) else (y0, y1)) of (lo, hi) \<Rightarrow> lo \<le> hi"
    if "L \<in> set (f_labels f)" for L
  proof -
    obtain x0 y0 x1 y1 where bb: "label_bbox L = (x0, y0, x1, y1)" by (metis prod_cases4)
    show ?thesis using label_bbox_le [OF _ bb] assms(2) that unfolding bb by (simp add: less_imp_le)
  qed
  let ?co = "\<lambda>p. if axis = ''x'' then fst p else snd p"
  let ?le = "\<lambda>i. case i of (lo, hi) \<Rightarrow> lo \<le> (hi :: rat)"
  have "\<forall>i \<in> set (concat (map (\<lambda>s. map (\<lambda>pol. (min_of (map ?co pol), max_of (map ?co pol))) (s_poly s # s_extra s)) (map snd (f_shapes f)))). ?le i"
    using p by auto
  moreover have "\<forall>i \<in> set (map (\<lambda>L. let (x0, y0, x1, y1) = label_bbox L in if axis = ''x'' then (x0, x1) else (y0, y1)) (f_labels f)). ?le i"
    using l by auto
  moreover have "\<forall>i \<in> set (concat (map (\<lambda>(_, _, _, a, b). if (if axis = ''x'' then vert a b else horiz a b)
      then [(?co a - 1 / 100, ?co a + 1 / 100)] else []) (segments f))). ?le i"
    by (auto split: if_splits)
  moreover have "\<forall>i \<in> set (concat (map (\<lambda>((x0, y0, x1, y1), _). map (\<lambda>v. (v - 1 / 100, v + 1 / 100)) (if axis = ''x'' then [x0, x1] else [y0, y1]))
      (f_groups f))). ?le i"
    by (auto split: if_splits)
  ultimately show ?thesis unfolding intervals_def Let_def set_append ball_Un by blast
qed

lemma span_interval:
  assumes "shape_ok s" "(n, s) \<in> set (f_shapes f)"
  shows "span_of axis s \<in> set (intervals axis f)"
  using assms by (fastforce simp: intervals_def span_of_def shape_ok_def Let_def)

lemma span_map:
  assumes "shape_ok s" "\<And>x. fst (span_of axis s) \<le> x \<Longrightarrow> x \<le> snd (span_of axis s) \<Longrightarrow> m x = x - k"
  shows "span_of axis (if axis = ''x'' then map_shape m id s else map_shape id m s) = (fst (span_of axis s) - k, snd (span_of axis s) - k)"
proof (cases "axis = ''x''")
  case True
  have m: "m x = x - k" if "x \<in> set (map fst (s_poly s))" for x
    using assms min_of_le [OF that] max_of_ge [OF that] True by (simp add: span_of_def shape_ok_def)
  have ne: "map fst (s_poly s) \<noteq> []" using assms(1) by (simp add: shape_ok_def)
  show ?thesis using assms(1) True min_of_shift [OF ne m]
    by (simp add: span_of_def shape_ok_def map_shape_def shape_bb_def map_pt_def o_def Let_def)
next
  case False
  have m: "m x = x - k" if "x \<in> set (map snd (s_poly s))" for x
    using assms min_of_le [OF that] max_of_ge [OF that] False by (simp add: span_of_def shape_ok_def)
  have ne: "map snd (s_poly s) \<noteq> []" using assms(1) by (simp add: shape_ok_def)
  show ?thesis using assms(1) False min_of_shift [OF ne m]
    by (simp add: span_of_def shape_ok_def map_shape_def shape_bb_def map_pt_def o_def Let_def)
qed

section \<open>Properties\<close>

text \<open>C21: If \<^verbatim>\<open>verify\<close> finds nothing, two wires of different nets meet only where one crosses the other at a right angle:
  every common point is a crossing that \<^verbatim>\<open>crossings\<close> lists, so it is drawn with a hop, and the hop has room on the
  horizontal wire. They never touch, overlap or run into each other. The segments are exactly level or upright (the engine
  itself allows them a millionth).\<close>

theorem verify_crossings:
  assumes "verify f = []" "(n1, l1, i1, a1, b1) \<in> set (segments f)" "(n2, l2, i2, a2, b2) \<in> set (segments f)" "n1 \<noteq> n2"
    and "straight a1 b1" "straight a2 b2" "0 \<le> t" "t \<le> 1" "0 \<le> u" "u \<le> 1" "along a1 b1 t = along a2 b2 u"
  shows "\<exists>x y. along a1 b1 t = (x, y) \<and>
    ((x, y, n1, n2) \<in> set (crossings f) \<and> hop_room x a1 b1 \<or> (x, y, n2, n1) \<in> set (crossings f) \<and> hop_room x a2 b2)"
proof -
  note ov = verify_no_overlap [OF assms(1-4)]
  note bx1 = along_between [OF assms(7,8), of "fst a1" "fst b1"] and by1 = along_between [OF assms(7,8), of "snd a1" "snd b1"]
  note bx2 = along_between [OF assms(9,10), of "fst a2" "fst b2"] and by2 = along_between [OF assms(9,10), of "snd a2" "snd b2"]
  have eq: "fst a1 + t * (fst b1 - fst a1) = fst a2 + u * (fst b2 - fst a2)" "snd a1 + t * (snd b1 - snd a1) = snd a2 + u * (snd b2 - snd a2)"
    using assms(11) by (simp_all add: along_def)
  consider "snd a1 = snd b1" "fst a2 = fst b2" | "fst a1 = fst b1" "snd a2 = snd b2"
    | "fst a1 = fst b1" "fst a2 = fst b2" | "snd a1 = snd b1" "snd a2 = snd b2"
    using assms(5,6) by (auto simp: straight_def)
  then show ?thesis
  proof cases
    case 1
    from verify_perpendicular [OF assms(1-4) this assms(7-11)] show ?thesis by auto
  next
    case 2
    from verify_perpendicular [OF assms(1,3,2) assms(4) [symmetric] 2(2,1) assms(9,10,7,8) assms(11) [symmetric]]
    show ?thesis using assms(11) by auto
  next
    case 3
    then have "fst a2 = fst a1" using eq(1) by simp
    with 3 ov [of snd "snd a1 + t * (snd b1 - snd a1)"] by1 by2 eq(2) show ?thesis by simp
  next
    case 4
    then have "snd a2 = snd a1" using eq(2) by simp
    with 4 ov [of fst "fst a1 + t * (fst b1 - fst a1)"] bx1 bx2 eq(1) show ?thesis by simp
  qed
qed

text \<open>C23: If \<^verbatim>\<open>verify\<close> finds nothing, no point of a wire lies inside the box of a label and no point lies inside the boxes of
  two labels.\<close>

theorem verify_labels:
  assumes "verify f = []" "i < length (f_labels f)" "0 \<le> num_val (l_size (f_labels f ! i))"
  shows "(\<forall>n li k a b t. (n, li, k, a, b) \<in> set (segments f) \<longrightarrow> straight a b \<longrightarrow> snd a = snd b \<or> EPS \<le> \<bar>snd a - snd b\<bar> \<longrightarrow>
      0 \<le> t \<longrightarrow> t \<le> 1 \<longrightarrow> \<not> in_box (along a b t) (label_bbox (f_labels f ! i))) \<and>
    (\<forall>j p. j < length (f_labels f) \<longrightarrow> j \<noteq> i \<longrightarrow>
      \<not> (in_box p (label_bbox (f_labels f ! i)) \<and> in_box p (label_bbox (f_labels f ! j))))"
proof (intro conjI allI impI)
  let ?L = "f_labels f ! i"
  obtain x0 y0 x1 y1 where bb: "label_bbox ?L = (x0, y0, x1, y1)" by (metis prod_cases4)
  have L: "?L \<in> set (f_labels f)" using assms(2) by simp
  fix n li k a b and t :: rat
  assume s: "(n, li, k, a, b) \<in> set (segments f)" and st: "straight a b" "snd a = snd b \<or> EPS \<le> \<bar>snd a - snd b\<bar>" and t: "0 \<le> t" "t \<le> 1"
  have "label_errors (map snd (f_shapes f)) (segments f) (f_labels f) = []" using assms(1) by (simp add: verify_def Let_def)
  from concat_map_nil [OF this [unfolded label_errors_def] L]
  have "concat (map (\<lambda>(n, li, k, a, b). if seg_hits_box a b (label_bbox ?L) then [LabelWire (l_text ?L) n] else []) (segments f)) = []"
    by (simp add: Let_def)
  from concat_map_nil [OF this s] have "\<not> seg_hits_box a b (label_bbox ?L)" by (simp split: if_splits)
  then show "\<not> in_box (along a b t) (label_bbox ?L)"
    using seg_hits_box_iff [of a b x0 x1 y0 y1] label_bbox_le [OF assms(3) bb] st t unfolding bb straight_def by blast
next
  fix j p assume j: "j < length (f_labels f)" "j \<noteq> i"
  have "label_pair_errors (f_labels f) = []" using assms(1) by (simp add: verify_def Let_def)
  then have none: "\<not> boxes_meet (label_bbox L) (label_bbox M)" if "(L, M) \<in> set (pairs_of (f_labels f))" for L M
    using that by (fastforce simp: label_pair_errors_def)
  have "(f_labels f ! i, f_labels f ! j) \<in> set (pairs_of (f_labels f)) \<or> (f_labels f ! j, f_labels f ! i) \<in> set (pairs_of (f_labels f))"
    using set_pairs_of [of i j "f_labels f"] set_pairs_of [of j i "f_labels f"] j assms(2) by linarith
  then show "\<not> (in_box p (label_bbox (f_labels f ! i)) \<and> in_box p (label_bbox (f_labels f ! j)))"
    using none by (fastforce simp: in_box_def boxes_meet_def split_beta Let_def)
qed

text \<open>C22: Compaction keeps the shapes of a figure: along its axis every shape keeps its width, and two shapes that lie one behind
  the other stay so, come no closer than \<^verbatim>\<open>gap\<close> unless they were closer before, and never move apart. The figure
  must not have a corridor wider than \<^verbatim>\<open>gap\<close> by less than a billionth.\<close>

theorem compact_keeps_shapes:
  assumes "compact axis gap keep f = (saved, g)" "0 \<le> gap" "fig_ok f" "\<forall>L \<in> set (f_labels f). 0 \<le> num_val (l_size L)"
    and "\<forall>(p, amt) \<in> set (cuts gap keep (merged (intervals axis f))). 1 / 10 ^ 9 \<le> amt"
    and "i < length (f_shapes f)" "j < length (f_shapes f)"
    and "span_of axis (snd (f_shapes f ! i)) = (lo, hi)" "span_of axis (snd (f_shapes f ! j)) = (lo', hi')"
    and "span_of axis (snd (f_shapes g ! i)) = (mlo, mhi)" "span_of axis (snd (f_shapes g ! j)) = (mlo', mhi')"
  shows "mhi - mlo = hi - lo \<and> (hi \<le> lo' \<longrightarrow> min gap (lo' - hi) \<le> mlo' - mhi \<and> mlo' - mhi \<le> lo' - hi)"
proof -
  let ?ms = "merged (intervals axis f)" and ?m = "squeeze (cuts gap keep (merged (intervals axis f)))"
  note iv = merged_facts [OF intervals_le [OF assms(3,4), of axis]]
  have g: "g = on_axis axis ?m f" using assms(1) by (simp add: compact_def Let_def)
  have in_one: "\<exists>(a, b) \<in> set ?ms. a \<le> l \<and> h \<le> b" and le: "l \<le> h" and ok: "shape_ok (snd (f_shapes f ! k))"
    if k: "k < length (f_shapes f)" "span_of axis (snd (f_shapes f ! k)) = (l, h)" for k l h
  proof -
    have mem: "(fst (f_shapes f ! k), snd (f_shapes f ! k)) \<in> set (f_shapes f)" using k(1) by simp
    then show ok: "shape_ok (snd (f_shapes f ! k))" using assms(3) by (auto simp: fig_ok_def)
    have "(l, h) \<in> set (intervals axis f)" using span_interval [OF ok mem, of axis] k(2) by simp
    then show "\<exists>(a, b) \<in> set ?ms. a \<le> l \<and> h \<le> b" "l \<le> h" using iv(2) intervals_le [OF assms(3,4), of axis] by auto
  qed
  have moved: "mh - ml = h - l \<and> ml = ?m l \<and> mh = ?m h"
    if k: "k < length (f_shapes f)" "span_of axis (snd (f_shapes f ! k)) = (l, h)" "span_of axis (snd (f_shapes g ! k)) = (ml, mh)" for k l h ml mh
  proof -
    obtain a b where ab: "(a, b) \<in> set ?ms" "a \<le> l" "h \<le> b" using in_one [OF k(1,2)] by fast
    have "?m x = x - (l - ?m l)" if x: "l \<le> x" "x \<le> h" for x
    proof -
      have "covered ?ms l" "covered ?ms x" unfolding covered_def using ab x by (intro bexI [OF _ ab(1)]; simp)+
      moreover have "\<exists>(a, b) \<in> set ?ms. a \<le> l \<and> x \<le> b" using ab x by (intro bexI [OF _ ab(1)]) simp
      ultimately show ?thesis using squeeze_covered [OF iv(1) assms(2,5), of l x] x(1) by simp
    qed
    then have m: "\<And>x. fst (span_of axis (snd (f_shapes f ! k))) \<le> x \<Longrightarrow> x \<le> snd (span_of axis (snd (f_shapes f ! k))) \<Longrightarrow> ?m x = x - (l - ?m l)"
      unfolding k(2) fst_conv snd_conv by blast
    have gk: "snd (f_shapes g ! k) = (if axis = ''x'' then map_shape ?m id (snd (f_shapes f ! k)) else map_shape id ?m (snd (f_shapes f ! k)))"
      using k(1) by (simp add: g on_axis_def map_all_def)
    have "span_of axis (snd (f_shapes g ! k)) =
        (fst (span_of axis (snd (f_shapes f ! k))) - (l - ?m l), snd (span_of axis (snd (f_shapes f ! k))) - (l - ?m l))"
      unfolding gk by (rule span_map [OF ok [OF k(1,2)] m])
    then have "(ml, mh) = (l - (l - ?m l), h - (l - ?m l))" by (simp only: k(2,3) fst_conv snd_conv)
    moreover have "?m h = h - (l - ?m l)" using m [of h] le [OF k(1,2)] unfolding k(2) fst_conv snd_conv by blast
    ultimately show ?thesis by simp
  qed
  obtain a b c d where ab: "(a, b) \<in> set ?ms" "a \<le> lo" "hi \<le> b" and cd: "(c, d) \<in> set ?ms" "c \<le> lo'" "hi' \<le> d"
    using in_one [OF assms(6,8)] in_one [OF assms(7,9)] by fast
  have "covered ?ms hi" unfolding covered_def by (rule bexI [OF _ ab(1)]) (use ab le [OF assms(6,8)] in simp)
  moreover have "covered ?ms lo'" unfolding covered_def by (rule bexI [OF _ cd(1)]) (use cd le [OF assms(7,9)] in simp)
  ultimately show ?thesis
    using squeeze_covered [OF iv(1) assms(2,5), of hi lo'] moved [OF assms(6,8,10)] moved [OF assms(7,9,11)] by auto
qed

text \<open>Two registers, and a wire that ends free between them.\<close>

definition demo_regs :: fig where
  "demo_regs = snd (projr (reg ''b'' 6 10 2 2 [] (PInt 6) False (snd (projr (reg ''a'' 0 0 2 2 [] (PInt 6) False new_fig)))))"

definition demo_free :: fig where
  "demo_free = snd (projr (wire ''n'' [(2, 1), (16 / 5, 1)] ''sig'' True demo_regs))"

definition demo_cross :: fig where
  "demo_cross = snd (projr (wire ''v'' [(2, 0), (2, 4)] ''sig'' True (snd (projr (wire ''h'' [(0, 2), (4, 2)] ''sig'' True
     (add_label ''x'' 8 8 ''south'' (PInt 6) None False False new_fig))))))"

text \<open>A free end of a wire is not kept: in this figure, which \<^verbatim>\<open>verify\<close> accepts, the end lies in the empty corridor between
  the registers, beyond the cut, and \<^verbatim>\<open>compact\<close> moves it past the other end of the wire, through the first
  register; \<^verbatim>\<open>verify\<close> rejects the result.\<close>

theorem compact_reverses_free_end:
  "verify demo_free = [] \<and> segments demo_free = [(''n'', 0, 0, (2, 1), (16 / 5, 1))] \<and>
   segments (snd (compact ''x'' 1 [] demo_free)) = [(''n'', 0, 0, (2, 1), (1 / 5, 1))] \<and>
   verify (snd (compact ''x'' 1 [] demo_free)) = [WireHits ''through'' ''n'' (2, 1) (1 / 5, 1) ''a'']"
proof (intro conjI)
  show "segments demo_free = [(''n'', 0, 0, (2, 1), (16 / 5, 1))]" by code_simp
  show "segments (snd (compact ''x'' 1 [] demo_free)) = [(''n'', 0, 0, (2, 1), (1 / 5, 1))]" by code_simp
  show "verify demo_free = []" by code_simp
  show "verify (snd (compact ''x'' 1 [] demo_free)) = [WireHits ''through'' ''n'' (2, 1) (1 / 5, 1) ''a'']" by code_simp
qed

lemma verify_crossings_witness: "\<exists>x y. (x, y, ''h'', ''v'') \<in> set (crossings demo_cross) \<or> (x, y, ''v'', ''h'') \<in> set (crossings demo_cross)"
proof -
  have v: "verify demo_cross = []" by code_simp
  have "(''h'', 0, 0, (0, 2), (4, 2)) \<in> set (segments demo_cross)" "(''v'', 0, 0, (2, 0), (2, 4)) \<in> set (segments demo_cross)"
    by code_simp+
  from verify_crossings [OF v this, of "1 / 2" "1 / 2"] show ?thesis by (auto simp: straight_def along_def)
qed

lemma verify_labels_witness: "\<not> in_box (along (2, 0) (2, 4) (1 / 2)) (label_bbox (f_labels demo_cross ! 0))"
proof -
  have "verify demo_cross = []" "0 < length (f_labels demo_cross)" "0 \<le> num_val (l_size (f_labels demo_cross ! 0))" by code_simp+
  note verify_labels [OF this, THEN conjunct1, THEN spec, THEN spec, THEN spec, THEN spec, THEN spec, THEN spec,
    of "''v''" 0 0 "(2, 0)" "(2, 4)" "1 / 2"]
  moreover have "(''v'', 0, 0, (2, 0), (2, 4)) \<in> set (segments demo_cross)" by code_simp
  ultimately show ?thesis by (simp add: straight_def EPS_def)
qed

lemma compact_keeps_shapes_witness:
  "\<exists>saved g lo hi lo' hi'. compact ''x'' 1 [] demo_regs = (saved, g) \<and> span_of ''x'' (snd (f_shapes g ! 0)) = (lo, hi) \<and>
     span_of ''x'' (snd (f_shapes g ! 1)) = (lo', hi') \<and> hi - lo = 2 \<and> 1 \<le> lo' - hi"
proof -
  obtain saved g where g: "compact ''x'' 1 [] demo_regs = (saved, g)" by fastforce
  obtain lo hi lo' hi' where m: "span_of ''x'' (snd (f_shapes g ! 0)) = (lo, hi)" "span_of ''x'' (snd (f_shapes g ! 1)) = (lo', hi')"
    by fastforce
  have "fig_ok demo_regs" "\<forall>L \<in> set (f_labels demo_regs). 0 \<le> num_val (l_size L)"
    "\<forall>(p, amt) \<in> set (cuts 1 [] (merged (intervals ''x'' demo_regs))). 1 / 10 ^ 9 \<le> amt"
    "0 < length (f_shapes demo_regs)" "1 < length (f_shapes demo_regs)"
    "span_of ''x'' (snd (f_shapes demo_regs ! 0)) = (0, 2)" "span_of ''x'' (snd (f_shapes demo_regs ! 1)) = (6, 8)"
    by code_simp+
  from compact_keeps_shapes [OF g _ this m] g m show ?thesis by auto
qed

end
