(* ===== verification/Emit.thy ===== *)
theory Emit
  imports Layout
begin

text \<open>
  The output of \<^verbatim>\<open>dp_engine.py\<close>: junction dots, hops and the TikZ document that \<^verbatim>\<open>emit\<close> writes. The document is a
  list of lines; \<^verbatim>\<open>emit\<close> writes them and returns the crossings.
\<close>

section \<open>Junctions\<close>

text \<open>Is the start of a line on another line of the net, and not at its end? The first such line decides.\<close>

fun joins :: "pt \<Rightarrow> pt list list \<Rightarrow> bool" where
  "joins p [] = False"
| "joins p (q # qs) =
     (if list_ex (\<lambda>(u, v). dist_seg p u v < (5 / 100) ^ 2) (zip q (tl q))
      then dist2 p (last q) > (5 / 100) ^ 2 else joins p qs)"

definition junctions :: "net \<Rightarrow> pt list" where
  "junctions n =
     (let ls = n_lines n;
          dots = concat (map (\<lambda>i. let p = hd (w_pts (ls ! i)) in
            if joins p (map (\<lambda>j. w_pts (ls ! j)) (filter (\<lambda>j. j \<noteq> i) [0..<length ls])) then [p] else []) [0..<length ls])
      in fold (\<lambda>d out. if list_all (\<lambda>e. dist2 d e > (5 / 100) ^ 2) out then out @ [d] else out) dots [])"

section \<open>Hops\<close>

definition round_dec :: "nat \<Rightarrow> rat \<Rightarrow> rat" where
  "round_dec d r = of_int (py_round (r * 10 ^ d)) / 10 ^ d"

text \<open>The crossings of a net by height, and those on one of its segments in drawing order.\<close>

definition hop_table :: "fig \<Rightarrow> ((string \<times> rat) \<times> rat list) list" where
  "hop_table f =
     fold (\<lambda>(x, y, nh, nv) t. let k = (nh, round_dec 3 y) in
       AList.update k ((case map_of t k of None \<Rightarrow> [] | Some xs \<Rightarrow> xs) @ [x]) t) (crossings f) []"

definition hop_xs :: "((string \<times> rat) \<times> rat list) list \<Rightarrow> string \<Rightarrow> pt \<Rightarrow> pt \<Rightarrow> rat list" where
  "hop_xs hops name a b =
     (if horiz a b then
        (case map_of hops (name, round_dec 3 (snd a)) of None \<Rightarrow> []
         | Some xs \<Rightarrow>
             let xs = sort (filter (\<lambda>x. min (fst a) (fst b) + 3 / 10 < x \<and> x < max (fst a) (fst b) - 3 / 10) xs)
             in if fst b < fst a then rev xs else xs)
      else [])"

definition path_parts :: "((string \<times> rat) \<times> rat list) list \<Rightarrow> string \<Rightarrow> pt list \<Rightarrow> string list" where
  "path_parts hops name pts =
     fmt_pt (hd pts) # concat (map (\<lambda>(a, b).
       map (\<lambda>x. if fst b > fst a then ''-- '' @ fmt_pt (x - HOP_R, snd a) @ '' arc (180:0:'' @ fmt HOP_R @ '')''
                else ''-- '' @ fmt_pt (x + HOP_R, snd a) @ '' arc (0:180:'' @ fmt HOP_R @ '')'') (hop_xs hops name a b)
       @ [''-- '' @ fmt_pt b]) (zip pts (tl pts)))"

section \<open>The document\<close>

definition TIKZ_HEAD :: "string list" where
  "TIKZ_HEAD =
    [tex ''documentclass[border=1.5mm]{standalone}'',
     tex ''usepackage[T1]{fontenc}'',
     tex ''usepackage{helvet}'',
     tex ''renewcommand{'' @ tex ''familydefault}{'' @ tex ''sfdefault}'',
     tex ''usepackage{amsmath,amssymb}'',
     tex ''usepackage{sansmath}'',
     tex ''usepackage{tikz}'',
     tex ''usetikzlibrary{arrows.meta}'',
     tex ''definecolor{memfill}{HTML}{DCE8F4}'',
     tex ''definecolor{alufill}{HTML}{FBE3CD}'',
     tex ''definecolor{ctlfill}{HTML}{E4EFD6}'',
     tex ''definecolor{regfill}{HTML}{CFCFCF}'',
     tex ''definecolor{extfill}{HTML}{ECE6F4}'',
     tex ''definecolor{muxfill}{HTML}{F3F3F3}'',
     tex ''definecolor{ctlwire}{HTML}{4A4A4A}'',
     tex ''definecolor{bandfill}{HTML}{F7F7F7}'',
     tex ''definecolor{bandline}{HTML}{B0B0B0}'',
     tex ''definecolor{groupfill}{HTML}{F8F9FB}'',
     tex ''definecolor{groupfill2}{HTML}{EEF3F9}'',
     tex ''begin{document}'' @ tex ''sansmath'',
     tex ''begin{tikzpicture}[x=1mm,y=1mm,line cap=butt,line join=miter,'',
     ''  blk/.style={line width=0.55pt,draw=black},'',
     ''  sig/.style={line width=0.5pt,draw=black},'',
     ''  bus/.style={line width=1.15pt,draw=black},'',
     ''  wide/.style={line width=2.2pt,draw=black!80},'',
     ''  ctl/.style={line width=0.45pt,draw=ctlwire,dash pattern=on 1.6pt off 1.0pt},'',
     ''  arr/.style={-{Stealth[length=1.8mm,width=1.45mm]}},'',
     ''  arrb/.style={-{Stealth[length=2.3mm,width=2.0mm]}},'',
     '']'']"

definition band_lines :: "bbox \<times> string \<Rightarrow> string list" where
  "band_lines = (\<lambda>((x0, y0, x1, y1), tt).
     [tex ''fill[bandfill] '' @ fmt_pt (x0, y0) @ '' rectangle '' @ fmt_pt (x1, y1) @ '';'',
      tex ''draw[bandline,line width=0.4pt,dash pattern=on 2pt off 1.5pt] '' @ fmt_pt (x0, y0) @ '' rectangle '' @ fmt_pt (x1, y1) @ '';'']
     @ (if tt \<noteq> [] then [tex ''node[anchor=north west,inner sep=1.2pt,font='' @ fsz (PDec (65 / 10)) 1 @ tex ''bfseries,text=black!70] at ''
           @ fmt_pt (x0 + 6 / 10, y1 - 5 / 10) @ '' {'' @ tt @ ''};''] else []))"

definition group_line :: "bbox \<times> string \<Rightarrow> string" where
  "group_line = (\<lambda>((x0, y0, x1, y1), fl).
     tex ''draw[line width=0.6pt,draw=black!55,dash pattern=on 3pt off 1.8pt,fill='' @ fl @ '',rounded corners=2.5mm] ''
       @ fmt_pt (x0, y0) @ '' rectangle '' @ fmt_pt (x1, y1) @ '';'')"

definition frame_line :: "bbox \<Rightarrow> string" where
  "frame_line = (\<lambda>(x0, y0, x1, y1).
     tex ''draw[line width=0.5pt,draw=black!60,fill=white] '' @ fmt_pt (x0, y0) @ '' rectangle '' @ fmt_pt (x1, y1) @ '';'')"

definition net_out :: "((string \<times> rat) \<times> rat list) list \<Rightarrow> string \<times> net \<Rightarrow> string list" where
  "net_out hops = (\<lambda>(name, n).
     let st = n_style n
     in map (\<lambda>line. tex ''draw['' @ st @ (if w_arrow line then if st \<in> set [''bus'', ''wide''] then '',arrb'' else '',arr'' else []) @ ''] ''
              @ join '' '' (path_parts hops name (w_pts line)) @ '';'') (n_lines n)
        @ map (\<lambda>d. tex ''fill['' @ (if st = ''ctl'' then ''ctlwire'' else ''black'') @ ''] '' @ fmt_pt d
              @ '' circle ('' @ fmt (if st = ''bus'' then 8 / 10 else 55 / 100) @ '');'') (junctions n))"

definition label_line :: "label \<Rightarrow> string" where
  "label_line L =
     tex ''node[anchor='' @ l_anchor L @ '',inner sep=0.4pt,align=center,font='' @ fsz (l_size L) (115 / 100)
       @ (if l_italic L then tex ''itshape'' else []) @ (if l_bold L then tex ''bfseries'' else [])
       @ (case l_color L of None \<Rightarrow> [] | Some c \<Rightarrow> if c = [] then [] else '',text='' @ c)
       @ ''] at '' @ fmt_pt (l_x L, l_y L) @ '' {'' @ l_text L @ ''};''"

definition emit_lines :: "string list \<Rightarrow> fig \<Rightarrow> string list result" where
  "emit_lines extra_top f =
     bindE (mapE (\<lambda>(_, s). tikz s) (f_shapes f)) (\<lambda>shapes.
     Inr (TIKZ_HEAD @ concat (map band_lines (f_bands f)) @ map group_line (f_groups f) @ map frame_line (f_frames f)
          @ concat shapes @ concat (map (net_out (hop_table f)) (f_nets f)) @ map label_line (f_labels f)
          @ extra_top @ [tex ''end{tikzpicture}'', tex ''end{document}'']))"

definition emit :: "string \<Rightarrow> string list \<Rightarrow> fig \<Rightarrow> fs \<Rightarrow> ((rat \<times> rat \<times> string \<times> string) list \<times> fs) result" where
  "emit path extra_top f fs =
     bindE (emit_lines extra_top f) (\<lambda>ls. Inr (crossings f, write_file path (join [CHR 0x0A] ls @ [CHR 0x0A]) fs))"

section \<open>Facts\<close>

definition hops_at :: "((string \<times> rat) \<times> rat list) list \<Rightarrow> string \<times> rat \<Rightarrow> rat list" where
  "hops_at t k = (case map_of t k of None \<Rightarrow> [] | Some xs \<Rightarrow> xs)"

lemma hop_table_fold:
  "hops_at (fold (\<lambda>(x, y, nh, nv) t. let k = (nh, round_dec 3 y) in AList.update k (hops_at t k @ [x]) t) cs t) k =
     hops_at t k @ map fst (filter (\<lambda>(x, y, nh, nv). (nh, round_dec 3 y) = k) cs)"
  by (induction cs arbitrary: t) (auto simp: hops_at_def update_conv Let_def)

lemma hops_at_table: "hops_at (hop_table f) k = map fst (filter (\<lambda>(x, y, nh, nv). (nh, round_dec 3 y) = k) (crossings f))"
proof -
  have "hop_table f = fold (\<lambda>(x, y, nh, nv) t. let k = (nh, round_dec 3 y) in AList.update k (hops_at t k @ [x]) t) (crossings f) []"
    by (simp add: hop_table_def hops_at_def)
  then show ?thesis using hop_table_fold [of "crossings f" "[]" k] by (simp add: hops_at_def)
qed

lemma hop_xs_eq:
  "horiz a b \<Longrightarrow> hop_xs t name a b =
     (let xs = sort (filter (\<lambda>x. min (fst a) (fst b) + 3 / 10 < x \<and> x < max (fst a) (fst b) - 3 / 10) (hops_at t (name, round_dec 3 (snd a))))
      in if fst b < fst a then rev xs else xs)"
  by (simp add: hop_xs_def hops_at_def Let_def split: option.splits)

lemma hop_xs_mem:
  assumes "horiz a b"
  shows "x \<in> set (hop_xs (hop_table f) name a b) \<longleftrightarrow>
    (\<exists>y nv. (x, y, name, nv) \<in> set (crossings f) \<and> round_dec 3 y = round_dec 3 (snd a)) \<and>
    min (fst a) (fst b) + 3 / 10 < x \<and> x < max (fst a) (fst b) - 3 / 10"
  unfolding hop_xs_eq [OF assms] hops_at_table by (force simp: Let_def image_iff)

section \<open>Properties\<close>

text \<open>C13: What \<^verbatim>\<open>verify\<close> accepts is drawn without false joints: where a horizontal wire meets a vertical wire of another net,
  \<^verbatim>\<open>emit\<close> draws a hop on the horizontal one, inside that segment and clear of its ends by more than the radius; the
  hops of a segment are drawn in the direction of travel. The two segments are exactly level and upright; the text of the arc
  drawn for a hop is not part of the statement.\<close>

theorem meeting_wires_hop:
  assumes "verify f = []" "(n1, l1, i1, a1, b1) \<in> set (segments f)" "(n2, l2, i2, a2, b2) \<in> set (segments f)" "n1 \<noteq> n2"
    and "snd a1 = snd b1" "fst a2 = fst b2" "0 \<le> t" "t \<le> 1" "0 \<le> u" "u \<le> 1" "along a1 b1 t = along a2 b2 u"
  shows "let xs = hop_xs (hop_table f) n1 a1 b1; x = fst (along a1 b1 t)
    in x \<in> set xs \<and> min (fst a1) (fst b1) + HOP_R < x \<and> x < max (fst a1) (fst b1) - HOP_R \<and>
       sorted (if fst b1 < fst a1 then rev xs else xs)"
proof -
  have h: "horiz a1 b1" using assms(5) by (simp add: horiz_def EPS_def)
  note vp = verify_perpendicular [OF assms]
  let ?x = "fst (along a1 b1 t)"
  have x: "?x = fst a2" "min (fst a1) (fst b1) \<le> ?x" "?x \<le> max (fst a1) (fst b1)"
    using vp along_between [OF assms(7,8), of "fst a1" "fst b1"] by (simp_all add: along_def)
  have "hop_room ?x a1 b1" "(?x, snd a1, n1, n2) \<in> set (crossings f)" using vp x(1) by simp_all
  then have r: "min (fst a1) (fst b1) + HOP_R < ?x" "?x < max (fst a1) (fst b1) - HOP_R"
    using x(2,3) by (auto simp: hop_room_def HOP_R_def min_def max_def split: if_splits)
  then have "?x \<in> set (hop_xs (hop_table f) n1 a1 b1)"
    unfolding hop_xs_mem [OF h] using \<open>(?x, snd a1, n1, n2) \<in> set (crossings f)\<close> by (auto simp: HOP_R_def)
  moreover have "sorted (if fst b1 < fst a1 then rev (hop_xs (hop_table f) n1 a1 b1) else hop_xs (hop_table f) n1 a1 b1)"
    unfolding hop_xs_eq [OF h] by (simp add: Let_def)
  ultimately show ?thesis using r by (simp add: Let_def)
qed

lemma meeting_wires_hop_witness: "2 \<in> set (hop_xs (hop_table demo_cross) ''h'' (0, 2) (4, 2))"
proof -
  have v: "verify demo_cross = []" by code_simp
  have "(''h'', 0, 0, (0, 2), (4, 2)) \<in> set (segments demo_cross)" "(''v'', 0, 0, (2, 0), (2, 4)) \<in> set (segments demo_cross)"
    by code_simp+
  from meeting_wires_hop [OF v this, of "1 / 2" "1 / 2"] show ?thesis by (simp add: along_def Let_def)
qed

definition demo_hops :: fig where
  "demo_hops = snd (projr (wire ''w'' [(18 / 5, 0), (18 / 5, 4)] ''sig'' True (snd (projr (wire ''v'' [(2, 0), (2, 4)] ''sig'' True
     (snd (projr (wire ''h'' [(0, 2), (6, 2)] ''sig'' True new_fig))))))))"

text \<open>The distance \<^verbatim>\<open>verify\<close> demands between parallel wires is less than the width of a hop: in this figure, which it
  accepts, the two hops on the horizontal wire overlap, and the path runs back between them.\<close>

theorem hops_overlap:
  "verify demo_hops = [] \<and> hop_xs (hop_table demo_hops) ''h'' (0, 2) (6, 2) = [2, 18 / 5] \<and> 18 / 5 - HOP_R < 2 + HOP_R \<and>
   path_parts (hop_table demo_hops) ''h'' [(0, 2), (6, 2)] =
     [''(0,2)'', ''-- (1.15,2) arc (180:0:0.85)'', ''-- (2.75,2) arc (180:0:0.85)'', ''-- (6,2)'']"
proof (intro conjI)
  show "verify demo_hops = []" by code_simp
  show "hop_xs (hop_table demo_hops) ''h'' (0, 2) (6, 2) = [2, 18 / 5]" by code_simp
  show "18 / 5 - HOP_R < 2 + HOP_R" by (simp add: HOP_R_def)
  show "path_parts (hop_table demo_hops) ''h'' [(0, 2), (6, 2)] =
     [''(0,2)'', ''-- (1.15,2) arc (180:0:0.85)'', ''-- (2.75,2) arc (180:0:0.85)'', ''-- (6,2)'']" by code_simp
qed

end
