(* ===== verification/Script.thy ===== *)
theory Script
  imports Emit
begin

text \<open>
  The way the figure scripts use the schematic engine: a script is a list of steps, each a primitive of \<^verbatim>\<open>Fig\<close> with the
  keyword defaults written out, and a point is a reference that is read off the figure when the step runs, as
  \<^verbatim>\<open>PE.L(169)\<close> or \<^verbatim>\<open>M1.inp[0]\<close> are. A variable of a script that holds a shape is the name of the shape. Every step keeps
  the figures the primitives can build; a shift keeps their shapes apart.
\<close>

section \<open>Points\<close>

type_synonym coord = "fig \<Rightarrow> rat result"
type_synonym ref = "fig \<Rightarrow> pt result"

definition shape_of :: "string \<Rightarrow> fig \<Rightarrow> shape result" where
  "shape_of n f = (case map_of (f_shapes f) n of None \<Rightarrow> Inl KeyError | Some s \<Rightarrow> Inr s)"

definition K :: "rat \<Rightarrow> coord" where "K v f = Inr v"
definition x_of :: "ref \<Rightarrow> coord" where "x_of r f = bindE (r f) (\<lambda>p. Inr (fst p))"
definition y_of :: "ref \<Rightarrow> coord" where "y_of r f = bindE (r f) (\<lambda>p. Inr (snd p))"
definition plus_c :: "coord \<Rightarrow> rat \<Rightarrow> coord" where "plus_c c d f = bindE (c f) (\<lambda>v. Inr (v + d))"
definition low_of :: "string \<Rightarrow> coord" where "low_of n f = bindE (shape_of n f) (\<lambda>s. Inr (s_y0 s))"
definition high_of :: "string \<Rightarrow> coord" where "high_of n f = bindE (shape_of n f) (\<lambda>s. Inr (s_y1 s))"

definition P :: "rat \<Rightarrow> rat \<Rightarrow> ref" where "P x y f = Inr (x, y)"
definition XY :: "coord \<Rightarrow> coord \<Rightarrow> ref" where "XY cx cy f = bindE (cx f) (\<lambda>x. bindE (cy f) (\<lambda>y. Inr (x, y)))"

definition edge_at :: "(shape \<Rightarrow> rat \<Rightarrow> pt) \<Rightarrow> string \<Rightarrow> coord \<Rightarrow> ref" where
  "edge_at side n c f = bindE (shape_of n f) (\<lambda>s. bindE (c f) (\<lambda>v. Inr (side s v)))"

definition pL :: "string \<Rightarrow> rat \<Rightarrow> ref" where "pL n v = edge_at port_L n (K v)"
definition pR :: "string \<Rightarrow> rat \<Rightarrow> ref" where "pR n v = edge_at port_R n (K v)"
definition pT :: "string \<Rightarrow> rat \<Rightarrow> ref" where "pT n v = edge_at port_T n (K v)"
definition pB :: "string \<Rightarrow> rat \<Rightarrow> ref" where "pB n v = edge_at port_B n (K v)"
definition pLc :: "string \<Rightarrow> coord \<Rightarrow> ref" where "pLc = edge_at port_L"
definition pTc :: "string \<Rightarrow> coord \<Rightarrow> ref" where "pTc = edge_at port_T"
definition pBc :: "string \<Rightarrow> coord \<Rightarrow> ref" where "pBc = edge_at port_B"

definition port :: "string \<Rightarrow> string \<Rightarrow> ref" where
  "port n p f = bindE (shape_of n f) (\<lambda>s. case map_of (s_ports s) p of None \<Rightarrow> Inl KeyError | Some q \<Rightarrow> Inr q)"

definition pin :: "string \<Rightarrow> nat \<Rightarrow> ref" where
  "pin n i f = bindE (shape_of n f) (\<lambda>s. if i < length (s_inp s) then Inr (s_inp s ! i) else Inl IndexError)"

section \<open>Steps\<close>

type_synonym step = "fig \<Rightarrow> fig result"

definition run :: "step list \<Rightarrow> step" where "run ss = foldE (\<lambda>s. s) ss"

definition shp :: "(fig \<Rightarrow> (shape \<times> fig) result) \<Rightarrow> step" where
  "shp add f = bindE (add f) (\<lambda>(_, f). Inr f)"

definition wire_at :: "string \<Rightarrow> bool \<Rightarrow> string \<Rightarrow> ref list \<Rightarrow> step" where
  "wire_at style arrow net0 refs f = bindE (mapE (\<lambda>r. r f) refs) (\<lambda>pts. bindE (wire net0 pts style arrow f) (\<lambda>(_, f). Inr f))"

definition wr :: "string \<Rightarrow> ref list \<Rightarrow> step" where "wr = wire_at ''sig'' True"
definition wrs :: "string \<Rightarrow> string \<Rightarrow> ref list \<Rightarrow> step" where "wrs style = wire_at style True"
definition wrl :: "string \<Rightarrow> string \<Rightarrow> ref list \<Rightarrow> step" where "wrl style = wire_at style False"

definition lb :: "string \<Rightarrow> ref \<Rightarrow> string \<Rightarrow> pynum \<Rightarrow> step" where
  "lb text r anchor size0 f = bindE (r f) (\<lambda>(x, y). Inr (add_label text x y anchor size0 None False False f))"

definition lbb :: "string \<Rightarrow> ref \<Rightarrow> string \<Rightarrow> pynum \<Rightarrow> step" where
  "lbb text r anchor size0 f = bindE (r f) (\<lambda>(x, y). Inr (add_label text x y anchor size0 None False True f))"

definition stb :: "string \<Rightarrow> ref \<Rightarrow> string \<Rightarrow> rat \<Rightarrow> string \<Rightarrow> pynum \<Rightarrow> string \<Rightarrow> step" where
  "stb net0 r direction len text size0 style f = bindE (r f) (\<lambda>p. stub net0 p direction len text size0 style True f)"

definition grp :: "bbox \<Rightarrow> string \<Rightarrow> string \<Rightarrow> pynum \<Rightarrow> string \<Rightarrow> step" where
  "grp bb title title_at size0 fill f = Inr (group bb title title_at size0 fill f)"

text \<open>\<^verbatim>\<open>t\<close> joins the lines of a text.\<close>

definition t :: "string list \<Rightarrow> string" where "t ls = join BREAK ls"

section \<open>The end of a script\<close>

text \<open>The drawing is verified and written in any case; the exit status is 1 when \<^verbatim>\<open>verify\<close> reports something.\<close>

definition draw_main :: "string \<Rightarrow> fig \<Rightarrow> fs \<Rightarrow> ((nat \<times> layout_error list \<times> nat) \<times> fs) result" where
  "draw_main path f fs =
     (let errs = verify f
      in bindE (extent f) (\<lambda>_. bindE (emit path [] f fs) (\<lambda>(cross, fs).
         Inr ((if errs \<noteq> [] then 1 else 0, errs, length cross), fs))))"

section \<open>Steps build figures\<close>

definition keeps :: "trig \<Rightarrow> step \<Rightarrow> bool" where
  "keeps tr s \<longleftrightarrow> (\<forall>f f'. built tr f \<longrightarrow> s f = Inr f' \<longrightarrow> built tr f')"

named_theorems step_intros "every step keeps the figures the primitives build"

lemma keeps_shp [step_intros]:
  "keeps tr (shp (box name x y w h text kind size0 rep bold_first rot))" "keeps tr (shp (reg name x y w h text size0 rot))"
  "keeps tr (shp (mux name x ys w pad sel ins size0 flip))" "keeps tr (shp (alu name x ya yb w text size0 kind rep fa))"
  "keeps tr (shp (circ tr name x y r text size0 kind))" "keeps tr (shp (gate tr name typ x ys w pad neg_in lbl size0))"
  "keeps tr (shp (bar name x y w h text size0 lbl_below))"
  by (auto simp: keeps_def shp_def result_simps intro: built.intros)

lemma keeps_wire [step_intros]: "keeps tr (wr net0 refs)" "keeps tr (wrs style net0 refs)" "keeps tr (wrl style net0 refs)"
  by (auto simp: keeps_def wr_def wrs_def wrl_def wire_at_def result_simps intro: built.intros)

lemma keeps_label [step_intros]:
  "keeps tr (lb text r anchor size0)" "keeps tr (lbb text r anchor size0)" "keeps tr (stb net0 r direction len text size0 style)"
  "keeps tr (grp bb title title_at size0 fill)"
  by (auto simp: keeps_def lb_def lbb_def stb_def grp_def result_simps intro: built.intros)

lemma run_built:
  assumes "\<forall>s \<in> set ss. keeps tr s" "built tr f" "run ss f = Inr f'"
  shows "built tr f'"
  by (rule foldE_invariant [where P = "built tr", OF assms(3) [unfolded run_def] assms(2)]) (use assms(1) in \<open>auto simp: keeps_def\<close>)

lemma run_Cons: "run (s # ss) f = bindE (s f) (run ss)"
  by (simp add: run_def)

lemma run_append: "run (ss @ ts) f = bindE (run ss f) (run ts)"
  by (simp add: run_def foldE_append)

end
