(* ===== verification/ChipTop.thy ===== *)
theory ChipTop
  imports Script
begin

text \<open>
  The figure \<^verbatim>\<open>gen_chip_top.py\<close> of the system-on-chip: the script's statements in order, part by part, and the compaction of
  its empty corridors in both directions.
\<close>

abbreviation "X_BUS \<equiv> 146 :: rat"
abbreviation "Y_TRUNK \<equiv> 78 :: rat"

definition STAGES :: "string list" where "STAGES = [''IF'', ''ID'', ''EX'', ''MEM'', ''WB'']"

definition ct_frames :: "step list" where
  "ct_frames =
    [grp (4, 4, 290, 182) (tx ''chip@_top: SIMTiX system-on-chip'') ''nw'' (PInt 8) ''groupfill'',
     grp (9, 86, 78, 134) ''RISC-V host CPU (5-stage RV32I)'' ''ne'' (PInt 7) ''groupfill'',
     grp (152, 46, 286, 176) (tx ''simt@_accel: SIMT accelerator'') ''nw'' (PDec (75 / 10)) ''groupfill2'',
     grp (156, 52, 282, 136) (tx ''warp@_pool: SIMT engine, 4 warps $@times$ 8 lanes'') ''ne'' (PInt 7) ''groupfill'',
     grp (60, 8, 286, 40)
       ''Shared memory: 16 KB, 8 distributed-RAM banks (bank b holds word b of every 256-bit line); the accelerator line write has priority'' ''sw''
       (PDec (65 / 10)) ''groupfill'']"

definition ct_host :: "step list" where
  "ct_host =
    [shp (box ''rom'' 9 148 69 18 ''Driver instruction ROM'' ''mem'' (PInt 8) False True False)]
    @ map (\<lambda>(i, nm). shp (box (''st_'' @ nm) (13 + of_nat i * 13) 100 9 14 nm ''alu'' (PInt 7) False True False)) (enumerate 0 STAGES)
    @ map (\<lambda>(a, b). wrs ''bus'' (''pipe_st_'' @ a) [pR (''st_'' @ a) 107, pL (''st_'' @ b) 107]) (zip STAGES (tl STAGES))
    @ [wr ''pcf'' [(pT ''st_IF'' 15), (pB ''rom'' 15)],
     wr ''instrf'' [(pB ''rom'' 20), (pT ''st_IF'' 20)],
     lb ''PC'' (P (145 / 10) 131) ''east'' (PDec (65 / 10)),
     lb ''instr'' (P (205 / 10) 131) ''west'' (PDec (65 / 10)),
     stb ''memready'' (pT ''st_MEM'' (565 / 10)) ''up'' (45 / 10) (tx ''mem@_ready (stall)'') (PInt 6) ''ctl'']"

definition ct_bus :: "step list" where
  "ct_bus =
    [shp (box ''mmio'' 158 144 42 24 ''MMIO registers'' ''mem'' (PInt 8) False True False),
     shp (box ''disp'' 214 144 60 24 ''Dispatcher FSM'' ''ctl'' (PInt 8) False True False),
     shp (box ''dec'' 98 146 38 22 ''Address decode'' ''ctl'' (PInt 8) False True False),
     shp (reg ''res'' 106 115 26 11 ''Result register'' (PDec (65 / 10)) False),
     shp (box ''wrom'' 100 82 40 16 ''Weight store (BRAM)'' ''mem'' (PDec (75 / 10)) False True False),
     shp (mux ''rmux'' 82 [106, 92, 86] 6 (26 / 10) ''top'' (Some [[], [], []]) (PInt 5) True),
     stb ''rmux_s'' (port ''rmux'' ''selpt'') ''up'' (32 / 10) ''sel'' (PInt 6) ''ctl'',
     wrs ''bus'' ''hbus'' [(pB ''st_MEM'' (545 / 10)), (P (545 / 10) Y_TRUNK), (P X_BUS Y_TRUNK), (P X_BUS 158), (pL ''mmio'' 158)],
     wrs ''bus'' ''hbus'' [(P X_BUS 156), (pR ''dec'' 156)],
     wrs ''bus'' ''hbus'' [(P X_BUS (1205 / 10)), (pR ''res'' (1205 / 10))],
     wrs ''bus'' ''hbus'' [(P 118 Y_TRUNK), (pB ''wrom'' 118)],
     lb ''host data bus: addr, wdata, we, funct3'' (P 120 (Y_TRUNK - (4 / 10))) ''north'' (PDec (65 / 10)),
     wr ''rd_mmio'' [(pL ''mmio'' 149), (P 150 149), (P 150 106), (pin ''rmux'' 0)],
     lb ''MMIO rdata'' (P 124 (10635 / 100)) ''south'' (PInt 6),
     wr ''rd_wrom'' [(pL ''wrom'' 92), (pin ''rmux'' 1)],
     wrs ''bus'' ''rdata'' [(port ''rmux'' ''out''), (XY (K (585 / 10)) (y_of (port ''rmux'' ''out''))), (pB ''st_MEM'' (585 / 10))],
     lb ''rdata'' (XY (K 70) (plus_c (y_of (port ''rmux'' ''out'')) (35 / 100))) ''south'' (PDec (65 / 10)),
     wrs ''bus'' ''p_result'' [(pL ''res'' (1185 / 10)), (P 91 (1185 / 10)), (P 91 190)],
     wr ''p_done'' [(pL ''res'' 123), (P 94 123), (P 94 190)],
     lbb ''result[31:0]'' (P (905 / 10) (1903 / 10)) ''south east'' (PInt 7),
     lbb ''done'' (P (945 / 10) (1903 / 10)) ''south west'' (PInt 7),
     wr ''clk'' [(P (- 8) 60), (P 4 60)],
     lbb ''clk, rst'' (P (- (83 / 10)) 60) ''east'' (PInt 7)]"

definition ct_accel :: "step list" where
  "ct_accel =
    [wr ''go'' [(pR ''mmio'' 163), (pL ''disp'' 163)],
     lb ''GO'' (P 207 (16335 / 100)) ''south'' (PInt 6),
     wr ''status'' [(pL ''disp'' 149), (pR ''mmio'' 149)],
     lb ''status'' (P 207 (1486 / 10)) ''north'' (PInt 6),
     shp (box ''sch'' 160 104 22 20 (t [''Warp scheduler'', ''+ SIMT stacks'']) ''ctl'' (PDec (65 / 10)) False True False),
     shp (box ''fd'' 187 104 20 20 (t [''Fetch'', (tx ''@& decode'')]) ''ctl'' (PDec (65 / 10)) False True False),
     shp (box ''rf'' 212 104 22 20 (t [''VRF + FRF'', ''LUTRAM'', ''per lane'']) ''mem'' (PDec (65 / 10)) False True False),
     shp (box ''ex'' 239 104 40 20 (t [(tx ''Execute $@times$8 lanes''), ''integer ALU'', ''5-stage FPU'']) ''alu'' (PDec (65 / 10)) True True False),
     wr ''w_sf'' [(pR ''sch'' 114), (pL ''fd'' 114)],
     wr ''w_fr'' [(pR ''fd'' 114), (pL ''rf'' 114)],
     wrs ''bus'' ''w_re'' [(pR ''rf'' 114), (pL ''ex'' 114)],
     shp (box ''wb'' 210 78 22 18 (t [''Write-back'', ''arbiters'']) ''ctl'' (PDec (65 / 10)) False True False),
     shp (box ''eng'' 236 78 20 18 (t [(tx ''MUL $@cdot$ pdot8''), ''div / sqrt'']) ''alu'' (PDec (65 / 10)) False True False),
     shp (box ''meme'' 260 78 22 18 (t [''Memory engine'', ''coalescing'', ''+ scratchpad'']) ''ctl'' (PInt 6) False True False),
     wrs ''bus'' ''w_park'' [(pB ''ex'' 246), (pT ''eng'' 246)],
     lb ''park'' (P (2465 / 10) 100) ''west'' (PInt 6),
     wrs ''bus'' ''w_ldst'' [(pB ''ex'' 271), (pT ''meme'' 271)],
     lb ''ld/st'' (P (2715 / 10) 100) ''west'' (PInt 6),
     wrs ''bus'' ''w_eng'' [(pL ''eng'' 87), (pR ''wb'' 87)],
     wrs ''bus'' ''w_mem'' [(pB ''meme'' 263), (P 263 72), (P 221 72), (pB ''wb'' 221)],
     wrs ''bus'' ''w_wb'' [(pT ''wb'' 221), (pB ''rf'' 221)],
     lb ''write-back'' (P (2215 / 10) 100) ''west'' (PInt 6),
     wr ''args'' [(pB ''mmio'' 170), (pT ''sch'' 170)],
     lb ''kernel PC, args'' (P (1705 / 10) 139) ''west'' (PInt 6),
     wr ''start'' [(pB ''disp'' 220), (P 220 129), (P 177 129), (pT ''sch'' 177)],
     lb ''start'' (P 198 (12935 / 100)) ''south'' (PInt 6),
     wr ''pdone'' [(P 262 136), (pB ''disp'' 262)],
     lb ''done'' (P (2625 / 10) (1395 / 10)) ''west'' (PInt 6)]"

definition ct_memory :: "step list" where
  "ct_memory =
    [shp (box ''pcpu'' 66 28 32 8 ''CPU word port'' ''mux'' (PDec (65 / 10)) False False False),
     shp (box ''pif'' 186 28 22 8 ''instr. port'' ''mux'' (PDec (65 / 10)) False False False),
     shp (box ''pln'' 250 28 32 8 ''256-bit line port'' ''mux'' (PDec (65 / 10)) False False False)]
    @ map (\<lambda>b. shp (box (''bank'' @ str_nat b) (66 + of_nat b * (272 / 10)) 15 24 9 (''bank '' @ str_nat b) ''mem'' (PDec (65 / 10)) False False False)) [0..<8]
    @ [wrs ''bus'' ''hbus'' [(P 70 Y_TRUNK), (XY (K 70) (high_of ''pcpu''))],
     wr ''rd_shared'' [(pT ''pcpu'' 93), (P 93 86), (pin ''rmux'' 2)],
     wr ''imem_a'' [(pB ''fd'' 192), (pT ''pif'' 192)],
     wr ''imem_d'' [(pT ''pif'' 201), (pB ''fd'' 201)],
     lb ''fetch addr'' (P (1915 / 10) 55) ''east'' (PInt 6),
     lb ''instr'' (P (2015 / 10) 55) ''west'' (PInt 6),
     wrs ''wide'' ''line_w'' [(pB ''meme'' 270), (pT ''pln'' 270)],
     wrs ''wide'' ''line_r'' [(pT ''pln'' 277), (pB ''meme'' 277)],
     lb ''256-bit line'' (P (2695 / 10) 55) ''east'' (PInt 6)]"

definition chip_steps :: "step list" where
  "chip_steps = ct_frames @ ct_host @ ct_bus @ ct_accel @ ct_memory"

definition chip_fig :: "((rat \<times> rat) \<times> fig) result" where
  "chip_fig =
     bindE (run chip_steps new_fig) (\<lambda>f.
     let (dx, f) = compact ''x'' 5 [] f; (dy, f) = compact ''y'' 4 [] f in Inr ((dx, dy), f))"

definition chip_main :: "string \<Rightarrow> fs \<Rightarrow> ((nat \<times> layout_error list \<times> nat) \<times> fs) result" where
  "chip_main here fs = bindE chip_fig (\<lambda>(_, f). draw_main (pjoin here ''simtix_chip_top.tex'') f fs)"

end
