(* ===== verification/Datapath.thy ===== *)
theory Datapath
  imports Script
begin

text \<open>
  The figure \<^verbatim>\<open>gen_datapath_tikz.py\<close> of the warp pool's datapath: the script's statements in order, part by part, the two
  shifts that close empty corridors, the stage bands and the legend. Cosine and sine, which
  the round shapes use, are a parameter.
\<close>

section \<open>Coordinates\<close>

abbreviation "Y_SP \<equiv> 196 :: rat"
abbreviation "Y_RPC \<equiv> 192 :: rat"
abbreviation "Y_MASK \<equiv> 185 :: rat"
abbreviation "Y_PC \<equiv> 168 :: rat"
abbreviation "Y_INS \<equiv> 146 :: rat"
abbreviation "Y_W \<equiv> 122 :: rat"
abbreviation "Y_FT \<equiv> 174 :: rat"
abbreviation "Y_JR \<equiv> 1675 / 10 :: rat"
abbreviation "Y_TG \<equiv> 161 :: rat"
abbreviation "Y_FS3 \<equiv> 88 :: rat"
abbreviation "Y_FS2 \<equiv> 80 :: rat"
abbreviation "Y_FS1 \<equiv> 72 :: rat"
abbreviation "RV1 \<equiv> 270 :: rat"
abbreviation "RV2 \<equiv> 274 :: rat"
abbreviation "X_CAP \<equiv> 292 :: rat"
abbreviation "X_UNIT \<equiv> 302 :: rat"
abbreviation "X_HOLD \<equiv> 332 :: rat"
abbreviation "UW \<equiv> 24 :: rat"
abbreviation "Y_RV1E \<equiv> 1496 / 10 :: rat"
abbreviation "Y_RV2E \<equiv> 1516 / 10 :: rat"
abbreviation "Y_AD \<equiv> 110 :: rat"
abbreviation "X_WB \<equiv> 384 :: rat"
abbreviation "Y_FPB \<equiv> 33 :: rat"
abbreviation "Y_SFB \<equiv> 27 :: rat"
abbreviation "Y_VB \<equiv> 18 :: rat"
abbreviation "Y_FB \<equiv> 215 / 10 :: rat"
abbreviation "X_VW \<equiv> 133 :: rat"
abbreviation "X_FW \<equiv> 1355 / 10 :: rat"
abbreviation "Y_T1 \<equiv> 204 :: rat"
abbreviation "Y_T2 \<equiv> 2075 / 10 :: rat"

definition small :: "string \<Rightarrow> string" where
  "small s = ''{'' @ fsz (PDec (55 / 10)) (115 / 100) @ '' '' @ s @ ''}''"

section \<open>The parts\<close>

definition dp_fetch :: "trig \<Rightarrow> step list" where
  "dp_fetch tr =
    [shp (box ''wst'' 3 176 19 16 (t [''Warp state'', ''wstate,'', ''inflight'']) ''mem'' (PDec (65 / 10)) False True False),
     shp (reg ''rrp'' 3 155 17 8 (tx ''rr@_ptr'') (PInt 6) False),
     shp (circ tr ''inc'' (115 / 10) 139 (29 / 10) ''+1'' (PDec (65 / 10)) ''alu''),
     shp (box ''pe'' 27 144 9 52 (t [''Round-robin'', ''warp select'']) ''ctl'' (PInt 7) False True True),
     shp (box ''stk'' 41 142 24 58 (t [''SIMT stack'', ''4 warps'', (tx ''$@times$ 8 frames''), (tx ''@'' @ tx ''{npc, rpc,''), (tx ''mask@}, sp'')]) ''mem''
       (PDec (65 / 10)) False True False),
     shp (box ''imem'' 68 139 13 14 (t [''Shared'', ''memory'', ''instr.'', ''port'']) ''ext'' (PDec (55 / 10)) False True False),
     shp (bar ''bfx'' 86 100 (35 / 10) 99 ''F/X'' (PDec (65 / 10)) True)]
    @ [wr ''runnable'' [(pR ''wst'' 184), (pL ''pe'' 184)],
     wr ''rr'' [(pR ''rrp'' 159), (pL ''pe'' 159)],
     wr ''fetch_w'' [(pR ''pe'' 169), (P (385 / 10) 169), (pL ''stk'' 169)],
     wr ''fetch_w'' [(P (385 / 10) 169), (P (385 / 10) Y_W), (pL ''bfx'' Y_W)],
     wr ''fetch_w'' [(P (385 / 10) 139), (port ''inc'' ''Rp'')],
     lb (tx ''fetch@_w'') (P 62 (Y_W + (35 / 100))) ''south'' (PDec (55 / 10)),
     wr ''rr_inc'' [(port ''inc'' ''Tp''), (pB ''rrp'' (115 / 10))]]
    @ concat (map (\<lambda>(nm, yy, tx). [wrs (if nm = ''stk_mask'' then ''bus'' else ''sig'') nm [(pR ''stk'' yy), (pL ''bfx'' yy)],
       lb tx (P (755 / 10) (yy + (35 / 100))) ''south'' (PDec (55 / 10))])
       [(''stk_sp'', Y_SP, ''sp''), (''stk_rpc'', Y_RPC, ''rpc''), (''stk_mask'', Y_MASK, ''mask'')])
    @ [wr ''fetch_pc'' [(pR ''stk'' Y_PC), (pL ''bfx'' Y_PC)],
     wr ''fetch_pc'' [(P (745 / 10) Y_PC), (pT ''imem'' (745 / 10))],
     lb (tx ''fetch@_pc'') (P (695 / 10) (Y_PC + (35 / 100))) ''south'' (PDec (55 / 10)),
     wr ''instr_f'' [(pR ''imem'' Y_INS), (pL ''bfx'' Y_INS)]]"

definition dp_issue :: "step list" where
  "dp_issue =
    [shp (box ''dec'' 114 110 15 42 (t [''Decode'', (tx ''@&''), ''imm gen'']) ''ctl'' (PDec (65 / 10)) False True False),
     wr ''instr'' [(pR ''bfx'' Y_INS), (pL ''dec'' Y_INS)],
     wr ''issue_w'' [(pR ''bfx'' Y_W), (pL ''dec'' Y_W)],
     lb ''instr'' (P 108 (Y_INS + (35 / 100))) ''south'' (PDec (55 / 10)),
     lb (tx ''issue@_w'') (P 108 (Y_W + (35 / 100))) ''south'' (PDec (55 / 10)),
     shp (box ''vrf'' 138 114 22 32 (t [''VRF'', ''LUTRAM'', ''2R / 1W'', ''per lane'']) ''mem'' (PDec (65 / 10)) True True False),
     shp (box ''frf'' 138 60 22 32 (t [''FRF'', ''LUTRAM'', ''3R / 1W'', ''per lane'']) ''mem'' (PDec (65 / 10)) True True False),
     wr ''raddr_v'' [(pR ''dec'' 140), (pL ''vrf'' 140)],
     lb (tx ''@'' @ tx ''{w,rs@}'') (P (1325 / 10) (1404 / 10)) ''south'' (PDec (55 / 10)),
     wr ''raddr_f'' [(pB ''dec'' 121), (P 121 84), (pL ''frf'' 84)],
     lb (tx ''@'' @ tx ''{w,fs@}'') (P (1255 / 10) (844 / 10)) ''south'' (PDec (55 / 10)),
     shp (box ''seed'' 164 124 12 14 (t [''Seed'', ''a0=tid'', ''a1--a4'']) ''ctl'' (PDec (55 / 10)) False True False),
     shp (mux ''m1'' 180 [142, 134] 5 (26 / 10) ''top'' (Some [''1'', ''0'']) (PInt 5) False),
     shp (mux ''m2'' 180 [127, 119] 5 (26 / 10) ''bot'' (Some [''0'', ''1'']) (PInt 5) False),
     wrs ''bus'' ''vrd1'' [(pR ''vrf'' 142), (pin ''m1'' 0)],
     wrs ''bus'' ''vrd2'' [(pR ''vrf'' 119), (pin ''m2'' 1)],
     wrs ''bus'' ''seed1'' [(pR ''seed'' 134), (pin ''m1'' 1)],
     wrs ''bus'' ''seed2'' [(pR ''seed'' 127), (pin ''m2'' 0)],
     stb ''wr1'' (port ''m1'' ''selpt'') ''up'' 3 ''wr'' (PDec (55 / 10)) ''ctl'',
     stb ''wr2'' (port ''m2'' ''selpt'') ''down'' 3 ''wr'' (PDec (55 / 10)) ''ctl'']"

definition dp_execute :: "step list" where
  "dp_execute =
    [shp (mux ''ma'' 202 [146, 142, 138] 5 (26 / 10) ''bot'' (Some [[], [], []]) (PInt 5) False),
     shp (mux ''mb'' 202 [123, 118] 5 (26 / 10) ''bot'' (Some [[], []]) (PInt 5) False),
     shp (alu ''alu'' 213 142 (1205 / 10) 13 (t [''ALU'', (tx ''$@times$8'')]) (PInt 7) ''alu'' True (84 / 100)),
     wrs ''bus'' ''rv1'' [(port ''m1'' ''out''), (pin ''ma'' 2)],
     wrs ''bus'' ''rv2'' [(port ''m2'' ''out''), (pin ''mb'' 0)],
     wrs ''bus'' ''opa'' [(port ''ma'' ''out''), (port ''alu'' ''a'')],
     wrs ''bus'' ''opb'' [(port ''mb'' ''out''), (port ''alu'' ''b'')],
     lb ''rv1'' (P (1955 / 10) (13835 / 100)) ''south'' (PDec (55 / 10)),
     lb ''rv2'' (P (1955 / 10) (12335 / 100)) ''south'' (PDec (55 / 10)),
     stb ''ma_pc'' (pin ''ma'' 0) ''left'' (24 / 10) ''pc'' (PDec (55 / 10)) ''ctl'',
     stb ''ma_0'' (pin ''ma'' 1) ''left'' (24 / 10) ''0'' (PDec (55 / 10)) ''ctl'',
     stb ''opa_s'' (port ''ma'' ''selpt'') ''down'' (26 / 10) ''asel'' (PDec (55 / 10)) ''ctl'',
     stb ''opb_s'' (port ''mb'' ''selpt'') ''down'' (26 / 10) ''bsel'' (PDec (55 / 10)) ''ctl'',
     wr ''imm'' [(pB ''dec'' 125), (P 125 104), (P 196 104), (P 196 118), (pin ''mb'' 1)],
     lb ''imm'' (P 176 (10435 / 100)) ''south'' (PDec (55 / 10)),
     shp (mux ''wbm'' 234 [139, 135, (13125 / 100)] 5 (26 / 10) ''bot'' (Some [[], [], []]) (PInt 5) False),
     wrs ''bus'' ''alu_y'' [(port ''alu'' ''out''), (pin ''wbm'' 2)],
     wrs ''bus'' ''link'' [(P 232 (1458 / 10)), (P 232 139), (pin ''wbm'' 0)],
     wrs ''bus'' ''tidv'' [(P 230 (1458 / 10)), (P 230 135), (pin ''wbm'' 1)],
     lb ''pc+4'' (P (2324 / 10) (1459 / 10)) ''south west'' (PDec (55 / 10)),
     lb ''tid'' (P (2296 / 10) (1459 / 10)) ''south east'' (PDec (55 / 10)),
     stb ''wbm_s'' (port ''wbm'' ''selpt'') ''down'' (26 / 10) ''wsel'' (PDec (55 / 10)) ''ctl'']"

definition dp_control :: "trig \<Rightarrow> step list" where
  "dp_control tr =
    [shp (circ tr ''eqp'' 123 Y_RPC (24 / 10) ''='' (PDec (65 / 10)) ''ctl''),
     shp (gate tr ''nz'' ''or'' 112 [Y_SP] (55 / 10) (18 / 10) [] [] (PInt 5)),
     lb (tx ''$@neq$0'') (P (1146 / 10) (Y_SP + 2)) ''south'' (PDec (55 / 10)),
     wr ''cur_sp'' [(pR ''bfx'' Y_SP), (pin ''nz'' 0)],
     wr ''cur_rpc'' [(pR ''bfx'' Y_RPC), (port ''eqp'' ''Lp'')],
     shp (gate tr ''andp'' ''and'' 130 [Y_SP, Y_RPC] 6 (16 / 10) [] [] (PInt 5)),
     wr ''nz'' [(port ''nz'' ''out''), (pin ''andp'' 0)],
     wr ''eqp'' [(port ''eqp'' ''Rp''), (pin ''andp'' 1)],
     shp (circ tr ''ai'' 137 161 (28 / 10) ''+'' (PDec (65 / 10)) ''alu''),
     shp (circ tr ''a4'' 150 174 (28 / 10) ''+4'' (PDec (65 / 10)) ''alu''),
     wr ''cur_pc'' [(pR ''bfx'' Y_PC), (P 150 Y_PC), (port ''a4'' ''Bp'')],
     wr ''cur_pc'' [(P 123 Y_PC), (port ''eqp'' ''Bp'')],
     wr ''cur_pc'' [(P 137 Y_PC), (port ''ai'' ''Tp'')],
     lb (tx ''cur@_pc'') (P 96 (Y_PC + (35 / 100))) ''south'' (PDec (55 / 10)),
     wr ''imm'' [(pT ''dec'' 126), (P 126 161), (port ''ai'' ''Lp'')]]
    @ [shp (mux ''npc'' 204 [Y_FT, Y_JR, Y_TG] 5 (24 / 10) ''top'' (Some [[], [], []]) (PInt 5) False),
     wr ''fallthru'' [(port ''a4'' ''Rp''), (pin ''npc'' 0)],
     wr ''target'' [(port ''ai'' ''Rp''), (pin ''npc'' 2)],
     lb ''fall-through'' (P 175 (Y_FT + (35 / 100))) ''south'' (PDec (55 / 10)),
     lb ''branch / jal target'' (P 168 (Y_TG + (35 / 100))) ''south'' (PDec (55 / 10)),
     stb ''jalr'' (pin ''npc'' 1) ''left'' (26 / 10) ''jalr'' (PDec (55 / 10)) ''ctl'',
     stb ''npc_s'' (port ''npc'' ''selpt'') ''up'' (24 / 10) ''psel'' (PDec (55 / 10)) ''ctl'']"

definition dp_branch :: "trig \<Rightarrow> step list" where
  "dp_branch tr =
    [shp (box ''bcmp'' 183 153 13 (65 / 10) (tx ''cmp $@times$8'') ''alu'' (PInt 6) False False False),
     wrs ''bus'' ''rv2'' [(P 188 123), (XY (K 188) (low_of ''bcmp''))],
     wrs ''bus'' ''rv1'' [(P 192 138), (XY (K 192) (low_of ''bcmp''))],
     stb ''f3'' (pL ''bcmp'' (15625 / 100)) ''left'' 3 ''funct3'' (PDec (55 / 10)) ''ctl'',
     shp (gate tr ''andt'' ''and'' 222 [(1885 / 10), Y_MASK] 6 (16 / 10) [] [] (PInt 5)),
     shp (gate tr ''andn'' ''and'' 222 [180, (1765 / 10)] 6 (16 / 10) [1] [] (PInt 5)),
     wrs ''bus'' ''t'' [(pR ''bcmp'' (15625 / 100)), (P 218 (15625 / 100)), (P 218 (1885 / 10)), (pin ''andt'' 0)],
     wrs ''bus'' ''t'' [(P 218 (1765 / 10)), (pin ''andn'' 1)],
     lb ''t'' (P 213 (1566 / 10)) ''south'' (PDec (55 / 10)),
     wrs ''bus'' ''cur_mask'' [(pR ''bfx'' Y_MASK), (pin ''andt'' 1)],
     wrs ''bus'' ''cur_mask'' [(P 220 Y_MASK), (P 220 180), (pin ''andn'' 0)],
     lb (tx ''cur@_mask'') (P 160 (Y_MASK + (35 / 100))) ''south'' (PDec (55 / 10)),
     shp (box ''push'' 236 158 19 40 (t [''Stack'', ''update'', [], (small ''uniform:''), (small ''retarget''), (small ''divergent:''), (small
       ''push frame''), (small ''pc = rpc:''), (small ''pop'')]) ''ctl'' (PDec (65 / 10)) False True False),
     wrs ''bus'' ''taken'' [(port ''andt'' ''out''), (pLc ''push'' (y_of (port ''andt'' ''out'')))],
     wrs ''bus'' ''ntaken'' [(port ''andn'' ''out''), (pLc ''push'' (y_of (port ''andn'' ''out'')))],
     wr ''npc'' [(port ''npc'' ''out''), (pLc ''push'' (y_of (port ''npc'' ''out'')))],
     wr ''do_pop'' [(port ''andp'' ''out''), (pLc ''push'' (y_of (port ''andp'' ''out'')))],
     lb ''taken'' (XY (K 232) (plus_c (y_of (port ''andt'' ''out'')) (35 / 100))) ''south'' (PDec (55 / 10)),
     lb ''ntaken'' (XY (K 232) (plus_c (y_of (port ''andn'' ''out'')) (35 / 100))) ''south'' (PDec (55 / 10)),
     lb ''npc'' (XY (K 232) (plus_c (y_of (port ''npc'' ''out'')) (35 / 100))) ''south'' (PDec (55 / 10)),
     lb (tx ''do@_pop'') (XY (K 175) (plus_c (y_of (port ''andp'' ''out'')) (35 / 100))) ''south'' (PDec (55 / 10))]"

definition dp_float :: "step list" where
  "dp_float =
    [shp (reg ''c_fpu'' 172 67 6 25 [] (PInt 6) False),
     shp (box ''u_fpu'' 184 (695 / 10) 24 21 (t [''FPU (5-stage)'', ''FP32 / FP16'', ''add mul FMA'', ''cvt cmp sgnj'']) ''alu'' (PDec (55 / 10))
       True True False),
     shp (reg ''h_fpu'' 215 73 5 14 [] (PInt 6) False)]
    @ map (\<lambda>(yy, nm). wrs ''bus'' nm [(pR ''frf'' yy), (pL ''c_fpu'' yy)]) [(Y_FS3, ''frv3''), (Y_FS2, ''frv2''), (Y_FS1, ''frv1'')]
    @ [wrs ''bus'' ''fpu_c'' [(pR ''c_fpu'' 80), (pL ''u_fpu'' 80)],
     wrs ''bus'' ''fpu_r'' [(pR ''u_fpu'' 80), (pL ''h_fpu'' 80)],
     stb ''fpu_x'' (pB ''c_fpu'' (1731 / 10)) ''down'' 3 ''rv1'' (PDec (55 / 10)) ''ctl'',
     lb ''fs3,2,1'' (P 175 (9235 / 100)) ''south'' (PDec (55 / 10)),
     lb ''fpc'' (P (2175 / 10) (8735 / 100)) ''south'' (PDec (55 / 10)),
     shp (reg ''c_sfu'' 172 40 6 14 [] (PInt 6) False),
     wrs ''bus'' ''frv1'' [(P 169 Y_FS1), (P 169 50), (pL ''c_sfu'' 50)],
     wrs ''bus'' ''frv2'' [(P 166 Y_FS2), (P 166 44), (pL ''c_sfu'' 44)],
     lb ''fs1,2'' (P 175 (5435 / 100)) ''south'' (PDec (55 / 10)),
     shp (mux ''lm'' 183 [52, 49, 46, 43] 6 (18 / 10) ''top'' (Some [''0'', ''1'', (tx ''$@vdots$''), ''7'']) (PInt 5) False)]
    @ map (\<lambda>(yy, nm). wr nm [(pR ''c_sfu'' yy), (XY (x_of (pin ''lm'' 0)) (K yy))]) [(52, ''sfu_l0''), (49, ''sfu_l1''), (43, ''sfu_l7'')]
    @ [shp (box ''lseq'' (1805 / 10) 57 11 6 ''lane seq.'' ''ctl'' (PDec (55 / 10)) False False False),
     wr ''lane'' [(pBc ''lseq'' (x_of (port ''lm'' ''selpt''))), (port ''lm'' ''selpt'')],
     shp (box ''dsq'' 194 41 16 12 (t [''div / sqrt'', ''iterative'', ''1 shared'']) ''alu'' (PDec (55 / 10)) False True False),
     wr ''sfu_a'' [(port ''lm'' ''out''), (pLc ''dsq'' (y_of (port ''lm'' ''out'')))],
     shp (reg ''h_sfu'' 215 41 5 12 [] (PInt 6) False),
     wr ''sfu_r'' [(pR ''dsq'' 47), (pL ''h_sfu'' 47)],
     lb ''hold'' (P (2175 / 10) (5335 / 100)) ''south'' (PDec (55 / 10))]"

definition engine :: "string \<Rightarrow> rat \<Rightarrow> rat \<Rightarrow> (rat \<times> rat \<times> string) list \<Rightarrow> string \<Rightarrow> string \<Rightarrow> string \<Rightarrow> pynum \<Rightarrow> step list" where
  "engine name ycen h ins unit_text cap_text hold_text size0 =
    (let C = ''c_'' @ name; U = ''u_'' @ name; H = ''h_'' @ name
     in [shp (reg C X_CAP (ycen - h / 2) 5 h [] (PInt 6) False),
         shp (box U X_UNIT (ycen - h / 2 - 5 / 10) UW (h + 1) unit_text ''alu'' size0 True True False),
         shp (reg H X_HOLD (ycen - h / 2) 5 h [] (PInt 6) False)]
        @ map (\<lambda>(rx, yy, net0). wrs ''bus'' net0 [P rx yy, pL C yy]) ins
        @ [wrs ''bus'' (name @ ''_c'') [pR C ycen, pL U ycen],
           wrs ''bus'' (name @ ''_r'') [pR U ycen, pL H ycen],
           lb cap_text (P (X_CAP + 25 / 10) (ycen + h / 2 + 35 / 100)) ''south'' (PDec (55 / 10)),
           lb hold_text (P (X_HOLD + 25 / 10) (ycen + h / 2 + 35 / 100)) ''south'' (PDec (55 / 10))])"

definition dp_engines :: "step list" where
  "dp_engines =
    [wrl ''bus'' ''rv1'' [(P 192 Y_RV1E), (P RV1 Y_RV1E), (P RV1 128)],
     wrl ''bus'' ''rv2'' [(P 188 Y_RV2E), (P RV2 Y_RV2E), (P RV2 74)]]
    @ engine ''mul'' 144 9 [(RV1, 147, ''rv1''), (RV2, (1415 / 10), ''rv2'')] (t [''Integer MUL'', (tx ''3$@times$(16$@times$16) DSP'')]) ''q'' ''mul'' (PDec (55 / 10))
    @ engine ''dot'' 125 9 [(RV1, 128, ''rv1''), (RV2, (1225 / 10), ''rv2'')] (t [''pdot8 INT8 dot'', ''4 DSP + adder tree'']) ''q'' ''dot'' (PDec (55 / 10))"

definition dp_memory :: "trig \<Rightarrow> step list" where
  "dp_memory tr =
    [wrs ''bus'' ''alu_y'' [(XY (K 228) (y_of (port ''alu'' ''out''))), (P 228 Y_AD), (P X_CAP Y_AD)],
     shp (reg ''c_a'' X_CAP 104 5 12 [] (PInt 6) False),
     lb ''addr'' (P 250 (Y_AD + (35 / 100))) ''south'' (PDec (55 / 10)),
     lb ''addr'' (P (X_CAP + (25 / 10)) (11635 / 100)) ''south'' (PDec (55 / 10)),
     shp (mux ''lam'' 307 [113, 110, 107, 104] 6 (18 / 10) ''bot'' (Some [''0'', ''1'', (tx ''$@vdots$''), ''7'']) (PInt 5) False),
     wrl ''bus'' ''a_vec'' [(pR ''c_a'' Y_AD), (P (3035 / 10) Y_AD)],
     wr ''a_vec'' [(P (3035 / 10) Y_AD), (pin ''lam'' 1)],
     wr ''a_vec'' [(P (3035 / 10) Y_AD), (P (3035 / 10) 113), (pin ''lam'' 0)],
     wr ''a_vec'' [(P (3035 / 10) Y_AD), (P (3035 / 10) 104), (pin ''lam'' 3)],
     shp (box ''tag'' 321 102 8 (175 / 10) (t [''='', (tx ''$@times$8'')]) ''ctl'' (PDec (65 / 10)) False False False)]
    @ [wr ''lead_a'' [(port ''lam'' ''out''), (pLc ''tag'' (y_of (port ''lam'' ''out'')))],
     wrs ''bus'' ''a_vec'' [(P 300 Y_AD), (P 300 117), (pL ''tag'' 117)],
     lb ''tag'' (XY (K 315) (plus_c (y_of (port ''lam'' ''out'')) (35 / 100))) ''south'' (PDec (55 / 10)),
     shp (gate tr ''andg'' ''and'' 336 [113, 108] 6 (16 / 10) [] [] (PInt 5)),
     wrs ''bus'' ''eq'' [(pR ''tag'' 113), (pin ''andg'' 0)],
     shp (mux ''pmux'' 285 [97, 91] 5 (26 / 10) ''bot'' (Some [[], []]) (PInt 5) False),
     stb ''pm_m'' (pin ''pmux'' 0) ''left'' (26 / 10) ''mask'' (PDec (55 / 10)) ''ctl'',
     stb ''pm_s'' (port ''pmux'' ''selpt'') ''down'' (26 / 10) ''issue'' (PDec (55 / 10)) ''ctl'',
     shp (reg ''c_p'' X_CAP 89 5 10 [] (PInt 6) False),
     wrs ''bus'' ''pmux_o'' [(port ''pmux'' ''out''), (pLc ''c_p'' (y_of (port ''pmux'' ''out'')))],
     lb ''pend'' (P (X_CAP + (25 / 10)) (9935 / 100)) ''south'' (PDec (55 / 10)),
     shp (box ''pel'' 304 88 11 11 (t [''lowest'', ''pending'']) ''ctl'' (PDec (55 / 10)) False False False),
     wrs ''bus'' ''pend'' [(pR ''c_p'' 94), (pL ''pel'' 94)],
     wr ''lead'' [(pTc ''pel'' (x_of (port ''lam'' ''selpt''))), (port ''lam'' ''selpt'')],
     lb ''lead'' (XY (plus_c (x_of (port ''lam'' ''selpt'')) (5 / 10)) (K (1016 / 10))) ''west'' (PDec (55 / 10)),
     wrs ''bus'' ''pend'' [(P (3005 / 10) 94), (P (3005 / 10) (845 / 10)), (P 333 (845 / 10)), (P 333 108), (pin ''andg'' 1)],
     shp (gate tr ''andpn'' ''and'' 349 [(1105 / 10), 104] 6 (16 / 10) [0] [] (PInt 5)),
     wrs ''bus'' ''grp'' [(port ''andg'' ''out''), (pin ''andpn'' 0)],
     wrs ''bus'' ''pend'' [(P 333 104), (pin ''andpn'' 1)],
     wrs ''bus'' ''pnext'' [(port ''andpn'' ''out''), (XY (K 358) (y_of (port ''andpn'' ''out''))), (P 358 81), (P 282 81), (P 282 91), (pin ''pmux''
       1)],
     lb ''grp'' (P (3448 / 10) (11085 / 100)) ''south'' (PDec (55 / 10))]"

definition dp_data :: "step list" where
  "dp_data =
    [shp (mux ''sdm'' 285 [74, 68] 5 (26 / 10) ''bot'' (Some [[], []]) (PInt 5) False),
     wrs ''bus'' ''rv2'' [(P RV2 74), (pin ''sdm'' 0)],
     stb ''sdm_f'' (pin ''sdm'' 1) ''left'' (26 / 10) ''frv2'' (PDec (55 / 10)) ''bus'',
     stb ''sdm_s'' (port ''sdm'' ''selpt'') ''down'' (26 / 10) ''fsw'' (PDec (55 / 10)) ''ctl'',
     shp (reg ''c_d'' X_CAP 65 5 12 [] (PInt 6) False),
     wrs ''bus'' ''sd'' [(port ''sdm'' ''out''), (pLc ''c_d'' (y_of (port ''sdm'' ''out'')))],
     lb ''data'' (P (X_CAP + (25 / 10)) (7735 / 100)) ''south'' (PDec (55 / 10)),
     shp (box ''line'' 304 58 16 16 (t [''Line port'', ''store merge'', ''load extract'']) ''ctl'' (PDec (55 / 10)) False True False),
     wrs ''bus'' ''sd_q'' [(pR ''c_d'' 71), (pL ''line'' 71)],
     wr ''lead_a'' [(XY (K (3168 / 10)) (y_of (port ''lam'' ''out''))), (pT ''line'' (3168 / 10))],
     wrs ''bus'' ''grp'' [(P 346 (1105 / 10)), (P 346 78), (P 319 78), (pT ''line'' 319)],
     shp (box ''dmem'' 330 56 18 18 (t [''Shared'', ''memory'', ''data port'', ''256-b line'']) ''ext'' (PDec (55 / 10)) False True False),
     wrs ''wide'' ''wline'' [(pR ''line'' 69), (pL ''dmem'' 69)],
     wrs ''wide'' ''rline'' [(pL ''dmem'' 62), (pR ''line'' 62)],
     shp (box ''scr'' 322 38 16 10 (t [''Scratchpad'', ''LUTRAM'']) ''mem'' (PDec (55 / 10)) False True False),
     stb ''scr_i'' (pL ''scr'' 43) ''left'' 3 ''lead lane'' (PDec (55 / 10)) ''ctl'',
     shp (mux ''rmux'' 356 [51, 43] 5 (26 / 10) ''top'' (Some [[], []]) (PInt 5) False),
     wrs ''bus'' ''ld'' [(pB ''line'' 312), (P 312 51), (pin ''rmux'' 0)],
     wr ''scrd'' [(pR ''scr'' 43), (pin ''rmux'' 1)],
     stb ''rm_s'' (port ''rmux'' ''selpt'') ''up'' (24 / 10) ''scratch'' (PDec (55 / 10)) ''ctl'']"

definition dp_writeback :: "step list" where
  "dp_writeback =
    [shp (mux ''vwb'' X_WB [118, 113, 108, 103, 98] 7 (26 / 10) ''top'' (Some [''mul'', ''alu'', ''dot'', ''mem'', ''fpc'']) (PInt 5) False),
     shp (mux ''fwb'' X_WB [40, Y_FPB, Y_SFB] 7 (28 / 10) ''top'' (Some [''mem'', ''fpc'', ''sfu'']) (PInt 5) False),
     wrs ''bus'' ''mul_o'' [(pR ''h_mul'' 144), (P 380 144), (P 380 118), (pin ''vwb'' 0)],
     wrs ''bus'' ''wbv'' [(port ''wbm'' ''out''), (XY (K 377) (y_of (port ''wbm'' ''out''))), (P 377 113), (pin ''vwb'' 1)],
     lb (tx ''wb@_val'') (XY (K 250) (plus_c (y_of (port ''wbm'' ''out'')) (35 / 100))) ''south'' (PDec (55 / 10)),
     wrs ''bus'' ''dot_o'' [(pR ''h_dot'' 125), (P 374 125), (P 374 108), (pin ''vwb'' 2)],
     wrs ''bus'' ''mem_o'' [(port ''rmux'' ''out''), (XY (K 366) (y_of (port ''rmux'' ''out''))), (P 366 103), (pin ''vwb'' 3)],
     wrs ''bus'' ''mem_o'' [(XY (K 366) (y_of (port ''rmux'' ''out''))), (P 366 40), (pin ''fwb'' 0)],
     wrs ''bus'' ''fpc_o'' [(pR ''h_fpu'' 80), (P 224 80), (P 224 Y_FPB), (pin ''fwb'' 1)],
     wrs ''bus'' ''fpc_o'' [(P 370 Y_FPB), (P 370 98), (pin ''vwb'' 4)],
     wrs ''bus'' ''sfu_o'' [(pR ''h_sfu'' 47), (P 221 47), (P 221 Y_SFB), (pin ''fwb'' 2)],
     lb ''fpc'' (P 300 (Y_FPB + (35 / 100))) ''south'' (PDec (55 / 10)),
     lb ''sfu'' (P 300 (Y_SFB + (35 / 100))) ''south'' (PDec (55 / 10)),
     lbb (t [''VRF'', ''write'']) (XY (K (X_WB + (76 / 10))) (plus_c (y_of (port ''vwb'' ''out'')) (25 / 10))) ''south west'' (PDec (55 / 10)),
     lbb (t [''FRF'', ''write'']) (XY (K (X_WB - (6 / 10))) (plus_c (high_of ''fwb'') (2 / 10))) ''south east'' (PDec (55 / 10)),
     stb ''fwb_s'' (port ''fwb'' ''selpt'') ''up'' (24 / 10) ''prio'' (PDec (55 / 10)) ''ctl'']"

definition dp_return :: "step list" where
  "dp_return =
    [wrs ''bus'' ''vrf_w'' [(port ''vwb'' ''out''), (XY (K 395) (y_of (port ''vwb'' ''out''))), (P 395 Y_VB), (P X_VW Y_VB), (P X_VW 118), (pL
       ''vrf'' 118)],
     wrs ''bus'' ''frf_w'' [(port ''fwb'' ''out''), (XY (K (3925 / 10)) (y_of (port ''fwb'' ''out''))), (P (3925 / 10) Y_FB), (P X_FW Y_FB), (P X_FW
       64), (pL ''frf'' 64)],
     lb (tx ''VRF write port: @'' @ tx ''{w, rd@}, data, lane enables'') (P 250 (Y_VB + (35 / 100))) ''south'' (PDec (55 / 10)),
     lb (tx ''FRF write port: @'' @ tx ''{w, fd@}, data, lane enables'') (P 250 (Y_FB + (35 / 100))) ''south'' (PDec (55 / 10)),
     shp (box ''res'' 372 158 22 14 (t [''Resume'', (tx ''W@_RUN,''), (tx ''pc$@gets$resume'')]) ''ctl'' (PDec (55 / 10)) False True False),
     shp (box ''arb'' 382 127 12 8 (t [''WB'', ''arbiter'']) ''ctl'' (PDec (55 / 10)) False False False),
     wrs ''ctl'' ''vsel'' [(pBc ''arb'' (x_of (port ''vwb'' ''selpt''))), (port ''vwb'' ''selpt'')],
     wrs ''ctl'' ''wbfire'' [(pT ''arb'' 388), (XY (K 388) (low_of ''res''))],
     lb (t [''grant'', ''(wb fire)'']) (P (3885 / 10) 146) ''west'' (PDec (55 / 10))]
    @ [wr ''stk_upd'' [(pT ''push'' (2455 / 10)), (P (2455 / 10) Y_T1), (P 60 Y_T1), (pT ''stk'' 60)],
     lb (tx ''stack write: npc, push / pop, sp$@pm$1'') (P 160 (Y_T1 + (35 / 100))) ''south'' (PDec (55 / 10)),
     wrs ''ctl'' ''resume'' [(pT ''res'' 383), (P 383 Y_T2), (P 48 Y_T2), (pT ''stk'' 48)],
     wrs ''ctl'' ''resume'' [(P 48 Y_T2), (P 12 Y_T2), (pT ''wst'' 12)],
     lb (tx ''resume: @'' @ tx ''{w, pc@} $@to$ W@_RUN'') (P 300 (Y_T2 + (35 / 100))) ''south'' (PDec (55 / 10))]"

section \<open>The figure\<close>

definition datapath_steps :: "trig \<Rightarrow> step list" where
  "datapath_steps tr =
     dp_fetch tr @ dp_issue @ dp_execute @ dp_control tr @ dp_branch tr @ dp_float @ dp_engines @ dp_memory tr @ dp_data
     @ dp_writeback @ dp_return"

definition tighten :: "fig \<Rightarrow> fig" where
  "tighten f = shift 100 (- 12) ''x'' (shift 262 (- 8) ''x'' f)"

definition net_lines :: "string \<Rightarrow> fig \<Rightarrow> pt list list result" where
  "net_lines n f = (case map_of (f_nets f) n of None \<Rightarrow> Inl KeyError | Some m \<Rightarrow> Inr (map w_pts (n_lines m)))"

definition add_frame :: "fig \<Rightarrow> ((rat \<times> rat) \<times> fig) result" where
  "add_frame f =
     bindE (extent f) (\<lambda>(x0, y0, x1, y1).
     bindE (shape_of ''bfx'' f) (\<lambda>BFX. bindE (shape_of ''push'' f) (\<lambda>PUSH. bindE (shape_of ''rmux'' f) (\<lambda>RMUX.
     bindE (net_lines ''rv1'' f) (\<lambda>rv1. bindE (net_lines ''mem_o'' f) (\<lambda>mem.
     let top = y1 + 75 / 10; bot = y0 - 15 / 10; b1 = (s_x0 BFX + s_x1 BFX) / 2;
         rails = map fst (filter (\<lambda>p. \<bar>snd p - Y_RV1E\<bar> < 1 / 100) (concat rv1)); memo = map fst (concat (map tl mem))
     in if rails = [] \<or> memo = [] then Inl ValueError
        else let b2 = (s_x1 PUSH + max_of rails) / 2; b3 = (s_x1 RMUX + min_of memo) / 2
          in Inr ((x0, bot), f\<lparr>f_bands := [((x0 - 15 / 10, bot, b1, top), ''FETCH''), ((b1, bot, b2, top), ''ISSUE / EXECUTE''),
               ((b2, bot, b3, top), ''PARK-AND-RESUME ENGINES''), ((b3, bot, x1 + 15 / 10, top), ''WB'')]\<rparr>)))))))"

definition add_legend :: "rat \<Rightarrow> rat \<Rightarrow> rat \<Rightarrow> rat \<Rightarrow> step" where
  "add_legend lx ly lw lh =
     (let row = ly + lh - 95 / 10; dy = 66 / 10; sx = lx + 3; tx0 = lx + 19;
          line = (\<lambda>k st net0 s. [wrs st net0 [P sx (row - k * dy), P (sx + 12) (row - k * dy)], lb s (P tx0 (row - k * dy)) ''west'' (PDec (55 / 10))])
      in run ([\<lambda>f. Inr (f\<lparr>f_frames := f_frames f @ [(lx, ly, lx + lw, ly + lh)]\<rparr>),
           lbb ''Notation'' (P (lx + 2) (ly + lh - 12 / 10)) ''north west'' (PDec (65 / 10))]
         @ line 0 ''sig'' ''lg_s'' ''scalar signal'' @ line 1 ''bus'' ''lg_b'' (tx ''8-lane bus (8 $@times$ 32 b)'')
         @ line 2 ''wide'' ''lg_w'' ''256-bit memory line'' @ line 3 ''ctl'' ''lg_c'' ''control''))"

definition datapath_fig :: "trig \<Rightarrow> fig result" where
  "datapath_fig tr =
     bindE (run (datapath_steps tr) new_fig) (\<lambda>f.
     bindE (add_frame (tighten f)) (\<lambda>((x0, bot), f). add_legend (x0 + 5 / 10) (bot + 25 / 10) 46 36 f))"

definition datapath_main :: "trig \<Rightarrow> string \<Rightarrow> fs \<Rightarrow> ((nat \<times> layout_error list \<times> nat) \<times> fs) result" where
  "datapath_main tr here fs = bindE (datapath_fig tr) (\<lambda>f. draw_main (pjoin here ''simtix_datapath_fig.tex'') f fs)"

end
