(* ===== verification/Publish.thy ===== *)
theory Publish
  imports ChipTop Datapath Plots
begin

text \<open>
  The end of the two schematic scripts, \<^verbatim>\<open>gen_chip_top.py\<close> and \<^verbatim>\<open>gen_datapath_tikz.py\<close>: the drawing is verified and written, and
  only a drawing without errors goes to \<^verbatim>\<open>pdflatex\<close>. The datapath then gets a second document, of the page size that
  \<^verbatim>\<open>pdfinfo\<close> reports for the first, with the descriptions. The programs are the tools of \<open>Xsim\<close>; the warnings and counts
  printed on the way are left out.
\<close>

section \<open>Running LaTeX\<close>

definition latex :: "tools \<Rightarrow> string \<Rightarrow> string \<Rightarrow> xstate \<Rightarrow> (string \<times> xstate) result" where
  "latex ex here name st =
     bindE (invoke ex [''pdflatex'', ''-interaction=nonstopmode'', ''-halt-on-error'', name] here st) (\<lambda>((rc, out), st).
     if rc \<noteq> 0 then Inl (SystemExit ''1'') else Inr (out, st))"

definition pdfinfo :: "tools \<Rightarrow> string \<Rightarrow> string \<Rightarrow> xstate \<Rightarrow> (string \<times> xstate) result" where
  "pdfinfo ex here name st = bindE (invoke ex [''pdfinfo'', name] here st) (\<lambda>((_, out), st). Inr (out, st))"

text \<open>\<^verbatim>\<open>s.split(sep)\<close> for a separator of several characters.\<close>

function split_text :: "string \<Rightarrow> string \<Rightarrow> string \<Rightarrow> string list" where
  "split_text sep acc [] = [rev acc]"
| "split_text sep acc (c # cs) =
     (if starts_with sep (c # cs) then rev acc # split_text sep [] (drop (length sep - 1) cs) else split_text sep (c # acc) cs)"
  by pat_completeness auto
termination
  by (relation "measure (\<lambda>(_, _, s). length s)") auto

definition second_part :: "string \<Rightarrow> string \<Rightarrow> string result" where
  "second_part sep s = (case split_text sep [] s of _ # a # _ \<Rightarrow> Inr a | _ \<Rightarrow> Inl IndexError)"

definition page_size :: "string \<Rightarrow> (rat \<times> rat) result" where
  "page_size info =
     bindE (second_part ''Page size:'' info) (\<lambda>a.
     bindE (mapE float_of (split_on (CHR ''x'') (hd (split_text ''pts'' [] a)))) (\<lambda>vs.
     case vs of [w, h] \<Rightarrow> Inr (w, h) | _ \<Rightarrow> Inl ValueError))"

definition page_count :: "string \<Rightarrow> string result" where
  "page_count info =
     bindE (second_part ''Pages:'' info) (\<lambda>a.
     let w = takeWhile (\<lambda>c. \<not> is_space c) (dropWhile is_space a) in if w = [] then Inl IndexError else Inr w)"

section \<open>gen\_chip\_top.py\<close>

definition checked :: "string \<Rightarrow> fig \<Rightarrow> xstate \<Rightarrow> xstate result" where
  "checked path f st =
     bindE (draw_main path f (xs_fs st)) (\<lambda>((status, _, _), fs).
     if status \<noteq> 0 then Inl (SystemExit ''1'') else Inr (st\<lparr>xs_fs := fs\<rparr>))"

definition chip_pages :: "tools \<Rightarrow> string \<Rightarrow> fig \<Rightarrow> xstate \<Rightarrow> (string list \<times> xstate) result" where
  "chip_pages ex here f st =
     bindE (checked (pjoin here ''simtix_chip_top.tex'') f st) (\<lambda>st.
     bindE (latex ex here ''simtix_chip_top.tex'' st) (\<lambda>(_, st).
     bindE (invoke ex [''pdftoppm'', ''-png'', ''-r'', ''110'', ''-singlefile'', ''simtix_chip_top.pdf'', ''preview''] here st) (\<lambda>(_, st).
     Inr ([''built''], st))))"

definition chip_build :: "tools \<Rightarrow> string \<Rightarrow> xstate \<Rightarrow> (string list \<times> xstate) result" where
  "chip_build ex here st = bindE chip_fig (\<lambda>(_, f). chip_pages ex here f st)"

section \<open>gen\_datapath\_tikz.py\<close>

definition WRAP_TAIL :: "string list" where
  "WRAP_TAIL = map tx
     [''@usepackage[T1]{fontenc}@usepackage{helvet}@renewcommand{@familydefault}{@sfdefault}'',
      ''@usepackage{pdfpages,tabularx,array,xcolor,amssymb,multicol,enumitem,longtable}'',
      ''@renewcommand{@ttdefault}{lmtt}'',
      ''@pagestyle{empty}@setlength{@parindent}{0pt}'',
      ''@begin{document}'',
      ''@includepdf[pages=1,noautoscale]{simtix_datapath_fig.pdf}'',
      ''@input{operation.tex}'',
      ''@input{connections.tex}'',
      ''@input{glossary.tex}'',
      ''@end{document}'']"

definition wrap_doc :: "rat \<Rightarrow> rat \<Rightarrow> string" where
  "wrap_doc pw ph = unlines
     ([tx ''@documentclass{article}'',
       tx ''@usepackage[paperwidth='' @ fixed 2 pw @ ''bp,paperheight='' @ fixed 2 ph @ ''bp,margin=7mm]{geometry}''] @ WRAP_TAIL)"

definition datapath_pages :: "tools \<Rightarrow> string \<Rightarrow> fig \<Rightarrow> xstate \<Rightarrow> (string list \<times> xstate) result" where
  "datapath_pages ex here f st =
     bindE (checked (pjoin here ''simtix_datapath_fig.tex'') f st) (\<lambda>st.
     bindE (latex ex here ''simtix_datapath_fig.tex'' st) (\<lambda>(_, st).
     bindE (pdfinfo ex here ''simtix_datapath_fig.pdf'' st) (\<lambda>(info, st).
        bindE (page_size info) (\<lambda>(pw, ph).
        let st = st\<lparr>xs_fs := write_file (pjoin here ''simtix_datapath.tex'') (wrap_doc pw ph) (xs_fs st)\<rparr>
        in bindE (latex ex here ''simtix_datapath.tex'' st) (\<lambda>(out, st).
           bindE (if contains ''Overfull'' out then Inr True
             else bindE (read_file (xs_fs st) (pjoin here ''simtix_datapath.log'')) (\<lambda>log. Inr (contains ''overfull'' log))) (\<lambda>over.
           bindE (pdfinfo ex here ''simtix_datapath.pdf'' st) (\<lambda>(info, st).
              bindE (page_count info) (\<lambda>n.
              Inr ((if over then [''WARN overfull boxes on the glossary page''] else []) @ [''pages: '' @ n, ''built''], st)))))))))"

definition datapath_build :: "tools \<Rightarrow> trig \<Rightarrow> string \<Rightarrow> xstate \<Rightarrow> (string list \<times> xstate) result" where
  "datapath_build ex tr here st = bindE (datapath_fig tr) (\<lambda>f. datapath_pages ex here f st)"

section \<open>Only verified figures are built\<close>

lemma checked_verified: "checked path f st = Inr st' \<Longrightarrow>
    verify f = [] \<and> (\<exists>cross. emit path [] f (xs_fs st) = Inr (cross, xs_fs st')) \<and> xs_cmds st' = xs_cmds st"
  by (auto simp: checked_def draw_main_def Let_def result_simps split: if_splits)

lemma latex_cmds: "latex ex here name st = Inr (out, st') \<Longrightarrow>
    xs_cmds st' = xs_cmds st @ [[''pdflatex'', ''-interaction=nonstopmode'', ''-halt-on-error'', name]]"
  by (auto simp: latex_def invoke_def result_simps split: option.splits if_splits)

lemma pdfinfo_cmds: "pdfinfo ex here name st = Inr (out, st') \<Longrightarrow> xs_cmds st' = xs_cmds st @ [[''pdfinfo'', name]]"
  by (auto simp: pdfinfo_def invoke_def result_simps split: option.splits)

text \<open>The datapath document is only built from a drawing that passes verification. When the script ends, \<^verbatim>\<open>verify\<close> reported
  nothing on the figure, its drawing was written, and the programs were run in this order: LaTeX on the drawing, the page size of
  the result, LaTeX on the document that includes it, the number of its pages.\<close>

theorem datapath_pages_verified:
  assumes "datapath_pages ex here f st = Inr (out, st')"
  shows "verify f = [] \<and> (\<exists>cross fs. emit (pjoin here ''simtix_datapath_fig.tex'') [] f (xs_fs st) = Inr (cross, fs))
    \<and> xs_cmds st' = xs_cmds st
       @ [[''pdflatex'', ''-interaction=nonstopmode'', ''-halt-on-error'', ''simtix_datapath_fig.tex''], [''pdfinfo'', ''simtix_datapath_fig.pdf''],
          [''pdflatex'', ''-interaction=nonstopmode'', ''-halt-on-error'', ''simtix_datapath.tex''], [''pdfinfo'', ''simtix_datapath.pdf'']]
    \<and> last out = ''built''"
proof -
  let ?doc = "\<lambda>st pw ph. st\<lparr>xs_fs := write_file (pjoin here ''simtix_datapath.tex'') (wrap_doc pw ph) (xs_fs st)\<rparr>"
  obtain st1 where c: "checked (pjoin here ''simtix_datapath_fig.tex'') f st = Inr st1"
    using assms by (auto simp: datapath_pages_def result_simps)
  then obtain o2 st2 where l: "latex ex here ''simtix_datapath_fig.tex'' st1 = Inr (o2, st2)"
    using assms by (auto simp: datapath_pages_def result_simps)
  then obtain info st3 where i: "pdfinfo ex here ''simtix_datapath_fig.pdf'' st2 = Inr (info, st3)"
    using assms c by (auto simp: datapath_pages_def result_simps)
  obtain pw ph where p: "page_size info = Inr (pw, ph)"
    using assms by (auto simp: datapath_pages_def result_simps c l i)
  obtain o5 st5 where d: "latex ex here ''simtix_datapath.tex'' (?doc st3 pw ph) = Inr (o5, st5)"
    using assms by (auto simp: datapath_pages_def result_simps c l i p Let_def)
  obtain info6 st6 where j: "pdfinfo ex here ''simtix_datapath.pdf'' st5 = Inr (info6, st6)"
    using assms by (auto simp: datapath_pages_def result_simps c l i p d Let_def)
  have "st' = st6" "last out = ''built''"
    using assms by (auto simp: datapath_pages_def result_simps c l i p d j Let_def)
  with checked_verified [OF c] latex_cmds [OF l] pdfinfo_cmds [OF i] latex_cmds [OF d] pdfinfo_cmds [OF j] show ?thesis
    by auto
qed

definition demo_info :: string where
  "demo_info = ''Page size: 612 x 792 pts'' @ [CHR 0x0A] @ ''Pages: 2'' @ [CHR 0x0A]"

definition demo_tex :: tools where
  "demo_tex files cmds cmd cwd = Some (0, if hd cmd = ''pdfinfo'' then demo_info else [], [])"

lemma demo_runs:
  "latex demo_tex here name st = Inr ([], st\<lparr>xs_cmds := xs_cmds st @ [[''pdflatex'', ''-interaction=nonstopmode'', ''-halt-on-error'', name]]\<rparr>)"
  "pdfinfo demo_tex here name st = Inr (demo_info, st\<lparr>xs_cmds := xs_cmds st @ [[''pdfinfo'', name]]\<rparr>)"
  by (simp_all add: latex_def pdfinfo_def invoke_def demo_tex_def Let_def)

lemma demo_pages: "page_size demo_info = Inr (612, 792)" "page_count demo_info = Inr ''2''"
proof -
  let ?tail = "[CHR 0x0A] @ ''Pages: 2'' @ [CHR 0x0A]"
  have s: "second_part ''Page size:'' demo_info = Inr ('' 612 x 792 pts'' @ ?tail)" "second_part ''Pages:'' demo_info = Inr ('' 2'' @ [CHR 0x0A])"
    by code_simp+
  have "hd (split_text ''pts'' [] ('' 612 x 792 pts'' @ ?tail)) = '' 612 x 792 ''" "split_on (CHR ''x'') '' 612 x 792 '' = ['' 612 '', '' 792 '']"
    by code_simp+
  moreover have "float_of '' 612 '' = Inr 612" "float_of '' 792 '' = Inr 792"
    by code_simp+
  ultimately show "page_size demo_info = Inr (612, 792)"
    by (simp only: page_size_def s bindE.simps mapE.simps list.case prod.case)
  have "takeWhile (\<lambda>c. \<not> is_space c) (dropWhile is_space ('' 2'' @ [CHR 0x0A])) = ''2''"
    by code_simp
  then show "page_count demo_info = Inr ''2''"
    by (simp only: page_count_def s bindE.simps Let_def list.distinct if_False)
qed

definition demo_line :: fig where
  "demo_line = snd (projr (wire ''w'' [(0, 0), (4, 0)] ''sig'' True new_fig))"

lemma demo_checked: "\<exists>doc. checked p demo_line st = Inr (st\<lparr>xs_fs := write_file p doc (xs_fs st)\<rparr>)"
proof -
  have v: "verify demo_line = []" and x: "isl (extent demo_line) = False" and e: "isl (emit_lines [] demo_line) = False"
    by code_simp+
  from x e obtain b ls where "extent demo_line = Inr b" "emit_lines [] demo_line = Inr ls"
    by (cases "extent demo_line"; cases "emit_lines [] demo_line") auto
  then show ?thesis
    by (auto simp: checked_def draw_main_def v emit_def Let_def)
qed

theorem datapath_pages_verified_witness:
  "\<exists>out st'. datapath_pages demo_tex ''fig'' demo_line \<lparr>xs_fs = [(''fig/simtix_datapath.log'', ''ok'')], xs_cmds = []\<rparr> = Inr (out, st')
     \<and> verify demo_line = [] \<and> length (xs_cmds st') = 4"
proof -
  let ?st = "\<lparr>xs_fs = [(''fig/simtix_datapath.log'', ''ok'')], xs_cmds = []\<rparr>"
  have p: "contains ''Overfull'' [] = False" "pjoin ''fig'' ''simtix_datapath.log'' = ''fig/simtix_datapath.log''"
    "''fig/simtix_datapath.log'' \<noteq> pjoin ''fig'' ''simtix_datapath.tex''"
    "''fig/simtix_datapath.log'' \<noteq> pjoin ''fig'' ''simtix_datapath_fig.tex''"
    by code_simp+
  obtain doc where c: "checked (pjoin ''fig'' ''simtix_datapath_fig.tex'') demo_line ?st
      = Inr (?st\<lparr>xs_fs := write_file (pjoin ''fig'' ''simtix_datapath_fig.tex'') doc (xs_fs ?st)\<rparr>)"
    using demo_checked by blast
  have log: "read_file (write_file (pjoin ''fig'' ''simtix_datapath.tex'') w (write_file (pjoin ''fig'' ''simtix_datapath_fig.tex'') doc [(''fig/simtix_datapath.log'', ''ok'')]))
      (pjoin ''fig'' ''simtix_datapath.log'') = Inr ''ok''" for w
    using p(3,4) unfolding p(2) by (simp add: read_file_def)
  have "\<exists>out st'. datapath_pages demo_tex ''fig'' demo_line ?st = Inr (out, st')"
    unfolding datapath_pages_def c demo_runs bindE.simps prod.case Let_def demo_pages p(1) if_False xstate.simps log by blast
  then obtain out st' where r: "datapath_pages demo_tex ''fig'' demo_line ?st = Inr (out, st')"
    by blast
  from datapath_pages_verified [OF r] r show ?thesis
    by auto
qed

end
