(* ===== verification/Sketch.thy ===== *)
theory Sketch
  imports Xsim
begin

text \<open>
  The drawing functions of the architecture figures (\<^verbatim>\<open>gen_arch_v2.py\<close>, \<^verbatim>\<open>gen_arch_v3.py\<close>, \<^verbatim>\<open>gen_amo_fig.py\<close>): each
  appends TikZ lines to \<^verbatim>\<open>body\<close>. A line is kept as a value with its coordinates and printed at the end, so that the
  geometry of a figure can be stated; \<^verbatim>\<open>main\<close> writes the document, compiles it and copies the result. Coordinates
  are fractions instead of floats.
\<close>

type_synonym point = "rat \<times> rat"

section \<open>Lines of a picture\<close>

text \<open>
  A literal line; a rectangle; a text; a block (margin of its text, extra options, name, corners, text, style); a path with
  its ending; a path with a text on its longest segment.
\<close>

datatype draw =
    Raw string
  | Rect rat rat rat rat string
  | Text rat rat string string string
  | Block rat string "string option" rat rat rat rat string string
  | Line "point list" string string
  | Labelled "point list" string string string

definition f3 :: "rat \<Rightarrow> string" where "f3 v = fixed 3 v"

definition c3 :: "rat \<Rightarrow> rat \<Rightarrow> string" where "c3 x y = ''('' @ f3 x @ '','' @ f3 y @ '')''"

definition path_text :: "point list \<Rightarrow> string" where "path_text pts = join '' -- '' (map (\<lambda>(x, y). c3 x y) pts)"

definition span_len :: "point \<times> point \<Rightarrow> rat" where
  "span_len = (\<lambda>(p, q). \<bar>fst q - fst p\<bar> + \<bar>snd q - snd p\<bar>)"

text \<open>\<^verbatim>\<open>max(range(len(segs)), key=...)\<close>: the first index with the largest length.\<close>

definition longest :: "point list \<Rightarrow> nat result" where
  "longest pts =
     (let ls = map span_len (zip pts (tl pts))
      in if ls = [] then Inl ValueError
         else let m = fold max (tl ls) (hd ls) in Inr (length (takeWhile (\<lambda>l. l \<noteq> m) ls)))"

definition block_text :: "rat \<Rightarrow> string \<Rightarrow> string option \<Rightarrow> rat \<Rightarrow> rat \<Rightarrow> rat \<Rightarrow> rat \<Rightarrow> string \<Rightarrow> string \<Rightarrow> string" where
  "block_text margin extra name x0 y0 x1 y1 text style =
     (let w = x1 - x0; h = y1 - y0
      in tx ''@node['' @ style @ '', minimum width='' @ f3 w @ ''cm, minimum height='' @ f3 h @ ''cm, text width=''
         @ f3 (w - margin) @ ''cm'' @ extra @ '']'' @ (case name of None \<Rightarrow> [] | Some n \<Rightarrow> '' ('' @ n @ '')'')
         @ '' at '' @ c3 ((x0 + x1) / 2) ((y0 + y1) / 2) @ '' {'' @ text @ ''};'')"

definition rect_text :: "rat \<Rightarrow> rat \<Rightarrow> rat \<Rightarrow> rat \<Rightarrow> string \<Rightarrow> string" where
  "rect_text x0 y0 x1 y1 style = tx ''@draw['' @ style @ ''] '' @ c3 x0 y0 @ '' rectangle '' @ c3 x1 y1 @ '';''"

definition text_text :: "rat \<Rightarrow> rat \<Rightarrow> string \<Rightarrow> string \<Rightarrow> string \<Rightarrow> string" where
  "text_text x y s style anchor = tx ''@node['' @ style @ '', anchor='' @ anchor @ ''] at '' @ c3 x y @ '' {'' @ s @ ''};''"

definition labelled_text :: "point list \<Rightarrow> string \<Rightarrow> string \<Rightarrow> string \<Rightarrow> string result" where
  "labelled_text pts style nopts label0 =
     bindE (longest pts) (\<lambda>i. Inr (tx ''@draw['' @ style @ ''] '' @ path_text (take (Suc i) pts) @ '' -- node['' @ nopts @ ''] {''
       @ label0 @ ''} '' @ path_text (drop (Suc i) pts) @ '';''))"

definition show_draw :: "draw \<Rightarrow> string result" where
  "show_draw d =
     (case d of
        Raw s \<Rightarrow> Inr s
      | Rect x0 y0 x1 y1 style \<Rightarrow> Inr (rect_text x0 y0 x1 y1 style)
      | Text x y s style anchor \<Rightarrow> Inr (text_text x y s style anchor)
      | Block m e n x0 y0 x1 y1 text style \<Rightarrow> Inr (block_text m e n x0 y0 x1 y1 text style)
      | Line pts style ending \<Rightarrow> Inr (tx ''@draw['' @ style @ ''] '' @ path_text pts @ ending @ '';'')
      | Labelled pts style nopts label0 \<Rightarrow> labelled_text pts style nopts label0)"

text \<open>The lines of statements that run in order, of which one may raise.\<close>

definition draws :: "draw list result list \<Rightarrow> draw list result" where
  "draws rs = bindE (mapE (\<lambda>r. r) rs) (\<lambda>ds. Inr (concat ds))"

section \<open>Writing and compiling a picture\<close>

text \<open>\<^verbatim>\<open>TEMPLATE % '\n'.join(body)\<close>, the template being the lines before and after the body.\<close>

definition picture :: "string list \<Rightarrow> string list \<Rightarrow> draw list \<Rightarrow> string result" where
  "picture head foot body = bindE (mapE show_draw body) (\<lambda>ls. Inr (unlines (head @ [join [CHR 0x0A] ls] @ foot)))"

definition sketch_main :: "tools \<Rightarrow> string list \<Rightarrow> string list \<Rightarrow> draw list \<Rightarrow> string \<Rightarrow> string \<Rightarrow> string \<Rightarrow> xstate \<Rightarrow> xstate result" where
  "sketch_main ex head foot body here name out_pdf st =
     bindE (picture head foot body) (\<lambda>doc.
     bindE (invoke ex [''pdflatex'', ''-interaction=nonstopmode'', name @ ''.tex''] here
              (st\<lparr>xs_fs := write_file (pjoin here (name @ ''.tex'')) doc (xs_fs st)\<rparr>)) (\<lambda>((rc, _), st).
        if rc \<noteq> 0 then Inl CalledProcessError
        else bindE (read_file (xs_fs st) (pjoin here (name @ ''.pdf''))) (\<lambda>pdf.
             Inr (st\<lparr>xs_fs := write_file out_pdf pdf (xs_fs st)\<rparr>))))"

section \<open>A figure is written\<close>

text \<open>A path with a text on it needs a segment.\<close>

definition drawable :: "draw \<Rightarrow> bool" where
  "drawable d = (case d of Labelled pts _ _ _ \<Rightarrow> 2 \<le> length pts | _ \<Rightarrow> True)"

definition drawn :: "draw list result \<Rightarrow> bool" where
  "drawn r = (case r of Inl _ \<Rightarrow> False | Inr ds \<Rightarrow> list_all drawable ds)"

named_theorems drawn_simps "which parts of a figure are drawn"

lemma drawn_Inr [drawn_simps]: "drawn (Inr ds) \<longleftrightarrow> list_all drawable ds"
  by (simp add: drawn_def)

lemma drawn_draws [drawn_simps]: "drawn (draws rs) \<longleftrightarrow> list_all drawn rs"
proof (induction rs)
  case (Cons r rs)
  have "draws (r # rs) = bindE r (\<lambda>d. bindE (draws rs) (\<lambda>ds. Inr (d @ ds)))"
    by (cases r; cases "mapE (\<lambda>r. r) rs") (simp_all add: draws_def)
  moreover have "drawn (bindE r (\<lambda>d. bindE (draws rs) (\<lambda>ds. Inr (d @ ds)))) \<longleftrightarrow> drawn r \<and> drawn (draws rs)"
    by (cases r; cases "draws rs") (simp_all add: drawn_def)
  ultimately show ?case
    using Cons.IH by simp
qed (simp add: draws_def drawn_def)

lemma drawable_simps [drawn_simps]:
  "drawable (Raw s)" "drawable (Rect x0 y0 x1 y1 st)" "drawable (Text x y s st anchor)"
  "drawable (Block m e n x0 y0 x1 y1 tt st)" "drawable (Line pts st ending)"
  "drawable (Labelled pts st nopts l) \<longleftrightarrow> 2 \<le> length pts"
  by (simp_all add: drawable_def)

lemma list_all_concat_map [drawn_simps]: "list_all P (concat (map f xs)) \<longleftrightarrow> list_all (\<lambda>x. list_all P (f x)) xs"
  by (induction xs) auto

lemma list_all_True [drawn_simps]: "list_all (\<lambda>x. True) xs"
  by (simp add: list_all_iff)

lemma show_draw_total: "drawable d \<Longrightarrow> \<exists>s. show_draw d = Inr s"
  by (cases d) (auto simp: show_draw_def drawable_def labelled_text_def longest_def Let_def result_simps Suc_le_length_iff numeral_2_eq_2)

lemma picture_total: "list_all drawable body \<Longrightarrow> \<exists>doc. picture head foot body = Inr doc"
  using mapE_exists [of body show_draw] show_draw_total by (auto simp: picture_def list_all_iff result_simps)

text \<open>How a script ends once its document is made, as a function of what \<^verbatim>\<open>pdflatex\<close> does when the document lies on disk: it is
  missing, it fails, it leaves no PDF, or there is a PDF to copy.\<close>

definition pdflatex_on :: "tools \<Rightarrow> string \<Rightarrow> string \<Rightarrow> string \<Rightarrow> xstate \<Rightarrow> (int \<times> string \<times> (string \<times> string) list) option" where
  "pdflatex_on ex here name doc st =
     ex ((map_of (xs_fs st))(pjoin here (name @ ''.tex'') \<mapsto> doc)) (xs_cmds st) [''pdflatex'', ''-interaction=nonstopmode'', name @ ''.tex''] here"

definition files_after :: "string \<Rightarrow> string \<Rightarrow> string \<Rightarrow> (string \<times> string) list \<Rightarrow> xstate \<Rightarrow> string \<Rightarrow> string option" where
  "files_after here name doc ws st = (map_of (xs_fs st))(pjoin here (name @ ''.tex'') \<mapsto> doc) ++ map_of (rev ws)"

lemma map_of_writes: "map_of (fold (\<lambda>(p, s). write_file p s) ws fs) = map_of fs ++ map_of (rev ws)"
  by (induction ws arbitrary: fs) (auto simp: map_add_def fun_eq_iff split: option.splits)

definition sketch_ends :: "tools \<Rightarrow> string \<Rightarrow> string \<Rightarrow> string \<Rightarrow> string \<Rightarrow> xstate \<Rightarrow> xstate result \<Rightarrow> bool" where
  "sketch_ends ex here name out_pdf doc st r =
     (case pdflatex_on ex here name doc st of
        None \<Rightarrow> r = Inl FileNotFoundError
      | Some (rc, out, ws) \<Rightarrow>
          if rc \<noteq> 0 then r = Inl CalledProcessError
          else case files_after here name doc ws st (pjoin here (name @ ''.pdf'')) of
              None \<Rightarrow> r = Inl FileNotFoundError
            | Some pdf \<Rightarrow> \<exists>st'. r = Inr st' \<and> map_of (xs_fs st') = (files_after here name doc ws st)(out_pdf \<mapsto> pdf))"

lemma sketch_main_outcome:
  assumes "picture head foot body = Inr doc"
  shows "sketch_ends ex here name out_pdf doc st (sketch_main ex head foot body here name out_pdf st)"
proof -
  have w: "map_of (write_file (pjoin here (name @ ''.tex'')) doc (xs_fs st)) = (map_of (xs_fs st))(pjoin here (name @ ''.tex'') \<mapsto> doc)"
    by (simp add: fun_eq_iff)
  show ?thesis
  proof (cases "pdflatex_on ex here name doc st")
    case None
    then show ?thesis unfolding sketch_ends_def pdflatex_on_def by (simp add: sketch_main_def assms invoke_def w)
  next
    case (Some r)
    obtain rc out ws where r: "r = (rc, out, ws)" by (cases r)
    from Some show ?thesis unfolding sketch_ends_def pdflatex_on_def r
      by (auto simp: sketch_main_def assms invoke_def w map_of_writes files_after_def read_file_def fun_eq_iff pdflatex_on_def
          split: option.splits)
  qed
qed

section \<open>Geometry of a picture\<close>

type_synonym corners = "rat \<times> rat \<times> rat \<times> rat"

fun blocks_of :: "draw list \<Rightarrow> corners list" where
  "blocks_of [] = []"
| "blocks_of (d # ds) = (case d of Block _ _ _ x0 y0 x1 y1 _ _ \<Rightarrow> (x0, y0, x1, y1) # blocks_of ds | _ \<Rightarrow> blocks_of ds)"

fun paths_of :: "draw list \<Rightarrow> point list list" where
  "paths_of [] = []"
| "paths_of (d # ds) = (case d of Line pts _ _ \<Rightarrow> pts # paths_of ds | Labelled pts _ _ _ \<Rightarrow> pts # paths_of ds | _ \<Rightarrow> paths_of ds)"

definition legs :: "point list list \<Rightarrow> (point \<times> point) list" where
  "legs ps = concat (map (\<lambda>p. zip p (tl p)) ps)"

definition level :: "point \<times> point \<Rightarrow> bool" where
  "level = (\<lambda>(p, q). fst p = fst q \<or> snd p = snd q)"

text \<open>A leg enters a block when one of its points is inside; it starts there when an end is.\<close>

definition inside :: "point \<Rightarrow> corners \<Rightarrow> bool" where
  "inside p = (\<lambda>(x0, y0, x1, y1). x0 < fst p \<and> fst p < x1 \<and> y0 < snd p \<and> snd p < y1)"

definition enters :: "point \<times> point \<Rightarrow> corners \<Rightarrow> bool" where
  "enters = (\<lambda>(p, q) (x0, y0, x1, y1).
     if snd p = snd q then
       (if y0 < snd p then if snd p < y1 then if min (fst p) (fst q) < x1 then x0 < max (fst p) (fst q) else False else False else False)
     else if fst p = fst q then
       (if x0 < fst p then if fst p < x1 then if min (snd p) (snd q) < y1 then y0 < max (snd p) (snd q) else False else False else False)
     else False)"

text \<open>A leg is clear of a block when it does not enter it or starts or ends inside it.\<close>

definition clear_of :: "point \<times> point \<Rightarrow> corners \<Rightarrow> bool" where
  "clear_of l b = (if enters l b then inside (fst l) b \<or> inside (snd l) b else True)"

lemma blocks_of_append: "blocks_of (xs @ ys) = blocks_of xs @ blocks_of ys"
  by (induction xs) (auto split: draw.splits)

lemma paths_of_append: "paths_of (xs @ ys) = paths_of xs @ paths_of ys"
  by (induction xs) (auto split: draw.splits)

lemma blocks_of_Cons_Raw: "blocks_of (Raw s # ds) = blocks_of ds" "paths_of (Raw s # ds) = paths_of ds"
  by simp_all

lemma legs_append: "legs (ps @ qs) = legs ps @ legs qs"
  by (simp add: legs_def)

end
