(* ===== verification/ArchV2.thy ===== *)
theory ArchV2
  imports Sketch
begin

text \<open>
  The figure \<^verbatim>\<open>gen_arch_v2.py\<close> of the board system and the accelerator: its drawing functions, its statements part by part,
  and the property its docstring claims, that no arrow crosses a block.
\<close>

section \<open>Drawing functions\<close>

definition v2_box :: "string \<Rightarrow> rat \<Rightarrow> rat \<Rightarrow> rat \<Rightarrow> rat \<Rightarrow> string \<Rightarrow> string \<Rightarrow> string \<Rightarrow> draw list" where
  "v2_box name x0 y0 x1 y1 text style extra = [Block (12 / 100) extra (Some name) x0 y0 x1 y1 text style]"

definition v2_stack :: "string \<Rightarrow> rat \<Rightarrow> rat \<Rightarrow> rat \<Rightarrow> rat \<Rightarrow> string \<Rightarrow> string \<Rightarrow> nat \<Rightarrow> rat \<Rightarrow> draw list" where
  "v2_stack name x0 y0 x1 y1 text style n d =
     map (\<lambda>k. Rect (x0 + of_nat k * d) (y0 + of_nat k * d) (x1 + of_nat k * d) (y1 + of_nat k * d) (style @ ''box'')) (rev [1..<Suc n])
     @ v2_box name x0 y0 x1 y1 text style []"

definition v2_frame :: "string \<Rightarrow> rat \<Rightarrow> rat \<Rightarrow> rat \<Rightarrow> rat \<Rightarrow> string \<Rightarrow> string \<Rightarrow> string \<Rightarrow> draw list" where
  "v2_frame name x0 y0 x1 y1 label0 style lstyle =
     [Rect x0 y0 x1 y1 style]
     @ (if label0 \<noteq> [] then [Text (x0 + 6 / 100) (y1 - 3 / 100) label0 lstyle ''north west''] else [])"

definition v2_arrow :: "point list \<Rightarrow> string \<Rightarrow> string option \<Rightarrow> string \<Rightarrow> string \<Rightarrow> draw list" where
  "v2_arrow pts style label0 lpos lopt =
     (case label0 of None \<Rightarrow> [Line pts style []]
      | Some l \<Rightarrow> if l = [] then [Line pts style []] else [Labelled pts style (''elabel, '' @ lpos @ '', '' @ lopt) l])"

section \<open>The figure\<close>

definition v2_frames :: "draw list" where
  "v2_frames = concat
     [v2_frame ''dev'' 0 (95 / 100) 18 (1302 / 100) ''AMD Zynq UltraScale+ XCZU7EV on the ZCU104 board'' ''devframe'' ''dlabel'',
      v2_frame ''ps'' (12 / 100) (11 / 10) (355 / 100) (1265 / 100) (tx ''@textbf{Processing system (PS)}'') ''psframe'' ''flabel'',
      v2_frame ''acc'' (44 / 10) (11 / 10) (1788 / 100) (1265 / 100) (tx
        ''@textbf{SIMTiX} (@texttt{simt@_ps@_top}), programmable logic, 100~MHz'') ''accframe'' ''flabel'']"

definition v2_ps :: "draw list" where
  "v2_ps = concat
     [v2_box ''a53'' (3 / 10) (108 / 10) (338 / 100) (122 / 10) (tx ''4 Cortex-A53 cores, 1.2~GHz@@host program (bare metal)@@L1 and L2 caches'')
        ''ps'' [],
      v2_box ''hpm'' (3 / 10) (995 / 100) (338 / 100) (1045 / 100) (tx ''M@_AXI@_HPM0@_FPD'') ''port'' [],
      v2_box ''seq'' (3 / 10) (435 / 100) (338 / 100) (955 / 100) (tx
        ''@textbf{Launch sequence}@@[2pt]1@enspace write the kernel into the@@@phantom{1}@enspace instruction RAM@@[1pt]2@enspace write PC, parameter block,@@@phantom{1}@enspace $N$ and block size@@[1pt]3@enspace clean the data cache@@[1pt]4@enspace set GO (invalidates the L1)@@[1pt]5@enspace poll DONE@@[1pt]6@enspace invalidate the data cache@@[1pt]7@enspace read cycle and L1 counters'')
        ''note'' [],
      v2_box ''hp0'' (3 / 10) (285 / 100) (338 / 100) (365 / 100) (tx ''S@_AXI@_HP0@_FPD@@128-bit slave port'') ''port'' [],
      v2_box ''i2c'' (3 / 10) (128 / 100) (155 / 100) (245 / 100) (tx ''I$^2$C@@controller'') ''ps'' [],
      v2_box ''ddrc'' (173 / 100) (128 / 100) (338 / 100) (245 / 100) (tx ''DDR4 memory@@controller'') ''ps'' [],
      v2_box ''mon'' (5 / 100) (2 / 100) (228 / 100) (78 / 100) (tx ''Power monitors:@@INA226, 2 IRPS5401'') ''off'' [],
      v2_box ''ddr'' (242 / 100) (2 / 100) (49 / 10) (78 / 100) ''DDR4 SDRAM (kernel data)'' ''off'' [],
      [Raw (tx ''@node[olabel, anchor=west] at (5.05,0.40) {on the board, off chip};'')],
      [Raw (tx ''@node[ctl, minimum width=2.60cm, minimum height=0.48cm, rotate=90] (sc) at (3.975,10.90) {AXI SmartConnect};'')]]"

definition V2_LEGEND :: "(string \<times> string) list" where
  "V2_LEGEND = [(''ctl'', ''control and host interface''), (''iss'', ''warp control and issue''), (''exe'', ''execution units''), (''sto'', ''storage (LUTRAM, block RAM)''), (''mem'', ''memory path''), (''hl'', ''line-aggregated AMOs'')]"

definition v2_host :: "draw list" where
  "v2_host = concat
     [v2_box ''axil'' (458 / 100) (1182 / 100) (104 / 10) (1224 / 100) (tx ''@textbf{AXI4-Lite slave}: address decode'') ''ctl'' [],
      v2_box ''regs'' (458 / 100) (1036 / 100) (788 / 100) (1166 / 100) (tx
        ''@textbf{Command registers, dispatcher}@@[1pt]kernel PC, parameter block,@@$N$, block size, GO, DONE,@@cycles, L1 hits and misses'')
        ''ctl'' [],
      v2_box ''iram'' (805 / 100) (1036 / 100) (104 / 10) (1166 / 100) (tx ''@textbf{Kernel instruction}@@@textbf{RAM}, 1,024 $@times$ 32 bit'')
        ''sto'' [],
      concat (map (\<lambda>(i, st, txt). let x = 1075 / 100 + of_nat (i mod 2) * (355 / 100); y = 1210 / 100 - of_nat (i div 2) * (32 / 100)
               in [Raw (tx ''@draw['' @ st @ ''box] ('' @ f3 x @ '','' @ f3 (y - 11 / 100) @ '') rectangle ('' @ f3 (x + 34 / 100) @ '',''
                     @ f3 (y + 11 / 100) @ '');''),
                   Raw (tx ''@node[lgtext, anchor=west] at ('' @ f3 (x + 40 / 100) @ '','' @ f3 y @ '') {'' @ txt @ ''};'')]) (enumerate 0 V2_LEGEND)),
      [Raw (tx
        ''@node[lgtext, anchor=west, align=left] at (10.75,10.98) {stacked blocks: one copy per warp, lane or context;@@$W=4$ warps, $L=8$ lanes; RF: register file};'')]]"

definition v2_pool :: "draw list" where
  "v2_pool = concat
     [v2_frame ''wp'' (455 / 100) (522 / 100) (1778 / 100) (1025 / 100) [] ''wpframe'' ''flabel'',
      [Raw (tx ''@node[flabel, anchor=north east] at (17.72,10.22) {@textbf{Warp pool}: $W$ warps of $L$ threads, two-stage pipeline (F, X)};'')],
      v2_box ''spawn'' (47 / 10) (892 / 100) (805 / 100) (988 / 100) (tx
        ''@textbf{Spawner}@@$@lceil N/L@rceil$ warps into free slots;@@a block of $2^b$ warps spawns whole'') ''iss'' [],
      v2_stack ''slots'' (47 / 10) (692 / 100) (791 / 100) (858 / 100) (tx
        ''@textbf{Warp slot}@@state, base thread ID@@[1pt]reconvergence stack, depth $L$:@@frames of PC, reconvergence@@PC and active mask'')
        ''iss'' 2 (7 / 100),
      v2_box ''sched'' (47 / 10) (536 / 100) (805 / 100) (65 / 10) (tx
        ''@textbf{Round-robin scheduler}@@[1pt]block barrier (@texttt{bar}): a warp waits@@until its whole block arrives'') ''iss'' [],
      v2_box ''F'' (828 / 100) (536 / 100) (94 / 10) (988 / 100) (tx ''@textbf{F}@@[4pt]fetch at@@the PC of@@the selected@@warp'') ''iss'' [],
      v2_box ''X'' (96 / 10) (536 / 100) (113 / 10) (988 / 100) (tx
        ''@textbf{X}@@[4pt]decode@@[3pt]operand read@@[3pt]branch: retarget, push or pop the stack@@[3pt]write back, or park the warp on a multi-cycle unit'')
        ''iss'' [],
      v2_frame ''rf'' (115 / 10) (736 / 100) (1318 / 100) (988 / 100) [] ''rfframe'' ''flabel'',
      v2_box ''irf'' (116 / 10) (868 / 100) (1308 / 100) (978 / 100) (tx ''@textbf{Integer RF}@@LUTRAM@@2 read, 1 write'') ''sto'' [],
      v2_box ''frf'' (116 / 10) (746 / 100) (1308 / 100) (856 / 100) (tx ''@textbf{FP RF}@@LUTRAM@@3 read, 1 write'') ''sto'' [],
      v2_box ''arb'' (115 / 10) (536 / 100) (1318 / 100) (698 / 100) (tx
        ''@textbf{Write arbiter}@@memory write-back first; a displaced write re-issues'') ''iss'' [],
      v2_stack ''lane'' (136 / 10) (725 / 100) (1748 / 100) (974 / 100) [] ''exe'' 2 (7 / 100),
      [Raw (tx ''@node[font=@fsz@bfseries] at (15.54,9.50) {Lane (8 copies)};'')],
      v2_box ''alu'' (1372 / 100) (834 / 100) (1548 / 100) (928 / 100) (tx ''Integer ALU,@@branch compare,@@address'') ''exein'' [],
      v2_box ''fpu'' (156 / 10) (834 / 100) (1736 / 100) (928 / 100) (tx ''FPU: FP32/FP16,@@5-stage FMA'') ''exein'' [],
      v2_box ''mul'' (1372 / 100) (737 / 100) (1548 / 100) (822 / 100) (tx ''Integer@@multiplier (DSP)'') ''exein'' [],
      v2_box ''dot'' (156 / 10) (737 / 100) (1736 / 100) (822 / 100) (tx ''INT8 dot product@@(@texttt{pdot8})'') ''exein'' [],
      v2_box ''shfl'' (1398 / 100) (536 / 100) (1572 / 100) (662 / 100) (tx
        ''@textbf{Shuffle crossbar}@@@texttt{idx}, @texttt{up},@@@texttt{down}, @texttt{xor}'') ''exe'' [],
      v2_box ''sfu'' (1588 / 100) (536 / 100) (1762 / 100) (662 / 100) (tx ''@textbf{Shared divide and square root}@@lanes in turn'') ''exe'' []]"

definition v2_memory :: "draw list" where
  "v2_memory = concat
     [v2_box ''axi'' (458 / 100) (13 / 10) (672 / 100) (486 / 100) (tx
        ''@textbf{AXI4 master}@@[3pt]line $@to$ INCR burst@@of $32L/128$ beats@@[2pt]AXI ID = request tag@@[2pt]read beats collected@@per ID@@[2pt]AR, R, AW, W, B;@@error flag'')
        ''mem'' [],
      v2_frame ''l1'' (692 / 100) (13 / 10) (988 / 100) (486 / 100) (tx ''@textbf{L1 data cache}, 16~KB, 4-way'') ''memframe'' ''flabel'',
      v2_box ''inreg'' (704 / 100) (382 / 100) (976 / 100) (446 / 100) ''input register + skid entry'' ''mem'' [],
      v2_box ''tags'' (704 / 100) (266 / 100) (834 / 100) (366 / 100) (tx ''tags in@@LUTRAM'') ''sto'' [],
      v2_box ''data'' (846 / 100) (266 / 100) (976 / 100) (366 / 100) (tx ''data: 4 ways@@in block RAM'') ''sto'' [],
      v2_box ''mshr'' (704 / 100) (142 / 100) (976 / 100) (25 / 10) (tx ''4 MSHRs; write-through,@@no write-allocate;@@invalidated at GO'')
        ''mem'' [],
      v2_frame ''me'' (103 / 10) (13 / 10) (1778 / 100) (486 / 100) [] ''memframe'' ''flabel'',
      [Raw (tx ''@node[flabel, anchor=north west] at (10.62,4.84) {@textbf{Memory engine}};'')],
      v2_stack ''ctx'' (1042 / 100) (314 / 100) (1292 / 100) (436 / 100) (tx
        ''@textbf{Context} (one per warp):@@lane addresses, store data,@@pending-lane mask'') ''mem'' 2 (7 / 100),
      v2_box ''coal'' (1042 / 100) (142 / 100) (1306 / 100) (292 / 100) (tx
        ''@textbf{Coalescer}@@one request per cycle:@@the lowest pending lane@@and the lanes in its line;@@8 tags in flight'') ''mem'' [],
      v2_box ''ldret'' (1326 / 100) (374 / 100) (159 / 10) (456 / 100) (tx ''@textbf{Load return}@@words to the RF'') ''mem'' [],
      v2_box ''amo'' (1326 / 100) (142 / 100) (159 / 10) (356 / 100) (tx
        ''@textbf{Line-aggregated AMOs}@@[2pt]one read per line@@into a line buffer@@lanes applied in rounds,@@in serial lane order@@1 AMO ALU (@emph{ser})@@or $L$ ALUs (@emph{par})@@one masked write'')
        ''hl'' [],
      v2_box ''scr'' (1606 / 100) (142 / 100) (1766 / 100) (456 / 100) (tx
        ''@textbf{Scratchpad}@@(LUTRAM)@@[3pt]64 words@@per warp and@@a block-shared@@region@@[3pt]one lane@@per cycle'') ''sto'' []]"

definition v2_arrows :: "draw list" where
  "v2_arrows = concat
     [v2_arrow [((184 / 100), (108 / 10)), ((184 / 100), (1045 / 100))] ''arr'' None ''midway'' ''above'',
      v2_arrow [((338 / 100), (102 / 10)), ((3735 / 1000), (102 / 10))] ''arr'' None ''midway'' ''above'',
      v2_arrow [((4215 / 1000), (1203 / 100)), ((458 / 100), (1203 / 100))] ''arr'' None ''midway'' ''above'',
      v2_arrow [((63 / 10), (1182 / 100)), ((63 / 10), (1166 / 100))] ''arr'' None ''midway'' ''above'',
      v2_arrow [((93 / 10), (1182 / 100)), ((93 / 10), (1166 / 100))] ''arr'' None ''midway'' ''above'',
      v2_arrow [((63 / 10), (104 / 10)), ((63 / 10), (988 / 100))] ''arr'' (Some ''GO'') ''pos=0.45'' ''right'',
      v2_arrow [((884 / 100), (104 / 10)), ((884 / 100), (988 / 100))] ''arr'' (Some ''instruction'') ''pos=0.45'' ''right'',
      v2_arrow [((63 / 10), (892 / 100)), ((63 / 10), (872 / 100))] ''arr'' None ''midway'' ''above'',
      v2_arrow [((63 / 10), (65 / 10)), ((63 / 10), (692 / 100))] ''darr'' None ''midway'' ''above'',
      v2_arrow [((805 / 100), (593 / 100)), ((828 / 100), (593 / 100))] ''arr'' None ''midway'' ''above'',
      v2_arrow [((94 / 10), (762 / 100)), ((96 / 10), (762 / 100))] ''arr'' None ''midway'' ''above'',
      v2_arrow [((113 / 10), (923 / 100)), ((116 / 10), (923 / 100))] ''darr'' None ''midway'' ''above'',
      v2_arrow [((113 / 10), (801 / 100)), ((116 / 10), (801 / 100))] ''darr'' None ''midway'' ''above'',
      v2_arrow [((1308 / 100), (923 / 100)), ((136 / 10), (923 / 100))] ''arr'' None ''midway'' ''above'',
      v2_arrow [((1308 / 100), (801 / 100)), ((136 / 10), (801 / 100))] ''arr'' None ''midway'' ''above'',
      v2_arrow [((138 / 10), (725 / 100)), ((138 / 10), (68 / 10)), ((1318 / 100), (68 / 10))] ''arr'' (Some ''results'') ''pos=0.5'' ''right'',
      v2_arrow [((1234 / 100), (698 / 100)), ((1234 / 100), (736 / 100))] ''arr'' None ''midway'' ''above'',
      v2_arrow [((1045 / 100), (536 / 100)), ((1045 / 100), (45 / 10))] ''bus'' (Some ''memory instruction'') ''pos=0.30'' ''right'',
      v2_arrow [((1167 / 100), (314 / 100)), ((1167 / 100), (292 / 100))] ''arr'' None ''midway'' ''above'',
      v2_arrow [((1444 / 100), (456 / 100)), ((1444 / 100), (504 / 100)), ((127 / 10), (504 / 100)), ((127 / 10), (536 / 100))] ''bus'' (Some
        ''load data'') ''pos=0.5'' ''above'',
      v2_arrow [((103 / 10), (31 / 10)), ((988 / 100), (31 / 10))] ''bdarr'' None ''midway'' ''above'',
      v2_arrow [((692 / 100), (31 / 10)), ((672 / 100), (31 / 10))] ''bdarr'' None ''midway'' ''above'',
      v2_arrow [((458 / 100), (325 / 100)), ((338 / 100), (325 / 100))] ''bdarr'' None ''midway'' ''above'',
      [Raw (tx ''@node[elabel, align=center] at (3.975,3.82) {AXI4@@128 bit};'')],
      [Raw (tx ''@node[elabel, align=center, fill=white, inner sep=0.5pt] at (10.09,3.80) {line@@port};'')],
      [Raw (tx ''@node[elabel, align=center, fill=white, inner sep=0.5pt] at (10.09,2.45) {$32L$@@bit};'')],
      v2_arrow [((184 / 100), (285 / 100)), ((184 / 100), (245 / 100))] ''darr'' None ''midway'' ''above'',
      v2_arrow [((255 / 100), (128 / 100)), ((255 / 100), (78 / 100))] ''bdarr'' None ''midway'' ''above'',
      v2_arrow [((925 / 1000), (128 / 100)), ((925 / 1000), (78 / 100))] ''darr'' None ''midway'' ''above'']"

definition v2_body :: "draw list" where
  "v2_body = v2_frames @ v2_ps @ v2_host @ v2_pool @ v2_memory @ v2_arrows"

definition V2_HEAD :: "string list" where
  "V2_HEAD =
    [''% generated by gen_arch_v2.py -- do not edit by hand'',
     tx ''@documentclass[10pt]{standalone}'',
     tx ''@usepackage{mathptmx}'',
     tx ''@usepackage{tikz}'',
     tx ''@usetikzlibrary{arrows.meta}'',
     tx ''@definecolor{cctl}{HTML}{FFF2CC}'',
     tx ''@definecolor{ciss}{HTML}{DDEBF7}'',
     tx ''@definecolor{cexe}{HTML}{E4DFEC}'',
     tx ''@definecolor{csto}{HTML}{E2EFDA}'',
     tx ''@definecolor{cmem}{HTML}{FBE5D6}'',
     tx ''@definecolor{chl}{HTML}{F8CBAD}'',
     tx ''@definecolor{chlb}{HTML}{C55A11}'',
     tx ''@definecolor{cps}{HTML}{EDEDED}'',
     tx ''@newcommand{@fsz}{@fontsize{6.5}{7.5}@selectfont}'',
     tx ''@begin{document}'',
     tx ''@begin{tikzpicture}[x=1cm, y=1cm,'',
     tx ''  base/.style={draw=black!70, rounded corners=1.2pt, align=center, font=@fsz,'',
     ''               inner sep=1.2pt, line width=0.45pt},'',
     ''  ctl/.style={base, fill=cctl},   ctlbox/.style={base, fill=cctl},'',
     ''  iss/.style={base, fill=ciss},   issbox/.style={base, fill=ciss},'',
     ''  exe/.style={base, fill=cexe},   exebox/.style={base, fill=cexe},'',
     ''  exein/.style={base, fill=white},'',
     ''  sto/.style={base, fill=csto},   stobox/.style={base, fill=csto},'',
     ''  mem/.style={base, fill=cmem},   membox/.style={base, fill=cmem},'',
     ''  hl/.style={base, fill=chl, draw=chlb, line width=1.1pt},'',
     ''  hlbox/.style={base, fill=chl, draw=chlb, line width=1.1pt},'',
     ''  ps/.style={base, fill=cps},'',
     tx ''  port/.style={base, fill=white, font=@fsz@ttfamily},'',
     ''  note/.style={base, fill=white, draw=black!45, dashed, align=left},'',
     ''  off/.style={base, fill=white, draw=black!60},'',
     ''  devframe/.style={draw=black!55, line width=0.5pt, dash pattern=on 3pt off 1.5pt},'',
     ''  psframe/.style={draw=black!60, fill=black!3, rounded corners=2pt},'',
     ''  accframe/.style={draw=black!80, fill=blue!2, rounded corners=2pt, line width=0.7pt},'',
     ''  wpframe/.style={draw=black!55, fill=white, rounded corners=2pt},'',
     ''  memframe/.style={draw=black!55, fill=white, rounded corners=2pt},'',
     ''  rfframe/.style={draw=black!45, fill=white, rounded corners=1.5pt},'',
     tx ''  flabel/.style={font=@fsz, inner sep=1pt},'',
     tx ''  dlabel/.style={font=@fsz@itshape, inner sep=1pt},'',
     tx ''  olabel/.style={font=@fsz@itshape, inner sep=1pt},'',
     tx ''  lgtext/.style={font=@fsz, inner sep=0.5pt},'',
     tx ''  elabel/.style={font=@fsz, inner sep=1pt},'',
     ''  arr/.style={-{Latex[length=1.5mm, width=1.1mm]}, line width=0.55pt},'',
     ''  darr/.style={{Latex[length=1.5mm, width=1.1mm]}-{Latex[length=1.5mm, width=1.1mm]},'',
     ''               line width=0.55pt},'',
     ''  bus/.style={-{Latex[length=1.9mm, width=1.6mm]}, line width=1.1pt},'',
     ''  bdarr/.style={{Latex[length=1.9mm, width=1.6mm]}-{Latex[length=1.9mm, width=1.6mm]},'',
     ''                line width=1.1pt}]'']"

definition V2_FOOT :: "string list" where
  "V2_FOOT = [tx ''@end{tikzpicture}'', tx ''@end{document}'']"

definition v2_main :: "tools \<Rightarrow> string \<Rightarrow> string \<Rightarrow> xstate \<Rightarrow> xstate result" where
  "v2_main ex here out_pdf st = sketch_main ex V2_HEAD V2_FOOT v2_body here ''simtix_arch_v2'' out_pdf st"

section \<open>Geometry\<close>

lemmas v2_parts = v2_body_def v2_frames_def v2_ps_def v2_host_def v2_pool_def v2_memory_def v2_arrows_def V2_LEGEND_def
lemmas v2_calls = v2_box_def v2_stack_def v2_frame_def v2_arrow_def upt_conv_Cons enumerate_eq_zip

lemma v2_frames_geometry:
  "blocks_of v2_frames = []"
  "paths_of v2_frames = []"
  by (simp_all add: v2_parts v2_calls blocks_of_append paths_of_append)

lemma v2_ps_geometry:
  "blocks_of v2_ps = [(3 / 10, 54 / 5, 169 / 50, 61 / 5), (3 / 10, 199 / 20, 169 / 50, 209 / 20), (3 / 10, 87 / 20, 169 / 50, 191 / 20), (3 / 10, 57 / 20, 169 / 50, 73 / 20),
     (3 / 10, 32 / 25, 31 / 20, 49 / 20), (173 / 100, 32 / 25, 169 / 50, 49 / 20), (1 / 20, 1 / 50, 57 / 25, 39 / 50), (121 / 50, 1 / 50, 49 / 10, 39 / 50)]"
  "paths_of v2_ps = []"
  by (simp_all add: v2_parts v2_calls blocks_of_append paths_of_append)

lemma v2_host_geometry:
  "blocks_of v2_host = [(229 / 50, 591 / 50, 52 / 5, 306 / 25), (229 / 50, 259 / 25, 197 / 25, 583 / 50), (161 / 20, 259 / 25, 52 / 5, 583 / 50)]"
  "paths_of v2_host = []"
  by (simp_all add: v2_parts v2_calls blocks_of_append paths_of_append)

lemma v2_pool_geometry:
  "blocks_of v2_pool = [(47 / 10, 223 / 25, 161 / 20, 247 / 25), (47 / 10, 173 / 25, 791 / 100, 429 / 50), (47 / 10, 134 / 25, 161 / 20, 13 / 2), (207 / 25, 134 / 25, 47 / 5, 247 / 25),
     (48 / 5, 134 / 25, 113 / 10, 247 / 25), (58 / 5, 217 / 25, 327 / 25, 489 / 50), (58 / 5, 373 / 50, 327 / 25, 214 / 25), (23 / 2, 134 / 25, 659 / 50, 349 / 50),
     (68 / 5, 29 / 4, 437 / 25, 487 / 50), (343 / 25, 417 / 50, 387 / 25, 232 / 25), (78 / 5, 417 / 50, 434 / 25, 232 / 25), (343 / 25, 737 / 100, 387 / 25, 411 / 50),
     (78 / 5, 737 / 100, 434 / 25, 411 / 50), (699 / 50, 134 / 25, 393 / 25, 331 / 50), (397 / 25, 134 / 25, 881 / 50, 331 / 50)]"
  "paths_of v2_pool = []"
  by (simp_all add: v2_parts v2_calls blocks_of_append paths_of_append)

lemma v2_memory_geometry:
  "blocks_of v2_memory = [(229 / 50, 13 / 10, 168 / 25, 243 / 50), (176 / 25, 191 / 50, 244 / 25, 223 / 50), (176 / 25, 133 / 50, 417 / 50, 183 / 50), (423 / 50, 133 / 50, 244 / 25, 183 / 50),
     (176 / 25, 71 / 50, 244 / 25, 5 / 2), (521 / 50, 157 / 50, 323 / 25, 109 / 25), (521 / 50, 71 / 50, 653 / 50, 73 / 25), (663 / 50, 187 / 50, 159 / 10, 114 / 25),
     (663 / 50, 71 / 50, 159 / 10, 89 / 25), (803 / 50, 71 / 50, 883 / 50, 114 / 25)]"
  "paths_of v2_memory = []"
  by (simp_all add: v2_parts v2_calls blocks_of_append paths_of_append)

lemma v2_arrows_geometry:
  "blocks_of v2_arrows = []"
  "paths_of v2_arrows = [[(46 / 25, 54 / 5), (46 / 25, 209 / 20)], [(169 / 50, 51 / 5), (747 / 200, 51 / 5)], [(843 / 200, 1203 / 100), (229 / 50, 1203 / 100)],
     [(63 / 10, 591 / 50), (63 / 10, 583 / 50)], [(93 / 10, 591 / 50), (93 / 10, 583 / 50)], [(63 / 10, 52 / 5), (63 / 10, 247 / 25)],
     [(221 / 25, 52 / 5), (221 / 25, 247 / 25)], [(63 / 10, 223 / 25), (63 / 10, 218 / 25)], [(63 / 10, 13 / 2), (63 / 10, 173 / 25)],
     [(161 / 20, 593 / 100), (207 / 25, 593 / 100)], [(47 / 5, 381 / 50), (48 / 5, 381 / 50)], [(113 / 10, 923 / 100), (58 / 5, 923 / 100)],
     [(113 / 10, 801 / 100), (58 / 5, 801 / 100)], [(327 / 25, 923 / 100), (68 / 5, 923 / 100)], [(327 / 25, 801 / 100), (68 / 5, 801 / 100)],
     [(69 / 5, 29 / 4), (69 / 5, 34 / 5), (659 / 50, 34 / 5)], [(617 / 50, 349 / 50), (617 / 50, 184 / 25)], [(209 / 20, 134 / 25), (209 / 20, 9 / 2)],
     [(1167 / 100, 157 / 50), (1167 / 100, 73 / 25)], [(361 / 25, 114 / 25), (361 / 25, 126 / 25), (127 / 10, 126 / 25), (127 / 10, 134 / 25)], [(103 / 10, 31 / 10), (247 / 25, 31 / 10)],
     [(173 / 25, 31 / 10), (168 / 25, 31 / 10)], [(229 / 50, 13 / 4), (169 / 50, 13 / 4)], [(46 / 25, 57 / 20), (46 / 25, 49 / 20)],
     [(51 / 20, 32 / 25), (51 / 20, 39 / 50)], [(37 / 40, 32 / 25), (37 / 40, 39 / 50)]]"
  by (simp_all add: v2_parts v2_calls blocks_of_append paths_of_append)

lemmas v2_geometry = v2_body_def blocks_of_append paths_of_append v2_frames_geometry v2_ps_geometry v2_host_geometry v2_pool_geometry
  v2_memory_geometry v2_arrows_geometry append_Cons append_Nil

section \<open>The figure is drawn\<close>

lemma v2_drawable [drawn_simps]:
  "list_all drawable (v2_box name x0 y0 x1 y1 tt style e)" "list_all drawable (v2_stack name x0 y0 x1 y1 tt style n d)"
  "list_all drawable (v2_frame name x0 y0 x1 y1 s style lst)"
  "2 \<le> length pts \<Longrightarrow> list_all drawable (v2_arrow pts style ol lpos lopt)"
  by (auto simp: list_all_iff drawn_simps v2_box_def v2_stack_def v2_frame_def v2_arrow_def split: option.splits)

lemma v2_frames_drawn: "list_all drawable v2_frames"
  unfolding v2_frames_def concat.simps list_all_append by (simp add: drawn_simps case_prod_beta Let_def)

lemma v2_ps_drawn: "list_all drawable v2_ps"
  unfolding v2_ps_def concat.simps list_all_append by (simp add: drawn_simps case_prod_beta Let_def)

lemma v2_host_drawn: "list_all drawable v2_host"
  unfolding v2_host_def concat.simps list_all_append by (simp add: drawn_simps case_prod_beta Let_def)

lemma v2_pool_drawn: "list_all drawable v2_pool"
  unfolding v2_pool_def concat.simps list_all_append by (simp add: drawn_simps case_prod_beta Let_def)

lemma v2_memory_drawn: "list_all drawable v2_memory"
  unfolding v2_memory_def concat.simps list_all_append by (simp add: drawn_simps case_prod_beta Let_def)

lemma v2_arrows_drawn: "list_all drawable v2_arrows"
  unfolding v2_arrows_def concat.simps list_all_append by (simp add: drawn_simps case_prod_beta Let_def)

lemma v2_body_drawn: "list_all drawable v2_body"
  by (simp add: v2_body_def v2_frames_drawn v2_ps_drawn v2_host_drawn v2_pool_drawn v2_memory_drawn v2_arrows_drawn)

section \<open>Properties\<close>

text \<open>No arrow of the figure crosses a block, as its docstring says: every leg of an arrow is level or upright, and it enters
  a block only to start or end inside it. The blocks are those the script draws with its block functions and the AXI SmartConnect, which
  it draws with a node of its own: 2.60 by 0.48, turned upright, around (3.975, 10.90).\<close>

definition V2_SMARTCONNECT :: corners where
  "V2_SMARTCONNECT = (3975 / 1000 - 24 / 100, 109 / 10 - 13 / 10, 3975 / 1000 + 24 / 100, 109 / 10 + 13 / 10)"

theorem v2_arrows_clear:
  "list_all (\<lambda>l. level l \<and> list_all (clear_of l) (V2_SMARTCONNECT # blocks_of v2_body)) (legs (paths_of v2_body))"
  unfolding v2_geometry V2_SMARTCONNECT_def by (simp add: legs_def level_def clear_of_def enters_def inside_def)

end
