(* ===== verification/ArchV3.thy ===== *)
theory ArchV3
  imports Sketch
begin

text \<open>
  The figure \<^verbatim>\<open>gen_arch_v3.py\<close> of the accelerator in the style of the reference papers: its drawing functions, among them the
  titled tables with columns of given widths, and its statements part by part.
\<close>

section \<open>Drawing functions\<close>

definition v3_box :: "string \<Rightarrow> rat \<Rightarrow> rat \<Rightarrow> rat \<Rightarrow> rat \<Rightarrow> string \<Rightarrow> string \<Rightarrow> draw list" where
  "v3_box name x0 y0 x1 y1 text style = [Block (10 / 100) [] (Some name) x0 y0 x1 y1 text style]"

definition v3_shadow :: "rat \<Rightarrow> rat \<Rightarrow> rat \<Rightarrow> rat \<Rightarrow> string \<Rightarrow> nat \<Rightarrow> rat \<Rightarrow> draw list" where
  "v3_shadow x0 y0 x1 y1 style n d =
     map (\<lambda>k. Rect (x0 + of_nat k * d) (y0 - of_nat k * d) (x1 + of_nat k * d) (y1 - of_nat k * d) style) (rev [1..<Suc n])"

definition v3_rect :: "rat \<Rightarrow> rat \<Rightarrow> rat \<Rightarrow> rat \<Rightarrow> string \<Rightarrow> draw list" where
  "v3_rect x0 y0 x1 y1 style = [Rect x0 y0 x1 y1 style]"

definition v3_text :: "rat \<Rightarrow> rat \<Rightarrow> string \<Rightarrow> string \<Rightarrow> string \<Rightarrow> draw list" where
  "v3_text x y s style anchor = [Text x y s style anchor]"

text \<open>The vertical lines of a table: each column takes its share of the width.\<close>

definition v3_edges :: "rat \<Rightarrow> rat \<Rightarrow> rat list \<Rightarrow> rat list result" where
  "v3_edges x0 x1 ws = foldE (\<lambda>w xs. if sum_list ws = 0 then Inl ZeroDivisionError
     else Inr (xs @ [last xs + (x1 - x0) * w / sum_list ws])) ws [x0]"

definition v3_cell :: "rat list \<Rightarrow> rat \<Rightarrow> string \<Rightarrow> nat \<Rightarrow> string \<Rightarrow> draw list result" where
  "v3_cell xs y style j cell =
     (if cell = [] then Inr []
      else if Suc j < length xs then Inr (v3_text ((xs ! j + xs ! Suc j) / 2) y cell style ''center'')
      else Inl IndexError)"

definition v3_cells :: "rat list \<Rightarrow> rat \<Rightarrow> rat \<Rightarrow> bool \<Rightarrow> string list list \<Rightarrow> draw list result" where
  "v3_cells xs y1 rh hdr rows =
     draws (map (\<lambda>(i, r). draws (map (\<lambda>(j, cell).
         v3_cell xs (y1 - (of_nat i + 5 / 10) * rh) (if hdr \<and> i = 0 then ''cellh'' else ''cell'') j cell) (enumerate 0 r)))
       (enumerate 0 rows))"

definition v3_table :: "rat \<Rightarrow> rat \<Rightarrow> rat \<Rightarrow> rat \<Rightarrow> string option \<Rightarrow> string list \<Rightarrow> string list list \<Rightarrow> rat list option \<Rightarrow> rat
    \<Rightarrow> string \<Rightarrow> bool \<Rightarrow> draw list result" where
  "v3_table x0 y0 x1 top_y title cols rows widths th fill hdr =
     (let titled = (title \<noteq> None \<and> title \<noteq> Some []);
          heading = (if titled then v3_text ((x0 + x1) / 2) (top_y - th / 2) (the title) ''tbltitle'' ''center'' else []);
          y1 = (if titled then top_y - th else top_y);
          allrows = (if hdr then [cols] else []) @ rows;
          n = length allrows;
          rh = (y1 - y0) / of_nat n;
          ws = (if widths = None \<or> widths = Some [] then replicate (length cols) 1 else the widths)
      in if n = 0 then Inl ZeroDivisionError
         else bindE (v3_edges x0 x1 ws) (\<lambda>xs.
              bindE (v3_cells xs y1 rh hdr allrows) (\<lambda>cells.
              Inr (heading @ v3_rect x0 y0 x1 y1 (''tbl, fill='' @ fill)
                @ (if hdr then v3_rect x0 (y1 - rh) x1 y1 ''tbl, fill=black!8'' else [])
                @ map (\<lambda>i. Line [(x0, y1 - of_nat i * rh), (x1, y1 - of_nat i * rh)] ''tblline'' []) [1..<n]
                @ map (\<lambda>j. Line [(xs ! j, y0), (xs ! j, y1)] ''tblline'' []) [1..<length xs - 1]
                @ cells))))"

definition v3_trap :: "rat \<Rightarrow> rat \<Rightarrow> rat \<Rightarrow> rat \<Rightarrow> string \<Rightarrow> rat \<Rightarrow> string \<Rightarrow> draw list" where
  "v3_trap x0 y0 x1 y1 narrow d style =
     [Line (if narrow = ''left'' then [(x0, y0 + d), (x1, y0), (x1, y1), (x0, y1 - d)]
            else [(x0, y0), (x1, y0 + d), (x1, y1 - d), (x0, y1)]) style '' -- cycle'']"

definition v3_regbar :: "rat \<Rightarrow> rat \<Rightarrow> rat \<Rightarrow> rat \<Rightarrow> draw list" where
  "v3_regbar x y0 y1 w = [Raw (tx ''@fill[black] '' @ c3 (x - w / 2) y0 @ '' rectangle '' @ c3 (x + w / 2) y1 @ '';'')]"

definition v3_hbar :: "rat \<Rightarrow> rat \<Rightarrow> rat \<Rightarrow> rat \<Rightarrow> draw list" where
  "v3_hbar x0 x1 y h = [Raw (tx ''@fill[black] '' @ c3 x0 (y - h / 2) @ '' rectangle '' @ c3 x1 (y + h / 2) @ '';'')]"

definition v3_arrow :: "point list \<Rightarrow> string \<Rightarrow> string option \<Rightarrow> string \<Rightarrow> string \<Rightarrow> string \<Rightarrow> draw list" where
  "v3_arrow pts style label0 pos side lst =
     (case label0 of None \<Rightarrow> [Line pts style []]
      | Some l \<Rightarrow> [Labelled pts style (lst @ '', pos='' @ pos @ '', '' @ side) l])"

definition v3_dot :: "rat \<Rightarrow> rat \<Rightarrow> draw list" where
  "v3_dot x y = [Raw (tx ''@fill '' @ c3 x y @ '' circle (0.045);'')]"

definition v3_slash :: "rat \<Rightarrow> rat \<Rightarrow> string \<Rightarrow> bool \<Rightarrow> string \<Rightarrow> draw list" where
  "v3_slash x y label0 vertical side =
     (let (dx, dy) = (if vertical then (10 / 100, - 8 / 100) else (0, 14 / 100));
          dx = (if side = ''left'' then - dx else dx)
      in Line [(x - 7 / 100, y - 7 / 100), (x + 7 / 100, y + 7 / 100)] ''line width=0.45pt'' []
         # v3_text (x + dx) (y + dy) label0 ''wlabel''
             (if vertical \<and> side = ''right'' then ''west'' else if vertical then ''east'' else ''south''))"

definition v3_stage :: "rat \<Rightarrow> rat \<Rightarrow> rat \<Rightarrow> rat \<Rightarrow> string \<Rightarrow> draw list" where
  "v3_stage x0 y0 x1 y1 title =
     v3_rect x0 y0 x1 y1 ''stagebox'' @ v3_text ((x0 + x1) / 2) (y1 - 17 / 100) title ''stagetitle'' ''center''"

section \<open>The figure\<close>

abbreviation "TOPY0 \<equiv> 9 :: rat"
abbreviation "TOPY1 \<equiv> 1130 / 100 :: rat"

definition v3_system :: "draw list result" where
  "v3_system = draws
     [Inr (concat
        [v3_box ''ddr'' 0 (1005 / 100) (162 / 100) (1085 / 100) (tx ''@textbf{DDR4}@@SDRAM'') ''memarr'',
         v3_box ''mon'' 0 (912 / 100) (162 / 100) (98 / 10) (tx ''Power@@monitors'') ''offchip'',
         v3_rect (192 / 100) TOPY0 (812 / 100) TOPY1 ''psframe'',
         v3_text (202 / 100) (TOPY1 - (4 / 100)) (tx ''@textbf{Zynq UltraScale+ processing system}'') ''paneltitle'' ''north west'',
         v3_box ''ddrc'' (212 / 100) (1005 / 100) (372 / 100) (1072 / 100) (tx ''@textbf{DDR4}@@@textbf{controller}'') ''ctrl'',
         v3_box ''i2c'' (212 / 100) (914 / 100) (372 / 100) (958 / 100) (tx ''@textbf{I$^2$C}'') ''ctrl'',
         v3_shadow (405 / 100) (998 / 100) (585 / 100) (1078 / 100) ''ctrlbox'' 3 (5 / 100),
         v3_box ''a53'' (405 / 100) (998 / 100) (585 / 100) (1078 / 100) (tx ''@textbf{Cortex-A53}@@4 cores, 1.2~GHz'') ''ctrl'',
         v3_box ''hpm'' (622 / 100) (1032 / 100) (798 / 100) (1078 / 100) (tx ''M@_AXI@_HPM0@_FPD'') ''port'',
         v3_box ''hp0'' (622 / 100) (936 / 100) (798 / 100) (982 / 100) (tx ''S@_AXI@_HP0@_FPD'') ''port'',
         v3_arrow [(((585 / 100) + (15 / 100)), (1055 / 100)), ((622 / 100), (1055 / 100))] ''arr'' None ''0.5'' ''above'' ''elabel'',
         v3_arrow [((622 / 100), (959 / 100)), ((605 / 100), (959 / 100)), ((605 / 100), (98 / 10)), ((292 / 100), (98 / 10)), ((292 / 100),
           (1005 / 100))] ''darr'' None ''0.5'' ''above'' ''elabel'',
         v3_arrow [((212 / 100), (1045 / 100)), ((162 / 100), (1045 / 100))] ''bdarr'' None ''0.5'' ''above'' ''elabel'',
         v3_arrow [((212 / 100), (936 / 100)), ((162 / 100), (936 / 100))] ''darr'' None ''0.5'' ''above'' ''elabel'',
         v3_rect (842 / 100) TOPY0 (1282 / 100) TOPY1 ''plframe'',
         v3_text (852 / 100) (TOPY1 - (4 / 100)) (tx ''@textbf{Programmable logic}'') ''paneltitle'' ''north west'',
         v3_box ''sc'' (858 / 100) (1025 / 100) (1002 / 100) (1085 / 100) (tx ''@textbf{AXI Smart-}@@@textbf{Connect}'') ''ctrl'',
         v3_box ''simtix'' (103 / 10) (914 / 100) (1266 / 100) (1094 / 100) (tx
           ''@textbf{@large SIMTiX}@@[2pt]@texttt{simt@_ps@_top}@@100~MHz'') ''acc'',
         v3_arrow [((798 / 100), (1055 / 100)), ((858 / 100), (1055 / 100))] ''arr'' None ''0.5'' ''above'' ''elabel'',
         v3_arrow [((1002 / 100), (1055 / 100)), ((103 / 10), (1055 / 100))] ''arr'' None ''0.5'' ''above'' ''elabel'',
         v3_arrow [((103 / 10), (959 / 100)), ((798 / 100), (959 / 100))] ''bdarr'' (Some ''AXI4, 128 bit'') ''0.5'' ''below'' ''elabel''])]"

definition V3_KEY :: "(string \<times> string) list" where
  "V3_KEY =
    [(''stagebox'', ''pipeline stage''),
     (''tbl, fill=white'', ''architectural state''),
     (''exebox'', ''execution unit''),
     (''memarrbox'', ''memory array''),
     (''hlbox'', ''line-aggregated AMOs''),
     (''ctrlbox'', ''control logic'')]"

definition v3_ys :: "nat \<Rightarrow> rat" where "v3_ys i = 1108 / 100 - of_nat i * (37 / 100)"

definition v3_legend :: "draw list result" where
  "v3_legend = draws
     [Inr (concat
        [concat (map (\<lambda>(i, st, t). let y = 1108 / 100 - of_nat i * (37 / 100)
                    in v3_rect (1305 / 100) (y - 11 / 100) (1345 / 100) (y + 11 / 100) st
                       @ v3_text (1355 / 100) y t ''keytext'' ''west'') (enumerate 0 V3_KEY)),
         v3_rect (158 / 10) ((v3_ys 0) - (11 / 100)) (162 / 10) ((v3_ys 0) + (11 / 100)) ''maskbox'',
         v3_text (163 / 10) (v3_ys 0) ''status masks'' ''keytext'' ''west'',
         v3_regbar 16 ((v3_ys 1) - (12 / 100)) ((v3_ys 1) + (12 / 100)) (7 / 100),
         v3_text (163 / 10) (v3_ys 1) ''pipeline register'' ''keytext'' ''west'',
         v3_trap (1586 / 100) ((v3_ys 2) - (15 / 100)) (1614 / 100) ((v3_ys 2) + (15 / 100)) ''left'' (9 / 100) ''mux'',
         v3_text (163 / 10) (v3_ys 2) ''multiplexer'' ''keytext'' ''west'',
         v3_shadow (158 / 10) ((v3_ys 3) - (11 / 100)) (1612 / 100) ((v3_ys 3) + (11 / 100)) ''exebox'' 2 (4 / 100),
         v3_rect (158 / 10) ((v3_ys 3) - (11 / 100)) (1612 / 100) ((v3_ys 3) + (11 / 100)) ''exebox'',
         v3_text (163 / 10) (v3_ys 3) ''one copy per lane'' ''keytext'' ''west'',
         [Raw (tx ''@draw[line width=0.45pt] (15.93,'' @ f3 ((v3_ys 4) - (7 / 100)) @ '') -- (16.07,'' @ f3 ((v3_ys 4) + (7 / 100)) @ '');'')],
         v3_text (163 / 10) (v3_ys 4) ''bus width (bits)'' ''keytext'' ''west'',
         [Raw (tx ''@draw[bus] (15.80,'' @ f3 (v3_ys 5) @ '') -- (16.20,'' @ f3 (v3_ys 5) @ '');'')],
         v3_text (163 / 10) (v3_ys 5) ''line-wide bus'' ''keytext'' ''west'',
         [Raw (tx ''@draw[zoom] (10.30,9.14) -- (0.00,8.58);'')],
         [Raw (tx ''@draw[zoom] (12.66,9.14) -- (18.00,8.58);'')]])]"

definition v3_host :: "draw list result" where
  "v3_host = draws
     [Inr (concat
        [v3_rect 0 0 18 (858 / 100) ''accframe'',
         v3_text (205 / 100) (85 / 10) (tx ''@textbf{SIMTiX accelerator}'') ''paneltitle'' ''north west'',
         v3_stage (12 / 100) (12 / 100) (28 / 10) (795 / 100) ''Host interface'',
         v3_box ''axil'' (25 / 100) (698 / 100) (267 / 100) (752 / 100) (tx ''@textbf{AXI4-Lite slave}'') ''ctrl'']),
      v3_table (5 / 10) (422 / 100) (267 / 100) (678 / 100) (Some ''Command registers'') [''register''] [[(tx ''KERNEL@_PC'')],
        [''PARAM (a1)''], [''N''], [''BLOCK''], [''CTRL.GO''], [''STATUS.DONE''], [''CYCLES''], [''L1 HITS, MISSES'']] None (27 / 100)
        ''white'' False,
      Inr (concat
        [v3_box ''disp'' (5 / 10) (325 / 100) (267 / 100) (392 / 100) (tx ''@textbf{Dispatcher}@@launch, completion'') ''ctrl'',
         v3_rect (25 / 100) (3 / 10) (267 / 100) (292 / 100) ''memarr'',
         v3_text (146 / 100) (274 / 100) (tx ''@textbf{Instruction RAM}'') ''tbltitle'' ''center'']),
      v3_table (55 / 100) (5 / 10) (237 / 100) (255 / 100) None [[], ''32 bit''] [[''0'', []], [''1'', []], [(tx ''$@vdots$''), []], [''1023'',
        []]] (Some [1, (24 / 10)]) (27 / 100) ''white'' True,
      Inr (concat
        [v3_arrow [((146 / 100), (858 / 100)), ((146 / 100), (752 / 100))] ''arr'' None ''0.5'' ''above'' ''elabel'',
         v3_slash (146 / 100) (805 / 100) ''32'' True ''right'',
         v3_arrow [((158 / 100), (698 / 100)), ((158 / 100), (678 / 100))] ''arr'' None ''0.5'' ''above'' ''elabel'',
         v3_arrow [((36 / 100), (698 / 100)), ((36 / 100), (292 / 100))] ''arr'' None ''0.5'' ''above'' ''elabel'',
         v3_text (24 / 100) 5 ''kernel'' ''vlabel'' ''center'',
         v3_arrow [((158 / 100), (422 / 100)), ((158 / 100), (392 / 100))] ''arr'' None ''0.5'' ''above'' ''elabel''])]"

definition v3_fetch :: "draw list result" where
  "v3_fetch = draws
     [Inr (concat
        [v3_stage (295 / 100) (12 / 100) (64 / 10) (795 / 100) ''Fetch (F)'',
         v3_box ''spawn'' (308 / 100) (698 / 100) 6 (752 / 100) (tx ''@textbf{Spawner}: $@lceil N/L@rceil$ warps, whole blocks'') ''ctrl'']),
      v3_table (308 / 100) (548 / 100) 6 (68 / 10) (Some ''Warp table'') [''warp'', ''state'', ''base tid''] [[''0'', ''run'', ''0''], [''1'',
        ''memory'', ''8''], [''2'', ''FP'', ''16''], [''3'', ''barrier'', ''24'']] (Some [1, (14 / 10), (14 / 10)]) (27 / 100) ''white'' True,
      Inr (concat
        [v3_shadow (308 / 100) (33 / 10) (586 / 100) (478 / 100) ''tbl, fill=white'' 3 (45 / 1000)]),
      v3_table (308 / 100) (33 / 10) (586 / 100) (478 / 100) None [''PC'', ''RPC'', ''mask''] [[[], [], []], [(tx ''$@vdots$''), (tx
        ''$@vdots$''), (tx ''$@vdots$'')], [[], [], []]] None (27 / 100) ''white'' True,
      Inr (concat
        [[Raw (tx ''@node[tbltitle, align=center] at (4.47,5.10) {Reconvergence stack@@per warp, depth $L$};'')],
         concat (map (\<lambda>(i, t). let y = 278 / 100 - of_nat i * (36 / 100)
                    in v3_box (''m'' @ str_nat i) (308 / 100) (y - 15 / 100) 6 (y + 15 / 100) t ''mask'')
                    (enumerate 0 [''runnable warps'', tx ''parked warps (memory, FP, @ldots)'', ''barrier arrivals''])),
         v3_box ''sched'' (308 / 100) (118 / 100) 6 (172 / 100) (tx ''@textbf{Round-robin scheduler}'') ''ctrl'',
         v3_box ''fetch'' (308 / 100) (3 / 10) 6 (92 / 100) (tx ''@textbf{Fetch}: instruction at the@@PC of the selected warp'') ''ctrl'',
         v3_arrow [((454 / 100), (698 / 100)), ((454 / 100), (678 / 100))] ''arr'' None ''0.5'' ''above'' ''elabel'',
         v3_arrow [((454 / 100), (207 / 100)), ((454 / 100), (172 / 100))] ''arr'' None ''0.5'' ''above'' ''elabel'',
         v3_arrow [((454 / 100), (118 / 100)), ((454 / 100), (92 / 100))] ''arr'' None ''0.5'' ''above'' ''elabel'',
         v3_arrow [((267 / 100), (358 / 100)), ((2875 / 1000), (358 / 100)), ((2875 / 1000), (725 / 100)), ((308 / 100), (725 / 100))] ''arr''
           None ''0.5'' ''above'' ''elabel'',
         v3_text (275 / 100) (407 / 100) ''GO'' ''wlabel'' ''east'',
         v3_arrow [((267 / 100), (61 / 100)), ((308 / 100), (61 / 100))] ''arr'' None ''0.5'' ''above'' ''elabel'',
         v3_slash (281 / 100) (61 / 100) ''32'' False ''right''])]"

definition V3_UNITS :: "(string \<times> rat \<times> rat \<times> string \<times> bool) list" where
  "V3_UNITS =
    [(''alu'', (672 / 100), (734 / 100), tx ''@textbf{ALU}, branch,@@address'', True),
     (''mul'', (592 / 100), (647 / 100), tx ''@textbf{Integer MUL}@@(DSP)'', True),
     (''dot'', (512 / 100), (567 / 100), tx ''@textbf{INT8 dot}@@(@texttt{pdot8})'', True),
     (''fpu'', (402 / 100), (487 / 100), tx ''@textbf{FPU}@@FP32/FP16@@5-stage FMA'', True),
     (''shf'', (322 / 100), (377 / 100), tx ''@textbf{Shuffle}@@crossbar'', False),
     (''sfu'', (242 / 100), (297 / 100), tx ''@textbf{Div / sqrt}@@shared'', False)]"

definition v3_execute :: "draw list result" where
  "v3_execute = draws
     [Inr (concat
        [v3_stage (655 / 100) (12 / 100) (113 / 10) (795 / 100) ''Execute (X)'',
         v3_regbar (6475 / 1000) (36 / 100) (86 / 100) (7 / 100),
         v3_arrow [(6, (61 / 100)), ((67 / 10), (61 / 100))] ''arr'' None ''0.5'' ''above'' ''elabel'']),
      v3_table (668 / 100) (495 / 100) (828 / 100) (755 / 100) (Some (tx ''@textbf{Integer RF}'')) [[], ''t0'', (tx ''@ldots''), ''t7'']
        [[''r0'', [], [], []], [''r1'', [], [], []], [(tx ''$@vdots$''), [], [], []], [''r31'', [], [], []]] (Some [(12 / 10), 1, 1, 1]) (27 /
        100) ''white'' True,
      v3_table (668 / 100) (225 / 100) (828 / 100) (475 / 100) (Some (tx ''@textbf{FP RF}'')) [[], ''t0'', (tx ''@ldots''), ''t7''] [[''f0'',
        [], [], []], [''f1'', [], [], []], [(tx ''$@vdots$''), [], [], []], [''f31'', [], [], []]] (Some [(12 / 10), 1, 1, 1]) (27 / 100)
        ''white'' True,
      Inr (concat
        [v3_box ''dec'' (668 / 100) (3 / 10) (828 / 100) (92 / 100) (tx ''@textbf{Decoder}'') ''ctrl'',
         v3_arrow [((695 / 100), (92 / 100)), ((695 / 100), (225 / 100))] ''arr'' None ''0.5'' ''above'' ''elabel'',
         v3_text (702 / 100) (158 / 100) ''rs1, rs2, rs3'' ''wlabel'' ''west'',
         v3_trap (846 / 100) (235 / 100) (874 / 100) (74 / 10) ''left'' (9 / 10) ''mux'',
         v3_text (86 / 10) (49 / 10) ''dispatch'' ''vlabel'' ''center'',
         v3_arrow [((828 / 100), (61 / 10)), ((846 / 100), (61 / 10))] ''arr'' None ''0.5'' ''above'' ''elabel'',
         v3_arrow [((828 / 100), (345 / 100)), ((846 / 100), (345 / 100))] ''arr'' None ''0.5'' ''above'' ''elabel'',
         concat (map (\<lambda>(nm, y0, y1, t, rep).
                    (if rep then v3_shadow (894 / 100) y0 (1052 / 100) y1 ''exebox'' 2 (5 / 100) else [])
                    @ v3_box nm (894 / 100) y0 (1052 / 100) y1 t ''exe''
                    @ v3_arrow [(874 / 100, (y0 + y1) / 2), (894 / 100, (y0 + y1) / 2)] ''arr'' None ''0.5'' ''above'' ''elabel''
                    @ v3_arrow [(1052 / 100 + (if rep then 10 / 100 else 0), (y0 + y1) / 2), (1086 / 100, (y0 + y1) / 2)] ''arr'' None
                        ''0.5'' ''above'' ''elabel'') V3_UNITS),
         v3_text (108 / 10) (747 / 100) (tx ''$@times 8$'') ''wlabel'' ''center'',
         v3_trap (1086 / 100) (235 / 100) (1114 / 100) (74 / 10) ''right'' (9 / 10) ''mux'',
         v3_text 11 (49 / 10) ''results'' ''vlabel'' ''center'',
         v3_box ''arb'' (846 / 100) (3 / 10) (1114 / 100) (148 / 100) (tx
           ''@textbf{Write arbiter}@@memory write-back first;@@a displaced write re-issues'') ''ctrl'',
         v3_arrow [(11, (235 / 100)), (11, (148 / 100))] ''arr'' None ''0.5'' ''above'' ''elabel'',
         v3_arrow [((846 / 100), (12 / 10)), ((818 / 100), (12 / 10)), ((818 / 100), (225 / 100))] ''arr'' None ''0.5'' ''above'' ''elabel'',
         v3_text (833 / 100) (174 / 100) ''write back'' ''vlabel'' ''center''])]"

definition v3_memory :: "draw list result" where
  "v3_memory = draws
     [Inr (concat
        [v3_stage (1145 / 100) (12 / 100) (151 / 10) (795 / 100) ''Memory engine'']),
      v3_table (1158 / 100) (595 / 100) (1497 / 100) (755 / 100) (Some ''Contexts (one per warp)'') [''ctx'', ''addresses'', ''store data'',
        ''pending''] [[''0'', [], [], []], [''1'', [], [], []], [''2'', [], [], []], [''3'', [], [], []]] (Some [(6 / 10), (15 / 10), (15 /
        10), (11 / 10)]) (27 / 100) ''white'' True,
      Inr (concat
        [v3_arrow [((1114 / 100), (69 / 10)), ((1158 / 100), (69 / 10))] ''bus'' None ''0.5'' ''above'' ''elabel'',
         v3_slash (1136 / 100) (69 / 10) ''$64L$'' False ''right'',
         v3_box ''coal'' (1158 / 100) (505 / 100) (1497 / 100) (572 / 100) (tx ''@textbf{Coalescer}: one line@@request per cycle; 8 tags'')
           ''ctrl'',
         v3_arrow [((1327 / 100), (595 / 100)), ((1327 / 100), (572 / 100))] ''arr'' None ''0.5'' ''above'' ''elabel'',
         v3_box ''ldret'' (1158 / 100) (398 / 100) (1497 / 100) (472 / 100) (tx ''@textbf{Load return}: word extract per lane'') ''ctrl'',
         v3_rect (1158 / 100) (162 / 100) (1497 / 100) (372 / 100) ''hl'',
         v3_text (1327 / 100) (356 / 100) (tx ''@textbf{Line-aggregated AMOs}'') ''tbltitle'' ''center'']),
      v3_table (118 / 10) (298 / 100) (1475 / 100) (332 / 100) None [''w0'', ''w1'', ''w2'', ''w3'', ''w4'', ''w5'', ''w6'', ''w7''] [] None
        (27 / 100) ''white'' True,
      Inr (concat
        [v3_text (1327 / 100) (282 / 100) ''line buffer (one read per line)'' ''cell'' ''center'',
         v3_box ''rnd'' (118 / 10) (18 / 10) (131 / 10) (258 / 100) (tx ''rounds: lanes@@on distinct words'') ''exe'',
         v3_box ''aalu'' (133 / 10) (18 / 10) (1475 / 100) (258 / 100) (tx ''AMO ALU: 1 (@emph{ser})@@or $L$ (@emph{par})'') ''exe'',
         v3_box ''scr'' (1158 / 100) (3 / 10) (1497 / 100) (14 / 10) (tx
           ''@textbf{Scratchpad} (LUTRAM)@@64 words per warp + block-shared region'') ''memarr'',
         v3_arrow [((1158 / 100), (435 / 100)), ((1137 / 100), (435 / 100)), ((1137 / 100), (89 / 100)), ((1114 / 100), (89 / 100))] ''bus''
           None ''0.5'' ''above'' ''elabel'',
         v3_text (11255 / 1000) (192 / 100) ''load data'' ''vlabel'' ''center'',
         v3_arrow [((121 / 10), (755 / 100)), ((121 / 10), (822 / 100)), ((62 / 10), (822 / 100)), ((62 / 10), (278 / 100)), (6, (278 / 100))]
           ''arr'' None ''0.5'' ''above'' ''elabel'',
         v3_arrow [((103 / 10), (734 / 100)), ((103 / 10), (822 / 100))] ''line'' None ''0.5'' ''above'' ''elabel'',
         v3_dot (103 / 10) (822 / 100),
         v3_dot (62 / 10) (404 / 100),
         v3_arrow [((62 / 10), (404 / 100)), (((586 / 100) + (14 / 100)), (404 / 100))] ''arr'' None ''0.5'' ''above'' ''elabel'',
         v3_text (825 / 100) (822 / 100) (tx ''branch: retarget $@mid$ push $@mid$ pop $@mid$ @texttt{bar} $@mid$ park'') ''buslabel'' ''center'',
         v3_text (112 / 10) (822 / 100) ''resume'' ''buslabel'' ''center''])]"

definition v3_l1 :: "draw list result" where
  "v3_l1 = draws
     [Inr (concat
        [v3_stage (1525 / 100) (12 / 100) (1788 / 100) (795 / 100) ''L1 data cache, AXI4'',
         v3_box ''axi'' (1538 / 100) (662 / 100) (1752 / 100) (752 / 100) (tx ''@textbf{AXI4 master}@@INCR bursts, ID = tag@@AR, R, AW, W, B'')
           ''ctrl'',
         v3_arrow [((1645 / 100), (752 / 100)), ((1645 / 100), (858 / 100))] ''bdarr'' None ''0.5'' ''above'' ''elabel'',
         v3_slash (1645 / 100) (805 / 100) ''128'' True ''right'',
         v3_arrow [((1497 / 100), (538 / 100)), ((1552 / 100), (538 / 100))] ''bus'' None ''0.5'' ''above'' ''elabel'',
         v3_regbar (154 / 10) (512 / 100) (564 / 100) (7 / 100),
         v3_text (1547 / 100) (582 / 100) ''input reg.'' ''wlabel'' ''east'']),
      v3_table (1555 / 100) (448 / 100) (1752 / 100) (64 / 10) (Some (tx ''@textbf{Tags} (LUTRAM)'')) [''set'', ''w0'', (tx ''@ldots''),
        ''w3''] [[''0'', [], [], []], [(tx ''$@vdots$''), [], [], []], [''127'', [], [], []]] (Some [(13 / 10), 1, 1, 1]) (27 / 100) ''white''
        True,
      Inr (concat
        [v3_shadow (1555 / 100) (305 / 100) (1738 / 100) (42 / 10) ''memarrbox'' 3 (45 / 1000),
         v3_box ''data'' (1555 / 100) (305 / 100) (1738 / 100) (42 / 10) (tx ''@textbf{Data}: 4 ways@@4 KB each, block RAM'') ''memarr'']),
      v3_table (1555 / 100) (158 / 100) (1752 / 100) (28 / 10) (Some (tx ''@textbf{MSHRs}'')) [[], ''line'', ''waiting''] [[''0'', [], []],
        [''1'', [], []], [''2'', [], []], [''3'', [], []]] (Some [(6 / 10), (13 / 10), (13 / 10)]) (27 / 100) ''white'' True,
      Inr (concat
        [v3_box ''l1note'' (1538 / 100) (25 / 100) (1762 / 100) (14 / 10) (tx
           ''16~KB, 128 sets of 32~B@@write-through,@@no write-allocate,@@invalidated at GO'') ''note'',
         v3_arrow [((1752 / 100), (214 / 100)), ((1764 / 100), (214 / 100)), ((1764 / 100), ((662 / 100) + (2 / 10))), ((1752 / 100), ((662 /
           100) + (2 / 10)))] ''darr'' None ''0.5'' ''above'' ''elabel'',
         v3_text (1777 / 100) (44 / 10) ''miss, write / fill'' ''vlabelr'' ''center'',
         v3_arrow [((1555 / 100), (37 / 10)), ((1517 / 100), (37 / 10)), ((1517 / 100), (435 / 100)), ((1497 / 100), (435 / 100))] ''bus'' None
           ''0.5'' ''above'' ''elabel'',
         v3_dot (1517 / 100) (37 / 10),
         v3_arrow [((1517 / 100), (37 / 10)), ((1517 / 100), (315 / 100)), ((1475 / 100), (315 / 100))] ''arr'' None ''0.5'' ''above'' ''elabel'',
         v3_slash (1517 / 100) (386 / 100) ''$32L$'' True ''left''])]"

definition v3_body :: "draw list result" where
  "v3_body = draws [v3_system, v3_legend, v3_host, v3_fetch, v3_execute, v3_memory, v3_l1]"

definition V3_HEAD :: "string list" where
  "V3_HEAD =
    [''% generated by gen_arch_v3.py -- do not edit by hand'',
     tx ''@documentclass[10pt]{standalone}'',
     tx ''@usepackage{helvet}'',
     tx ''@renewcommand{@familydefault}{@sfdefault}'',
     tx ''@usepackage{amsmath,amssymb}'',
     tx ''@usepackage{tikz}'',
     tx ''@usetikzlibrary{arrows.meta}'',
     tx ''@definecolor{cstage}{HTML}{FFF8E1}'',
     tx ''@definecolor{cctrl}{HTML}{D6E0EC}'',
     tx ''@definecolor{cctrlb}{HTML}{3B5675}'',
     tx ''@definecolor{cexe}{HTML}{FFE699}'',
     tx ''@definecolor{cexeb}{HTML}{7F6000}'',
     tx ''@definecolor{cmask}{HTML}{D9EAD3}'',
     tx ''@definecolor{cmaskb}{HTML}{38761D}'',
     tx ''@definecolor{cmem}{HTML}{F4CCCC}'',
     tx ''@definecolor{cmemb}{HTML}{CC0000}'',
     tx ''@definecolor{chl}{HTML}{FCE4D6}'',
     tx ''@definecolor{chlb}{HTML}{C55A11}'',
     tx ''@newcommand{@fs}{@fontsize{6.4}{7.4}@selectfont}'',
     tx ''@newcommand{@fss}{@fontsize{5.8}{6.6}@selectfont}'',
     tx ''@begin{document}'',
     tx ''@begin{tikzpicture}[x=1cm, y=1cm,'',
     tx ''  base/.style={align=center, font=@fs, inner sep=1pt, line width=0.5pt},'',
     ''  ctrl/.style={base, draw=cctrlb, fill=cctrl},  ctrlbox/.style={draw=cctrlb, fill=cctrl, line width=0.5pt},'',
     ''  exe/.style={base, draw=cexeb, fill=cexe},     exebox/.style={draw=cexeb, fill=cexe, line width=0.5pt},'',
     tx ''  mask/.style={base, draw=cmaskb, fill=cmask, font=@fss}, maskbox/.style={draw=cmaskb, fill=cmask, line width=0.5pt},'',
     ''  memarr/.style={base, draw=cmemb, fill=cmem, dashed, rounded corners=2pt},'',
     ''  memarrbox/.style={draw=cmemb, fill=cmem, dashed, rounded corners=2pt, line width=0.5pt},'',
     ''  hl/.style={draw=chlb, fill=chl, line width=1.2pt, rounded corners=2pt},'',
     ''  hlbox/.style={draw=chlb, fill=chl, line width=1.2pt},'',
     ''  acc/.style={base, draw=black, fill=cctrl, line width=1.1pt, rounded corners=2pt},'',
     tx ''  port/.style={base, draw=black!70, fill=white, font=@fss@ttfamily},'',
     ''  offchip/.style={base, draw=black!70, fill=black!6, rounded corners=2pt},'',
     tx ''  note/.style={base, draw=black!40, fill=white, dashed, font=@fss},'',
     ''  tbl/.style={draw=black, line width=0.5pt}, tblline/.style={draw=black!70, line width=0.35pt},'',
     tx ''  cell/.style={font=@fss, inner sep=0.5pt}, cellh/.style={font=@fss@bfseries, inner sep=0.5pt},'',
     tx ''  tbltitle/.style={font=@fs, inner sep=0.5pt},'',
     ''  stagebox/.style={draw=black!55, dashed, fill=cstage, rounded corners=3pt, line width=0.6pt},'',
     tx ''  stagetitle/.style={font=@fs@bfseries, inner sep=0.5pt},'',
     ''  psframe/.style={draw=black!60, fill=black!5, rounded corners=4pt, line width=0.6pt},'',
     ''  plframe/.style={draw=black!60, fill=blue!5, rounded corners=4pt, line width=0.6pt},'',
     ''  accframe/.style={draw=black!75, fill=blue!3, rounded corners=4pt, line width=0.8pt},'',
     tx ''  paneltitle/.style={font=@fs, inner sep=1pt},'',
     ''  mux/.style={draw=black, fill=black!15, line width=0.6pt},'',
     tx ''  lbl/.style={font=@fs, inner sep=0.5pt},'',
     tx ''  elabel/.style={font=@fss, inner sep=1pt},'',
     tx ''  wlabel/.style={font=@fss, inner sep=0.5pt},'',
     tx ''  keytext/.style={font=@fss, inner sep=0.5pt},'',
     tx ''  buslabel/.style={font=@fss, fill=blue!3, inner sep=1pt},'',
     tx ''  vlabel/.style={font=@fss, rotate=90, inner sep=0.5pt},'',
     tx ''  vlabelr/.style={font=@fss, rotate=-90, inner sep=0.5pt},'',
     ''  zoom/.style={draw=black!45, line width=0.4pt},'',
     ''  line/.style={line width=0.55pt},'',
     ''  arr/.style={-{Latex[length=1.4mm, width=1.0mm]}, line width=0.55pt},'',
     ''  darr/.style={{Latex[length=1.4mm, width=1.0mm]}-{Latex[length=1.4mm, width=1.0mm]}, line width=0.55pt},'',
     ''  bus/.style={-{Latex[length=1.8mm, width=1.5mm]}, line width=1.1pt},'',
     ''  bdarr/.style={{Latex[length=1.8mm, width=1.5mm]}-{Latex[length=1.8mm, width=1.5mm]}, line width=1.1pt}]'']"

definition V3_FOOT :: "string list" where
  "V3_FOOT = [tx ''@end{tikzpicture}'', tx ''@end{document}'']"

definition v3_main :: "tools \<Rightarrow> string \<Rightarrow> string \<Rightarrow> xstate \<Rightarrow> xstate result" where
  "v3_main ex here out_pdf st = bindE v3_body (\<lambda>body. sketch_main ex V3_HEAD V3_FOOT body here ''simtix_arch_v3'' out_pdf st)"

section \<open>Tables\<close>

lemma edges_fold:
  assumes "t \<noteq> (0 :: rat)"
  shows "xs \<noteq> [] \<Longrightarrow> foldE (\<lambda>w xs. if t = 0 then Inl ZeroDivisionError else Inr (xs @ [last xs + d * w / t])) us xs
    = Inr (xs @ map (\<lambda>k. last xs + d * sum_list (take (Suc k) us) / t) [0..<length us])"
proof (induction us arbitrary: xs)
  case (Cons u us)
  let ?y = "last xs + d * u / t"
  have "foldE (\<lambda>w xs. if t = 0 then Inl ZeroDivisionError else Inr (xs @ [last xs + d * w / t])) (u # us) xs
      = Inr ((xs @ [?y]) @ map (\<lambda>k. ?y + d * sum_list (take (Suc k) us) / t) [0..<length us])"
    using assms Cons.IH [of "xs @ [?y]"] by simp
  moreover have "map (\<lambda>k. ?y + d * sum_list (take (Suc k) us) / t) [0..<length us]
      = map (\<lambda>k. last xs + d * sum_list (take (Suc (Suc k)) (u # us)) / t) [0..<length us]"
    by (simp only: take_Suc_Cons sum_list.Cons distrib_left add_divide_distrib add.assoc)
  ultimately show ?case
    by (simp add: upt_conv_Cons map_Suc_upt [symmetric] del: upt_Suc)
qed simp

text \<open>Where the vertical lines of a table are: at the partial sums of the widths.\<close>

lemma v3_edges_sums:
  assumes "sum_list ws \<noteq> 0"
  shows "v3_edges x0 x1 ws = Inr (map (\<lambda>k. x0 + (x1 - x0) * sum_list (take k ws) / sum_list ws) [0..<Suc (length ws)])"
proof -
  have "v3_edges x0 x1 ws = Inr ([x0] @ map (\<lambda>k. x0 + (x1 - x0) * sum_list (take (Suc k) ws) / sum_list ws) [0..<length ws])"
    unfolding v3_edges_def using edges_fold [OF assms, of "[x0]" "x1 - x0" ws] by simp
  thus ?thesis
    by (simp add: upt_conv_Cons map_Suc_upt [symmetric] del: upt_Suc)
qed

lemma v3_edges_result:
  "v3_edges x0 x1 ws = (if ws = [] then Inr [x0] else if sum_list ws = 0 then Inl ZeroDivisionError
     else Inr (map (\<lambda>k. x0 + (x1 - x0) * sum_list (take k ws) / sum_list ws) [0..<Suc (length ws)]))"
proof (cases ws)
  case (Cons w us)
  then show ?thesis
    using v3_edges_sums [of ws x0 x1] by (cases "sum_list ws = 0") (simp_all add: v3_edges_def)
qed (simp add: v3_edges_def)

lemma sum_take_less:
  assumes "\<forall>w \<in> set ws. 0 < (w :: rat)" "i < j" "j \<le> length ws"
  shows "sum_list (take i ws) < sum_list (take j ws)"
proof -
  have "take j ws = take i ws @ take (j - i) (drop i ws)"
    using assms(2) by (metis le_add_diff_inverse less_imp_le take_add)
  moreover have "0 < sum_list (take (j - i) (drop i ws))"
  proof -
    have "take (j - i) (drop i ws) = ws ! i # take (j - i - 1) (drop (Suc i) ws)"
      using assms(2,3) by (simp add: Cons_nth_drop_Suc [symmetric] take_Cons')
    moreover have "0 \<le> sum_list (take (j - i - 1) (drop (Suc i) ws))"
      by (rule sum_list_nonneg) (use assms(1) in \<open>auto dest!: in_set_takeD in_set_dropD intro: less_imp_le\<close>)
    ultimately show ?thesis
      using assms by (simp add: add_pos_nonneg)
  qed
  ultimately show ?thesis
    by simp
qed

text \<open>A row fits when none of its texts is beyond the last column.\<close>

definition row_fits :: "nat \<Rightarrow> string list \<Rightarrow> bool" where
  "row_fits n r = list_all (\<lambda>c. c = []) (drop n r)"

lemma row_fits_nth: "row_fits n r \<longleftrightarrow> (\<forall>j < length r. r ! j \<noteq> [] \<longrightarrow> j < n)"
proof
  assume *: "row_fits n r"
  show "\<forall>j < length r. r ! j \<noteq> [] \<longrightarrow> j < n"
  proof (intro allI impI, rule ccontr)
    fix j assume "j < length r" "r ! j \<noteq> []" "\<not> j < n"
    thus False
      using * by (auto simp: row_fits_def list_all_length dest!: spec [of _ "j - n"])
  qed
next
  assume *: "\<forall>j < length r. r ! j \<noteq> [] \<longrightarrow> j < n"
  have "r ! (n + i) = []" if "i < length r - n" for i
    using spec [OF *, of "n + i"] that by auto
  thus "row_fits n r"
    by (auto simp: row_fits_def list_all_length)
qed

lemma v3_drawable [drawn_simps]:
  "list_all drawable (v3_box name x0 y0 x1 y1 tt style)" "list_all drawable (v3_shadow x0 y0 x1 y1 style n d)"
  "list_all drawable (v3_rect x0 y0 x1 y1 style)" "list_all drawable (v3_text x y s style anchor)"
  "list_all drawable (v3_trap x0 y0 x1 y1 narrow d style)" "list_all drawable (v3_regbar x y0 y1 w)" "list_all drawable (v3_dot x y)"
  "list_all drawable (v3_arrow pts style label0 p side lst) \<longleftrightarrow> label0 = None \<or> 2 \<le> length pts"
  "list_all drawable (v3_slash x y s vertical side)" "list_all drawable (v3_stage x0 y0 x1 y1 title)"
  by (auto simp: list_all_iff Let_def drawn_simps v3_box_def v3_shadow_def v3_rect_def v3_text_def v3_trap_def v3_regbar_def
      v3_dot_def v3_arrow_def v3_slash_def v3_stage_def split: prod.splits option.splits)

lemma v3_cell_drawn [drawn_simps]: "drawn (v3_cell xs y st j c) \<longleftrightarrow> c = [] \<or> Suc j < length xs"
  by (simp add: v3_cell_def drawn_simps drawn_def)

lemma v3_row_fits: "list_all (\<lambda>(j, c). c = [] \<or> Suc j < length xs) (enumerate 0 r) \<longleftrightarrow> row_fits (length xs - 1) r"
  by (auto simp: row_fits_nth list_all_iff in_set_enumerate_eq less_diff_conv)

lemma v3_cells_drawn: "drawn (v3_cells xs y1 rh hdr rows) \<longleftrightarrow> list_all (row_fits (length xs - 1)) rows"
proof -
  have "drawn (v3_cells xs y1 rh hdr rows) \<longleftrightarrow> list_all (\<lambda>(i, r). row_fits (length xs - 1) r) (enumerate 0 rows)"
    unfolding v3_cells_def drawn_draws list.pred_map v3_row_fits [symmetric]
    by (simp add: list_all_iff drawn_simps case_prod_beta)
  also have "\<dots> \<longleftrightarrow> (\<forall>r \<in> snd ` set (enumerate 0 rows). row_fits (length xs - 1) r)"
    by (auto simp: list_all_iff)
  also have "snd ` set (enumerate 0 rows) = set rows"
    by (metis list.set_map map_snd_enumerate)
  finally show ?thesis
    by (simp add: list_all_iff)
qed

text \<open>When a table is drawn, from its columns and its cells.\<close>

definition table_ok :: "string list \<Rightarrow> string list list \<Rightarrow> rat list option \<Rightarrow> bool \<Rightarrow> bool" where
  "table_ok cols rows widths hdr \<longleftrightarrow>
     (let allrows = (if hdr then [cols] else []) @ rows;
          ws = (if widths = None \<or> widths = Some [] then replicate (length cols) 1 else the widths)
      in allrows \<noteq> [] \<and> (ws = [] \<or> sum_list ws \<noteq> 0) \<and> list_all (row_fits (length ws)) allrows)"

lemma drawn_after: "list_all drawable ds \<Longrightarrow> drawn (bindE m (\<lambda>cells. Inr (ds @ cells))) \<longleftrightarrow> drawn m"
  by (cases m) (auto simp: drawn_def)

lemma v3_table_drawn [drawn_simps]:
  "drawn (v3_table x0 y0 x1 top_y title cols rows widths th fill hdr) \<longleftrightarrow> table_ok cols rows widths hdr"
proof -
  define allrows where "allrows = (if hdr then [cols] else []) @ rows"
  define ws where "ws = (if widths = None \<or> widths = Some [] then replicate (length cols) 1 else the widths)"
  note defs = v3_table_def table_ok_def Let_def allrows_def [symmetric] ws_def [symmetric]
  show ?thesis
  proof (cases "allrows = [] \<or> ws \<noteq> [] \<and> sum_list ws = 0")
    case True
    then show ?thesis
      unfolding defs by (auto simp: v3_edges_result drawn_def)
  next
    case False
    then obtain xs where xs: "v3_edges x0 x1 ws = Inr xs" "length xs - 1 = length ws"
      using v3_edges_result [of x0 x1 ws] by (cases "ws = []") auto
    have "length allrows \<noteq> 0"
      using False by simp
    then show ?thesis
      unfolding defs xs(1) bindE.simps if_not_P [OF \<open>length allrows \<noteq> 0\<close>] append_assoc [symmetric]
      using False by (subst drawn_after) (auto simp: drawn_simps v3_cells_drawn xs(2) [simplified] list_all_iff [of _ "map _ _"])
  qed
qed

section \<open>The figure is drawn\<close>

lemma table_ok_Some: "ws \<noteq> [] \<Longrightarrow> table_ok cols rows (Some ws) hdr \<longleftrightarrow>
    (hdr \<or> rows \<noteq> []) \<and> sum_list ws \<noteq> 0 \<and> (hdr \<longrightarrow> row_fits (length ws) cols) \<and> list_all (row_fits (length ws)) rows"
  by (auto simp: table_ok_def)

lemma table_ok_None: "cols \<noteq> [] \<Longrightarrow> table_ok cols rows None hdr \<longleftrightarrow> (hdr \<or> rows \<noteq> []) \<and> list_all (row_fits (length cols)) rows"
  by (auto simp: table_ok_def row_fits_def sum_list_replicate)

lemma v3_system_drawn: "drawn v3_system"
  unfolding v3_system_def drawn_draws list.pred_inject drawn_Inr concat.simps list_all_append
  by (simp add: drawn_simps table_ok_Some table_ok_None row_fits_def case_prod_beta Let_def)

lemma v3_legend_drawn: "drawn v3_legend"
  unfolding v3_legend_def drawn_draws list.pred_inject drawn_Inr concat.simps list_all_append
  by (simp add: drawn_simps table_ok_Some table_ok_None row_fits_def case_prod_beta Let_def)

lemma v3_host_drawn: "drawn v3_host"
  unfolding v3_host_def drawn_draws list.pred_inject drawn_Inr concat.simps list_all_append
  by (simp add: drawn_simps table_ok_Some table_ok_None row_fits_def case_prod_beta Let_def)

lemma v3_fetch_drawn: "drawn v3_fetch"
  unfolding v3_fetch_def drawn_draws list.pred_inject drawn_Inr concat.simps list_all_append
  by (simp add: drawn_simps table_ok_Some table_ok_None row_fits_def case_prod_beta Let_def)

lemma v3_execute_drawn: "drawn v3_execute"
  unfolding v3_execute_def drawn_draws list.pred_inject drawn_Inr concat.simps list_all_append
  by (simp add: drawn_simps table_ok_Some table_ok_None row_fits_def case_prod_beta Let_def)

lemma v3_memory_drawn: "drawn v3_memory"
  unfolding v3_memory_def drawn_draws list.pred_inject drawn_Inr concat.simps list_all_append
  by (simp add: drawn_simps table_ok_Some table_ok_None row_fits_def case_prod_beta Let_def)

lemma v3_l1_drawn: "drawn v3_l1"
  unfolding v3_l1_def drawn_draws list.pred_inject drawn_Inr concat.simps list_all_append
  by (simp add: drawn_simps table_ok_Some table_ok_None row_fits_def case_prod_beta Let_def)

lemma v3_body_drawn: "drawn v3_body"
  by (simp add: v3_body_def drawn_simps v3_system_drawn v3_legend_drawn v3_host_drawn v3_fetch_drawn v3_execute_drawn v3_memory_drawn
      v3_l1_drawn)

section \<open>Properties\<close>

text \<open>The columns of a table tile its width: with positive column widths the vertical lines run strictly from the left
  edge to the right edge, one more than there are columns, and each column has its share of the width.\<close>

theorem v3_columns_tile:
  assumes "x0 < x1" "ws \<noteq> []" "\<forall>w \<in> set ws. 0 < w"
  shows "\<exists>xs. v3_edges x0 x1 ws = Inr xs \<and> length xs = Suc (length ws) \<and> hd xs = x0 \<and> last xs = x1 \<and> sorted_wrt (<) xs
     \<and> (\<forall>j < length ws. xs ! Suc j - xs ! j = (x1 - x0) * (ws ! j) / sum_list ws)"
proof -
  let ?t = "sum_list ws" and ?x = "\<lambda>k. x0 + (x1 - x0) * sum_list (take k ws) / sum_list ws"
  have pos: "0 < ?t"
    using sum_take_less [OF assms(3), of 0 "length ws"] assms(2) by simp
  let ?xs = "map ?x [0..<Suc (length ws)]"
  have at: "?xs ! k = ?x k" if "k \<le> length ws" for k
    using that by (simp del: upt_Suc)
  have "v3_edges x0 x1 ws = Inr ?xs"
    by (rule v3_edges_sums) (use pos in simp)
  moreover have "sorted_wrt (<) ?xs"
    unfolding sorted_wrt_map sorted_wrt_iff_nth_less
    using assms(1) pos sum_take_less [OF assms(3)]
    by (auto simp: divide_strict_right_mono mult_strict_left_mono simp del: upt_Suc)
  moreover have "?xs ! Suc j - ?xs ! j = (x1 - x0) * (ws ! j) / ?t" if "j < length ws" for j
    using that at [of j] at [of "Suc j"] by (simp add: take_Suc_conv_app_nth distrib_left add_divide_distrib del: upt_Suc)
  moreover have "hd ?xs = x0" "last ?xs = x1"
    using at [of 0] at [of "length ws"] pos by (simp_all add: hd_conv_nth last_conv_nth del: upt_Suc)
  moreover have "length ?xs = Suc (length ws)"
    by simp
  ultimately show ?thesis
    by blast
qed

theorem v3_columns_tile_witness:
  "\<exists>xs. v3_edges (308 / 100) 6 [1, 14 / 10, 14 / 10] = Inr xs \<and> length xs = 4 \<and> hd xs = 308 / 100 \<and> last xs = 6 \<and> sorted_wrt (<) xs"
  using v3_columns_tile [of "308 / 100" 6 "[1, 14 / 10, 14 / 10]"] by auto

text \<open>A table is drawn without an exception exactly when it has a row, its widths do not add up to nothing, and no row has
  a text beyond the last column.\<close>

theorem v3_table_total:
  "drawn (v3_table x0 y0 x1 top_y title cols rows widths th fill hdr) \<longleftrightarrow>
     (let allrows = (if hdr then [cols] else []) @ rows;
          ws = (if widths = None \<or> widths = Some [] then replicate (length cols) 1 else the widths)
      in allrows \<noteq> [] \<and> (if ws = [] then True else sum_list ws \<noteq> 0) \<and> list_all (row_fits (length ws)) allrows)"
  unfolding v3_table_drawn table_ok_def Let_def by auto

end
