(* ===== verification/AmoFig.thy ===== *)
theory AmoFig
  imports Sketch
begin

text \<open>
  The figure \<^verbatim>\<open>gen_amo_fig.py\<close> of the line-aggregated AMO unit: its datapath, and the timeline of one AMO instruction whose
  lanes go to the words 3, 3, 5, 0, 3, 5, 7 and 1 of a line. The rounds the figure writes down are compared with what a
  round is: the lanes of a round go to distinct words, and a lane waits for the earlier lanes on its word.
\<close>

section \<open>Drawing functions\<close>

definition amo_box :: "rat \<Rightarrow> rat \<Rightarrow> rat \<Rightarrow> rat \<Rightarrow> string \<Rightarrow> string \<Rightarrow> string option \<Rightarrow> draw list" where
  "amo_box x0 y0 x1 y1 text style name =
     [Block (10 / 100) [] (if name = Some [] then None else name) x0 y0 x1 y1 text style]"

definition amo_rect :: "rat \<Rightarrow> rat \<Rightarrow> rat \<Rightarrow> rat \<Rightarrow> string \<Rightarrow> draw list" where
  "amo_rect x0 y0 x1 y1 style = [Rect x0 y0 x1 y1 style]"

definition amo_text :: "rat \<Rightarrow> rat \<Rightarrow> string \<Rightarrow> string \<Rightarrow> string \<Rightarrow> draw list" where
  "amo_text x y s style anchor = [Text x y s style anchor]"

definition amo_shadow :: "rat \<Rightarrow> rat \<Rightarrow> rat \<Rightarrow> rat \<Rightarrow> string \<Rightarrow> nat \<Rightarrow> rat \<Rightarrow> draw list" where
  "amo_shadow x0 y0 x1 y1 style n d =
     concat (map (\<lambda>k. amo_rect (x0 + of_nat k * d) (y0 - of_nat k * d) (x1 + of_nat k * d) (y1 - of_nat k * d) style) (rev [1..<Suc n]))"

definition amo_arrow :: "point list \<Rightarrow> string \<Rightarrow> draw list" where
  "amo_arrow pts style = [Line pts style []]"

definition amo_dot :: "rat \<Rightarrow> rat \<Rightarrow> draw list" where
  "amo_dot x y = [Raw (tx ''@fill '' @ c3 x y @ '' circle (0.04);'')]"

text \<open>A row of equal cells; every call has labels, and a plain colour.\<close>

definition amo_cells :: "rat \<Rightarrow> rat \<Rightarrow> rat \<Rightarrow> rat \<Rightarrow> string list \<Rightarrow> string \<Rightarrow> draw list" where
  "amo_cells x0 y0 x1 y1 labels fill =
     (let cw = (x1 - x0) / of_nat (length labels)
      in concat (map (\<lambda>(i, t). amo_rect (x0 + of_nat i * cw) y0 (x0 + (of_nat i + 1) * cw) y1 (''tbl, fill='' @ fill)
           @ (if t \<noteq> [] then amo_text (x0 + (of_nat i + 5 / 10) * cw) ((y0 + y1) / 2) t ''cell'' ''center'' else []))
         (enumerate 0 labels)))"

definition amo_regbar :: "rat \<Rightarrow> rat \<Rightarrow> rat \<Rightarrow> rat \<Rightarrow> draw list" where
  "amo_regbar x0 x1 y h = [Raw (tx ''@fill[black] '' @ c3 x0 (y - h / 2) @ '' rectangle '' @ c3 x1 (y + h / 2) @ '';'')]"

section \<open>The datapath\<close>

abbreviation "PANEL_TOP \<equiv> 755 / 100 :: rat"

definition amo_context :: "draw list" where
  "amo_context = concat
     [amo_rect (- (1 / 10)) (- (5 / 100)) (112 / 10) PANEL_TOP ''panel'',
      amo_box (215 / 100) (698 / 100) (1108 / 100) (738 / 100) (tx
        ''@textbf{Request port to the L1}: held by this context from the read to the write'') ''ctrl'' None,
      amo_text (92 / 100) (658 / 100) (tx ''@textbf{Locked context}'') ''tbltitle'' ''center'',
      concat (map (\<lambda>(t, yc). amo_rect 0 (yc - 45 / 100) (185 / 100) (yc + 45 / 100) ''tbl, fill=white''
                 @ amo_text (925 / 1000) yc t ''cell'' ''center'')
                 [(''pending'', (585 / 100)), (tx ''addresses $@times L$'', (495 / 100)), (''AMO op'', (405 / 100)), (tx ''store data $@times L$'', (315 / 100))])]"

definition amo_lead :: "draw list" where
  "amo_lead = concat
     [amo_box (22 / 10) (555 / 100) (445 / 100) (625 / 100) (tx ''@textbf{Lead lane} $@ell$@@lowest pending lane'') ''ctrl'' None,
      amo_box (22 / 10) (45 / 10) (445 / 100) (525 / 100) (tx ''@textbf{Line compare} $@times L$@@$@mathrm{line}(a_i)=@mathrm{line}(a_@ell)$'')
        ''exe'' None,
      amo_cells (22 / 10) (38 / 10) (445 / 100) (414 / 100) (replicate 8 []) ''white'',
      amo_text (332 / 100) (366 / 100) ''group mask $G$'' ''cell'' ''north'',
      amo_box (22 / 10) (255 / 100) (445 / 100) (325 / 100) (tx ''@textbf{Word offset} $@times L$@@word of each lane'') ''exe'' None,
      amo_arrow [((185 / 100), (585 / 100)), ((22 / 10), (585 / 100))] ''arr'',
      amo_arrow [((185 / 100), (495 / 100)), ((22 / 10), (495 / 100))] ''arr'',
      amo_dot (203 / 100) (495 / 100),
      amo_arrow [((203 / 100), (495 / 100)), ((203 / 100), (29 / 10)), ((22 / 10), (29 / 10))] ''arr'',
      amo_arrow [((332 / 100), (555 / 100)), ((332 / 100), (525 / 100))] ''arr'',
      amo_arrow [((332 / 100), (45 / 10)), ((332 / 100), (414 / 100))] ''arr'',
      amo_arrow [((332 / 100), (625 / 100)), ((332 / 100), (698 / 100))] ''arr'',
      amo_text (34 / 10) (662 / 100) (tx ''read: line of $@ell$'') ''wlabel'' ''west'']"

definition amo_round :: "draw list" where
  "amo_round = concat
     [amo_cells (495 / 100) (585 / 100) (72 / 10) (619 / 100) (replicate 8 []) ''white'',
      amo_text (608 / 100) (633 / 100) ''remaining lanes'' ''cell'' ''south'',
      amo_box (495 / 100) (42 / 10) (72 / 10) (555 / 100) (tx ''@textbf{Round select}@@[2pt]$L(L{-}1)/2$ word@@compares'') ''exe'' None,
      amo_cells (495 / 100) (345 / 100) (72 / 10) (379 / 100) (replicate 8 []) ''white'',
      amo_text (608 / 100) (331 / 100) ''round lanes'' ''cell'' ''north'',
      amo_text (608 / 100) (292 / 100) (tx ''@emph{ser}: the lowest remaining lane'') ''cell'' ''north'',
      amo_arrow [((445 / 100), (397 / 100)), ((47 / 10), (397 / 100)), ((47 / 10), (602 / 100)), ((495 / 100), (602 / 100))] ''arr'',
      amo_text (462 / 100) (51 / 10) ''on line return'' ''vlabel'' ''center'',
      amo_arrow [((608 / 100), (585 / 100)), ((608 / 100), (555 / 100))] ''arr'',
      amo_arrow [((445 / 100), (29 / 10)), ((484 / 100), (29 / 10)), ((484 / 100), (45 / 10)), ((495 / 100), (45 / 10))] ''arr'',
      amo_arrow [((608 / 100), (42 / 10)), ((608 / 100), (379 / 100))] ''arr'',
      amo_dot (74 / 10) (362 / 100),
      amo_arrow [((72 / 10), (362 / 100)), ((74 / 10), (362 / 100)), ((74 / 10), (602 / 100)), ((72 / 10), (602 / 100))] ''arr'',
      amo_text (748 / 100) (485 / 100) ''clear'' ''vlabelr'' ''center'',
      amo_text (775 / 100) (642 / 100) (tx ''@textbf{Line buffer}'') ''tbltitle'' ''west'',
      amo_cells (775 / 100) (585 / 100) (1055 / 100) (619 / 100) (map (\<lambda>i. ''w'' @ str_nat i) [0..<8]) ''cmem'']"

definition amo_buffer :: "draw list" where
  "amo_buffer = concat
     [amo_arrow [((1005 / 100), (698 / 100)), ((1005 / 100), (619 / 100))] ''arr'',
      amo_text (1012 / 100) (658 / 100) ''line'' ''wlabel'' ''west'',
      [Raw (tx ''@draw[mux] (7.80,5.62) -- (9.15,5.62) -- (8.80,4.98) -- (8.15,4.98) -- cycle;'')],
      [Raw (tx ''@node[cell, align=center] at (8.47,5.33) {@textbf{word mux}@@$@times L$};'')],
      amo_arrow [((847 / 100), (585 / 100)), ((847 / 100), (562 / 100))] ''arr'',
      amo_arrow [((752 / 100), (515 / 100)), ((805 / 100), (515 / 100))] ''arr'',
      amo_text (755 / 100) (51 / 10) ''offset'' ''wlabel'' ''north west'',
      amo_arrow [((847 / 100), (498 / 100)), ((847 / 100), (472 / 100)), ((93 / 10), (472 / 100))] ''arr'',
      [Raw (tx ''@node[wlabel, anchor=west, align=left] at (9.32,4.72) {old words@@to the RF};'')],
      amo_box (775 / 100) (32 / 10) (92 / 10) (445 / 100) (tx ''@textbf{Data}@@@textbf{select}@@per word'') ''exe'' None,
      amo_arrow [((74 / 10), (362 / 100)), ((775 / 100), (362 / 100))] ''arr'',
      amo_shadow (945 / 100) (32 / 10) (105 / 10) (445 / 100) ''exebox'' 2 (5 / 100),
      amo_box (945 / 100) (32 / 10) (105 / 10) (445 / 100) (tx ''@textbf{AMO}@@@textbf{ALU}@@[2pt]$@times L$ @emph{par}@@$@times 1$ @emph{ser}'')
        ''exe'' None,
      amo_arrow [((92 / 10), (382 / 100)), ((945 / 100), (382 / 100))] ''arr'',
      amo_arrow [((1033 / 100), (585 / 100)), ((1033 / 100), ((445 / 100) + (1 / 10)))] ''arr'',
      amo_arrow [((106 / 10), (382 / 100)), ((108 / 10), (382 / 100)), ((108 / 10), (602 / 100)), ((1055 / 100), (602 / 100))] ''arr'',
      amo_text (1089 / 100) (495 / 100) ''new words'' ''vlabelr'' ''center'',
      amo_cells (945 / 100) (248 / 100) (105 / 10) (278 / 100) (replicate 4 []) ''csto'',
      amo_text (938 / 100) (263 / 100) ''touched words'' ''cell'' ''east'',
      amo_arrow [((997 / 100), ((32 / 10) - (1 / 10))), ((997 / 100), (278 / 100))] ''arr'',
      amo_box (945 / 100) (162 / 100) (105 / 10) (228 / 100) (tx ''@textbf{Masked}@@@textbf{write}'') ''ctrl'' None,
      amo_arrow [((997 / 100), (248 / 100)), ((997 / 100), (228 / 100))] ''arr'',
      amo_arrow [((105 / 10), (195 / 100)), ((1102 / 100), (195 / 100)), ((1102 / 100), (698 / 100))] ''arr'',
      amo_arrow [((45 / 100), (27 / 10)), ((45 / 100), (13 / 10)), ((805 / 100), (13 / 10)), ((805 / 100), (32 / 10))] ''arr'',
      amo_text (53 / 100) (138 / 100) ''store data'' ''wlabel'' ''south west'']"

definition amo_states :: "draw list" where
  "amo_states = concat
     [map (\<lambda>(x, s). Raw (tx ''@node[fsm] ('' @ s @ '') at '' @ c3 x (38 / 100) @ '' {'' @ s @ ''};''))
                 [((55 / 100), ''RD''), ((285 / 100), ''WAIT''), ((535 / 100), ''AGG''), (8, ''WR'')],
      [Raw (tx ''@draw[arr] (RD) -- node[wlabel, above] {read sent} (WAIT);'')],
      [Raw (tx ''@draw[arr] (WAIT) -- node[wlabel, above] {line returns} (AGG);'')],
      [Raw (tx ''@draw[arr] (AGG) -- node[wlabel, above] {no lane left} (WR);'')],
      [Raw (tx ''@path (AGG) edge[arr, loop above, min distance=3.5mm, in=60, out=120] (AGG);'')],
      amo_text (505 / 100) (86 / 100) ''one round per cycle'' ''wlabel'' ''east'',
      [Raw (tx ''@draw[arr] (WR.east) -- ++(0.45,0) node[wlabel, anchor=west] {next group};'')]]"

section \<open>The example\<close>

abbreviation "X_PANEL \<equiv> 1150 / 100 :: rat"
abbreviation "X_CYCLE0 \<equiv> 1285 / 100 :: rat"
abbreviation "CYCLE_W \<equiv> 30 / 100 :: rat"

definition AMO_WORD :: "nat list" where "AMO_WORD = [3, 3, 5, 0, 3, 5, 7, 1]"
definition AMO_ROUND :: "nat list" where "AMO_ROUND = [1, 2, 1, 1, 3, 2, 1, 1]"
definition AMO_SHADE :: "(nat \<times> string) list" where "AMO_SHADE = [(1, ''blue!12''), (2, ''blue!28''), (3, ''blue!45'')]"

definition shade_of :: "nat \<Rightarrow> string result" where
  "shade_of v = (case map_of AMO_SHADE v of None \<Rightarrow> Inl KeyError | Some c \<Rightarrow> Inr c)"

definition amo_mark :: "nat \<Rightarrow> rat \<Rightarrow> nat \<Rightarrow> nat \<Rightarrow> draw list result" where
  "amo_mark r y1 i v =
     (let gx0 = 1285 / 100; gw = 62 / 100
      in bindE (if r = 2 then shade_of v else Inr ''white'') (\<lambda>f.
         Inr (amo_rect (gx0 + of_nat i * gw) (y1 - 42 / 100) (gx0 + (of_nat i + 1) * gw) y1 (''tbl, fill='' @ f)
           @ amo_text (gx0 + (of_nat i + 5 / 10) * gw) (y1 - 21 / 100) (str_nat v) ''cell'' ''center'')))"

definition amo_row :: "nat \<Rightarrow> string \<Rightarrow> nat list \<Rightarrow> draw list result" where
  "amo_row r lab vals =
     (let y1 = 730 / 100 - of_nat r * (42 / 100)
      in draws (Inr (amo_text (1285 / 100 - 8 / 100) (y1 - 21 / 100) lab ''cell'' ''east'')
         # map (\<lambda>(i, v). amo_mark r y1 i v) (enumerate 0 vals)))"

definition amo_example :: "draw list result" where
  "amo_example = draws
     (Inr (amo_rect X_PANEL (- 5 / 100) 18 PANEL_TOP ''panel'')
      # map (\<lambda>(r, lab, vals). amo_row r lab vals)
          (enumerate 0 (zip [''lane'', ''word'', ''round''] [[0..<8], AMO_WORD, AMO_ROUND]))
      @ [Inr [Raw (tx ''@node[cell, anchor=west, align=left] at '' @ c3 (X_PANEL + 15 / 100) (578 / 100)
           @ tx '' {Eight lanes on one line: lanes 0, 1 and 4 share word 3,@@and lanes 2 and 5 share word 5.};'')]])"

section \<open>The timelines\<close>

definition amo_slot :: "rat \<Rightarrow> rat \<Rightarrow> string \<Rightarrow> string \<Rightarrow> draw list" where
  "amo_slot x y t style = amo_rect x y (x + CYCLE_W) (y + 36 / 100) style
     @ (if t \<noteq> [] then amo_text (x + CYCLE_W / 2) (y + 18 / 100) t ''cell'' ''center'' else [])"

definition amo_gap :: "rat \<Rightarrow> rat \<Rightarrow> nat \<Rightarrow> draw list" where
  "amo_gap x y n = [Line [(x + 4 / 100, y + 18 / 100), (x + of_nat n * CYCLE_W - 4 / 100, y + 18 / 100)] ''dashed, black!50'' []]"

text \<open>A loop that draws at \<open>x\<close> and moves \<open>x\<close> on.\<close>

fun walk :: "('a \<Rightarrow> rat \<Rightarrow> draw list result) \<Rightarrow> rat \<Rightarrow> 'a list \<Rightarrow> rat \<Rightarrow> draw list result \<times> rat" where
  "walk d w [] x = (Inr [], x)"
| "walk d w (a # as) x = (let (r, x') = walk d w as (x + w) in (draws [d a x, r], x'))"

definition amo_per_lane :: "draw list result" where
  "amo_per_lane =
     (let y = 435 / 100;
          (lanes, _) = walk (\<lambda>_ x. Inr (amo_slot x y ''R'' ''membox'' @ amo_slot (x + CYCLE_W) y ''W'' ''membox''))
            (2 * CYCLE_W + 2 / 100) [0..<8] X_CYCLE0
      in draws [Inr (amo_text (X_CYCLE0 - 8 / 100) (y + 18 / 100) ''per lane'' ''cellh'' ''east''), lanes,
           Inr (amo_text X_CYCLE0 (y - 8 / 100) ''16 requests; each read waits for its line'' ''cell'' ''north west'')])"

definition amo_ser :: "draw list result" where
  "amo_ser =
     (let y = 295 / 100; x = X_CYCLE0;
          read = amo_slot x y ''R'' ''membox''; x = x + CYCLE_W;
          wait = amo_gap x y 2; x = x + 2 * CYCLE_W;
          (applies, x) = walk (\<lambda>i x. Inr (amo_slot x y (str_nat i) ''exebox'')) CYCLE_W [0..<8] x
      in draws [Inr (amo_text (X_CYCLE0 - 8 / 100) (y + 18 / 100) (tx ''@emph{ser}'') ''cellh'' ''east'' @ read @ wait), applies,
           Inr (amo_slot x y ''W'' ''membox''
             @ amo_text X_CYCLE0 (y - 8 / 100) ''2 requests, 8 apply cycles (one lane each)'' ''cell'' ''north west'')])"

definition amo_par :: "draw list result" where
  "amo_par =
     (let y = 155 / 100; x = X_CYCLE0;
          read = amo_slot x y ''R'' ''membox''; x = x + CYCLE_W;
          wait = amo_gap x y 2; x = x + 2 * CYCLE_W;
          (rounds, x) = walk (\<lambda>r x. bindE (shade_of r) (\<lambda>f.
              Inr (amo_rect x y (x + CYCLE_W) (y + 36 / 100) (''tbl, fill='' @ f)
                @ amo_text (x + CYCLE_W / 2) (y + 18 / 100) (str_nat r) ''cell'' ''center''))) CYCLE_W [1, 2, 3] x
      in draws [Inr (amo_text (X_CYCLE0 - 8 / 100) (y + 18 / 100) (tx ''@emph{par}'') ''cellh'' ''east'' @ read @ wait), rounds,
           Inr (amo_slot x y ''W'' ''membox''
             @ amo_text X_CYCLE0 (y - 8 / 100) ''2 requests, 3 apply cycles (one round each)'' ''cell'' ''north west'')])"

definition amo_captions :: "draw list" where
  "amo_captions =
     [Raw (tx ''@draw[arr] '' @ c3 X_CYCLE0 (22 / 100) @ '' -- '' @ c3 (1785 / 100) (22 / 100)
        @ '' node[wlabel, anchor=south east] {time (not to scale)};'')]
     @ concat (map (\<lambda>(i, st, t). let xk = X_PANEL + 15 / 100 + of_nat i * (31 / 10)
         in amo_rect xk (52 / 10) (xk + 30 / 100) (544 / 100) st @ amo_text (xk + 38 / 100) (532 / 100) t ''keytext'' ''west'')
         (enumerate 0 [(''membox'', ''request (R read, W write)''), (''exebox'', ''apply one lane'')]))
     @ amo_text (555 / 100) (- 30 / 100) (tx ''(a) Datapath of the unit (@emph{par} variant)'') ''subcap'' ''north''
     @ amo_text (1472 / 100) (- 30 / 100) ''(b) One AMO instruction of the example'' ''subcap'' ''north''"

definition amo_body :: "draw list result" where
  "amo_body = draws [Inr (amo_context @ amo_lead @ amo_round @ amo_buffer @ amo_states), amo_example, amo_per_lane, amo_ser,
     amo_par, Inr amo_captions]"

definition AMO_HEAD :: "string list" where
  "AMO_HEAD =
    [''% generated by gen_amo_fig.py -- do not edit by hand'',
     tx ''@documentclass[10pt]{standalone}'',
     tx ''@usepackage{helvet}'',
     tx ''@renewcommand{@familydefault}{@sfdefault}'',
     tx ''@usepackage{amsmath,amssymb}'',
     tx ''@usepackage{tikz}'',
     tx ''@usetikzlibrary{arrows.meta}'',
     tx ''@definecolor{cctrl}{HTML}{D6E0EC}'',
     tx ''@definecolor{cctrlb}{HTML}{3B5675}'',
     tx ''@definecolor{cexe}{HTML}{FFE699}'',
     tx ''@definecolor{cexeb}{HTML}{7F6000}'',
     tx ''@definecolor{cmem}{HTML}{FBE5D6}'',
     tx ''@definecolor{cmemb}{HTML}{C55A11}'',
     tx ''@definecolor{csto}{HTML}{E2EFDA}'',
     tx ''@newcommand{@fs}{@fontsize{6.4}{7.4}@selectfont}'',
     tx ''@newcommand{@fss}{@fontsize{5.8}{6.6}@selectfont}'',
     tx ''@begin{document}'',
     tx ''@begin{tikzpicture}[x=1cm, y=1cm,'',
     tx ''  base/.style={align=center, font=@fs, inner sep=1pt, line width=0.5pt},'',
     ''  ctrl/.style={base, draw=cctrlb, fill=cctrl},'',
     ''  exe/.style={base, draw=cexeb, fill=cexe},  exebox/.style={draw=cexeb, fill=cexe, line width=0.5pt},'',
     ''  membox/.style={draw=cmemb, fill=cmem, line width=0.5pt},'',
     ''  mux/.style={draw=black, fill=black!12, line width=0.6pt},'',
     ''  tbl/.style={draw=black, line width=0.45pt},'',
     tx ''  cell/.style={font=@fss, inner sep=0.5pt}, cellh/.style={font=@fss@bfseries, inner sep=0.5pt},'',
     tx ''  tbltitle/.style={font=@fs, inner sep=0.5pt},'',
     ''  panel/.style={draw=black!40, dashed, rounded corners=3pt, fill=black!1, line width=0.5pt},'',
     tx ''  fsm/.style={draw=cctrlb, fill=cctrl, rounded corners=5pt, font=@fss@bfseries,'',
     ''              minimum width=0.85cm, minimum height=0.36cm, inner sep=1pt},'',
     tx ''  lbl/.style={font=@fs, inner sep=0.5pt},'',
     tx ''  wlabel/.style={font=@fss, inner sep=1pt},'',
     tx ''  keytext/.style={font=@fss, inner sep=0.5pt},'',
     tx ''  subcap/.style={font=@fs, inner sep=1pt},'',
     tx ''  vlabel/.style={font=@fss, rotate=90, inner sep=0.5pt},'',
     tx ''  vlabelr/.style={font=@fss, rotate=-90, inner sep=0.5pt},'',
     ''  arr/.style={-{Latex[length=1.4mm, width=1.0mm]}, line width=0.55pt}]'']"

definition AMO_FOOT :: "string list" where
  "AMO_FOOT = [tx ''@end{tikzpicture}'', tx ''@end{document}'']"

definition amo_fig_main :: "tools \<Rightarrow> string \<Rightarrow> string \<Rightarrow> xstate \<Rightarrow> xstate result" where
  "amo_fig_main ex here out_pdf st = bindE amo_body (\<lambda>body. sketch_main ex AMO_HEAD AMO_FOOT body here ''simtix_amo'' out_pdf st)"

section \<open>Lemmas\<close>

lemma drawn_walk [drawn_simps]: "(\<And>a x. a \<in> set as \<Longrightarrow> drawn (d a x)) \<Longrightarrow> drawn (fst (walk d w as x))"
proof (induction as arbitrary: x)
  case (Cons a as)
  then show ?case
    using Cons.IH [of "x + w"] by (cases "walk d w as (x + w)") (simp add: drawn_simps)
qed (simp add: drawn_simps)

lemma walk_moves: "snd (walk d w as x) = x + w * of_nat (length as)"
proof (induction as arbitrary: x)
  case (Cons a as)
  then show ?case
    using Cons.IH [of "x + w"] by (cases "walk d w as (x + w)") (simp add: distrib_left add.assoc)
qed simp

lemma amo_drawable [drawn_simps]:
  "list_all drawable (amo_box x0 y0 x1 y1 tt style name)" "list_all drawable (amo_rect x0 y0 x1 y1 style)"
  "list_all drawable (amo_text x y s style anchor)" "list_all drawable (amo_shadow x0 y0 x1 y1 style n d)"
  "list_all drawable (amo_arrow pts style)" "list_all drawable (amo_dot x y)"
  "list_all drawable (amo_cells x0 y0 x1 y1 labels fill)" "list_all drawable (amo_slot x y s style)"
  "list_all drawable (amo_gap x y n)"
  by (auto simp: list_all_iff Let_def drawn_simps amo_box_def amo_rect_def amo_text_def amo_shadow_def amo_arrow_def amo_dot_def
      amo_cells_def amo_slot_def amo_gap_def)

text \<open>The parts that do not compute anything are drawn.\<close>

lemma amo_context_drawn [drawn_simps]: "list_all drawable amo_context"
  unfolding amo_context_def concat.simps list_all_append by (simp add: drawn_simps case_prod_beta Let_def)

lemma amo_lead_drawn [drawn_simps]: "list_all drawable amo_lead"
  unfolding amo_lead_def concat.simps list_all_append by (simp add: drawn_simps case_prod_beta Let_def)

lemma amo_round_drawn [drawn_simps]: "list_all drawable amo_round"
  unfolding amo_round_def concat.simps list_all_append by (simp add: drawn_simps case_prod_beta Let_def)

lemma amo_buffer_drawn [drawn_simps]: "list_all drawable amo_buffer"
  unfolding amo_buffer_def concat.simps list_all_append by (intro conjI) (simp_all add: drawn_simps)

lemma amo_states_drawn [drawn_simps]: "list_all drawable amo_states"
  unfolding amo_states_def concat.simps list_all_append by (simp add: drawn_simps case_prod_beta Let_def)

lemma amo_captions_drawn [drawn_simps]: "list_all drawable amo_captions"
  unfolding amo_captions_def concat.simps list_all_append by (simp add: drawn_simps case_prod_beta Let_def)

lemma shade_of_round: "v \<in> set [1, 2, 3] \<Longrightarrow> \<exists>c. shade_of v = Inr c"
  by (auto simp: shade_of_def AMO_SHADE_def)

lemma drawn_bind: "\<exists>c. m = Inr c \<Longrightarrow> (\<And>c. drawn (f c)) \<Longrightarrow> drawn (bindE m f)"
  by auto

lemma amo_mark_drawn: "r = 2 \<longrightarrow> v \<in> set [1, 2, 3] \<Longrightarrow> drawn (amo_mark r y1 i v)"
  unfolding amo_mark_def Let_def using shade_of_round by (intro drawn_bind) (auto simp: drawn_simps)

lemma amo_row_drawn:
  assumes "r = 2 \<longrightarrow> set vals \<subseteq> set [1, 2, 3]"
  shows "drawn (amo_row r lab vals)"
proof -
  have "drawn (amo_mark r y1 i v)" if "(i, v) \<in> set (enumerate 0 vals)" for y1 i v
  proof (rule amo_mark_drawn)
    have "v \<in> set vals"
      using that by (auto simp: in_set_enumerate_eq)
    thus "r = 2 \<longrightarrow> v \<in> set [1, 2, 3]"
      using assms by blast
  qed
  thus ?thesis
    unfolding amo_row_def Let_def drawn_draws list.pred_inject drawn_Inr by (simp add: amo_drawable) (auto simp: list_all_iff)
qed

lemma amo_example_drawn: "drawn amo_example"
  by (simp add: amo_example_def drawn_simps enumerate_eq_zip upt_conv_Cons amo_row_drawn AMO_ROUND_def)

lemma amo_timelines_drawn: "drawn amo_per_lane" "drawn amo_ser" "drawn amo_par"
  by (simp_all add: amo_per_lane_def amo_ser_def amo_par_def Let_def drawn_simps case_prod_beta shade_of_def AMO_SHADE_def)

lemma amo_body_drawn: "drawn amo_body"
  using amo_example_drawn amo_timelines_drawn by (simp add: amo_body_def drawn_simps)

text \<open>The round of a lane: it waits for the earlier lanes on its word.\<close>

definition lane_round :: "nat list \<Rightarrow> nat \<Rightarrow> nat" where
  "lane_round words i = Suc (count_list (take i words) (words ! i))"

lemma lane_round_distinct:
  assumes "i < j" "j < length words" "words ! i = words ! j"
  shows "lane_round words i < lane_round words j"
proof -
  have "take j words = take i words @ take (j - i) (drop i words)"
    using assms(1) by (metis le_add_diff_inverse less_imp_le take_add)
  also have "take (j - i) (drop i words) = words ! i # take (j - i - 1) (drop (Suc i) words)"
    using assms(1,2) by (simp add: Cons_nth_drop_Suc [symmetric] take_Cons')
  finally have "count_list (take j words) (words ! i)
      = count_list (take i words) (words ! i) + Suc (count_list (take (j - i - 1) (drop (Suc i) words)) (words ! i))"
    by simp
  thus ?thesis
    using assms by (simp add: lane_round_def)
qed

lemma amo_rounds_right: "AMO_ROUND = map (lane_round AMO_WORD) [0..<length AMO_WORD]"
  by (simp add: AMO_ROUND_def AMO_WORD_def lane_round_def upt_conv_Cons)

end
