(* ===== verification/Builds.thy ===== *)
theory Builds
  imports Sweep
begin

text \<open>
  The builds of the board programs: the reference program of the ARM cores (\<^verbatim>\<open>sw/a53_zcu102/build_a53.py\<close>), the initialisation
  program of the board (\<^verbatim>\<open>sw/a53_zcu102/build_init.py\<close>) and the host program (\<^verbatim>\<open>sw/ps_host/build_vitis.py\<close>). The compilers are the
  tools of \<open>Xsim\<close>; the network, the hash and the interface of Vitis are parameters too. Progress lines printed before the last
  one are left out where they only repeat a name computed here.
\<close>

section \<open>The environment\<close>

record host_env =
  h_dir :: string
  h_cwd :: string
  h_nt :: bool
  h_gcc :: bool
  h_vars :: "(string \<times> string) list"

definition GCC_DIR :: string where
  "GCC_DIR = tx ''C:@toolchains@arm-gnu-14.2-aarch64-none-elf@bin''"

text \<open>Without a compiler on the path, its directory goes in front.\<close>

definition use_gcc :: "host_env \<Rightarrow> (string \<times> string) list result" where
  "use_gcc env =
     (if h_gcc env then Inr (h_vars env)
      else case map_of (h_vars env) ''PATH'' of
        None \<Rightarrow> Inl KeyError
      | Some p \<Rightarrow> Inr (AList.update ''PATH''
          ((case map_of (h_vars env) ''AARCH64_GCC_DIR'' of None \<Rightarrow> GCC_DIR | Some d \<Rightarrow> d)
             @ (if h_nt env then '';'' else '':'') @ p) (h_vars env)))"

definition is_dir :: "fs \<Rightarrow> string \<Rightarrow> bool" where
  "is_dir fs p = list_ex (\<lambda>(q, _). starts_with (p @ ''/'') q) fs"

definition arg1 :: "string list \<Rightarrow> string \<Rightarrow> string" where
  "arg1 args d = (case args of [] \<Rightarrow> d | a # _ \<Rightarrow> a)"

text \<open>Several parts of a path.\<close>

definition pjoins :: "string \<Rightarrow> string list \<Rightarrow> string" where "pjoins = foldl pjoin"

section \<open>build\_a53.py\<close>

definition HOST :: "host_env \<Rightarrow> string" where "HOST env = pjoins (h_dir env) [''..'', ''ps_host'']"

definition BSP :: "host_env \<Rightarrow> string" where
  "BSP env = pjoins (HOST env) [''ws'', ''simtix_plat'', ''export'', ''simtix_plat'', ''sw'', ''standalone_a53'']"

definition LSCRIPT :: "host_env \<Rightarrow> string" where
  "LSCRIPT env = pjoins (HOST env) [''ws'', ''ps_host'', ''src'', ''lscript.ld'']"

definition OPT_FLAGS :: "(string \<times> string list) list" where
  "OPT_FLAGS = [(''O2'', [''-O2'']), (''O3'', [''-O3'', ''-mcpu=cortex-a53''])]"

definition a53_elf :: "host_env \<Rightarrow> string \<Rightarrow> string" where
  "a53_elf env opt = pjoins (h_dir env) [''build'', ''a53_apps_'' @ opt @ ''.elf'']"

definition a53_cmd :: "host_env \<Rightarrow> string \<Rightarrow> string list \<Rightarrow> string list" where
  "a53_cmd env opt flags =
     (let inc = pjoin (BSP env) ''include''
      in [''aarch64-none-elf-gcc'', ''-DSDT'', ''-DSIMTIX_A53_ONLY'', ''-specs='' @ pjoin (BSP env) ''Xilinx.spec'',
          ''-DA53_BUILD='' @ quoted (join '' '' flags), ''-isystem'', inc, ''-I'', inc, ''-I'', HOST env, ''-Wall'', ''-Wextra'']
         @ flags @ [''-g3'', ''-U__clang__'',
          pjoin (h_dir env) ''a53_main.c'', pjoin (HOST env) ''apps.c'', pjoin (HOST env) ''power.c'',
          ''-Wl,--wrap=outbyte'', ''-Wl,-T'', ''-Wl,'' @ LSCRIPT env, ''-L'', pjoin (BSP env) ''lib'',
          ''-Wl,--start-group,-lxilstandalone'', ''-lxiltimer'', ''-lxil'', ''-lgcc'', ''-lc'', ''-Wl,--end-group'',
          ''-o'', a53_elf env opt])"

definition missing_bsp :: "host_env \<Rightarrow> fs \<Rightarrow> string option" where
  "missing_bsp env fs = find (\<lambda>p. \<not> (is_file fs p \<or> is_dir fs p)) [BSP env, LSCRIPT env]"

definition a53_main :: "tools \<Rightarrow> host_env \<Rightarrow> string list \<Rightarrow> xstate \<Rightarrow> (string \<times> xstate) result" where
  "a53_main ex env args st =
     (let opt = arg1 args ''O2''
      in case map_of OPT_FLAGS opt of
        None \<Rightarrow> Inl KeyError
      | Some flags \<Rightarrow>
          bindE (use_gcc env) (\<lambda>_.
          case missing_bsp env (xs_fs st) of
            Some p \<Rightarrow> Inl (SystemExit (''missing '' @ p @ '': build the board-host workspace first (vitis -s sw/ps_host/build_vitis.py zcu104)''))
          | None \<Rightarrow>
              bindE (run_checked ex (a53_cmd env opt flags) st) (\<lambda>st.
              bindE (run_checked ex [''aarch64-none-elf-size'', a53_elf env opt] st) (\<lambda>st.
              Inr (''wrote '' @ a53_elf env opt, st)))))"

section \<open>build\_init.py\<close>

definition init_url :: "string \<Rightarrow> string" where
  "init_url rv = ''https://raw.githubusercontent.com/u-boot/u-boot/master/board/xilinx/zynqmp/zynqmp-zcu102-'' @ rv @ ''/psu_init_gpl.c''"

definition third_party :: "host_env \<Rightarrow> string \<Rightarrow> string" where
  "third_party env rv = pjoins (h_dir env) [''third_party'', ''zcu102-'' @ rv]"

definition init_src :: "host_env \<Rightarrow> string \<Rightarrow> string" where "init_src env rv = pjoin (third_party env rv) ''psu_init_gpl.c''"

definition init_elf :: "host_env \<Rightarrow> string" where "init_elf env = pjoins (h_dir env) [''build'', ''psu_init.elf'']"

definition init_cmd :: "host_env \<Rightarrow> string \<Rightarrow> string list" where
  "init_cmd env rv =
     (let i = pjoin (h_dir env) ''init''
      in [''aarch64-none-elf-gcc'', ''-O2'', ''-mcpu=cortex-a53'', ''-mstrict-align'',
          ''-mgeneral-regs-only'', ''-ffreestanding'', ''-fno-builtin'', ''-nostdlib'',
          ''-nostartfiles'', ''-Wno-unused-variable'', ''-Wno-unused-but-set-variable'',
          ''-I'', pjoin i ''include'', ''-T'', pjoin i ''init.ld'', ''-o'', init_elf env,
          pjoin i ''crt0.S'', pjoin i ''init_main.c'', init_src env rv])"

text \<open>The source is fetched unless it is there, and its hash recorded beside it.\<close>

definition init_fetch :: "(string \<Rightarrow> string result) \<Rightarrow> host_env \<Rightarrow> string \<Rightarrow> fs \<Rightarrow> fs result" where
  "init_fetch net env rv fs =
     (if is_file fs (init_src env rv) then Inr fs
      else bindE (net (init_url rv)) (\<lambda>body. Inr (write_file (init_src env rv) body fs)))"

definition source_note :: "string \<Rightarrow> string \<Rightarrow> string" where
  "source_note url hash = url @ [CHR 0x0A] @ ''sha256 '' @ hash @ [CHR 0x0A]"

definition init_main :: "tools \<Rightarrow> (string \<Rightarrow> string result) \<Rightarrow> (string \<Rightarrow> string) \<Rightarrow> host_env \<Rightarrow> string list \<Rightarrow> xstate
    \<Rightarrow> (string list \<times> xstate) result" where
  "init_main ex net sha env args st =
     (let rv = arg1 args ''rev1.1''
      in bindE (use_gcc env) (\<lambda>_.
         bindE (init_fetch net env rv (xs_fs st)) (\<lambda>fs.
         bindE (read_file fs (init_src env rv)) (\<lambda>body.
         let fs = write_file (pjoin (third_party env rv) ''SOURCE.txt'') (source_note (init_url rv) (sha body)) fs
         in bindE (run_checked ex (init_cmd env rv) (st\<lparr>xs_fs := fs\<rparr>)) (\<lambda>st.
            bindE (run_checked ex [''aarch64-none-elf-size'', init_elf env] st) (\<lambda>st.
            Inr ([''psu_init_gpl.c ('' @ rv @ '') sha256 '' @ sha body, ''wrote '' @ init_elf env], st)))))))"

section \<open>build\_vitis.py\<close>

text \<open>The calls of the Vitis interface; what each does to the files is a parameter.\<close>

datatype vcall =
    CreateClient
  | SetWorkspace string
  | CreatePlatform string string string string string bool bool
  | BuildPlatform
  | FindPlatform string
  | CreateApp string string string
  | ImportFiles string "string list" string
  | SetAppConfig string "string list"
  | BuildApp
  | Dispose

type_synonym vitis = "(string \<Rightarrow> string option) \<Rightarrow> vcall list \<Rightarrow> vcall \<Rightarrow> (string \<times> string) list result"

definition vcall_run :: "vitis \<Rightarrow> vcall \<Rightarrow> vcall list \<times> fs \<Rightarrow> (vcall list \<times> fs) result" where
  "vcall_run vx c = (\<lambda>(done, fs).
     bindE (vx (map_of fs) done c) (\<lambda>ws. Inr (done @ [c], fold (\<lambda>(p, s). write_file p s) ws fs)))"

text \<open>\<^verbatim>\<open>os.path.abspath\<close>: the parts after joining with the working directory, without \<^verbatim>\<open>.\<close> and \<^verbatim>\<open>..\<close>.\<close>

fun norm_parts :: "string list \<Rightarrow> string list \<Rightarrow> string list" where
  "norm_parts acc [] = rev acc"
| "norm_parts acc (c # cs) =
     (if c = [] \<or> c = ''.'' then norm_parts acc cs
      else if c = ''..'' then norm_parts (drop 1 acc) cs
      else norm_parts (c # acc) cs)"

definition abspath :: "string \<Rightarrow> string \<Rightarrow> string" where
  "abspath cwd p = ''/'' @ join ''/'' (norm_parts [] (split_on (CHR ''/'') (pjoin cwd p)))"

definition board_of :: "string list \<Rightarrow> string" where
  "board_of args = (if ''zcu104'' \<in> set args then ''zcu104'' else ''zcu102'')"

definition board_sfx :: "string \<Rightarrow> string" where
  "board_sfx b = (if b = ''zcu104'' then [] else ''_'' @ b)"

definition xsa_of :: "host_env \<Rightarrow> string list \<Rightarrow> string" where
  "xsa_of env args =
     abspath (h_cwd env) (case filter (\<lambda>a. ends_with ''.xsa'' (lower a)) args of
        a # _ \<Rightarrow> a
      | [] \<Rightarrow> pjoins (h_dir env) [''..'', ''..'', ''fpga'', ''simtix_ps'' @ board_sfx (board_of args) @ ''.xsa''])"

definition workspace :: "host_env \<Rightarrow> string list \<Rightarrow> string" where
  "workspace env args = pjoin (h_dir env) (''ws'' @ board_sfx (board_of args))"

definition vitis_calls :: "host_env \<Rightarrow> string list \<Rightarrow> vcall list" where
  "vitis_calls env args =
     [CreateClient, SetWorkspace (workspace env args),
      CreatePlatform ''simtix_plat'' (xsa_of env args) ''standalone'' ''psu_cortexa53_0'' ''standalone_a53'' True False,
      BuildPlatform, FindPlatform ''simtix_plat'',
      CreateApp ''ps_host'' ''standalone_a53'' ''empty_application'',
      ImportFiles (h_dir env) [''main.c'', ''apps.c'', ''power.c'', ''power.h'', ''kernels.h''] ''src'',
      SetAppConfig ''USER_COMPILE_OPTIMIZATION_LEVEL'' [''-O2''],
      SetAppConfig ''USER_COMPILE_DEFINITIONS''
        ([''xil_printf=con_printf''] @ (if board_of args = ''zcu104'' then [''SIMTIX_BOARD_ZCU104''] else [])),
      BuildApp]"

definition vitis_main :: "vitis \<Rightarrow> host_env \<Rightarrow> string list \<Rightarrow> fs \<Rightarrow> (string list \<times> vcall list \<times> fs) result" where
  "vitis_main vx env args fs =
     (let board = board_of args; xsa = xsa_of env args; ws = workspace env args
      in bindE (use_gcc env) (\<lambda>_.
         if \<not> is_file fs xsa
         then Inl (SystemExit (''no hardware platform at '' @ xsa @ ''; run fpga/create_bd_ps.tcl -tclargs build '' @ board))
         else bindE (foldE (vcall_run vx) (vitis_calls env args) ([], rmtree ws fs)) (\<lambda>(calls, fs).
           let elf = pjoins ws [''ps_host'', ''build'', ''ps_host.elf'']
           in bindE (vcall_run vx Dispose (calls, fs)) (\<lambda>(calls, fs').
              Inr ([''board '' @ board @ '', platform '' @ xsa @ '', workspace '' @ ws,
                    ''ELF: '' @ (if is_file fs elf then elf else ''(not found -- see the build log above)'')], calls, fs')))))"

section \<open>The sources of a build\<close>

lemma fold_write_other: "p \<notin> fst ` set ws \<Longrightarrow> map_of (fold (\<lambda>(q, s). write_file q s) ws fs) p = map_of fs p"
  by (induction ws arbitrary: fs) (auto simp: image_iff)

definition leaves :: "tools \<Rightarrow> string \<Rightarrow> bool" where
  "leaves ex p \<longleftrightarrow> (\<forall>files cmds cmd cwd rc out ws. ex files cmds cmd cwd = Some (rc, out, ws) \<longrightarrow> p \<notin> fst ` set ws)"

lemma run_checked_leaves:
  assumes "run_checked ex cmd st = Inr st'" "leaves ex p"
  shows "map_of (xs_fs st') p = map_of (xs_fs st) p" "xs_cmds st' = xs_cmds st @ [cmd]"
  using assms unfolding run_checked_Inr leaves_def by (auto simp: fold_write_other)

lemma init_fetch_source:
  assumes "init_fetch net env rv fs = Inr fs'"
  shows "\<exists>body. map_of fs' (init_src env rv) = Some body \<and>
    (case map_of fs (init_src env rv) of None \<Rightarrow> net (init_url rv) = Inr body \<and> fs' = write_file (init_src env rv) body fs
     | Some b \<Rightarrow> body = b \<and> fs' = fs)"
  using assms by (auto simp: init_fetch_def is_file_def result_simps split: if_splits)

lemma note_no_source: "pjoin (third_party env rv) ''SOURCE.txt'' \<noteq> init_src env rv"
  by (auto simp: init_src_def pjoin_def starts_with_def)

text \<open>A finished run of \<^verbatim>\<open>build_init.py\<close>, step by step.\<close>

lemma init_main_steps:
  assumes "init_main ex net sha env args st = Inr (out, st')" and rv: "rv = arg1 args ''rev1.1''"
  shows "\<exists>fs body st1. init_fetch net env rv (xs_fs st) = Inr fs \<and> map_of fs (init_src env rv) = Some body
     \<and> run_checked ex (init_cmd env rv) (st\<lparr>xs_fs := write_file (pjoin (third_party env rv) ''SOURCE.txt'') (source_note (init_url rv) (sha body)) fs\<rparr>) = Inr st1
     \<and> run_checked ex [''aarch64-none-elf-size'', init_elf env] st1 = Inr st'
     \<and> out = [''psu_init_gpl.c ('' @ rv @ '') sha256 '' @ sha body, ''wrote '' @ init_elf env]"
  using assms(1) unfolding init_main_def rv [symmetric] by (auto simp: Let_def result_simps read_file_def split: option.splits)

lemma init_main_facts:
  assumes "init_main ex net sha env args st = Inr (out, st')" "leaves ex (init_src env rv)" and rv: "rv = arg1 args ''rev1.1''"
  shows "\<exists>body. map_of (xs_fs st') (init_src env rv) = Some body
     \<and> out = [''psu_init_gpl.c ('' @ rv @ '') sha256 '' @ sha body, ''wrote '' @ init_elf env]
     \<and> (case map_of (xs_fs st) (init_src env rv) of None \<Rightarrow> net (init_url rv) = Inr body | Some b \<Rightarrow> body = b)
     \<and> (\<exists>fs. map_of fs (init_src env rv) = Some body
          \<and> map_of fs (pjoin (third_party env rv) ''SOURCE.txt'') = Some (source_note (init_url rv) (sha body))
          \<and> (\<exists>st1. run_checked ex (init_cmd env rv) (st\<lparr>xs_fs := fs\<rparr>) = Inr st1))
     \<and> xs_cmds st' = xs_cmds st @ [init_cmd env rv, [''aarch64-none-elf-size'', init_elf env]]"
proof -
  obtain fs body st1 where r: "init_fetch net env rv (xs_fs st) = Inr fs" "map_of fs (init_src env rv) = Some body"
    "run_checked ex (init_cmd env rv) (st\<lparr>xs_fs := write_file (pjoin (third_party env rv) ''SOURCE.txt'') (source_note (init_url rv) (sha body)) fs\<rparr>) = Inr st1"
    "run_checked ex [''aarch64-none-elf-size'', init_elf env] st1 = Inr st'"
    "out = [''psu_init_gpl.c ('' @ rv @ '') sha256 '' @ sha body, ''wrote '' @ init_elf env]"
    using init_main_steps [OF assms(1) rv] by blast
  have "map_of (xs_fs st') (init_src env rv) = Some body"
    "xs_cmds st' = xs_cmds st @ [init_cmd env rv, [''aarch64-none-elf-size'', init_elf env]]"
    using run_checked_leaves [OF r(3) assms(2)] run_checked_leaves [OF r(4) assms(2)] r(2) note_no_source [of env rv] by simp_all
  moreover have "map_of (write_file (pjoin (third_party env rv) ''SOURCE.txt'') n fs) (init_src env rv) = Some body" for n
    using r(2) note_no_source [of env rv] by simp
  ultimately show ?thesis
    using r(2,3,5) init_fetch_source [OF r(1)]
    by (intro exI [of _ body] conjI exI [of _ "write_file (pjoin (third_party env rv) ''SOURCE.txt'') (source_note (init_url rv) (sha body)) fs"])
      (auto split: option.splits)
qed

text \<open>C17: The initialisation program is always built from the source fetched first. In a build whose tools leave the source
  alone, the last argument of the compiler is the kept source file of the revision asked for, which holds what was found there before or
  else what was fetched from the address of that revision; when the compiler starts, \<^verbatim>\<open>SOURCE.txt\<close> beside it holds this address and
  the hash of that file, which is also the hash printed; the program compiled is the one whose size is shown.
  Building again never goes to the network, whatever it would answer, and prints the same hash.\<close>

theorem init_source_pinned:
  assumes built: "init_main ex net sha env args st = Inr (out, st')" and kept: "leaves ex (init_src env (arg1 args ''rev1.1''))"
  shows "let rv = arg1 args ''rev1.1''; dir = pjoins (h_dir env) [''third_party'', ''zcu102-'' @ rv]; src = pjoin dir ''psu_init_gpl.c'';
      url = ''https://raw.githubusercontent.com/u-boot/u-boot/master/board/xilinx/zynqmp/zynqmp-zcu102-'' @ rv @ ''/psu_init_gpl.c'';
      elf = pjoins (h_dir env) [''build'', ''psu_init.elf'']
    in \<exists>body cc. map_of (xs_fs st') src = Some body
     \<and> hd out = ''psu_init_gpl.c ('' @ rv @ '') sha256 '' @ sha body
     \<and> (case map_of (xs_fs st) src of None \<Rightarrow> net url = Inr body | Some b \<Rightarrow> body = b)
     \<and> xs_cmds st' = xs_cmds st @ [cc, [''aarch64-none-elf-size'', elf]]
     \<and> (\<exists>opts. cc = ''aarch64-none-elf-gcc'' # opts @ [''-o'', elf, pjoins (h_dir env) [''init'', ''crt0.S''], pjoins (h_dir env) [''init'', ''init_main.c''], src])
     \<and> (\<exists>fs st1. run_checked ex cc (st\<lparr>xs_fs := fs\<rparr>) = Inr st1 \<and> map_of fs src = Some body
          \<and> map_of fs (pjoin dir ''SOURCE.txt'') = Some (unlines [url, ''sha256 '' @ sha body]))
     \<and> init_main ex' net' sha env args st' = init_main ex' (\<lambda>_. Inl FileNotFoundError) sha env args st'
     \<and> (\<forall>out' st''. init_main ex net' sha env args st' = Inr (out', st'') \<longrightarrow> out' = out)"
proof -
  let ?rv = "arg1 args ''rev1.1''"
  obtain body fs st1 where b: "map_of (xs_fs st') (init_src env ?rv) = Some body"
    "out = [''psu_init_gpl.c ('' @ ?rv @ '') sha256 '' @ sha body, ''wrote '' @ init_elf env]"
    "case map_of (xs_fs st) (init_src env ?rv) of None \<Rightarrow> net (init_url ?rv) = Inr body | Some b \<Rightarrow> body = b"
    and c: "xs_cmds st' = xs_cmds st @ [init_cmd env ?rv, [''aarch64-none-elf-size'', init_elf env]]"
    and f: "map_of fs (init_src env ?rv) = Some body" "run_checked ex (init_cmd env ?rv) (st\<lparr>xs_fs := fs\<rparr>) = Inr st1"
      "map_of fs (pjoin (third_party env ?rv) ''SOURCE.txt'') = Some (source_note (init_url ?rv) (sha body))"
    using init_main_facts [OF built kept refl] by blast
  have "init_fetch net' env ?rv (xs_fs st') = Inr (xs_fs st')" for net'
    using b(1) by (simp add: init_fetch_def is_file_def)
  then have again: "init_main ex' net' sha env args st' = init_main ex' (\<lambda>_. Inl FileNotFoundError) sha env args st'"
    by (simp add: init_main_def Let_def)
  have same: "\<forall>out' st''. init_main ex net' sha env args st' = Inr (out', st'') \<longrightarrow> out' = out"
    using init_main_facts [OF _ kept refl] b(1,2) by fastforce
  have cc: "\<exists>opts. init_cmd env ?rv = ''aarch64-none-elf-gcc'' # opts
      @ [''-o'', init_elf env, pjoins (h_dir env) [''init'', ''crt0.S''], pjoins (h_dir env) [''init'', ''init_main.c''], init_src env ?rv]"
    unfolding init_cmd_def Let_def pjoins_def foldl.simps by (rule exI [of _ "take 14 (tl (init_cmd env ?rv))"]) (simp add: init_cmd_def Let_def)
  have sn: "source_note url h = unlines [url, ''sha256 '' @ h]" for url h
    by (simp add: source_note_def unlines_def)
  show ?thesis
    unfolding Let_def third_party_def [symmetric] init_src_def [symmetric] init_url_def [symmetric] init_elf_def [symmetric] sn [symmetric]
    using b c cc f again same by (intro exI [of _ body] exI [of _ "init_cmd env ?rv"]) (intro conjI; (assumption | blast | simp))
qed

definition demo_host :: host_env where
  "demo_host = \<lparr>h_dir = ''/s'', h_cwd = ''/s'', h_nt = False, h_gcc = True, h_vars = []\<rparr>"

definition demo_cc :: tools where "demo_cc files cmds cmd cwd = Some (0, [], [(''/s/build/psu_init.elf'', ''elf'')])"

lemma demo_cc_leaves: "leaves demo_cc (init_src demo_host ''rev1.1'')"
proof -
  have "init_src demo_host ''rev1.1'' \<noteq> ''/s/build/psu_init.elf''"
    by code_simp
  then show ?thesis
    by (simp add: leaves_def demo_cc_def)
qed

theorem init_source_pinned_witness:
  "\<exists>out st'. init_main demo_cc (\<lambda>u. Inr ''int x;'') rev demo_host [] \<lparr>xs_fs = [], xs_cmds = []\<rparr> = Inr (out, st')
     \<and> map_of (xs_fs st') (init_src demo_host ''rev1.1'') = Some ''int x;''
     \<and> init_main demo_cc (\<lambda>u. Inr ''other'') rev demo_host [] st' = init_main demo_cc (\<lambda>u. Inl FileNotFoundError) rev demo_host [] st'"
proof -
  obtain out st' where r: "init_main demo_cc (\<lambda>u. Inr ''int x;'') rev demo_host [] \<lparr>xs_fs = [], xs_cmds = []\<rparr> = Inr (out, st')"
    by (simp add: init_main_def use_gcc_def demo_host_def init_fetch_def is_file_def read_file_def Let_def run_checked_def invoke_def demo_cc_def)
  have "leaves demo_cc (init_src demo_host (arg1 [] ''rev1.1''))"
    using demo_cc_leaves by (simp add: arg1_def)
  from init_source_pinned [OF r this, of demo_cc "\<lambda>u. Inr ''other''"] init_source_pinned [OF r this, of ex' "\<lambda>u. Inr ''other''"] r show ?thesis
    by (auto simp: arg1_def Let_def init_src_def third_party_def init_url_def)
qed

section \<open>The program of a build is its own\<close>

lemma vcalls_files:
  assumes "foldE (vcall_run vx) cs (done, fs) = Inr (done', fs')"
  shows "done' = done @ cs \<and> (map_of fs' p = map_of fs p \<or>
    (\<exists>pre c post files ws. cs = pre @ c # post \<and> vx files (done @ pre) c = Inr ws \<and> p \<in> fst ` set ws))"
  using assms
proof (induction cs arbitrary: "done" fs)
  case (Cons c cs)
  then obtain st where st: "vcall_run vx c (done, fs) = Inr st" "foldE (vcall_run vx) cs st = Inr (done', fs')"
    by (auto simp: result_simps)
  then obtain ws where ws: "vx (map_of fs) done c = Inr ws"
    "foldE (vcall_run vx) cs (done @ [c], fold (\<lambda>(p, s). write_file p s) ws fs) = Inr (done', fs')"
    by (auto simp: vcall_run_def result_simps)
  note IH = Cons.IH [OF ws(2)]
  show ?case
  proof (cases "p \<in> fst ` set ws")
    case True
    then show ?thesis
      using IH ws(1) by (intro conjI disjI2 exI [of _ "[]"] exI [of _ c] exI [of _ cs]) auto
  next
    case False
    have "map_of fs' p = map_of fs p \<or> (\<exists>pre c' post files ws'. cs = pre @ c' # post \<and> vx files (done @ [c] @ pre) c' = Inr ws' \<and> p \<in> fst ` set ws')"
      using IH by (simp add: fold_write_other [OF False])
    then consider "map_of fs' p = map_of fs p"
      | pre c' post files ws' where "cs = pre @ c' # post" "vx files (done @ [c] @ pre) c' = Inr ws'" "p \<in> fst ` set ws'"
      by blast
    then show ?thesis
    proof cases
      case 2
      then show ?thesis
        using IH by (intro conjI disjI2 exI [of _ "c # pre"] exI [of _ c'] exI [of _ post]) auto
    qed (use IH in auto)
  qed
qed auto

lemma workspace_path:
  "pjoins (workspace env args) [''ps_host'', ''build'', ''ps_host.elf''] = workspace env args @ ''/ps_host/build/ps_host.elf''"
proof -
  have "workspace env args \<noteq> []" "\<not> ends_with ''/'' (workspace env args)"
    by (auto simp: workspace_def pjoin_def board_sfx_def board_of_def ends_with_def starts_with_def)
  then show ?thesis
    by (simp add: pjoins_def pjoin_def starts_with_def ends_with_def)
qed

text \<open>C18: A host program that the build reports was written by this build: the workspace is cleared first, so the file it names
  comes from one of the calls made, and is never left over from an earlier run.\<close>

theorem vitis_elf_fresh:
  assumes built: "vitis_main vx env args fs = Inr ([l, ''ELF: '' @ elf], calls, fs')"
    and elf: "elf = pjoins (workspace env args) [''ps_host'', ''build'', ''ps_host.elf'']"
  shows "\<exists>pre c post files written. vitis_calls env args = pre @ c # post \<and> vx files pre c = Inr written \<and> elf \<in> fst ` set written"
proof -
  obtain cs fs1 where r: "foldE (vcall_run vx) (vitis_calls env args) ([], rmtree (workspace env args) fs) = Inr (cs, fs1)"
    "(if is_file fs1 elf then elf else ''(not found -- see the build log above)'') = elf"
    using built by (auto simp: vitis_main_def Let_def result_simps elf [symmetric] split: if_splits)
  have "last elf = CHR ''f''" "starts_with (workspace env args @ ''/'') elf"
    by (simp_all add: elf workspace_path starts_with_def)
  then have "elf \<noteq> ''(not found -- see the build log above)''" "map_of (rmtree (workspace env args) fs) elf = None"
    by (auto simp: map_of_rmtree)
  moreover from this have "map_of fs1 elf \<noteq> None"
    using r(2) by (auto simp: is_file_def split: if_splits)
  ultimately show ?thesis
    using vcalls_files [OF r(1), of elf] by auto
qed

definition demo_vitis :: vitis where
  "demo_vitis files calls c =
     Inr (case c of BuildApp \<Rightarrow> [(''/s/ws_zcu102/ps_host/build/ps_host.elf'', ''elf'')] | _ \<Rightarrow> [])"

theorem vitis_elf_fresh_witness:
  "\<exists>pre c post files written. vitis_calls demo_host [] = pre @ c # post \<and> demo_vitis files pre c = Inr written
     \<and> ''/s/ws_zcu102/ps_host/build/ps_host.elf'' \<in> fst ` set written"
proof -
  let ?fs = "[(''/fpga/simtix_ps_zcu102.xsa'', ''x'')] :: fs"
  let ?elf = "''/s/ws_zcu102/ps_host/build/ps_host.elf''"
  have paths: "xsa_of demo_host [] = ''/fpga/simtix_ps_zcu102.xsa''" "workspace demo_host [] = ''/s/ws_zcu102''"
    "pjoins ''/s/ws_zcu102'' [''ps_host'', ''build'', ''ps_host.elf''] = ?elf" "use_gcc demo_host = Inr []"
    "rmtree ''/s/ws_zcu102'' ?fs = ?fs"
    by code_simp+
  have "foldE (vcall_run demo_vitis) (vitis_calls demo_host []) ([], ?fs) = Inr (vitis_calls demo_host [], ?fs @ [(?elf, ''elf'')])"
    by (simp add: vitis_calls_def vcall_run_def demo_vitis_def write_file_def)
  then obtain l calls fs' where "vitis_main demo_vitis demo_host [] ?fs = Inr ([l, ''ELF: '' @ ?elf], calls, fs')"
    by (simp add: vitis_main_def Let_def paths is_file_def vcall_run_def demo_vitis_def)
  from vitis_elf_fresh [OF this] show ?thesis
    by (simp add: paths)
qed

end
