(* ===== verification/Guide.thy ===== *)
theory Guide
  imports PyFile
begin

text \<open>
  The text helpers of the learning guide, \<^verbatim>\<open>docs/build_learning_pdf.py\<close>: the escaping and the two inline marks of \<^verbatim>\<open>inl\<close>, the
  paragraphs, code blocks and tables built from them. Texts are bytes, in UTF-8. A paragraph is the markup handed to
  \<^verbatim>\<open>reportlab\<close> with the name of its style; the prose of the guide itself is not modelled.
\<close>

section \<open>Inline text\<close>

definition repl :: "char \<Rightarrow> string \<Rightarrow> string \<Rightarrow> string" where
  "repl c t s = concat (map (\<lambda>x. if x = c then t else [x]) s)"

definition esc :: "string \<Rightarrow> string" where
  "esc s = repl (CHR ''>'') ''&gt;'' (repl (CHR ''<'') ''&lt;'' (repl (CHR ''&'') ''&amp;'' s))"

text \<open>\<^verbatim>\<open>re.sub(d + "(.+?)" + d, o + r"\1" + c, s)\<close> for a fixed delimiter \<open>d\<close>: the shortest match of at least one character of a
  line, from left to right.\<close>

fun upto_mark :: "string \<Rightarrow> string \<Rightarrow> (string \<times> string) option" where
  "upto_mark d [] = None"
| "upto_mark d (c # cs) =
     (if c = CHR 0x0A then None
      else if starts_with d cs then Some ([c], drop (length d) cs)
      else case upto_mark d cs of None \<Rightarrow> None | Some (t, r) \<Rightarrow> Some (c # t, r))"

lemma upto_mark_length: "upto_mark d s = Some (t, r) \<Longrightarrow> length r < length s"
  by (induction d s arbitrary: t r rule: upto_mark.induct) (auto split: if_splits option.splits)

definition mark_at :: "string \<Rightarrow> string \<Rightarrow> (string \<times> string) option" where
  "mark_at d s = (if starts_with d s then upto_mark d (drop (length d) s) else None)"

lemma mark_at_length: "mark_at d s = Some (t, r) \<Longrightarrow> length r < length s"
  by (auto simp: mark_at_def split: if_splits dest!: upto_mark_length)

function sub_marks :: "string \<Rightarrow> string \<Rightarrow> string \<Rightarrow> string \<Rightarrow> string" where
  "sub_marks d a b [] = []"
| "sub_marks d a b (x # xs) =
     (case mark_at d (x # xs) of
        Some (t, r) \<Rightarrow> a @ t @ b @ sub_marks d a b r
      | None \<Rightarrow> x # sub_marks d a b xs)"
  by pat_completeness auto
termination
  by (relation "measure (\<lambda>(_, _, _, s). length s)") (auto dest: mark_at_length)

definition MONO_TAG :: string where
  "MONO_TAG = ''<font face='' @ [CHR 0x22] @ ''Mono'' @ [CHR 0x22] @ '' size=9.2>''"

definition inl :: "string \<Rightarrow> string" where
  "inl s = sub_marks [CHR 0x60] MONO_TAG ''</font>'' (sub_marks ''**'' ''<b>'' ''</b>'' (esc s))"

section \<open>Paragraphs, code and tables\<close>

text \<open>What goes into the story: markup with the name of its style, preformatted text, a table of cells with its style commands.\<close>

datatype style_arg = Width rat | Colour string | Where string

type_synonym style_cmd = "string \<times> (int \<times> int) \<times> (int \<times> int) \<times> style_arg list"

datatype flowable =
    Paragraph string string
  | Preformatted string string
  | TableOf (t_cells: "flowable list list") (t_widths: "rat list") (t_repeat: nat) (t_style: "style_cmd list")

definition P_text :: "string \<Rightarrow> string \<Rightarrow> flowable" where "P_text s sty = Paragraph (inl s) sty"

definition B_text :: "string \<Rightarrow> flowable" where
  "B_text s = Paragraph ([CHR 0xE2, CHR 0x80, CHR 0xA2] @ ''&nbsp;&nbsp;'' @ inl s) ''bullet''"

definition CP :: "string \<Rightarrow> string \<Rightarrow> flowable" where "CP s sty = Paragraph (inl s) sty"

definition strip_nl :: "string \<Rightarrow> string" where
  "strip_nl s = rev (dropWhile (\<lambda>c. c = CHR 0x0A) (rev (dropWhile (\<lambda>c. c = CHR 0x0A) s)))"

definition all_cells :: "int \<times> int" where "all_cells = (- 1, - 1)"

text \<open>Widths of columns are in centimetres.\<close>

definition code_block :: "string \<Rightarrow> flowable" where
  "code_block text =
     TableOf [[Preformatted (esc (strip_nl text)) ''code'']] [17] 0
       [(''BACKGROUND'', (0, 0), all_cells, [Colour ''CODEBG'']), (''BOX'', (0, 0), all_cells, [Width (6 / 10), Colour ''CODEBD'']),
        (''LEFTPADDING'', (0, 0), all_cells, [Width 8]), (''RIGHTPADDING'', (0, 0), all_cells, [Width 8]),
        (''TOPPADDING'', (0, 0), all_cells, [Width 6]), (''BOTTOMPADDING'', (0, 0), all_cells, [Width 6])]"

text \<open>A cell given as text becomes a paragraph in the font of its row; one that is a flowable already is kept.\<close>

datatype cell_in = Txt string | Made flowable

definition cell_of :: "string \<Rightarrow> cell_in \<Rightarrow> flowable" where
  "cell_of font c = (case c of Txt s \<Rightarrow> CP s font | Made f \<Rightarrow> f)"

definition table_style :: "bool \<Rightarrow> bool \<Rightarrow> nat \<Rightarrow> style_cmd list" where
  "table_style header zebra n =
     [(''GRID'', (0, 0), all_cells, [Width (5 / 10), Colour ''CODEBD'']), (''VALIGN'', (0, 0), all_cells, [Where ''TOP'']),
      (''LEFTPADDING'', (0, 0), all_cells, [Width 5]), (''RIGHTPADDING'', (0, 0), all_cells, [Width 5]),
      (''TOPPADDING'', (0, 0), all_cells, [Width 3]), (''BOTTOMPADDING'', (0, 0), all_cells, [Width 3])]
     @ (if header then
          (''BACKGROUND'', (0, 0), (- 1, 0), [Colour ''HDRBG''])
          # (if zebra then map (\<lambda>i. (''BACKGROUND'', (0, int i), (- 1, int i), [Colour ''ROWBG''])) (filter even [2..<n]) else [])
        else [])"

definition mktable :: "cell_in list list \<Rightarrow> rat list \<Rightarrow> bool \<Rightarrow> string \<Rightarrow> string \<Rightarrow> bool \<Rightarrow> flowable result" where
  "mktable rows widths header font_hdr font_cell zebra =
     (let dat = map (map (cell_of font_cell)) rows
      in if header \<and> rows = [] then Inl IndexError
         else Inr (TableOf (if header then dat[0 := map (cell_of font_hdr) (hd rows)] else dat) widths (if header then 1 else 0)
                (table_style header zebra (length rows))))"

section \<open>What the marks mean\<close>

text \<open>A text written as a sequence of plain, bold and typewriter parts; its source, its markup and its words.\<close>

datatype part = Plain string | Bold string | Mono string

fun part_text :: "part \<Rightarrow> string" where
  "part_text (Plain s) = s" | "part_text (Bold s) = s" | "part_text (Mono s) = s"

fun written :: "part \<Rightarrow> string" where
  "written (Plain s) = s" | "written (Bold s) = ''**'' @ s @ ''**''" | "written (Mono s) = [CHR 0x60] @ s @ [CHR 0x60]"

fun markup :: "part \<Rightarrow> string" where
  "markup (Plain s) = esc s" | "markup (Bold s) = ''<b>'' @ esc s @ ''</b>''" | "markup (Mono s) = MONO_TAG @ esc s @ ''</font>''"

fun part_ok :: "part \<Rightarrow> bool" where
  "part_ok (Plain s) \<longleftrightarrow> CHR ''*'' \<notin> set s \<and> CHR 0x60 \<notin> set s"
| "part_ok p \<longleftrightarrow> part_text p \<noteq> [] \<and> CHR ''*'' \<notin> set (part_text p) \<and> CHR 0x60 \<notin> set (part_text p) \<and> CHR 0x0A \<notin> set (part_text p)"

text \<open>What a reader of the markup sees: tags removed, the three entities decoded.\<close>

function rendered :: "string \<Rightarrow> string" where
  "rendered [] = []"
| "rendered (c # s) =
     (if c = CHR ''<'' then rendered (drop 1 (dropWhile (\<lambda>x. x \<noteq> CHR ''>'') s))
      else if c = CHR ''&'' \<and> starts_with ''amp;'' s then CHR ''&'' # rendered (drop 4 s)
      else if c = CHR ''&'' \<and> starts_with ''lt;'' s then CHR ''<'' # rendered (drop 3 s)
      else if c = CHR ''&'' \<and> starts_with ''gt;'' s then CHR ''>'' # rendered (drop 3 s)
      else c # rendered s)"
  by pat_completeness auto
termination
  by (relation "measure length") (auto intro!: le_less_trans [OF diff_le_self] simp: le_imp_less_Suc length_dropWhile_le)

definition ent :: "char \<Rightarrow> string" where
  "ent c = (if c = CHR ''&'' then ''&amp;'' else if c = CHR ''<'' then ''&lt;'' else if c = CHR ''>'' then ''&gt;'' else [c])"

lemma esc_chars: "esc s = concat (map ent s)"
  by (induction s) (auto simp: esc_def repl_def ent_def)

lemma esc_simps [simp]: "esc [] = []" "esc (a @ b) = esc a @ esc b"
  by (simp_all add: esc_chars)

lemma ent_mem: "c \<notin> set ''<>&ampltg;'' \<Longrightarrow> c \<in> set (ent x) \<longleftrightarrow> c = x"
  by (auto simp: ent_def)

lemma esc_empty [simp]: "esc s = [] \<longleftrightarrow> s = []"
  by (induction s) (simp_all add: esc_chars ent_def)

lemma esc_mem:
  assumes "c \<notin> set ''<>&ampltg;''"
  shows "c \<in> set (esc s) \<longleftrightarrow> c \<in> set s"
proof -
  have "c \<in> set (esc s) \<longleftrightarrow> (\<exists>x \<in> set s. c \<in> set (ent x))"
    by (simp add: esc_chars)
  then show ?thesis
    by (simp only: ent_mem [OF assms]) blast
qed

lemma rendered_esc: "rendered (esc s @ r) = s @ rendered r"
  by (induction s) (auto simp: esc_chars ent_def starts_with_def)

lemma sub_marks_skip: "h \<notin> set s \<Longrightarrow> sub_marks (h # d) a b (s @ r) = s @ sub_marks (h # d) a b r"
  by (induction s) (auto simp: mark_at_def starts_with_def)

lemma upto_mark_found: "s \<noteq> [] \<Longrightarrow> h \<notin> set s \<Longrightarrow> CHR 0x0A \<notin> set s \<Longrightarrow> upto_mark (h # d) (s @ (h # d) @ r) = Some (s, r)"
proof (induction s)
  case (Cons c s)
  then show ?case
    by (cases s) (auto simp: starts_with_def)
qed simp

lemma sub_marks_pair:
  assumes "s \<noteq> []" "h \<notin> set s" "CHR 0x0A \<notin> set s"
  shows "sub_marks (h # d) a b ((h # d) @ s @ (h # d) @ r) = a @ s @ b @ sub_marks (h # d) a b r"
proof -
  have "mark_at (h # d) ((h # d) @ s @ (h # d) @ r) = Some (s, r)"
    using upto_mark_found [OF assms, of d r] by (simp add: mark_at_def starts_with_def)
  then show ?thesis
    by simp
qed

text \<open>After the first pass: bold parts are marked up, typewriter parts still as written.\<close>

fun half :: "part \<Rightarrow> string" where
  "half (Bold s) = ''<b>'' @ esc s @ ''</b>''" | "half p = esc (written p)"

lemma first_pass:
  assumes "list_all part_ok ps"
  shows "sub_marks ''**'' ''<b>'' ''</b>'' (esc (concat (map written ps))) = concat (map half ps)"
  using assms
proof (induction ps)
  case (Cons p ps)
  have star: "esc (c # s) = c # esc s" if "c \<in> {CHR ''*'', CHR 0x60}" for c s
    using that by (auto simp: esc_chars ent_def)
  show ?case
  proof (cases p)
    case (Bold s)
    with Cons show ?thesis
      using sub_marks_pair [of "esc s" "CHR ''*''" "''*''" "''<b>''" "''</b>''" "esc (concat (map written ps))"]
      by (simp add: star esc_mem)
  next
    case (Plain s)
    with Cons show ?thesis
      using sub_marks_skip [of "CHR ''*''" "esc s" "''*''" "''<b>''" "''</b>''" "esc (concat (map written ps))"] by (simp add: esc_mem)
  next
    case (Mono s)
    with Cons show ?thesis
      using sub_marks_skip [of "CHR ''*''" "esc (written p)" "''*''" "''<b>''" "''</b>''" "esc (concat (map written ps))"]
      by (simp add: esc_mem star)
  qed
qed simp

lemma second_pass:
  assumes "list_all part_ok ps"
  shows "sub_marks [CHR 0x60] MONO_TAG ''</font>'' (concat (map half ps)) = concat (map markup ps)"
  using assms
proof (induction ps)
  case (Cons p ps)
  have tick: "esc (CHR 0x60 # s) = CHR 0x60 # esc s" for s
    by (simp add: esc_chars ent_def)
  show ?case
  proof (cases p)
    case (Mono s)
    with Cons show ?thesis
      using sub_marks_pair [of "esc s" "CHR 0x60" "[]" MONO_TAG "''</font>''" "concat (map half ps)"] by (simp add: tick esc_mem)
  next
    case (Plain s)
    with Cons show ?thesis
      using sub_marks_skip [of "CHR 0x60" "esc s" "[]" MONO_TAG "''</font>''" "concat (map half ps)"] by (simp add: esc_mem)
  next
    case (Bold s)
    with Cons show ?thesis
      using sub_marks_skip [of "CHR 0x60" "half p" "[]" MONO_TAG "''</font>''" "concat (map half ps)"] by (simp add: esc_mem)
  qed
qed simp

text \<open>C16: Inline text is escaped and marked up. A text of plain, bold and typewriter parts becomes their markup in order, and what
  the reader sees is exactly the words of the parts: every other character stands for itself, so that markup or an entity
  written in a text is printed as it is and not obeyed.\<close>

theorem inl_renders:
  assumes "list_all part_ok ps"
  shows "inl (concat (map written ps)) = concat (map markup ps) \<and> rendered (inl (concat (map written ps))) = concat (map part_text ps)"
proof -
  have m: "inl (concat (map written ps)) = concat (map markup ps)"
    using assms by (simp add: inl_def first_pass second_pass)
  have "rendered (markup p @ r) = part_text p @ rendered r" for p r
    by (cases p) (simp_all add: rendered_esc MONO_TAG_def)
  then have "rendered (concat (map markup ps)) = concat (map part_text ps)"
    by (induction ps) simp_all
  with m show ?thesis
    by simp
qed

theorem inl_renders_witness:
  "inl ''a <i>b</i> **c** &amp; `d`'' = ''a &lt;i&gt;b&lt;/i&gt; <b>c</b> &amp;amp; '' @ MONO_TAG @ ''d</font>''
     \<and> rendered (inl ''a <i>b</i> **c** &amp; `d`'') = ''a <i>b</i> c &amp; d''"
proof -
  let ?ps = "[Plain ''a <i>b</i> '', Bold ''c'', Plain '' &amp; '', Mono ''d'']"
  have w: "concat (map written ?ps) = ''a <i>b</i> **c** &amp; `d`''" and t: "concat (map part_text ?ps) = ''a <i>b</i> c &amp; d''"
    and m: "concat (map markup ?ps) = ''a &lt;i&gt;b&lt;/i&gt; <b>c</b> &amp;amp; '' @ MONO_TAG @ ''d</font>''"
    by (simp_all add: esc_chars ent_def)
  have "list_all part_ok ?ps"
    by simp
  from inl_renders [OF this] show ?thesis
    unfolding w t m .
qed

lemma mktable_shape:
  assumes "mktable rows widths header fh fc zebra = Inr t"
  shows "map length (t_cells t) = map length rows"
  using assms by (cases rows) (auto simp: mktable_def Let_def split: if_splits)

lemma mktable_bands:
  "mktable rows widths True fh fc True = Inr t \<Longrightarrow>
    (''BACKGROUND'', (0, int i), (- 1, int i), [Colour ''ROWBG'']) \<in> set (t_style t) \<longleftrightarrow> 2 \<le> i \<and> i < length rows \<and> even i"
  by (auto simp: mktable_def table_style_def Let_def split: if_splits)

end
