(* ===== verification/Spec2Isabelle.thy ===== *)
theory Spec2Isabelle
  imports GenMain Bench Kernels Mnist Publish ArchV2 ArchV3 AmoFig Builds Guide
begin

text \<open>
  A verification library for the Python code of SIMTiX, the scripts around a SIMT accelerator.

  The scripts form a chain. \<^verbatim>\<open>sim/gen_apps.py\<close> draws random inputs for every application of the accelerator, lays them out
  in an image of the DDR memory, computes the expected results bit-exactly and writes the files the testbench replays;
  \<^verbatim>\<open>sim/run_xsim.py\<close> compiles and simulates the testbenches and reads a verdict from each log; the sweeps run them under
  several configurations and keep the measured cycles in comma-separated files; the comparison and plotting scripts reduce these
  files to the numbers of the paper. The kernels are assembled into text files that the generator, the testbenches and the
  ARM host read. The figures of the documentation are drawn by scripts, two of them with a small schematic engine that checks
  its own layout. A wrong expected word, a stale verdict or a misread table makes the regression or the paper worthless: this is
  what the library models and proves.

  Theories, and the code they model.

  \<^item> \<open>Prelude\<close>: Python exceptions as values of a sum type, the combinators that pass them on,
    \<^verbatim>\<open>//\<close>, \<^verbatim>\<open>%\<close>, \<^verbatim>\<open>int.bit_length\<close>, dictionaries as association lists.
  \<^item> \<open>PyText\<close>, \<open>PyFile\<close>: \<^verbatim>\<open>str\<close>, \<^verbatim>\<open>%x\<close>, \<^verbatim>\<open>str.split\<close>, \<^verbatim>\<open>str.join\<close>, numerals, files and paths, the \<^verbatim>\<open>csv\<close> module with its
    quoting, whose reader inverts its writer. \<open>tx\<close> writes a backslash as an at-sign in text constants.
  \<^item> \<open>Fp32\<close>: \<^verbatim>\<open>f2fr\<close>, \<^verbatim>\<open>fr2f\<close>, \<^verbatim>\<open>fadd\<close>, \<^verbatim>\<open>fmul\<close>, \<^verbatim>\<open>fma\<close>. Fractions are rational numbers and bit patterns
    Python integers. The locale \<open>nearest_rounding\<close> states the contract of a rounding function
    (nearest value, even significand on a tie) and proves what follows from it alone:
    monotonicity, exactness on representable values. It is interpreted on \<^verbatim>\<open>f2fr\<close> and \<^verbatim>\<open>fr2f\<close>.
  \<^item> \<open>Rng\<close>: \<^verbatim>\<open>random.Random\<close> as the tape of draws it will return, so that a theorem about every tape
    covers every seed; \<^verbatim>\<open>randrange\<close>, \<^verbatim>\<open>randint\<close>, \<^verbatim>\<open>sample\<close>, \<^verbatim>\<open>choice\<close>, \<^verbatim>\<open>getrandbits\<close> and \<^verbatim>\<open>rand_f32\<close>.
  \<^item> \<open>Image\<close>: the classes \<^verbatim>\<open>Image\<close> and \<^verbatim>\<open>Case\<close> and \<^verbatim>\<open>place_kernels\<close>. The locale \<open>buffer_store\<close> is the
    contract of the allocator towards the applications (fresh aligned buffers, earlier words kept).
    \<open>case_ok\<close> is the invariant of a case, \<open>holds\<close> and \<open>golden\<close> say that a buffer of the image and of
    the expected words has given contents, \<open>c_launches\<close> is the launch schedule. A kernel file may be missing.
  \<^item> \<open>Gemm\<close>, \<open>Spmv\<close>, \<open>Stencil\<close>, \<open>Kmeans\<close>, \<open>Bfs\<close>, \<open>Scan\<close>, \<open>Zbtest\<close>, \<open>Mlp\<close>: one application each, with the
    function that draws the inputs, the part that depends on them, the expected words, and the
    property that these are what the application means: the matrix product, the sparse product
    equal to the dense one, Jacobi sweeps, nearest centres, shortest distances, prefix sums with the
    launch schedules \<open>scan_plan\<close> and \<open>seg_plan\<close> of all levels, the
    RISC-V bit-manipulation instructions on 32-bit words, the quantized layers.
  \<^item> \<open>CaseName\<close>: the name of a case begins with the name of its application, so the files of the cases do not collide.
    \<open>GenMain\<close>: the tables of applications and \<^verbatim>\<open>main\<close> of the generator: the files written, by their paths, the exact way it
    ends, and that the variants of an application work on the same data.
  \<^item> \<open>Xsim\<close>: \<^verbatim>\<open>sim/run_xsim.py\<close>, with the tools it calls as a parameter: the verdict of a test, that it is never read from an
    old log, the exit status, and what happens when a tool cannot be started. \<open>Sweep\<close>: \<^verbatim>\<open>amo_sweep.py\<close>, \<^verbatim>\<open>app_sweep.py\<close>, \<^verbatim>\<open>lane_sweep.py\<close>, \<^verbatim>\<open>board_sim.py\<close>; the locale
    \<open>keyed_file\<close> is the contract of the two that update a file of earlier rows, interpreted on both. \<open>Vortex\<close>:
    \<^verbatim>\<open>vortex_compare.py\<close>, whose table is tied number by number to the files it was made from, and the table of
    \<^verbatim>\<open>vortex_syn.py\<close>.
  \<^item> \<open>Kernels\<close>: \<^verbatim>\<open>kernels/apps/build.py\<close>, \<^verbatim>\<open>kernels/sync/build.py\<close>, \<^verbatim>\<open>sw/ps_host/gen_kernels.py\<close>, and that all readers see the
    words assembled. \<open>Builds\<close>: \<^verbatim>\<open>build_a53.py\<close>, \<^verbatim>\<open>build_init.py\<close>, \<^verbatim>\<open>build_vitis.py\<close>: the source of a build is pinned, the program
    reported is the one built.
  \<^item> \<open>Mnist\<close>: \<^verbatim>\<open>ml/mnist_quant.py\<close> from the data set to the store image of the block RAM, whose words are those the integer
    inference reads.
  \<^item> \<open>Plots\<close>, \<open>Ratios\<close>, \<open>Bench\<close>: the numbers behind \<^verbatim>\<open>docs/plot_*.py\<close> and \<^verbatim>\<open>ml/view_mnist.py\<close>, and the report of
    \<^verbatim>\<open>vortex_syn.py\<close>: the plots read what the sweeps and reports wrote. The locale \<open>csv_table\<close> is the contract of a table one
    script writes and another reads, interpreted on the tables of the lane sweep and of the synthesis results.
  \<^item> \<open>Geom\<close>, \<open>Figure\<close>, \<open>Layout\<close>, \<open>Emit\<close>: the schematic engine \<^verbatim>\<open>dp_engine.py\<close>: geometry and text measure; shapes, wires and
    labels, with the invariant of the figures its primitives build; \<^verbatim>\<open>verify\<close>, compaction, and what an empty list of messages
    means for wires, crossings and labels; the document. \<open>Script\<close>, \<open>Datapath\<close>, \<open>ChipTop\<close>, \<open>Publish\<close>: the two scripts that use
    it, to the LaTeX runs.
  \<^item> \<open>Sketch\<close>, \<open>ArchV2\<close>, \<open>ArchV3\<close>, \<open>AmoFig\<close>: the three architecture figures, drawn without the engine: their
    documents are always made, no arrow of the first crosses a block (the one block drawn with a node of its own included), the
    columns of a table fill it, the rounds of the AMO unit are legal.
  \<^item> \<open>Guide\<close>: the text helpers of \<^verbatim>\<open>docs/build_learning_pdf.py\<close>.

  Idealisations. Floats are rational numbers and arithmetic on them is exact, except in \<open>Fp32\<close>, which is about bits;
  printed decimals are rounded from the exact value. Distances are kept squared. Roots, geometric means, cosine and sine are
  parameters, and so are compilers, simulators, LaTeX, the network and hashes: functions from the files and the commands run so
  far to an exit code, an output and files written, or to nothing when the program cannot be started, which is
  \<^verbatim>\<open>FileNotFoundError\<close>; other reasons of the operating system not to start one, and failures to read or write a file that is
  there, are not modelled. \<^verbatim>\<open>shutil.rmtree\<close> removes a directory completely, a download is written whole or not at all. A
  failed run is its exception, without the files left behind. Threads of a sweep run one after the other, each in its own
  directory. Texts are bytes. Command lines are modelled after \<^verbatim>\<open>argparse\<close>.

  Bounds. \<^verbatim>\<open>bfs_loop\<close> carries the number of rounds left; as many rounds as vertices are enough and
  this is proved. \<^verbatim>\<open>seg_level\<close> carries the recursion depth Python allows. All other loops are structural or have a measure.

  Not modelled: the training of the network, the npz and gzip formats; the calls of matplotlib and reportlab (axes, colours,
  fonts, page furniture), the prose and the hand-made trace tables of the learning guide, \<^verbatim>\<open>docs/plot_style.py\<close>, which is a table
  of settings; progress messages that repeat computed values; and all code that is not Python: the SystemVerilog design and its
  testbenches, the kernels, the C programs of the hosts and the Tcl scripts of the tools.
\<close>

section \<open>Properties that span components\<close>

text \<open>C40: Each of the three architecture figures is written, whatever its directory and the files there: no table, label or look-up of
  its script raises, so a document is always made and laid on disk, and the script then ends as the one call of \<^verbatim>\<open>pdflatex\<close> on that
  document decides. Without \<^verbatim>\<open>pdflatex\<close> it raises \<^verbatim>\<open>FileNotFoundError\<close>, for a nonzero exit \<^verbatim>\<open>CalledProcessError\<close>; when the exit is 0
  the PDF then found beside the document is copied to the place of the figure and no other file changes, or \<^verbatim>\<open>FileNotFoundError\<close> is
  raised when there is none. That the document is valid TeX is not claimed.\<close>

theorem sketches_written:
  "(\<exists>doc. picture V2_HEAD V2_FOOT v2_body = Inr doc
      \<and> sketch_ends ex here ''simtix_arch_v2'' out_pdf doc st (v2_main ex here out_pdf st))
   \<and> (\<exists>doc. bindE v3_body (picture V3_HEAD V3_FOOT) = Inr doc
      \<and> sketch_ends ex here ''simtix_arch_v3'' out_pdf doc st (v3_main ex here out_pdf st))
   \<and> (\<exists>doc. bindE amo_body (picture AMO_HEAD AMO_FOOT) = Inr doc
      \<and> sketch_ends ex here ''simtix_amo'' out_pdf doc st (amo_fig_main ex here out_pdf st))"
proof -
  obtain b3 ba where b: "v3_body = Inr b3" "list_all drawable b3" "amo_body = Inr ba" "list_all drawable ba"
    using v3_body_drawn amo_body_drawn by (auto simp: drawn_def split: sum.splits)
  show ?thesis
    using picture_total [OF v2_body_drawn] picture_total [OF b(2)] picture_total [OF b(4)] sketch_main_outcome
    unfolding v2_main_def v3_main_def amo_fig_main_def b(1,3) bindE.simps by blast
qed

theorem sketches_written_witness:
  "let ex = (\<lambda>files cmds cmd cwd. Some (0, [], [(pjoin cwd (take (length (cmd ! 2) - 4) (cmd ! 2) @ ''.pdf''),
       case files (pjoin cwd (cmd ! 2)) of None \<Rightarrow> [] | Some doc \<Rightarrow> ''%PDF'' @ doc)]))
   in \<exists>doc st'. bindE v3_body (picture V3_HEAD V3_FOOT) = Inr doc
      \<and> v3_main ex ''figs/arch'' ''figs/simtix_arch_v3.pdf'' \<lparr>xs_fs = [], xs_cmds = []\<rparr> = Inr st'
      \<and> map_of (xs_fs st') ''figs/simtix_arch_v3.pdf'' = Some (''%PDF'' @ doc)"
proof -
  let ?ex = "(\<lambda>files cmds cmd cwd. Some (0, [], [(pjoin cwd (take (length (cmd ! 2) - 4) (cmd ! 2) @ ''.pdf''),
       case files (pjoin cwd (cmd ! 2)) of None \<Rightarrow> [] | Some doc \<Rightarrow> ''%PDF'' @ doc)])) :: tools"
  from sketches_written [of ?ex "''figs/arch''" "''figs/simtix_arch_v3.pdf''" "\<lparr>xs_fs = [], xs_cmds = []\<rparr>"]
  obtain doc where "bindE v3_body (picture V3_HEAD V3_FOOT) = Inr doc"
    "sketch_ends ?ex ''figs/arch'' ''simtix_arch_v3'' ''figs/simtix_arch_v3.pdf'' doc \<lparr>xs_fs = [], xs_cmds = []\<rparr>
       (v3_main ?ex ''figs/arch'' ''figs/simtix_arch_v3.pdf'' \<lparr>xs_fs = [], xs_cmds = []\<rparr>)" by blast
  then show ?thesis unfolding Let_def
    by (auto simp: sketch_ends_def pdflatex_on_def files_after_def)
qed

end
